(* ===== verification/Prelude.thy ===== *)
theory Prelude
  imports Main "HOL-Library.Word"
begin

text \<open>
  Shared vocabulary of the development: the machine integers the C++ code uses, the
  collections of simplification rules the component theories add to, and the generic facts on
  lists and words that more than one component needs.

  \<open>uint8_t\<close>, \<open>uint16_t\<close>, \<open>uint32_t\<close> and \<open>uint64_t\<close> are words of that width; \<open>int16_t\<close> values
  that the code only stores are words too, read with \<open>sint\<close>. \<open>size_t\<close> values that index or
  count elements of a container are \<open>nat\<close>. Bytes in memory are lists of \<open>u8\<close>.
\<close>

type_synonym u8 = "8 word"
type_synonym u16 = "16 word"
type_synonym u32 = "32 word"
type_synonym u64 = "64 word"

text \<open>
  Rule collections: \<open>bytes\<close> for splitting and joining machine integers, \<open>layout\<close> for the
  field accessors of the packed blocks.
\<close>

named_theorems bytes "joining and splitting machine integers"
named_theorems layout "reading and writing fields of packed blocks"

section \<open>Joining and splitting sixteen-bit values\<close>

unbundle bit_operations_syntax

text \<open>
  The three byte-order routines of the code (\<open>byte_packing.hpp\<close>, \<open>get_2\<close>/\<open>put_2\<close> of
  nanoMODBUS, \<open>parseBigEndian2\<close> of the tactile sensor) are all built from these two shapes:
  the high byte shifted up and or-ed with the low one, and the shifted or truncated value.
\<close>

abbreviation join16 :: "u8 \<Rightarrow> u8 \<Rightarrow> u16" where
  "join16 hi lo \<equiv> push_bit 8 (ucast hi) OR ucast lo"

abbreviation high8 :: "u16 \<Rightarrow> u8" where
  "high8 w \<equiv> ucast (drop_bit 8 w)"

abbreviation low8 :: "u16 \<Rightarrow> u8" where
  "low8 w \<equiv> ucast w"

lemma high8_join16 [simp, bytes]: "high8 (join16 hi lo) = hi"
  by (rule bit_word_eqI) (auto simp: bit_simps dest: bit_imp_le_length)

lemma high8_join16' [simp]:
  "(ucast (drop_bit 8 (push_bit 8 (ucast hi :: u16)) OR drop_bit 8 (ucast (lo :: u8))) :: u8) = hi"
  using high8_join16 [of hi lo] by (simp del: high8_join16)

lemma low8_join16 [simp, bytes]: "low8 (join16 hi lo) = lo"
  by (rule bit_word_eqI) (auto simp: bit_simps)

lemma join16_split [simp, bytes]: "join16 (high8 w) (low8 w) = w"
  by (rule bit_word_eqI) (auto simp: bit_simps not_less)

lemma join16_inject [simp]: "join16 a b = join16 c d \<longleftrightarrow> a = c \<and> b = d"
  by (metis high8_join16 low8_join16)

lemma low8_mask [simp, bytes]: "(ucast (w AND 255) :: u8) = low8 (w :: u16)"
proof -
  have "w AND 255 = take_bit 8 w" by (simp add: take_bit_eq_mask mask_eq_exp_minus_1)
  then show ?thesis
    by (intro bit_word_eqI) (auto simp: bit_simps)
qed

lemma unat_u8_bound: "unat (x :: u8) < 256"
proof -
  have "unat x < 2 ^ LENGTH(8)" by (rule unsigned_less)
  then show ?thesis by simp
qed

lemma unat_u16_bound: "unat (x :: u16) < 65536"
proof -
  have "unat x < 2 ^ LENGTH(16)" by (rule unsigned_less)
  then show ?thesis by simp
qed

lemma unat_ucast_16_32 [simp, bytes]: "unat (ucast (w :: u16) :: u32) = unat w"
  using unat_u16_bound [of w] by (simp add: unsigned_ucast_eq take_bit_nat_eq_self)

lemma unat_ucast_8_16 [simp, bytes]: "unat (ucast (w :: u8) :: u16) = unat w"
  using unat_u8_bound [of w] by (simp add: unsigned_ucast_eq take_bit_nat_eq_self)

lemma unat_ucast_32_16 [bytes]: "unat (ucast (w :: u32) :: u16) = unat w mod 65536"
  by (simp add: unsigned_ucast_eq take_bit_eq_mod)

lemma unat_word_of_nat_u16: "n < 65536 \<Longrightarrow> unat (word_of_nat n :: u16) = n"
  by (simp add: unsigned_of_nat take_bit_nat_eq_self)

lemma unat_word_of_nat_u8: "n < 256 \<Longrightarrow> unat (word_of_nat n :: u8) = n"
  by (simp add: unsigned_of_nat take_bit_nat_eq_self)

lemma uint_double_iff: "uint (a :: u8) = uint (b :: u16) * 2 \<longleftrightarrow> unat a = 2 * unat b"
proof -
  have "uint a = int (unat a)" "uint b = int (unat b)" by simp_all
  then show ?thesis by linarith
qed

lemma low8_double:
  assumes "unat (q :: u16) \<le> 127"
  shows "low8 (q * 2) = word_of_nat (2 * unat q)"
proof -
  have "unat (q * 2) = 2 * unat q" using assms by (simp add: unat_word_ariths)
  moreover have "unat (low8 (q * 2)) = unat (q * 2) mod 256" by (simp add: unsigned_ucast_eq take_bit_eq_mod)
  ultimately have "unat (low8 (q * 2)) = 2 * unat q" using assms by simp
  then show ?thesis by (metis of_nat_unat ucast_id)
qed

section \<open>Lists\<close>

lemma nth_slice: "i < n \<Longrightarrow> i + k < length xs \<Longrightarrow> take n (drop k xs) ! i = xs ! (k + i)"
  by (simp add: add.commute)

lemma take_eq_nth:
  "take n xs = take n ys \<Longrightarrow> i < n \<Longrightarrow> i < length xs \<Longrightarrow> i < length ys \<Longrightarrow> xs ! i = ys ! i"
  by (metis nth_take)

lemma map_nth_upt: "n \<le> length xs \<Longrightarrow> map (\<lambda>i. xs ! i) [0..<n] = take n xs"
  by (rule nth_equalityI) auto

section \<open>Decimal text\<close>

text \<open>\<open>std::to_string\<close> of an unsigned value, and \<open>%zu\<close>.\<close>

fun decimal :: "nat \<Rightarrow> string" where
  "decimal n = (if n < 10 then [char_of (48 + n)] else decimal (n div 10) @ [char_of (48 + n mod 10)])"

declare decimal.simps [simp del]

text \<open>With zeros in front, to a width.\<close>

definition padded :: "nat \<Rightarrow> nat \<Rightarrow> string" where
  "padded k n = (let s = decimal n in replicate (k - length s) CHR ''0'' @ s)"

section \<open>Text with separators\<close>

fun split_on :: "char \<Rightarrow> string \<Rightarrow> string list" where
  "split_on sep '''' = ['''']"
| "split_on sep (c # cs) = (if c = sep then '''' # split_on sep cs
     else case split_on sep cs of w # ws \<Rightarrow> (c # w) # ws | [] \<Rightarrow> [[c]])"

lemma split_on_append: "split_on sep (a @ sep # b) = split_on sep a @ split_on sep b"
proof (induction a)
  case (Cons c a)
  moreover have "split_on sep a \<noteq> []" for a by (induction a) (auto split: list.splits)
  ultimately show ?case by (auto split: list.splits simp: Cons_eq_append_conv)
qed simp

lemma split_on_one: "sep \<notin> set w \<Longrightarrow> split_on sep w = [w]"
  by (induction w) auto

text \<open>Decimal text has digits only, and can be read back.\<close>

definition number_read :: "string \<Rightarrow> nat" where
  "number_read v = foldl (\<lambda>n c. 10 * n + (of_char c - 48)) 0 v"

lemma decimal_digits: "c \<in> set (decimal n) \<Longrightarrow> 48 \<le> (of_char c :: nat) \<and> (of_char c :: nat) < 58"
proof (induction n rule: decimal.induct)
  case (1 n)
  show ?case
  proof (cases "n < 10")
    case True
    then show ?thesis using "1.prems" by (simp add: decimal.simps [of n])
  next
    case False
    have "n mod 10 < 10" by simp
    then have "n mod 10 \<le> 9" by linarith
    then show ?thesis using False 1 by (auto simp: decimal.simps [of n])
  qed
qed

lemma number_read_decimal [simp]: "number_read (decimal n) = n"
proof (induction n rule: decimal.induct)
  case (1 n)
  show ?case
  proof (cases "n < 10")
    case True
    then show ?thesis by (simp add: decimal.simps [of n] number_read_def)
  next
    case False
    have "n mod 10 \<le> 9" using mod_less_divisor [of 10 n] by linarith
    then show ?thesis using False 1 by (simp add: decimal.simps [of n] number_read_def)
  qed
qed

end
