(* ===== verification/CircularBuffer.thy ===== *)
theory CircularBuffer
  imports Prelude
begin

text \<open>
  The ring buffer of the tactile sensor SDK, \<open>SafeCircularBuffer\<close> of
  \<open>tsf/sdk_cpp/circular_buffer.h\<close>. Every member function holds the buffer's mutex from its
  first to its last access, so each is one atomic step here. The interface the rest of the
  program may rely on is the locale \<open>bounded_fifo\<close>: a queue of at most \<open>cap\<close> elements that
  drops its oldest element when it is full. The section ends with the interpretation of that
  locale on the modelled class and the properties that rest on it.
\<close>

section \<open>The class\<close>

text \<open>\<open>start\<close> is the next item to read, \<open>start + count\<close> the next to write.\<close>

record 'a cbuf =
  cb_buffer :: "'a list"
  cb_start :: nat
  cb_count :: nat

text \<open>\<open>SafeCircularBuffer(size_t size): buffer(size), start(0), count(0)\<close>; \<open>dflt\<close> is \<open>T()\<close>.\<close>

definition cb_new :: "'a \<Rightarrow> nat \<Rightarrow> 'a cbuf" where
  "cb_new dflt n = \<lparr>cb_buffer = replicate n dflt, cb_start = 0, cb_count = 0\<rparr>"

definition cb_size :: "'a cbuf \<Rightarrow> nat" where
  "cb_size b = cb_count b"

definition cb_empty :: "'a cbuf \<Rightarrow> bool" where
  "cb_empty b \<longleftrightarrow> cb_size b = 0"

text \<open>
  \<open>push\<close> takes the index modulo the buffer's size, which the language leaves undefined for a
  buffer of no slots: that is the value \<open>None\<close>.
\<close>

definition cb_push :: "'a \<Rightarrow> 'a cbuf \<Rightarrow> 'a cbuf option" where
  "cb_push t b =
     (let n = length (cb_buffer b) in
      if n = 0 then None
      else
        let written = b\<lparr>cb_buffer := (cb_buffer b)[(cb_start b + cb_count b) mod n := t]\<rparr> in
        if cb_count b = n
        then Some (written\<lparr>cb_start := (cb_start b + 1) mod n\<rparr>)
        else Some (written\<lparr>cb_count := cb_count b + 1\<rparr>))"

text \<open>
  \<open>pop\<close>, \<open>front\<close> and \<open>back\<close> return the default-initialised local \<open>T t\<close> of an empty buffer,
  which is the argument \<open>dflt\<close>.
\<close>

definition cb_pop :: "'a \<Rightarrow> 'a cbuf \<Rightarrow> 'a \<times> 'a cbuf" where
  "cb_pop dflt b =
     (if cb_count b = 0 then (dflt, b)
      else (cb_buffer b ! cb_start b,
            b\<lparr>cb_start := (cb_start b + 1) mod length (cb_buffer b), cb_count := cb_count b - 1\<rparr>))"

definition cb_front :: "'a \<Rightarrow> 'a cbuf \<Rightarrow> 'a" where
  "cb_front dflt b = (if cb_count b = 0 then dflt else cb_buffer b ! cb_start b)"

definition cb_back :: "'a \<Rightarrow> 'a cbuf \<Rightarrow> 'a" where
  "cb_back dflt b =
     (if cb_count b = 0 then dflt
      else cb_buffer b ! ((cb_start b + cb_count b - 1) mod length (cb_buffer b)))"

definition cb_clear :: "'a cbuf \<Rightarrow> 'a cbuf" where
  "cb_clear b = b\<lparr>cb_start := 0, cb_count := 0\<rparr>"

definition cb_extract :: "bool \<Rightarrow> 'a cbuf \<Rightarrow> 'a list \<times> 'a cbuf" where
  "cb_extract consume b =
     (map (\<lambda>i. cb_buffer b ! ((cb_start b + i) mod length (cb_buffer b))) [0..<cb_count b],
      if consume then b\<lparr>cb_start := 0, cb_count := 0\<rparr> else b)"

section \<open>The contract\<close>

text \<open>
  What a user of the buffer sees: the list of the elements held, oldest first, and the
  capacity, which never changes. The invariant says that the indices stay inside the vector.
\<close>

definition cb_view :: "'a cbuf \<Rightarrow> 'a list" where
  "cb_view b = map (\<lambda>i. cb_buffer b ! ((cb_start b + i) mod length (cb_buffer b))) [0..<cb_count b]"

definition cb_cap :: "'a cbuf \<Rightarrow> nat" where
  "cb_cap b = length (cb_buffer b)"

definition cb_inv :: "'a cbuf \<Rightarrow> bool" where
  "cb_inv b \<longleftrightarrow> cb_count b \<le> length (cb_buffer b) \<and>
     (if length (cb_buffer b) = 0 then cb_start b = 0 else cb_start b < length (cb_buffer b))"

text \<open>Push every element of a list, in order.\<close>

fun push_all :: "('a \<Rightarrow> 'b \<Rightarrow> 'b option) \<Rightarrow> 'a list \<Rightarrow> 'b \<Rightarrow> 'b option" where
  "push_all push [] b = Some b"
| "push_all push (x # xs) b =
     (case push x b of None \<Rightarrow> None | Some b' \<Rightarrow> push_all push xs b')"

text \<open>The last \<open>n\<close> elements of a list.\<close>

definition newest :: "nat \<Rightarrow> 'a list \<Rightarrow> 'a list" where
  "newest n xs = drop (length xs - n) xs"

lemma newest_all: "length xs \<le> n \<Longrightarrow> newest n xs = xs"
  by (simp add: newest_def)

lemma length_newest [simp]: "length (newest n xs) = min n (length xs)"
  by (auto simp: newest_def)

lemma newest_snoc: "0 < n \<Longrightarrow>
    newest n (xs @ [x]) = (if length xs < n then xs @ [x] else tl (newest n xs) @ [x])"
  by (auto simp: newest_def drop_Suc tl_drop Suc_diff_le)

lemma newest_newest_snoc:
  assumes "0 < n"
  shows "newest n (newest n xs @ ys) = newest n (xs @ ys)"
proof (cases "length xs \<le> n")
  case True
  then show ?thesis by (simp add: newest_all)
next
  case False
  then show ?thesis using assms by (auto simp: newest_def add.commute)
qed

locale bounded_fifo =
  fixes view :: "'b \<Rightarrow> 'a list"
    and cap :: "'b \<Rightarrow> nat"
    and inv :: "'b \<Rightarrow> bool"
    and push :: "'a \<Rightarrow> 'b \<Rightarrow> 'b option"
    and pop :: "'a \<Rightarrow> 'b \<Rightarrow> 'a \<times> 'b"
  assumes view_le_cap: "inv b \<Longrightarrow> length (view b) \<le> cap b"
    and push_refused: "cap b = 0 \<Longrightarrow> push x b = None"
    and push_ok: "inv b \<Longrightarrow> 0 < cap b \<Longrightarrow>
      \<exists>b'. push x b = Some b' \<and> inv b' \<and> cap b' = cap b \<and> view b' = newest (cap b) (view b @ [x])"
    and pop_value: "inv b \<Longrightarrow> fst (pop d b) = (if view b = [] then d else hd (view b))"
    and pop_inv: "inv b \<Longrightarrow> inv (snd (pop d b))"
    and pop_cap: "cap (snd (pop d b)) = cap b"
    and pop_view: "inv b \<Longrightarrow> view (snd (pop d b)) = tl (view b)"
begin

text \<open>
  However many elements are pushed, the buffer then holds exactly the newest of them, in the
  order they were pushed.
\<close>

lemma window:
  assumes "inv b" and "0 < cap b"
  shows "\<exists>b'. push_all push xs b = Some b' \<and> inv b' \<and> cap b' = cap b \<and>
           view b' = newest (cap b) (view b @ xs)"
  using assms
proof (induction xs arbitrary: b)
  case Nil
  then show ?case by (simp add: newest_all view_le_cap)
next
  case (Cons x xs)
  then obtain b1 where b1: "push x b = Some b1" "inv b1" "cap b1 = cap b"
      "view b1 = newest (cap b) (view b @ [x])"
    using push_ok by metis
  with Cons.prems Cons.IH [of b1] obtain b2 where
    "push_all push xs b1 = Some b2" "inv b2" "cap b2 = cap b1"
    "view b2 = newest (cap b1) (view b1 @ xs)"
    by auto
  with b1 Cons.prems(2) show ?case
    by (auto simp: newest_newest_snoc)
qed

text \<open>What comes out is what went in: a push into an empty buffer is the next pop.\<close>

lemma push_then_pop:
  assumes "inv b" and "0 < cap b" and "view b = []" and "push x b = Some b'"
  shows "fst (pop d b') = x \<and> view (snd (pop d b')) = []"
proof -
  from assms push_ok [of b x] have "inv b'" "view b' = [x]"
    by (auto simp: newest_def)
  then show ?thesis by (simp add: pop_value pop_view)
qed

end

section \<open>The class keeps the contract\<close>

lemma cb_inv_new: "cb_inv (cb_new d n)"
  by (simp add: cb_inv_def cb_new_def)

lemma cb_view_new [simp]: "cb_view (cb_new d n) = []"
  by (simp add: cb_view_def cb_new_def)

lemma cb_cap_new [simp]: "cb_cap (cb_new d n) = n"
  by (simp add: cb_cap_def cb_new_def)

lemma length_cb_view [simp]: "length (cb_view b) = cb_count b"
  by (simp add: cb_view_def)

lemma cb_view_nth: "i < cb_count b \<Longrightarrow>
    cb_view b ! i = cb_buffer b ! ((cb_start b + i) mod length (cb_buffer b))"
  by (simp add: cb_view_def)

lemma mod_slot_inj:
  assumes "(s + i) mod n = (s + j) mod n" and "i < n" and "j < (n::nat)"
  shows "i = j"
proof -
  have "int n dvd (int s + int i) - (int s + int j)"
    using assms(1) by (metis mod_eq_dvd_iff of_nat_add of_nat_mod)
  then have "int n dvd int i - int j" by simp
  moreover have "\<bar>int i - int j\<bar> < int n" using assms(2,3) by auto
  ultimately have "int i - int j = 0" using zdvd_not_zless
    by (metis abs_dvd_iff dvd_abs_iff abs_eq_0 zero_less_abs_iff)
  then show ?thesis by simp
qed

lemma cb_push_not_full:
  assumes "cb_inv b" and "0 < cb_cap b" and "cb_count b < cb_cap b"
  shows "\<exists>b'. cb_push x b = Some b' \<and> cb_inv b' \<and> cb_cap b' = cb_cap b \<and> cb_view b' = cb_view b @ [x]"
proof -
  let ?n = "length (cb_buffer b)"
  let ?b = "b\<lparr>cb_buffer := (cb_buffer b)[(cb_start b + cb_count b) mod ?n := x],
             cb_count := cb_count b + 1\<rparr>"
  have push: "cb_push x b = Some ?b"
    using assms by (auto simp: cb_push_def cb_cap_def Let_def)
  have "cb_view ?b = cb_view b @ [x]"
  proof (rule nth_equalityI)
    show "length (cb_view ?b) = length (cb_view b @ [x])" by simp
  next
    fix i assume "i < length (cb_view ?b)"
    then have i: "i < cb_count b + 1" by simp
    have n: "?n \<noteq> 0" using assms(2) by (simp add: cb_cap_def)
    show "cb_view ?b ! i = (cb_view b @ [x]) ! i"
    proof (cases "i = cb_count b")
      case True
      then show ?thesis using n by (simp add: cb_view_nth nth_append)
    next
      case False
      then have "(cb_start b + cb_count b) mod ?n \<noteq> (cb_start b + i) mod ?n"
        using i assms(3) mod_slot_inj [of "cb_start b" "cb_count b" ?n i]
        by (auto simp: cb_cap_def)
      with i False show ?thesis by (simp add: cb_view_nth nth_append)
    qed
  qed
  moreover have "cb_inv ?b" using assms by (auto simp: cb_inv_def cb_cap_def)
  ultimately show ?thesis using push by (auto simp: cb_cap_def)
qed

lemma cb_push_full:
  assumes "cb_inv b" and "0 < cb_cap b" and "cb_count b = cb_cap b"
  shows "\<exists>b'. cb_push x b = Some b' \<and> cb_inv b' \<and> cb_cap b' = cb_cap b \<and>
           cb_view b' = tl (cb_view b) @ [x]"
proof -
  let ?n = "length (cb_buffer b)"
  let ?b = "b\<lparr>cb_buffer := (cb_buffer b)[(cb_start b + cb_count b) mod ?n := x],
             cb_start := (cb_start b + 1) mod ?n\<rparr>"
  have n: "?n \<noteq> 0" and cnt: "cb_count b = ?n" and st: "cb_start b < ?n"
    using assms by (auto simp: cb_cap_def cb_inv_def split: if_splits)
  have push: "cb_push x b = Some ?b"
    using n cnt by (simp add: cb_push_def Let_def)
  have "cb_view ?b = tl (cb_view b) @ [x]"
  proof (rule nth_equalityI)
    show "length (cb_view ?b) = length (tl (cb_view b) @ [x])" using n cnt by simp
  next
    fix i assume "i < length (cb_view ?b)"
    then have i: "i < ?n" using cnt by simp
    have shift: "((cb_start b + 1) mod ?n + i) mod ?n = (cb_start b + (i + 1)) mod ?n"
      by (simp add: mod_simps)
    show "cb_view ?b ! i = (tl (cb_view b) @ [x]) ! i"
    proof (cases "i + 1 = ?n")
      case True
      then have "(cb_start b + (i + 1)) mod ?n = cb_start b" using st by simp
      moreover have "(cb_start b + cb_count b) mod ?n = cb_start b" using st cnt by simp
      moreover have "i = length (tl (cb_view b))" using True cnt by simp
      ultimately show ?thesis using i cnt shift st by (simp add: cb_view_nth nth_append)
    next
      case False
      with i have i1: "i + 1 < ?n" by simp
      then have "cb_start b \<noteq> (cb_start b + (i + 1)) mod ?n"
        using mod_slot_inj [of "cb_start b" 0 ?n "i + 1"] st by (cases "cb_buffer b = []") auto
      moreover have "(cb_start b + cb_count b) mod ?n = cb_start b" using st cnt by simp
      moreover have "i < ?n - Suc 0" using i1 by simp
      ultimately show ?thesis
        using i i1 cnt shift by (simp add: cb_view_nth nth_append nth_tl)
    qed
  qed
  moreover have "cb_inv ?b" using assms n by (auto simp: cb_inv_def cb_cap_def)
  ultimately show ?thesis using push by (auto simp: cb_cap_def)
qed

lemma cb_push_correct:
  assumes "cb_inv b" and "0 < cb_cap b"
  shows "\<exists>b'. cb_push x b = Some b' \<and> cb_inv b' \<and> cb_cap b' = cb_cap b \<and>
           cb_view b' = newest (cb_cap b) (cb_view b @ [x])"
proof (cases "cb_count b < cb_cap b")
  case True
  then show ?thesis using cb_push_not_full [OF assms True, of x] assms(2)
    by (auto simp: newest_snoc)
next
  case False
  then have full: "cb_count b = cb_cap b" using assms(1) by (auto simp: cb_inv_def cb_cap_def)
  then have "newest (cb_cap b) (cb_view b) = cb_view b" by (simp add: newest_all)
  with full show ?thesis using cb_push_full [OF assms full, of x] assms(2)
    by (auto simp: newest_snoc)
qed

lemma cb_view_eq_Nil [simp]: "cb_view b = [] \<longleftrightarrow> cb_count b = 0"
  using length_cb_view [of b] by (metis length_0_conv)

lemma cb_hd_view:
  assumes "cb_inv b" and "0 < cb_count b"
  shows "hd (cb_view b) = cb_buffer b ! cb_start b"
proof -
  have "hd (cb_view b) = cb_view b ! 0" using assms(2) by (simp add: hd_conv_nth)
  also have "\<dots> = cb_buffer b ! cb_start b"
    using assms by (auto simp: cb_view_nth cb_inv_def split: if_splits)
  finally show ?thesis .
qed

lemma cb_pop_view:
  assumes "cb_inv b"
  shows "cb_view (snd (cb_pop d b)) = tl (cb_view b)"
proof (cases "cb_count b = 0")
  case True
  then show ?thesis by (simp add: cb_pop_def cb_view_def)
next
  case False
  show ?thesis
    by (rule nth_equalityI)
      (use False in \<open>auto simp: cb_pop_def cb_view_nth nth_tl mod_simps\<close>)
qed

lemma cb_pop_inv: "cb_inv b \<Longrightarrow> cb_inv (snd (cb_pop d b))"
  by (auto simp: cb_inv_def cb_pop_def)

interpretation cb: bounded_fifo cb_view cb_cap cb_inv cb_push cb_pop
proof unfold_locales
  fix b :: "'a cbuf" and x d :: 'a
  show "cb_inv b \<Longrightarrow> length (cb_view b) \<le> cb_cap b"
    by (simp add: cb_inv_def cb_cap_def)
  show "cb_cap b = 0 \<Longrightarrow> cb_push x b = None"
    by (simp add: cb_cap_def cb_push_def)
  show "cb_inv b \<Longrightarrow> 0 < cb_cap b \<Longrightarrow> \<exists>b'. cb_push x b = Some b' \<and> cb_inv b' \<and>
      cb_cap b' = cb_cap b \<and> cb_view b' = newest (cb_cap b) (cb_view b @ [x])"
    by (rule cb_push_correct)
  show "cb_inv b \<Longrightarrow> fst (cb_pop d b) = (if cb_view b = [] then d else hd (cb_view b))"
    by (simp add: cb_pop_def cb_hd_view)
  show "cb_inv b \<Longrightarrow> cb_inv (snd (cb_pop d b))"
    by (rule cb_pop_inv)
  show "cb_cap (snd (cb_pop d b)) = cb_cap b"
    by (simp add: cb_cap_def cb_pop_def)
  show "cb_inv b \<Longrightarrow> cb_view (snd (cb_pop d b)) = tl (cb_view b)"
    by (rule cb_pop_view)
qed

section \<open>Properties\<close>

lemma cb_front_hd: "cb_inv b \<Longrightarrow> cb_front d b = (if cb_view b = [] then d else hd (cb_view b))"
  by (simp add: cb_front_def cb_hd_view)

lemma cb_back_last: "cb_back d b = (if cb_view b = [] then d else last (cb_view b))"
proof (cases "cb_count b = 0")
  case False
  then have "last (cb_view b) = cb_view b ! (cb_count b - 1)" by (simp add: last_conv_nth)
  with False show ?thesis by (simp add: cb_back_def cb_view_nth)
qed (simp add: cb_back_def)

lemma cb_extract_view: "fst (cb_extract c b) = cb_view b"
  by (simp add: cb_extract_def cb_view_def)

lemma last_newest: "0 < n \<Longrightarrow> xs \<noteq> [] \<Longrightarrow> last (newest n xs) = last xs"
  by (simp add: newest_def last_drop)

text \<open>
  C12 A ring buffer of \<open>n\<close> slots holds, after any number of pushes, exactly the last \<open>n\<close> values
  pushed, oldest first: that is what \<open>extract\<close> returns, what \<open>size\<close> counts, and what \<open>front\<close> and
  \<open>back\<close> read at its ends; a consuming \<open>extract\<close> empties it.
\<close>

theorem ring_keeps_newest:
  assumes "0 < n"
  shows "\<exists>b. push_all cb_push xs (cb_new d n) = Some b \<and> fst (cb_extract c b) = newest n xs \<and>
    cb_size b = min n (length xs) \<and> cb_empty (snd (cb_extract True b)) \<and>
    cb_front d b = (if xs = [] then d else hd (newest n xs)) \<and>
    cb_back d b = (if xs = [] then d else last xs)"
proof -
  from cb.window [of "cb_new d n" xs] assms obtain b where
    b: "push_all cb_push xs (cb_new d n) = Some b" "cb_inv b" "cb_view b = newest n xs"
    by (auto simp: cb_inv_new)
  have "cb_size b = min n (length xs)"
    using arg_cong [OF b(3), of length] by (simp add: cb_size_def)
  moreover have "newest n xs = [] \<longleftrightarrow> xs = []"
    using assms length_newest [of n xs] by (metis length_greater_0_conv min_less_iff_conj)
  moreover have "cb_empty (snd (cb_extract True b))"
    by (simp add: cb_empty_def cb_size_def cb_extract_def)
  ultimately show ?thesis
    using b assms by (auto simp: cb_extract_view cb_front_hd cb_back_last last_newest simp del: cb_view_eq_Nil)
qed

theorem ring_keeps_newest_witness:
  "\<exists>b. push_all cb_push [1, 2, 3, 4] (cb_new (0 :: nat) 3) = Some b \<and> fst (cb_extract False b) = [2, 3, 4]"
  using ring_keeps_newest [of 3 "[1, 2, 3, 4]" "0 :: nat" False] by (auto simp: newest_def)

end
