(* ===== verification/UsbProtocol.thy ===== *)
theory UsbProtocol
  imports Prelude
begin

text \<open>
  The USB framing of the tactile sensor, from \<open>tsf/sdk_cpp/RobotiqTactileSensor.cpp\<close>: the
  packet as a struct that the code also reads as raw bytes, the placeholder checksum, sending a
  packet and the byte-at-a-time reader \<open>usbReadByte\<close>. The contract of a byte-at-a-time reader
  is the locale \<open>frame_reader\<close>: what a stream of frames with noise between them is turned into.
\<close>

unbundle bit_operations_syntax

section \<open>Constants\<close>

definition USB_PACKET_START_BYTE :: u8 where "USB_PACKET_START_BYTE = 0x9A"
definition USB_PACKET_HEADER_SIZE :: nat where "USB_PACKET_HEADER_SIZE = 4"
definition USB_PACKET_MAX_DATA_SIZE :: nat where "USB_PACKET_MAX_DATA_SIZE = 256"
definition USB_PACKET_MAX_SIZE :: nat where
  "USB_PACKET_MAX_SIZE = USB_PACKET_HEADER_SIZE + USB_PACKET_MAX_DATA_SIZE"

definition USB_COMMAND_READ_SENSORS :: u8 where "USB_COMMAND_READ_SENSORS = 0x61"
definition USB_COMMAND_AUTOSEND_SYNC_SENSORS :: u8 where "USB_COMMAND_AUTOSEND_SYNC_SENSORS = 0x58"
definition USB_COMMAND_AUTOSEND_ASYNC_SENSORS :: u8 where "USB_COMMAND_AUTOSEND_ASYNC_SENSORS = 0x59"
definition USB_COMMAND_ENTER_BOOTLOADER :: u8 where "USB_COMMAND_ENTER_BOOTLOADER = 0xE2"
definition USB_COMMAND_GET_VERSION :: u8 where "USB_COMMAND_GET_VERSION = 0xE3"

lemmas packet_sizes =
  USB_PACKET_HEADER_SIZE_def USB_PACKET_MAX_DATA_SIZE_def USB_PACKET_MAX_SIZE_def

section \<open>The packet\<close>

record usb_packet =
  start_byte :: u8
  crc8 :: u8
  command :: u8
  data_length :: u8
  data :: "u8 list"

text \<open>
  The struct has byte members only, so it has no padding and the code addresses it as
  \<open>uint8_t *p\<close>: \<open>raw\<close> is that view, \<open>of_raw\<close> its inverse and \<open>set_raw i d\<close> is \<open>p[i] = d\<close>.
\<close>

definition raw :: "usb_packet \<Rightarrow> u8 list" where
  "raw p = start_byte p # crc8 p # command p # data_length p # data p"

definition of_raw :: "u8 list \<Rightarrow> usb_packet" where
  "of_raw bs = \<lparr>start_byte = bs ! 0, crc8 = bs ! 1, command = bs ! 2, data_length = bs ! 3,
     data = drop 4 bs\<rparr>"

definition set_raw :: "nat \<Rightarrow> u8 \<Rightarrow> usb_packet \<Rightarrow> usb_packet" where
  "set_raw i d p =
     (if i = 0 then p\<lparr>start_byte := d\<rparr>
      else if i = 1 then p\<lparr>crc8 := d\<rparr>
      else if i = 2 then p\<lparr>command := d\<rparr>
      else if i = 3 then p\<lparr>data_length := d\<rparr>
      else p\<lparr>data := (data p)[i - 4 := d]\<rparr>)"

definition wf_packet :: "usb_packet \<Rightarrow> bool" where
  "wf_packet p \<longleftrightarrow> length (data p) = USB_PACKET_MAX_DATA_SIZE"

text \<open>The bytes of a packet on the wire: the header and \<open>data_length\<close> bytes of data.\<close>

definition packet_size :: "usb_packet \<Rightarrow> nat" where
  "packet_size p = unat (data_length p) + USB_PACKET_HEADER_SIZE"

definition wire :: "usb_packet \<Rightarrow> u8 list" where
  "wire p = take (packet_size p) (raw p)"

section \<open>Checksum, sending and receiving\<close>

text \<open>
  \<open>calcCrc8(uint8_t *data, size_t len)\<close> is a placeholder that returns \<open>data[-1]\<close>. A pointer
  into the packet is the packet's bytes and an offset.
\<close>

definition calcCrc8 :: "u8 list \<Rightarrow> nat \<Rightarrow> nat \<Rightarrow> u8" where
  "calcCrc8 mem at len = mem ! (at - 1)"

text \<open>
  \<open>usbSend\<close>: \<open>write\<close> stands for \<open>sp_nonblocking_write\<close> of libserialport, which is given the
  bytes and returns how many it took, or a negative error. The result is the function's answer,
  the bytes handed over and the packet with its start byte and checksum filled in.
\<close>

definition usbSend :: "(u8 list \<Rightarrow> int) \<Rightarrow> usb_packet \<Rightarrow> bool \<times> u8 list \<times> usb_packet" where
  "usbSend write packet =
     (let p1 = packet\<lparr>start_byte := USB_PACKET_START_BYTE\<rparr>;
          p2 = p1\<lparr>crc8 := calcCrc8 (raw p1) 2 (unat (data_length p1) + 2)\<rparr>;
          bytes = take (unat (data_length p2) + 4) (raw p2);
          result = write bytes
      in (0 < result, bytes, p2))"

record usb_reader =
  rd_packet :: usb_packet
  rd_so_far :: nat

text \<open>
  The resynchronisation of \<open>usbReadByte\<close>: look for a start byte behind the first byte, move the
  rest of the packet to the front and count it as read. The count is computed from
  \<open>packet->data_length\<close> \<open>after\<close> the move, in 32-bit unsigned arithmetic.
\<close>

definition resync :: "usb_packet \<Rightarrow> usb_reader" where
  "resync p =
     (let total = packet_size p in
      case find (\<lambda>i. raw p ! i = USB_PACKET_START_BYTE) [1..<total] of
        None \<Rightarrow> \<lparr>rd_packet = p, rd_so_far = 0\<rparr>
      | Some i \<Rightarrow>
          let moved = of_raw (take (total - i) (drop i (raw p)) @ drop (total - i) (raw p)) in
          \<lparr>rd_packet = moved,
           rd_so_far = nat ((int (packet_size moved) - int i) mod 2 ^ 32)\<rparr>)"

text \<open>
  \<open>usbReadByte\<close>, for any checksum function; the code's is \<open>calcCrc8\<close>. The result says whether
  the byte completed a packet, which is then the packet of the returned reader.
\<close>

definition usbReadByte_with ::
    "(u8 list \<Rightarrow> nat \<Rightarrow> nat \<Rightarrow> u8) \<Rightarrow> u8 \<Rightarrow> usb_reader \<Rightarrow> bool \<times> usb_reader" where
  "usbReadByte_with crc d r =
     (if rd_so_far r = 0 \<and> d \<noteq> USB_PACKET_START_BYTE then (False, r)
      else
        let p = (if rd_so_far r < USB_PACKET_MAX_SIZE then set_raw (rd_so_far r) d (rd_packet r)
                 else rd_packet r);
            n = (rd_so_far r + 1) mod 2 ^ 32
        in if 3 < n \<and> packet_size p \<le> n
           then (if crc8 p = crc (raw p) 2 (unat (data_length p) + 2)
                 then (True, \<lparr>rd_packet = p, rd_so_far = 0\<rparr>)
                 else (False, resync p))
           else (False, \<lparr>rd_packet = p, rd_so_far = n\<rparr>))"

definition usbReadByte :: "u8 \<Rightarrow> usb_reader \<Rightarrow> bool \<times> usb_reader" where
  "usbReadByte = usbReadByte_with calcCrc8"

text \<open>A run of the reader over a stream: the packets completed, in order, and the final reader.\<close>

fun read_stream :: "('b \<Rightarrow> 's \<Rightarrow> bool \<times> 's) \<Rightarrow> ('s \<Rightarrow> 'p) \<Rightarrow> 'b list \<Rightarrow> 's \<Rightarrow> 'p list \<times> 's" where
  "read_stream step packet [] s = ([], s)"
| "read_stream step packet (b # bs) s =
     (let (done, s') = step b s; (ps, s'') = read_stream step packet bs s'
      in (if done then packet s' # ps else ps, s''))"

lemma read_stream_append:
  "read_stream step pk (bs @ cs) s =
     (let (ps, s') = read_stream step pk bs s; (qs, s'') = read_stream step pk cs s'
      in (ps @ qs, s''))"
  by (induction bs arbitrary: s) (auto simp: Let_def split: prod.splits)

section \<open>The contract of a frame reader\<close>

text \<open>
  A reader is \<open>idle\<close> between frames. Noise leaves an idle reader as it is, and the bytes of one
  frame bring it back to idle with exactly one packet delivered, which has the frame's bytes.
\<close>

locale frame_reader =
  fixes step :: "'b \<Rightarrow> 's \<Rightarrow> bool \<times> 's"
    and packet :: "'s \<Rightarrow> 'p"
    and idle :: "'s \<Rightarrow> bool"
    and noise :: "'b \<Rightarrow> bool"
    and frame :: "'p \<Rightarrow> 'b list"
    and valid :: "'p \<Rightarrow> bool"
  assumes step_noise: "idle s \<Longrightarrow> noise b \<Longrightarrow> step b s = (False, s)"
    and read_frame: "idle s \<Longrightarrow> valid p \<Longrightarrow>
      \<exists>q s'. read_stream step packet (frame p) s = ([q], s') \<and> idle s' \<and> valid q \<and> frame q = frame p"
begin

lemma read_noise: "idle s \<Longrightarrow> list_all noise bs \<Longrightarrow> read_stream step packet bs s = ([], s)"
  by (induction bs) (auto simp: step_noise)

text \<open>Every frame of a stream is delivered once, in order, whatever noise separates them.\<close>

lemma read_frames:
  assumes "idle s" and "\<forall>(ns, p) \<in> set fs. list_all noise ns \<and> valid p" and "list_all noise tail"
  shows "\<exists>qs s'. read_stream step packet (concat (map (\<lambda>(ns, p). ns @ frame p) fs) @ tail) s = (qs, s')
           \<and> idle s' \<and> list_all valid qs \<and> map frame qs = map (frame \<circ> snd) fs"
  using assms(1,2)
proof (induction fs arbitrary: s)
  case Nil
  then show ?case using assms(3) by (simp add: read_noise)
next
  case (Cons f fs)
  obtain ns p where f: "f = (ns, p)" by (cases f)
  with Cons.prems have ns: "read_stream step packet ns s = ([], s)" and "valid p"
    by (auto intro: read_noise)
  then obtain q s1 where q: "read_stream step packet (frame p) s = ([q], s1)" "idle s1" "valid q" "frame q = frame p"
    using read_frame Cons.prems(1) by blast
  from Cons.IH [OF q(2)] Cons.prems(2) obtain qs s' where
    "read_stream step packet (concat (map (\<lambda>(ns, p). ns @ frame p) fs) @ tail) s1 = (qs, s')"
    "idle s'" "list_all valid qs" "map frame qs = map (frame \<circ> snd) fs"
    by auto
  with ns q f show ?case by (auto simp: read_stream_append)
qed

end

section \<open>Lemmas on the packet's bytes\<close>

lemma length_raw [simp]: "length (raw p) = length (data p) + 4"
  by (simp add: raw_def)

lemma raw_nth [simp]:
  "raw p ! 0 = start_byte p" "raw p ! Suc 0 = crc8 p" "raw p ! 2 = command p" "raw p ! 3 = data_length p"
  by (simp_all add: raw_def numeral_2_eq_2 numeral_3_eq_3)

lemma raw_set_raw: "raw (set_raw i d p) = (raw p)[i := d]"
proof -
  consider "i = 0" | "i = 1" | "i = 2" | "i = 3" | j where "i = Suc (Suc (Suc (Suc j)))"
    by (metis One_nat_def numeral_2_eq_2 numeral_3_eq_3 not0_implies_Suc)
  then show ?thesis
    by cases (simp_all add: set_raw_def raw_def numeral_2_eq_2 numeral_3_eq_3)
qed

lemma raw_of_raw:
  assumes "4 \<le> length bs"
  shows "raw (of_raw bs) = bs"
proof -
  from assms obtain a b c d xs where "bs = a # b # c # d # xs"
    by (metis (no_types, lifting) Suc_le_length_iff numeral_eq_Suc pred_numeral_simps(2,3)
        semiring_norm(26,27))
  then show ?thesis by (simp add: raw_def of_raw_def numeral_2_eq_2 numeral_3_eq_3)
qed

lemma wf_set_raw [simp]: "wf_packet (set_raw i d p) = wf_packet p"
  by (simp add: wf_packet_def set_raw_def)

lemma packet_size_bounds: "4 \<le> packet_size p" "packet_size p < 260"
  using unat_u8_bound [of "data_length p"] by (simp_all add: packet_size_def packet_sizes)

lemma length_wire: "wf_packet p \<Longrightarrow> length (wire p) = packet_size p"
  using packet_size_bounds(2) [of p] by (simp add: wire_def wf_packet_def packet_sizes)

lemma wire_nth: "i < packet_size p \<Longrightarrow> wire p ! i = raw p ! i"
  by (simp add: wire_def)

text \<open>The placeholder checksum of a packet is the packet's own checksum byte.\<close>

lemma calcCrc8_self [simp]: "calcCrc8 (raw p) 2 n = crc8 p"
  by (simp add: calcCrc8_def)

section \<open>The code's reader\<close>

definition rd_idle :: "usb_reader \<Rightarrow> bool" where
  "rd_idle r \<longleftrightarrow> rd_so_far r = 0 \<and> wf_packet (rd_packet r)"

definition is_noise :: "u8 \<Rightarrow> bool" where
  "is_noise b \<longleftrightarrow> b \<noteq> USB_PACKET_START_BYTE"

definition valid_packet :: "usb_packet \<Rightarrow> bool" where
  "valid_packet p \<longleftrightarrow> wf_packet p \<and> start_byte p = USB_PACKET_START_BYTE"

text \<open>
  The reader's invariant: the bytes counted fit the packet, and once the length byte has been
  read they are fewer than the packet announces.
\<close>

definition rd_inv :: "usb_reader \<Rightarrow> bool" where
  "rd_inv r \<longleftrightarrow> wf_packet (rd_packet r) \<and> rd_so_far r < USB_PACKET_MAX_SIZE \<and>
     (3 < rd_so_far r \<longrightarrow> rd_so_far r < packet_size (rd_packet r))"

text \<open>With the placeholder checksum a complete packet is always accepted.\<close>

lemma usbReadByte_eq:
  assumes "rd_inv r"
  shows "usbReadByte d r =
    (if rd_so_far r = 0 \<and> d \<noteq> USB_PACKET_START_BYTE then (False, r)
     else
       let p = set_raw (rd_so_far r) d (rd_packet r); n = rd_so_far r + 1
       in if 3 < n \<and> packet_size p \<le> n then (True, \<lparr>rd_packet = p, rd_so_far = 0\<rparr>)
          else (False, \<lparr>rd_packet = p, rd_so_far = n\<rparr>))"
  using assms by (simp add: usbReadByte_def usbReadByte_with_def rd_inv_def packet_sizes Let_def)

lemma usbReadByte_inv:
  assumes "rd_inv r"
  shows "rd_inv (snd (usbReadByte d r))"
  using assms packet_size_bounds(1) [of "set_raw (rd_so_far r) d (rd_packet r)"]
    packet_size_bounds(2) [of "set_raw (rd_so_far r) d (rd_packet r)"]
  by (auto simp: usbReadByte_eq rd_inv_def packet_sizes Let_def)

lemma rd_idle_inv: "rd_idle r \<Longrightarrow> rd_inv r"
  by (simp add: rd_idle_def rd_inv_def packet_sizes)

lemma read_stream_inv: "rd_inv r \<Longrightarrow> rd_inv (snd (read_stream usbReadByte rd_packet bs r))"
  by (induction bs arbitrary: r)
    (auto simp: Let_def split: prod.splits dest: usbReadByte_inv, metis snd_conv usbReadByte_inv)

text \<open>A proper prefix of a frame is buffered byte for byte.\<close>

lemma read_prefix:
  assumes "rd_idle r" and "valid_packet p" and "k < packet_size p"
  shows "\<exists>r'. read_stream usbReadByte rd_packet (take k (wire p)) r = ([], r') \<and> rd_inv r' \<and>
           rd_so_far r' = k \<and> take k (raw (rd_packet r')) = take k (wire p)"
  using assms(3)
proof (induction k)
  case 0
  then show ?case using assms(1) by (simp add: rd_idle_inv) (simp add: rd_idle_def)
next
  case (Suc k)
  then obtain r' where r': "read_stream usbReadByte rd_packet (take k (wire p)) r = ([], r')"
    "rd_inv r'" "rd_so_far r' = k" "take k (raw (rd_packet r')) = take k (wire p)"
    by auto
  let ?d = "wire p ! k" and ?q = "set_raw k (wire p ! k) (rd_packet r')"
  have wf: "wf_packet p" and start: "wire p ! 0 = USB_PACKET_START_BYTE"
    using assms(2) packet_size_bounds(1) [of p] by (auto simp: valid_packet_def wire_nth)
  have len: "k < length (wire p)" using Suc.prems wf by (simp add: length_wire)
  have rawlen: "length (raw (rd_packet r')) = 260"
    using r'(2) by (simp add: rd_inv_def wf_packet_def packet_sizes)
  have k260: "k < 260" using Suc.prems packet_size_bounds(2) [of p] by simp
  have pre: "take (Suc k) (raw ?q) = take (Suc k) (wire p)"
    using r'(4) rawlen k260 len by (simp add: raw_set_raw take_Suc_conv_app_nth)
  have "\<not> (3 < Suc k \<and> packet_size ?q \<le> Suc k)"
  proof
    assume a: "3 < Suc k \<and> packet_size ?q \<le> Suc k"
    then have "raw ?q ! 3 = wire p ! 3"
      using pre len rawlen k260 by (intro take_eq_nth [OF pre]) (auto simp: raw_set_raw)
    then have "data_length ?q = data_length p"
      using packet_size_bounds(1) [of p] by (simp add: wire_nth)
    then show False using a Suc.prems by (simp add: packet_size_def)
  qed
  then have step: "usbReadByte ?d r' = (False, \<lparr>rd_packet = ?q, rd_so_far = Suc k\<rparr>)"
    using r'(2,3) start by (auto simp: usbReadByte_eq Let_def)
  moreover have "rd_inv \<lparr>rd_packet = ?q, rd_so_far = Suc k\<rparr>"
    using usbReadByte_inv [OF r'(2), of ?d] step by simp
  ultimately show ?case
    using r'(1) pre len by (auto simp: take_Suc_conv_app_nth read_stream_append)
qed

lemma read_wire:
  assumes "rd_idle r" and "valid_packet p"
  shows "\<exists>q r'. read_stream usbReadByte rd_packet (wire p) r = ([q], r') \<and> rd_idle r' \<and> valid_packet q \<and> wire q = wire p"
proof -
  let ?k = "packet_size p - 1"
  have k: "?k < packet_size p" "3 \<le> ?k" "?k < 260" "packet_size p = Suc ?k"
    using packet_size_bounds [of p] by auto
  from read_prefix [OF assms k(1)] obtain r' where
    r': "read_stream usbReadByte rd_packet (take ?k (wire p)) r = ([], r')"
    "rd_inv r'" "rd_so_far r' = ?k" "take ?k (raw (rd_packet r')) = take ?k (wire p)"
    by blast
  let ?q = "set_raw ?k (wire p ! ?k) (rd_packet r')"
  have wf: "wf_packet p" using assms(2) by (simp add: valid_packet_def)
  then have len: "length (wire p) = Suc ?k" using k(4) by (simp add: length_wire)
  have wfq: "wf_packet (rd_packet r')" using r'(2) by (simp add: rd_inv_def)
  then have rawlen: "length (raw (rd_packet r')) = 260" by (simp add: wf_packet_def packet_sizes)
  have whole: "wire p = take ?k (wire p) @ [wire p ! ?k]"
    using len by (metis lessI take_Suc_conv_app_nth take_all_iff le_refl)
  have pre: "take (Suc ?k) (raw ?q) = take (Suc ?k) (wire p)"
    using r'(4) rawlen k(3) len by (simp add: raw_set_raw take_Suc_conv_app_nth del: raw_nth)
      (use whole in simp)
  then have "raw ?q ! 3 = wire p ! 3"
    using len rawlen k by (intro take_eq_nth [OF pre]) (auto simp: raw_set_raw)
  then have size: "packet_size ?q = packet_size p"
    using k by (simp add: wire_nth packet_size_def)
  then have last: "usbReadByte (wire p ! ?k) r' = (True, \<lparr>rd_packet = ?q, rd_so_far = 0\<rparr>)"
    using r'(2,3) k by (auto simp: usbReadByte_eq Let_def)
  have "read_stream usbReadByte rd_packet (take ?k (wire p) @ [wire p ! ?k]) r =
      ([?q], \<lparr>rd_packet = ?q, rd_so_far = 0\<rparr>)"
    using r'(1) last by (simp add: read_stream_append)
  then have "read_stream usbReadByte rd_packet (wire p) r = ([?q], \<lparr>rd_packet = ?q, rd_so_far = 0\<rparr>)"
    by (simp only: whole [symmetric])
  moreover have "wire ?q = wire p"
    unfolding wire_def [of ?q] size by (metis pre k(4) len le_refl take_all_iff)
  moreover have "rd_idle \<lparr>rd_packet = ?q, rd_so_far = 0\<rparr>"
    using wfq by (simp add: rd_idle_def)
  moreover have "raw ?q ! 0 = wire p ! 0"
    using len rawlen by (intro take_eq_nth [OF pre]) (auto simp: raw_set_raw)
  then have "valid_packet ?q"
    using wfq assms(2) packet_size_bounds(1) [of p] by (simp add: valid_packet_def wire_nth)
  ultimately show ?thesis by blast
qed

interpretation usb: frame_reader usbReadByte rd_packet rd_idle is_noise wire valid_packet
proof unfold_locales
  fix s b p
  show "rd_idle s \<Longrightarrow> is_noise b \<Longrightarrow> usbReadByte b s = (False, s)"
    by (simp add: usbReadByte_def usbReadByte_with_def rd_idle_def is_noise_def)
  show "rd_idle s \<Longrightarrow> valid_packet p \<Longrightarrow>
      \<exists>q s'. read_stream usbReadByte rd_packet (wire p) s = ([q], s') \<and> rd_idle s' \<and> valid_packet q \<and> wire q = wire p"
    by (rule read_wire)
qed

section \<open>Properties\<close>

text \<open>
  C8 The byte-at-a-time reader recovers a stream of frames: whatever bytes other than the start
  byte separate, precede or follow them, every frame is delivered exactly once, in order, with
  its own bytes, whatever its checksum byte says, and the reader is left between frames.
\<close>

theorem usb_stream_recovered:
  assumes "rd_idle r"
    and "\<forall>(ns, p) \<in> set fs. list_all is_noise ns \<and> valid_packet p" and "list_all is_noise tail"
  shows "\<exists>qs r'. read_stream usbReadByte rd_packet (concat (map (\<lambda>(ns, p). ns @ wire p) fs) @ tail) r = (qs, r')
    \<and> rd_idle r' \<and> list_all valid_packet qs \<and> map wire qs = map (wire \<circ> snd) fs"
  by (rule usb.read_frames [OF assms])

definition example_packet :: "u8 \<Rightarrow> u8 \<Rightarrow> u8 \<Rightarrow> u8 \<Rightarrow> u8 list \<Rightarrow> usb_packet" where
  "example_packet s c k n bs = \<lparr>start_byte = s, crc8 = c, command = k, data_length = n,
     data = bs @ replicate (256 - length bs) 0\<rparr>"

lemma example_packet_simps [simp]:
  "start_byte (example_packet s c k n bs) = s" "crc8 (example_packet s c k n bs) = c"
  "command (example_packet s c k n bs) = k" "data_length (example_packet s c k n bs) = n"
  "length bs \<le> 256 \<Longrightarrow> wf_packet (example_packet s c k n bs)"
  by (simp_all add: example_packet_def wf_packet_def packet_sizes)

lemma example_idle [simp]: "rd_idle \<lparr>rd_packet = example_packet 0 0 0 0 [], rd_so_far = 0\<rparr>"
  by (simp add: rd_idle_def)

theorem usb_stream_recovered_witness:
  "\<exists>qs r'. read_stream usbReadByte rd_packet
      (concat (map (\<lambda>(ns, p). ns @ wire p)
        [([1, 2], example_packet 0x9A 7 0xE3 0 []), ([], example_packet 0x9A 8 0x61 1 [5])]) @ [3])
      \<lparr>rd_packet = example_packet 0 0 0 0 [], rd_so_far = 0\<rparr> = (qs, r') \<and> rd_idle r' \<and>
    list_all valid_packet qs \<and> map wire qs = map (wire \<circ> snd)
      [([1, 2 :: u8], example_packet 0x9A 7 0xE3 0 []), ([], example_packet 0x9A 8 0x61 1 [5])]"
  by (rule usb_stream_recovered) (simp_all add: valid_packet_def is_noise_def USB_PACKET_START_BYTE_def)

text \<open>
  C35 The reader never writes outside the packet and never counts past it: from a reader between
  frames, whatever bytes arrive, the write index stays below the packet's 260 bytes, and below the
  announced size once the length byte is in.
\<close>

theorem usb_reader_in_bounds:
  assumes "rd_idle r" and "snd (read_stream usbReadByte rd_packet bs r) = r'"
  shows "rd_so_far r' < USB_PACKET_MAX_SIZE \<and> length (data (rd_packet r')) = USB_PACKET_MAX_DATA_SIZE
    \<and> (3 < rd_so_far r' \<longrightarrow> rd_so_far r' < packet_size (rd_packet r'))"
  using read_stream_inv [OF rd_idle_inv [OF assms(1)], of bs] assms(2)
  by (simp add: rd_inv_def wf_packet_def)

theorem usb_reader_in_bounds_witness:
  "rd_so_far (snd (read_stream usbReadByte rd_packet [0x9A, 0, 0, 9, 1]
     \<lparr>rd_packet = example_packet 0 0 0 0 [], rd_so_far = 0\<rparr>)) < USB_PACKET_MAX_SIZE"
  using usb_reader_in_bounds [OF example_idle refl] by blast

lemma usbSend_wire:
  assumes "usbSend write p = (ok, bytes, q)"
  shows "q = p\<lparr>start_byte := USB_PACKET_START_BYTE\<rparr>" and "bytes = wire q"
  using assms by (auto simp: usbSend_def Let_def wire_def packet_size_def packet_sizes)

lemma wire_eqD:
  assumes "wire q = wire p" and "wf_packet q" and "wf_packet p"
  shows "command q = command p" "data_length q = data_length p"
    "take (unat (data_length p)) (data q) = take (unat (data_length p)) (data p)"
proof -
  have sz: "packet_size q = packet_size p" using assms by (metis length_wire)
  have "raw q ! i = raw p ! i" if "i < packet_size p" for i
    using that assms(1) sz by (metis wire_nth)
  from this [of 2] this [of 3] show "command q = command p" "data_length q = data_length p"
    using packet_size_bounds(1) [of p] by simp_all
  have "drop 4 (wire q) = drop 4 (wire p)" by (simp add: assms(1))
  then show "take (unat (data_length p)) (data q) = take (unat (data_length p)) (data p)"
    using sz by (simp add: wire_def raw_def packet_size_def packet_sizes drop_take)
qed

text \<open>
  What \<open>usbSend\<close> hands to the port, the reader turns back into the packet sent: one packet,
  with its command and its data, for every packet of whatever previous content.
\<close>

theorem usb_send_receive:
  assumes "usbSend write p = (ok, bytes, q)" and "wf_packet p" and "rd_idle r"
  shows "\<exists>p' r'. read_stream usbReadByte rd_packet bytes r = ([p'], r') \<and> rd_idle r' \<and>
    command p' = command p \<and> data_length p' = data_length p \<and>
    take (unat (data_length p)) (data p') = take (unat (data_length p)) (data p)"
proof -
  have q: "valid_packet q" "command q = command p" "data_length q = data_length p" "data q = data p"
    using usbSend_wire(1) [OF assms(1)] assms(2) by (auto simp: valid_packet_def wf_packet_def)
  from read_wire [OF assms(3) q(1)] obtain p' r' where
    p': "read_stream usbReadByte rd_packet (wire q) r = ([p'], r')" "rd_idle r'" "valid_packet p'"
      "wire p' = wire q" by blast
  with wire_eqD [OF p'(4)] q usbSend_wire(2) [OF assms(1)] show ?thesis
    by (auto simp: valid_packet_def)
qed

theorem usb_send_receive_witness:
  "\<exists>p' r'. read_stream usbReadByte rd_packet (fst (snd (usbSend (\<lambda>_. 1) (example_packet 0 3 0x61 1 [5]))))
      \<lparr>rd_packet = example_packet 0 0 0 0 [], rd_so_far = 0\<rparr> = ([p'], r') \<and> rd_idle r' \<and>
    command p' = 0x61 \<and> data_length p' = 1 \<and> take 1 (data p') = [5]"
proof -
  let ?s = "usbSend (\<lambda>_. 1) (example_packet 0 3 0x61 1 [5])"
  have "?s = (fst ?s, fst (snd ?s), snd (snd ?s))" by simp
  from usb_send_receive [OF this _ example_idle] show ?thesis
    by (simp add: example_packet_def wf_packet_def packet_sizes)
qed

lemma u32_difference:
  assumes "a < 260" and "t < 260" and "i < (t :: nat)"
  shows "nat ((int a - int i) mod 2 ^ 32) = t - i \<longleftrightarrow> a = t"
proof (cases "i \<le> a")
  case True
  then have "(int a - int i) mod 2 ^ 32 = int a - int i"
    using assms by (intro mod_pos_pos_trivial) auto
  then have "nat ((int a - int i) mod 2 ^ 32) = a - i" using True by simp
  then show ?thesis using True assms(3) by auto
next
  case False
  have "(int a - int i) mod 2 ^ 32 = (int a - int i + 2 ^ 32) mod 2 ^ 32" by simp
  also have "\<dots> = int a - int i + 2 ^ 32"
    using False assms by (intro mod_pos_pos_trivial) auto
  finally show ?thesis using False assms by auto
qed

text \<open>
  The resynchronisation counts the kept bytes from the length byte it finds after moving them:
  the count is the number of bytes moved exactly when the byte that lands on the length byte
  equals the old length. Otherwise the reader continues with a wrong count.
\<close>

theorem resync_count:
  assumes "wf_packet p"
    and "find (\<lambda>i. raw p ! i = USB_PACKET_START_BYTE) [1..<packet_size p] = Some i"
    and "i + 3 < packet_size p"
  shows "rd_so_far (resync p) = packet_size p - i \<longleftrightarrow> raw p ! (i + 3) = data_length p"
proof -
  let ?t = "packet_size p"
  let ?m = "of_raw (take (?t - i) (drop i (raw p)) @ drop (?t - i) (raw p))"
  have len: "length (raw p) = 260" using assms(1) by (simp add: wf_packet_def packet_sizes)
  have t: "?t < 260" by (rule packet_size_bounds)
  have "data_length ?m = raw p ! (i + 3)"
    using assms(3) len t less_diff_conv [of 3 ?t i] by (simp add: of_raw_def nth_append add.commute)
  then have sz: "packet_size ?m = unat (raw p ! (i + 3)) + 4"
    by (simp add: packet_size_def packet_sizes)
  have rd: "rd_so_far (resync p) = nat ((int (packet_size ?m) - int i) mod 2 ^ 32)"
    using assms(2) by (simp add: resync_def Let_def)
  have small: "packet_size ?m < 260" by (rule packet_size_bounds)
  have "i < ?t" using assms(3) by simp
  from u32_difference [OF small t this] have "rd_so_far (resync p) = ?t - i \<longleftrightarrow> packet_size ?m = ?t"
    by (simp only: rd)
  also have "\<dots> \<longleftrightarrow> unat (raw p ! (i + 3)) + 4 = unat (data_length p) + 4"
    by (simp only: sz) (simp add: packet_size_def packet_sizes)
  finally show ?thesis by (simp add: word_unat_eq_iff)
qed

theorem resync_count_witness:
  "let p = example_packet 0x9A 0 0x61 10 [1, 2, 0x9A, 4, 5, 0, 7, 8, 9, 10] in
   rd_so_far (resync p) \<noteq> packet_size p - 6"
proof -
  let ?p = "example_packet 0x9A 0 0x61 10 [1, 2, 0x9A, 4, 5, 0, 7, 8, 9, 10]"
  have f: "find (\<lambda>i. raw ?p ! i = USB_PACKET_START_BYTE) [1..<packet_size ?p] = Some 6"
    by (simp add: packet_size_def packet_sizes upt_rec example_packet_def raw_def USB_PACKET_START_BYTE_def)
  have "raw ?p ! (6 + 3) = 0" by (simp add: example_packet_def raw_def)
  then show ?thesis
    using resync_count [OF _ f] by (simp add: Let_def packet_size_def packet_sizes)
qed

end
