(* ===== verification/SensorParse.thy ===== *)
theory SensorParse
  imports UsbProtocol
begin

text \<open>
  The payload of a sensor packet, from \<open>tsf/sdk_cpp/finger_data.h\<close> and \<open>parseSensors\<close> of
  \<open>tsf/sdk_cpp/RobotiqTactileSensor.cpp\<close>: a sequence of records, each a type byte followed by
  big-endian values, copied into the data of one of two fingers. The specification side is a
  datatype of sensor records with its wire encoding and its effect on the finger data; the code
  is shown to implement it on every well-formed payload.
\<close>

unbundle bit_operations_syntax

section \<open>Finger data\<close>

definition FINGER_COUNT :: nat where "FINGER_COUNT = 2"
definition FINGER_STATIC_TACTILE_COUNT :: nat where "FINGER_STATIC_TACTILE_COUNT = 7 * 4"
definition FINGER_DYNAMIC_TACTILE_COUNT :: nat where "FINGER_DYNAMIC_TACTILE_COUNT = 1"

text \<open>
  The arrays are lists of the declared length. \<open>int16_t\<close> fields hold the sixteen bits stored
  through the \<open>uint16_t *\<close> casts; their value is \<open>sint\<close>.
\<close>

record finger_data =
  newDataAvailable :: bool
  staticTactile :: "u16 list"
  dynamicTactile :: "u16 list"
  accelerometer :: "u16 list"
  gyroscope :: "u16 list"
  temperature :: u16
  fd_timestamp :: u64
  baseline :: "u16 list"

record fingers =
  fs_timestamp :: int
  finger :: "finger_data list"

definition zero_finger :: finger_data where
  "zero_finger = \<lparr>newDataAvailable = False, staticTactile = replicate 28 0,
     dynamicTactile = [0], accelerometer = replicate 3 0, gyroscope = replicate 3 0,
     temperature = 0, fd_timestamp = 0, baseline = replicate 28 0\<rparr>"

definition zero_fingers :: fingers where
  "zero_fingers = \<lparr>fs_timestamp = 0, finger = replicate 2 zero_finger\<rparr>"

definition wf_finger :: "finger_data \<Rightarrow> bool" where
  "wf_finger d \<longleftrightarrow> length (staticTactile d) = FINGER_STATIC_TACTILE_COUNT \<and>
     length (dynamicTactile d) = FINGER_DYNAMIC_TACTILE_COUNT \<and>
     length (accelerometer d) = 3 \<and> length (gyroscope d) = 3 \<and>
     length (baseline d) = FINGER_STATIC_TACTILE_COUNT"

definition wf_fingers :: "fingers \<Rightarrow> bool" where
  "wf_fingers fs \<longleftrightarrow> length (finger fs) = FINGER_COUNT \<and> list_all wf_finger (finger fs)"

lemmas finger_counts =
  FINGER_COUNT_def FINGER_STATIC_TACTILE_COUNT_def FINGER_DYNAMIC_TACTILE_COUNT_def

section \<open>Sensor types\<close>

definition USB_SENSOR_TYPE_STATIC_TACTILE :: u8 where "USB_SENSOR_TYPE_STATIC_TACTILE = 0x10"
definition USB_SENSOR_TYPE_DYNAMIC_TACTILE :: u8 where "USB_SENSOR_TYPE_DYNAMIC_TACTILE = 0x20"
definition USB_SENSOR_TYPE_ACCELEROMETER :: u8 where "USB_SENSOR_TYPE_ACCELEROMETER = 0x30"
definition USB_SENSOR_TYPE_GYROSCOPE :: u8 where "USB_SENSOR_TYPE_GYROSCOPE = 0x40"
definition USB_SENSOR_TYPE_TEMPERATURE :: u8 where "USB_SENSOR_TYPE_TEMPERATURE = 0x60"
definition USB_SENSOR_TYPE_TIMESTAMP :: u8 where "USB_SENSOR_TYPE_TIMESTAMP = 0x70"

lemmas sensor_types =
  USB_SENSOR_TYPE_STATIC_TACTILE_def USB_SENSOR_TYPE_DYNAMIC_TACTILE_def
  USB_SENSOR_TYPE_ACCELEROMETER_def USB_SENSOR_TYPE_GYROSCOPE_def
  USB_SENSOR_TYPE_TEMPERATURE_def USB_SENSOR_TYPE_TIMESTAMP_def

section \<open>Reading big-endian values\<close>

definition parseBigEndian2 :: "u8 list \<Rightarrow> u16" where
  "parseBigEndian2 d = push_bit 8 (ucast (d ! 0)) OR ucast (d ! 1)"

text \<open>
  \<open>extractUint16\<close>: the loop index \<open>cur\<close>, the array written, the bytes read. The answer, the
  number of bytes consumed, is a \<open>uint8_t\<close>.
\<close>

function extractUint16_loop :: "nat \<Rightarrow> u16 list \<Rightarrow> nat \<Rightarrow> u8 list \<Rightarrow> nat \<Rightarrow> u16 list \<times> u8" where
  "extractUint16_loop cur to toCount d sz =
     (if 2 * cur + 1 < sz \<and> cur < toCount
      then extractUint16_loop (cur + 1) (to[cur := parseBigEndian2 (drop (2 * cur) d)]) toCount d sz
      else (to, word_of_nat (cur * 2)))"
  by pat_completeness auto
termination
  by (relation "measure (\<lambda>(cur, to, toCount, d, sz). toCount - cur)") auto

declare extractUint16_loop.simps [simp del]

definition extractUint16 :: "u16 list \<Rightarrow> nat \<Rightarrow> u8 list \<Rightarrow> nat \<Rightarrow> u16 list \<times> u8" where
  "extractUint16 to toCount d sz = extractUint16_loop 0 to toCount d sz"

definition parseBigEndian8 :: "u8 list \<Rightarrow> u64" where
  "parseBigEndian8 d =
     push_bit 56 (ucast (d ! 0)) OR push_bit 48 (ucast (d ! 1)) OR
     push_bit 40 (ucast (d ! 2)) OR push_bit 32 (ucast (d ! 3)) OR
     push_bit 24 (ucast (d ! 4)) OR push_bit 16 (ucast (d ! 5)) OR
     push_bit 8 (ucast (d ! 6)) OR ucast (d ! 7)"

function extractUint64_loop :: "nat \<Rightarrow> u64 list \<Rightarrow> nat \<Rightarrow> u8 list \<Rightarrow> nat \<Rightarrow> u64 list \<times> nat" where
  "extractUint64_loop cur to toCount d sz =
     (if 8 * cur + 7 < sz \<and> cur < toCount
      then extractUint64_loop (cur + 1) (to[cur := parseBigEndian8 (drop (8 * cur) d)]) toCount d sz
      else (to, cur * 8))"
  by pat_completeness auto
termination
  by (relation "measure (\<lambda>(cur, to, toCount, d, sz). toCount - cur)") auto

declare extractUint64_loop.simps [simp del]

definition extractUint64 :: "u64 list \<Rightarrow> nat \<Rightarrow> u8 list \<Rightarrow> nat \<Rightarrow> u64 list \<times> nat" where
  "extractUint64 to toCount d sz = extractUint64_loop 0 to toCount d sz"

section \<open>Parsing a packet\<close>

text \<open>
  The \<open>switch\<close> of \<open>parseSensors\<close>: the bytes consumed by one record's payload and the finger
  after it. An unknown type consumes nothing. A single value is an array of one element.
\<close>

definition parse_record :: "u8 \<Rightarrow> u8 list \<Rightarrow> nat \<Rightarrow> finger_data \<Rightarrow> nat \<times> finger_data" where
  "parse_record sensorType d sz fd =
     (if sensorType = USB_SENSOR_TYPE_DYNAMIC_TACTILE then
        (let (to, n) = extractUint16 (dynamicTactile fd) FINGER_DYNAMIC_TACTILE_COUNT d sz
         in (unat n, fd\<lparr>dynamicTactile := to, newDataAvailable := True\<rparr>))
      else if sensorType = USB_SENSOR_TYPE_STATIC_TACTILE then
        (let (to, n) = extractUint16 (staticTactile fd) FINGER_STATIC_TACTILE_COUNT d sz
         in (unat n, fd\<lparr>staticTactile := to, newDataAvailable := True\<rparr>))
      else if sensorType = USB_SENSOR_TYPE_ACCELEROMETER then
        (let (to, n) = extractUint16 (accelerometer fd) 3 d sz
         in (unat n, fd\<lparr>accelerometer := to, newDataAvailable := True\<rparr>))
      else if sensorType = USB_SENSOR_TYPE_GYROSCOPE then
        (let (to, n) = extractUint16 (gyroscope fd) 3 d sz
         in (unat n, fd\<lparr>gyroscope := to, newDataAvailable := True\<rparr>))
      else if sensorType = USB_SENSOR_TYPE_TEMPERATURE then
        (let (to, n) = extractUint16 [temperature fd] 1 d sz
         in (unat n, fd\<lparr>temperature := hd to, newDataAvailable := True\<rparr>))
      else if sensorType = USB_SENSOR_TYPE_TIMESTAMP then
        (let (to, n) = extractUint64 [fd_timestamp fd] 1 d sz
         in (n, fd\<lparr>fd_timestamp := hd to, newDataAvailable := True\<rparr>))
      else (0, fd))"

text \<open>
  The loop of \<open>parseSensors\<close> from index \<open>i\<close>, over the packet's data array and its length. The
  finger number is two bits, so it can be 2 or 3; those records lose their type byte only.
\<close>

function parse_from :: "nat \<Rightarrow> u8 list \<Rightarrow> nat \<Rightarrow> fingers \<Rightarrow> fingers" where
  "parse_from i d len fs =
     (if i < len then
        let sensorType = (d ! i) AND 0xF0;
            f = unat (drop_bit 2 (d ! i) AND 3)
        in if FINGER_COUNT \<le> f then parse_from (i + 1) d len fs
           else
             let (n, fd) = parse_record sensorType (drop (i + 1) d) (len - (i + 1)) (finger fs ! f)
             in parse_from (i + 1 + n) d len (fs\<lparr>finger := (finger fs)[f := fd]\<rparr>)
      else fs)"
  by pat_completeness auto
termination
  by (relation "measure (\<lambda>(i, d, len, fs). len - i)") auto

declare parse_from.simps [simp del]

definition parseSensors :: "usb_packet \<Rightarrow> fingers \<Rightarrow> fingers" where
  "parseSensors p fs = parse_from 0 (data p) (unat (data_length p)) fs"

section \<open>What the extraction loops compute\<close>

lemma extractUint16_loop_eq:
  assumes "cur \<le> min toCount (sz div 2)" and "toCount = length to"
  shows "extractUint16_loop cur to toCount d sz =
    (let n = min toCount (sz div 2)
     in (take cur to @ map (\<lambda>i. parseBigEndian2 (drop (2 * i) d)) [cur..<n] @ drop n to, word_of_nat (n * 2)))"
  using assms
proof (induction cur to toCount d sz rule: extractUint16_loop.induct)
  case (1 cur to toCount d sz)
  let ?n = "min toCount (sz div 2)"
  show ?case
  proof (cases "2 * cur + 1 < sz \<and> cur < toCount")
    case True
    then have lt: "cur < ?n" by auto
    let ?v = "parseBigEndian2 (drop (2 * cur) d)"
    have upt: "[cur..<?n] = cur # [Suc cur..<?n]" using lt by (simp add: upt_conv_Cons)
    have "take (Suc cur) (to[cur := ?v]) = take cur to @ [?v]"
      using lt "1.prems"(2) by (simp add: take_Suc_conv_app_nth)
    moreover have "drop ?n (to[cur := ?v]) = drop ?n to" using lt by simp
    ultimately show ?thesis
      using "1.IH" [OF True] "1.prems" True lt upt
      by (subst extractUint16_loop.simps) (simp add: Let_def)
  next
    case False
    then have "extractUint16_loop cur to toCount d sz = (to, word_of_nat (cur * 2))"
      by (subst extractUint16_loop.simps) (simp only: if_False)
    moreover from False "1.prems" have "cur = ?n" by auto
    ultimately show ?thesis by (simp add: Let_def)
  qed
qed

lemma extractUint16_eq:
  "extractUint16 to (length to) d sz =
    (let n = min (length to) (sz div 2)
     in (map (\<lambda>i. parseBigEndian2 (drop (2 * i) d)) [0..<n] @ drop n to, word_of_nat (n * 2)))"
  unfolding extractUint16_def by (subst extractUint16_loop_eq) (auto simp: Let_def)

lemma length_extractUint16: "length (fst (extractUint16 to (length to) d sz)) = length to"
  by (simp add: extractUint16_eq Let_def)

lemma extractUint64_one:
  "extractUint64 [t] (Suc 0) d sz = (if 7 < sz then ([parseBigEndian8 d], 8) else ([t], 0))"
  by (simp add: extractUint64_def extractUint64_loop.simps)

section \<open>The finger data stays well formed\<close>

lemma wf_fingerD:
  assumes "wf_finger fd"
  shows "FINGER_STATIC_TACTILE_COUNT = length (staticTactile fd)"
    "FINGER_DYNAMIC_TACTILE_COUNT = length (dynamicTactile fd)"
    "3 = length (accelerometer fd)" "3 = length (gyroscope fd)"
  using assms by (simp_all add: wf_finger_def)

lemma wf_parse_record:
  assumes "wf_finger fd"
  shows "wf_finger (snd (parse_record ty d sz fd))"
  using assms length_extractUint16 [of "dynamicTactile fd" d sz]
    length_extractUint16 [of "staticTactile fd" d sz]
    length_extractUint16 [of "accelerometer fd" d sz] length_extractUint16 [of "gyroscope fd" d sz]
  by (auto simp: parse_record_def wf_finger_def split: prod.splits)

lemma wf_parse_from: "wf_fingers fs \<Longrightarrow> wf_fingers (parse_from i d len fs)"
proof (induction i d len fs rule: parse_from.induct)
  case (1 i d len fs)
  let ?f = "unat (drop_bit 2 (d ! i) AND 3)"
  obtain n fd where rec: "parse_record (d ! i AND 0xF0) (drop (i + 1) d) (len - (i + 1)) (finger fs ! ?f) = (n, fd)"
    by force
  have upd: "wf_fingers (fs\<lparr>finger := (finger fs)[?f := fd]\<rparr>)" if "?f < FINGER_COUNT"
  proof -
    have "wf_finger (finger fs ! ?f)"
      using that "1.prems" by (simp add: wf_fingers_def list_all_length)
    from wf_parse_record [OF this, of "d ! i AND 0xF0" "drop (i + 1) d" "len - (i + 1)"] rec
    have "wf_finger fd" by simp
    then show ?thesis using "1.prems" that
      by (auto simp: wf_fingers_def list_all_length nth_list_update)
  qed
  show ?case
    using "1.IH" "1.prems" upd rec
    by (subst parse_from.simps) (auto simp: Let_def not_le)
qed

section \<open>Sensor records: the specification\<close>

datatype sensor_record =
    Static "u16 list"
  | Dynamic "u16 list"
  | Acceleration "u16 list"
  | Gyration "u16 list"
  | Temperature u16
  | Timestamp u64

fun valid_record :: "sensor_record \<Rightarrow> bool" where
  "valid_record (Static vs) = (length vs = 28)"
| "valid_record (Dynamic vs) = (length vs = 1)"
| "valid_record (Acceleration vs) = (length vs = 3)"
| "valid_record (Gyration vs) = (length vs = 3)"
| "valid_record (Temperature v) = True"
| "valid_record (Timestamp v) = True"

fun record_type :: "sensor_record \<Rightarrow> u8" where
  "record_type (Static vs) = 0x10"
| "record_type (Dynamic vs) = 0x20"
| "record_type (Acceleration vs) = 0x30"
| "record_type (Gyration vs) = 0x40"
| "record_type (Temperature v) = 0x60"
| "record_type (Timestamp v) = 0x70"

definition encode16 :: "u16 \<Rightarrow> u8 list" where
  "encode16 v = [high8 v, low8 v]"

definition encode64 :: "u64 \<Rightarrow> u8 list" where
  "encode64 v = map (\<lambda>k. ucast (drop_bit (8 * (7 - k)) v)) [0..<8]"

fun payload :: "sensor_record \<Rightarrow> u8 list" where
  "payload (Static vs) = concat (map encode16 vs)"
| "payload (Dynamic vs) = concat (map encode16 vs)"
| "payload (Acceleration vs) = concat (map encode16 vs)"
| "payload (Gyration vs) = concat (map encode16 vs)"
| "payload (Temperature v) = encode16 v"
| "payload (Timestamp v) = encode64 v"

text \<open>The type byte: the type in the high nibble, the finger in bits 2 and 3, an index below.\<close>

definition type_byte :: "nat \<Rightarrow> u8 \<Rightarrow> sensor_record \<Rightarrow> u8" where
  "type_byte f index r = record_type r OR push_bit 2 (word_of_nat f) OR index"

fun store_record :: "sensor_record \<Rightarrow> finger_data \<Rightarrow> finger_data" where
  "store_record (Static vs) fd = fd\<lparr>staticTactile := vs, newDataAvailable := True\<rparr>"
| "store_record (Dynamic vs) fd = fd\<lparr>dynamicTactile := vs, newDataAvailable := True\<rparr>"
| "store_record (Acceleration vs) fd = fd\<lparr>accelerometer := vs, newDataAvailable := True\<rparr>"
| "store_record (Gyration vs) fd = fd\<lparr>gyroscope := vs, newDataAvailable := True\<rparr>"
| "store_record (Temperature v) fd = fd\<lparr>temperature := v, newDataAvailable := True\<rparr>"
| "store_record (Timestamp v) fd = fd\<lparr>fd_timestamp := v, newDataAvailable := True\<rparr>"

text \<open>A record with its finger and the index bits of its type byte.\<close>

type_synonym addressed_record = "nat \<times> u8 \<times> sensor_record"

definition valid_addressed :: "addressed_record \<Rightarrow> bool" where
  "valid_addressed = (\<lambda>(f, index, r). f < 2 \<and> index < 4 \<and> valid_record r)"

definition encode_record :: "addressed_record \<Rightarrow> u8 list" where
  "encode_record = (\<lambda>(f, index, r). type_byte f index r # payload r)"

definition apply_record :: "addressed_record \<Rightarrow> fingers \<Rightarrow> fingers" where
  "apply_record = (\<lambda>(f, index, r) fs. fs\<lparr>finger := (finger fs)[f := store_record r (finger fs ! f)]\<rparr>)"

section \<open>The code implements the specification\<close>

lemma parseBigEndian2_encode16: "parseBigEndian2 (encode16 v @ xs) = v"
  by (simp add: parseBigEndian2_def encode16_def bytes)

lemma join_next_byte:
  "push_bit (k + 8) (drop_bit (k + 8) v) OR push_bit k (ucast (ucast (drop_bit k v) :: u8)) =
    push_bit k (drop_bit k (v :: u64))"
proof (rule bit_word_eqI)
  fix n
  have "k + 8 \<le> n \<Longrightarrow> k + 8 + (n - (k + 8)) = n" and "\<not> k + 8 \<le> n \<Longrightarrow> k \<le> n \<Longrightarrow> n - k < 8"
    by auto
  then show "bit (push_bit (k + 8) (drop_bit (k + 8) v) OR push_bit k (ucast (ucast (drop_bit k v) :: u8))) n
      = bit (push_bit k (drop_bit k v)) n" if "n < LENGTH(64)"
    using that by (cases "k + 8 \<le> n") (auto simp: bit_simps)
qed

lemma join_first_byte:
  "push_bit 56 (ucast (ucast (drop_bit 56 v) :: u8)) = push_bit 56 (drop_bit 56 (v :: u64))"
  by (rule bit_word_eqI) (auto simp: bit_simps)

lemma parseBigEndian8_encode64: "parseBigEndian8 (encode64 v @ xs) = v"
proof -
  have "[0..<8] = [0, 1, 2, 3, 4, 5, 6, 7::nat]" by (simp add: upt_rec)
  then show ?thesis
    using join_next_byte [of 48 v] join_next_byte [of 40 v] join_next_byte [of 32 v]
      join_next_byte [of 24 v] join_next_byte [of 16 v] join_next_byte [of 8 v] join_next_byte [of 0 v]
    by (simp add: parseBigEndian8_def encode64_def join_first_byte or.assoc [symmetric])
qed

lemma length_concat_encode16 [simp]: "length (concat (map encode16 vs)) = 2 * length vs"
  by (induction vs) (auto simp: encode16_def)

lemma length_encode64 [simp]: "length (encode64 v) = 8"
  by (simp add: encode64_def)

lemma drop_encoded:
  "i < length vs \<Longrightarrow>
    drop (2 * i) (concat (map encode16 vs)) = encode16 (vs ! i) @ concat (map encode16 (drop (Suc i) vs))"
proof (induction vs arbitrary: i)
  case (Cons v vs)
  then show ?case by (cases i) (auto simp: encode16_def)
qed simp

lemma extractUint16_encoded:
  assumes "length to = length vs" and "2 * length vs \<le> sz" and "2 * length vs < 256"
  shows "extractUint16 to (length vs) (concat (map encode16 vs) @ xs) sz = (vs, word_of_nat (2 * length vs))"
proof -
  let ?d = "concat (map encode16 vs) @ xs"
  have "map (\<lambda>i. parseBigEndian2 (drop (2 * i) ?d)) [0..<length vs] = vs"
    by (rule nth_equalityI) (auto simp: drop_encoded parseBigEndian2_encode16)
  moreover have "min (length to) (sz div 2) = length vs" using assms by auto
  ultimately show ?thesis
    using extractUint16_eq [of to ?d sz] assms(1) by (simp add: Let_def mult.commute)
qed

lemma parse_record_encoded:
  assumes "valid_record r" and "wf_finger fd" and "length (payload r) \<le> sz"
  shows "parse_record (record_type r) (payload r @ xs) sz fd = (length (payload r), store_record r fd)"
proof -
  show ?thesis
  proof (cases r)
    case (Temperature v)
    then show ?thesis using assms extractUint16_encoded [of "[temperature fd]" "[v]" sz xs]
      by (simp add: parse_record_def sensor_types encode16_def)
  next
    case (Timestamp v)
    then show ?thesis using assms
      by (simp add: parse_record_def sensor_types extractUint64_one parseBigEndian8_encode64)
  next
    case (Static vs)
    then show ?thesis using assms extractUint16_encoded [of "staticTactile fd" vs sz xs]
      by (simp add: parse_record_def sensor_types wf_finger_def finger_counts)
  next
    case (Dynamic vs)
    then show ?thesis using assms extractUint16_encoded [of "dynamicTactile fd" vs sz xs]
      by (simp add: parse_record_def sensor_types wf_finger_def finger_counts)
  next
    case (Acceleration vs)
    then show ?thesis using assms extractUint16_encoded [of "accelerometer fd" vs sz xs]
      by (simp add: parse_record_def sensor_types wf_finger_def finger_counts)
  next
    case (Gyration vs)
    then show ?thesis using assms extractUint16_encoded [of "gyroscope fd" vs sz xs]
      by (simp add: parse_record_def sensor_types wf_finger_def finger_counts)
  qed
qed

lemma small_index: "index < (4 :: u8) \<Longrightarrow> index = 0 \<or> index = 1 \<or> index = 2 \<or> index = 3"
proof -
  assume "index < 4"
  then have "unat index < 4" by (simp add: word_less_nat_alt)
  moreover obtain n where n: "n = unat index" by simp
  ultimately have "n = 0 \<or> n = 1 \<or> n = 2 \<or> n = 3" by auto
  moreover have "index = word_of_nat n" by (simp add: n)
  ultimately show ?thesis by auto
qed

lemma type_byte_fields:
  assumes "f < 2" and "index < 4"
  shows "type_byte f index r AND 0xF0 = record_type r"
    and "unat (drop_bit 2 (type_byte f index r) AND 3) = f"
proof -
  have f: "f = 0 \<or> f = 1" using assms(1) by auto
  show "type_byte f index r AND 0xF0 = record_type r"
    using f small_index [OF assms(2)] by (cases r) (auto simp: type_byte_def)
  show "unat (drop_bit 2 (type_byte f index r) AND 3) = f"
    using f small_index [OF assms(2)] by (cases r) (auto simp: type_byte_def)
qed

lemma apply_record_wf:
  assumes "wf_fingers fs" and "valid_addressed a"
  shows "wf_fingers (apply_record a fs)"
proof -
  obtain f index r where a: "a = (f, index, r)" by (cases a)
  with assms have f: "f < length (finger fs)" "wf_finger (finger fs ! f)" "valid_record r"
    by (auto simp: valid_addressed_def wf_fingers_def list_all_length finger_counts)
  then have "wf_finger (store_record r (finger fs ! f))"
    by (cases r) (auto simp: wf_finger_def finger_counts)
  then show ?thesis
    using assms(1) f by (auto simp: apply_record_def a wf_fingers_def list_all_length nth_list_update)
qed

lemma parse_step_encoded:
  assumes "valid_addressed a" and "wf_fingers fs"
    and "drop i d = encode_record a @ xs" and "i + length (encode_record a) \<le> len"
  shows "parse_from i d len fs = parse_from (i + length (encode_record a)) d len (apply_record a fs)"
proof -
  obtain f index r where a: "a = (f, index, r)" by (cases a)
  have v: "f < 2" "index < 4" "valid_record r" using assms(1) by (simp_all add: a valid_addressed_def)
  have di: "d ! i = type_byte f index r" and rest: "drop (i + 1) d = payload r @ xs"
    using assms(3) by (simp_all add: a encode_record_def) (metis nth_via_drop, metis drop_Suc tl_drop list.sel(3))
  have wf: "wf_finger (finger fs ! f)"
    using assms(2) v(1) by (simp add: wf_fingers_def list_all_length finger_counts)
  have "length (payload r) \<le> len - (i + 1)" and "i < len"
    using assms(4) by (simp_all add: a encode_record_def)
  with parse_record_encoded [OF v(3) wf, of "len - (i + 1)" xs] show ?thesis
    using v rest type_byte_fields [OF v(1,2), of r]
    by (subst parse_from.simps) (simp add: di a encode_record_def apply_record_def finger_counts add.assoc)
qed

lemma parse_from_encoded:
  assumes "list_all valid_addressed rs" and "wf_fingers fs"
    and "drop i d = concat (map encode_record rs) @ xs"
  shows "parse_from i d (i + length (concat (map encode_record rs))) fs = fold apply_record rs fs"
  using assms
proof (induction rs arbitrary: i fs)
  case Nil
  then show ?case by (subst parse_from.simps) simp
next
  case (Cons a rs)
  let ?rest = "concat (map encode_record rs)"
  let ?j = "i + length (encode_record a)"
  have "drop i d = encode_record a @ ?rest @ xs" using Cons.prems(3) by simp
  then have "parse_from i d (i + length (concat (map encode_record (a # rs)))) fs =
      parse_from ?j d (?j + length ?rest) (apply_record a fs)"
    using Cons.prems parse_step_encoded [of a fs i d "?rest @ xs"] by (simp add: add.assoc)
  moreover have "drop ?j d = drop (length (encode_record a)) (drop i d)" by (simp add: add.commute)
  then have "drop ?j d = ?rest @ xs" using Cons.prems(3) by simp
  ultimately show ?case
    using Cons.IH [of "apply_record a fs" ?j] Cons.prems(1,2) by (simp add: apply_record_wf)
qed

section \<open>What the parser reads\<close>

lemma extractUint16_local:
  assumes "take sz d = take sz d'" and "sz \<le> length d" and "sz \<le> length d'"
  shows "extractUint16 to (length to) d sz = extractUint16 to (length to) d' sz"
proof -
  have same: "d ! j = d' ! j" if "j < sz" for j
    using assms that by (metis nth_take)
  have "parseBigEndian2 (drop (2 * i) d) = parseBigEndian2 (drop (2 * i) d')"
    if "i < min (length to) (sz div 2)" for i
  proof -
    from that have "Suc (2 * i) < sz" by auto
    with assms(2,3) same show ?thesis by (simp add: parseBigEndian2_def)
  qed
  then show ?thesis by (simp add: extractUint16_eq Let_def)
qed

lemma extractUint64_local:
  assumes "take sz d = take sz d'" and "sz \<le> length d" and "sz \<le> length d'"
  shows "extractUint64 [t] (Suc 0) d sz = extractUint64 [t] (Suc 0) d' sz"
proof -
  have "d ! j = d' ! j" if "j < sz" for j
    using assms that by (metis nth_take)
  then show ?thesis by (simp add: extractUint64_one parseBigEndian8_def)
qed

lemma parse_record_local:
  assumes "take sz d = take sz d'" and "sz \<le> length d" and "sz \<le> length d'" and "wf_finger fd"
  shows "parse_record ty d sz fd = parse_record ty d' sz fd"
  using extractUint16_local [OF assms(1-3), of "dynamicTactile fd"]
    extractUint16_local [OF assms(1-3), of "staticTactile fd"]
    extractUint16_local [OF assms(1-3), of "accelerometer fd"]
    extractUint16_local [OF assms(1-3), of "gyroscope fd"]
    extractUint16_local [OF assms(1-3), of "[temperature fd]"]
    extractUint64_local [OF assms(1-3)] assms(4)
  by (simp add: parse_record_def wf_finger_def)

lemma parse_from_local:
  assumes "take len d = take len d'" and "len \<le> length d" and "len \<le> length d'" and "wf_fingers fs"
  shows "parse_from i d len fs = parse_from i d' len fs"
  using assms
proof (induction i d len fs rule: parse_from.induct)
  case (1 i d len fs)
  show ?case
  proof (cases "i < len")
    case False
    then show ?thesis by (simp add: parse_from.simps [of i])
  next
    case True
    let ?f = "unat (drop_bit 2 (d ! i) AND 3)"
    let ?step = "\<lambda>d. parse_record (d ! i AND 0xF0) (drop (i + 1) d) (len - (i + 1)) (finger fs ! ?f)"
    have same: "d ! i = d' ! i" using "1.prems" True by (metis nth_take)
    show ?thesis
    proof (cases "FINGER_COUNT \<le> ?f")
      case True
      then show ?thesis
        using "1.IH"(1) [OF \<open>i < len\<close> refl refl] "1.prems" same \<open>i < len\<close>
        by (simp add: parse_from.simps [of i])
    next
      case False
      have wf: "wf_finger (finger fs ! ?f)"
        using False "1.prems"(4) by (simp add: wf_fingers_def list_all_length)
      have rest: "take (len - (i + 1)) (drop (i + 1) d) = take (len - (i + 1)) (drop (i + 1) d')"
        using "1.prems"(1) by (metis drop_take)
      have rec: "?step d = ?step d'"
        using parse_record_local [OF rest _ _ wf] "1.prems"(2,3) same by simp
      obtain n fd where step: "?step d = (n, fd)" by force
      have "wf_finger fd" using wf_parse_record [OF wf] step by (metis snd_conv)
      then have "wf_fingers (fs\<lparr>finger := (finger fs)[?f := fd]\<rparr>)"
        using "1.prems"(4) False by (auto simp: wf_fingers_def list_all_length nth_list_update)
      with "1.IH"(2) [OF \<open>i < len\<close> refl refl False step [symmetric] refl] "1.prems" rec step same \<open>i < len\<close> False
      show ?thesis by (simp add: parse_from.simps [of i])
    qed
  qed
qed

text \<open>A record the switch does not know, or of a finger that does not exist, loses its type byte only.\<close>

definition known_type :: "u8 \<Rightarrow> bool" where
  "known_type ty \<longleftrightarrow> ty \<in> {0x10, 0x20, 0x30, 0x40, 0x60, 0x70}"

lemma parse_skips_type_byte:
  assumes "i < len" and "\<not> known_type (d ! i AND 0xF0) \<or> 2 \<le> unat (drop_bit 2 (d ! i) AND 3)"
  shows "parse_from i d len fs = parse_from (Suc i) d len fs"
  using assms
  by (subst parse_from.simps) (auto simp: parse_record_def sensor_types known_type_def finger_counts Let_def)

section \<open>Properties\<close>

lemma parseSensors_encoded:
  assumes "wf_packet p" and "take (unat (data_length p)) (data p) = concat (map encode_record rs)"
    and "list_all valid_addressed rs" and "wf_fingers fs"
  shows "parseSensors p fs = fold apply_record rs fs"
proof -
  let ?n = "unat (data_length p)"
  have n: "?n = length (concat (map encode_record rs))"
    using assms(1,2) unat_u8_bound [of "data_length p"]
    by (metis length_take min.absorb2 less_imp_le wf_packet_def USB_PACKET_MAX_DATA_SIZE_def)
  have "drop 0 (data p) = concat (map encode_record rs) @ drop ?n (data p)"
    by (metis append_take_drop_id assms(2) drop0)
  from parse_from_encoded [OF assms(3,4) this] n show ?thesis
    by (simp add: parseSensors_def)
qed

text \<open>
  C10 The parser implements the payload's grammar: for every list of well-formed records of the
  two fingers, in any order and with any index bits, parsing the packet that encodes them has
  exactly the effect of applying the records one after the other.
\<close>

theorem parseSensors_refines:
  assumes "wf_packet p" and "take (unat (data_length p)) (data p) = concat (map encode_record rs)"
    and "list_all valid_addressed rs" and "wf_fingers fs"
  shows "parseSensors p fs = fold apply_record rs fs"
  by (rule parseSensors_encoded [OF assms])

lemma wf_zero_fingers [simp]: "wf_fingers zero_fingers"
  by (simp add: wf_fingers_def zero_fingers_def wf_finger_def zero_finger_def finger_counts numeral_2_eq_2)

theorem parseSensors_refines_witness:
  "temperature (finger (parseSensors (example_packet 0x9A 0 0x58 6 [0x64, 1, 2, 0x25, 0xFF, 0xFE]) zero_fingers) ! 1)
     = 258 \<and>
   dynamicTactile (finger (parseSensors (example_packet 0x9A 0 0x58 6 [0x64, 1, 2, 0x25, 0xFF, 0xFE]) zero_fingers) ! 1)
     = [0xFFFE]"
proof -
  have "parseSensors (example_packet 0x9A 0 0x58 6 [0x64, 1, 2, 0x25, 0xFF, 0xFE]) zero_fingers =
      fold apply_record [(1, 0, Temperature 258), (1, 1, Dynamic [0xFFFE])] zero_fingers"
    by (rule parseSensors_refines)
      (simp_all add: example_packet_def wf_packet_def packet_sizes encode_record_def type_byte_def
        encode16_def valid_addressed_def)
  then show ?thesis by (simp add: apply_record_def zero_fingers_def numeral_2_eq_2)
qed

text \<open>
  A record of a type the switch does not know is not skipped: only its type byte is, and the
  bytes of its payload are read as the records they happen to spell.
\<close>

theorem parseSensors_unknown_type:
  assumes "wf_packet p" and "take (unat (data_length p)) (data p) = t # concat (map encode_record rs)"
    and "\<not> known_type (t AND 0xF0)" and "list_all valid_addressed rs" and "wf_fingers fs"
  shows "parseSensors p fs = fold apply_record rs fs"
proof -
  let ?n = "unat (data_length p)"
  have len: "?n \<le> length (data p)"
    using assms(1) unat_u8_bound [of "data_length p"] by (simp add: wf_packet_def packet_sizes)
  have whole: "data p = (t # concat (map encode_record rs)) @ drop ?n (data p)"
    by (metis append_take_drop_id assms(2))
  have n: "?n = 1 + length (concat (map encode_record rs))"
    using arg_cong [OF assms(2), of length] len by simp
  have "data p ! 0 = t" and "drop 1 (data p) = concat (map encode_record rs) @ drop ?n (data p)"
    by (subst whole, simp)+
  with parse_skips_type_byte [of 0 ?n "data p" fs] parse_from_encoded [OF assms(4,5), of 1 "data p"]
    assms(3) n
  show ?thesis by (simp add: parseSensors_def)
qed

theorem parseSensors_unknown_type_witness:
  "temperature (finger (parseSensors (example_packet 0x9A 0 0x58 4 [0x80, 0x60, 1, 2]) zero_fingers) ! 0) = 258"
proof -
  have "parseSensors (example_packet 0x9A 0 0x58 4 [0x80, 0x60, 1, 2]) zero_fingers =
      fold apply_record [(0, 0, Temperature 258)] zero_fingers"
    by (rule parseSensors_unknown_type [where t = "0x80"])
      (simp_all add: example_packet_def wf_packet_def packet_sizes encode_record_def type_byte_def
        encode16_def valid_addressed_def known_type_def)
  then show ?thesis by (simp add: apply_record_def zero_fingers_def numeral_2_eq_2)
qed

end
