(* ===== verification/TactileSensor.thy ===== *)
theory TactileSensor
  imports SensorParse
begin

text \<open>
  The class \<open>RobotiqTactileSensor\<close> of \<open>tsf/sdk_cpp/RobotiqTactileSensor.{h,cpp}\<close>: its
  constructor, \<open>start\<close>/\<open>stop\<close>, the read thread \<open>threadLoop\<close>, \<open>getFirmwareVersion\<close> and
  \<open>findBaseline\<close>. The user's calls and the thread's iterations are the steps of one machine: each
  access the code guards with a mutex, and each atomic member, is read or written inside one step.
  libserialport is not modelled; the results of its calls are inputs of the steps.
\<close>

section \<open>State\<close>

text \<open>The locals of \<open>threadLoop\<close>; times are in milliseconds of the steady clock.\<close>

record thread_local =
  tl_send :: usb_packet
  tl_reader :: usb_reader
  tl_fingers :: fingers
  tl_received_bytes :: u32
  tl_rate_time :: int
  tl_start_time :: int

text \<open>
  \<open>m_thread\<close>: default constructed (not joinable), spawned and not yet in its loop, in its loop, or
  returned. The last three are joinable; only the destructor joins.
\<close>

datatype thread_state = NoThread | Spawned | Running thread_local | Exited

record sensor =
  m_running :: bool
  m_connected :: bool
  m_has_callback :: bool
  m_period_ms :: u32
  m_last_error :: string
  m_data_rate :: u64
  m_calculating_baseline :: bool
  m_baseline_samples :: "fingers list"
  m_firmware_version :: "u8 list"
  m_version_ready :: bool
  m_thread :: thread_state

text \<open>What the outside sees: bytes written to the port, callbacks, a notified condition variable.\<close>

datatype event = Sent "u8 list" | Callback fingers | VersionNotified

definition joinable :: "thread_state \<Rightarrow> bool" where
  "joinable t \<longleftrightarrow> t \<noteq> NoThread"

section \<open>The read thread\<close>

text \<open>
  The locals at the head of the loop. \<open>send\<close> and \<open>recv\<close> are uninitialised structs, arguments here;
  the two timers are two readings of the clock.
\<close>

definition init_local :: "usb_packet \<Rightarrow> usb_packet \<Rightarrow> int \<Rightarrow> int \<Rightarrow> thread_local" where
  "init_local sent recv now1 now2 = \<lparr>tl_send = sent, tl_reader = \<lparr>rd_packet = recv, rd_so_far = 0\<rparr>,
     tl_fingers = zero_fingers, tl_received_bytes = 0, tl_rate_time = now2, tl_start_time = now1\<rparr>"

text \<open>
  The auto-send message at both ends of the loop: one data byte, the period on entry and 0 on
  exit. \<open>send.data[0] = m_period_ms\<close> keeps the low eight bits of the period. The write's answer is
  ignored.
\<close>

definition autosend_packet :: "u8 \<Rightarrow> usb_packet \<Rightarrow> usb_packet" where
  "autosend_packet b p =
     p\<lparr>command := USB_COMMAND_AUTOSEND_SYNC_SENSORS, data_length := 1, data := (data p)[0 := b]\<rparr>"

definition send_autosend :: "u8 \<Rightarrow> usb_packet \<Rightarrow> u8 list \<times> usb_packet" where
  "send_autosend b p = snd (usbSend (\<lambda>_. 1) (autosend_packet b p))"

text \<open>Flags of all fingers, and their reset after the dispatch.\<close>

definition any_new :: "fingers \<Rightarrow> bool" where
  "any_new fs \<longleftrightarrow> list_ex newDataAvailable (finger fs)"

definition clear_flags :: "fingers \<Rightarrow> fingers" where
  "clear_flags fs = fs\<lparr>finger := map (\<lambda>d. d\<lparr>newDataAvailable := False\<rparr>) (finger fs)\<rparr>"

definition sensor_command :: "u8 \<Rightarrow> bool" where
  "sensor_command c \<longleftrightarrow> \<not> (c \<noteq> USB_COMMAND_AUTOSEND_SYNC_SENSORS \<and>
     c \<noteq> USB_COMMAND_AUTOSEND_ASYNC_SENSORS \<and> c \<noteq> USB_COMMAND_READ_SENSORS)"

text \<open>The body of the loop for a completed packet, at time \<open>now\<close>.\<close>

definition on_packet ::
    "int \<Rightarrow> usb_packet \<Rightarrow> sensor \<Rightarrow> thread_local \<Rightarrow> sensor \<times> thread_local \<times> event list" where
  "on_packet now recv s l =
     (if command recv = USB_COMMAND_GET_VERSION then
        (s\<lparr>m_firmware_version := take (unat (data_length recv)) (data recv), m_version_ready := True\<rparr>,
         l, [VersionNotified])
      else if \<not> sensor_command (command recv) then (s, l, [])
      else
        let fs = parseSensors recv (tl_fingers l) in
        if any_new fs then
          let stamped = fs\<lparr>fs_timestamp := now - tl_start_time l\<rparr>;
              (s', evs) =
                (if m_calculating_baseline s
                 then (if length (m_baseline_samples s) < 1000
                       then s\<lparr>m_baseline_samples := m_baseline_samples s @ [stamped]\<rparr> else s, [])
                 else if m_has_callback s then (s, [Callback stamped])
                 else (s, []))
          in (s', l\<lparr>tl_fingers := clear_flags stamped\<rparr>, evs)
        else (s, l\<lparr>tl_fingers := fs\<rparr>, []))"

definition on_byte :: "int \<Rightarrow> u8 \<Rightarrow> sensor \<Rightarrow> thread_local \<Rightarrow> sensor \<times> thread_local \<times> event list" where
  "on_byte now d s l =
     (let (fin, r) = usbReadByte d (tl_reader l); l' = l\<lparr>tl_reader := r\<rparr>
      in if fin then on_packet now (rd_packet r) s l' else (s, l', []))"

text \<open>The loop over the bytes received; each byte comes with the clock's reading at its turn.\<close>

fun on_bytes :: "(u8 \<times> int) list \<Rightarrow> sensor \<Rightarrow> thread_local \<Rightarrow> sensor \<times> thread_local \<times> event list" where
  "on_bytes [] s l = (s, l, [])"
| "on_bytes ((d, now) # ds) s l =
     (let (s1, l1, e1) = on_byte now d s l; (s2, l2, e2) = on_bytes ds s1 l1
      in (s2, l2, e1 @ e2))"

text \<open>
  What one iteration reads from the port: the byte of the blocking read if it got one, the
  answer of \<open>sp_input_waiting\<close> (a count, or a negative error), the answer and the bytes of the
  non-blocking read, and the clock.
\<close>

record port_read =
  pr_first :: "u8 option"
  pr_waiting :: int
  pr_more :: int
  pr_rest :: "u8 list"
  pr_now :: int
  pr_clock :: "nat \<Rightarrow> int"

text \<open>
  \<open>available\<close> is the count waiting plus one. When it is negative its conversion to \<open>size_t\<close> exceeds
  the buffer's size and \<open>m_receiveBuffer.resize\<close> is asked for more than \<open>max_size\<close>, which
  throws out of the thread: \<open>None\<close>. Otherwise the bytes to parse.
\<close>

definition received :: "u8 \<Rightarrow> port_read \<Rightarrow> u8 list option" where
  "received b pr =
     (let available = pr_waiting pr + 1 in
      if available < 0 then None
      else if 1 < available
           then (if pr_more pr < 0 then Some [b] else Some (b # take (nat (pr_more pr)) (pr_rest pr)))
           else Some (take (nat available) [b]))"

definition update_rate :: "port_read \<Rightarrow> nat \<Rightarrow> sensor \<Rightarrow> thread_local \<Rightarrow> sensor \<times> thread_local" where
  "update_rate pr n s l =
     (let bytes = tl_received_bytes l + word_of_nat n; elapsed = pr_now pr - tl_rate_time l in
      if 200 < elapsed
      then (s\<lparr>m_data_rate := ucast bytes * 1000 div word_of_int elapsed\<rparr>,
            l\<lparr>tl_received_bytes := 0, tl_rate_time := pr_now pr\<rparr>)
      else (s, l\<lparr>tl_received_bytes := bytes\<rparr>))"

text \<open>One iteration of \<open>while (m_running)\<close>; \<open>None\<close> is an exception out of the thread function.\<close>

definition iteration ::
    "port_read \<Rightarrow> sensor \<Rightarrow> thread_local \<Rightarrow> (sensor \<times> thread_local \<times> event list) option" where
  "iteration pr s l =
     (case pr_first pr of
        None \<Rightarrow> Some (s, l, [])
      | Some b \<Rightarrow>
          (case received b pr of
             None \<Rightarrow> None
           | Some bs \<Rightarrow>
               (let (s1, l1) = update_rate pr (length bs) s l
                in Some (on_bytes (map (\<lambda>i. (bs ! i, pr_clock pr i)) [0..<length bs]) s1 l1))))"

section \<open>The user's calls\<close>

text \<open>Text of a message with the port's name and the path it resolved to.\<close>

definition port_error :: "string \<Rightarrow> string \<Rightarrow> string \<Rightarrow> string" where
  "port_error msg name resolved = msg @ name @ '' (resolved to: '' @ resolved @ '')''"

text \<open>
  The constructor: \<open>found\<close> and \<open>opened\<close> say whether \<open>sp_get_port_by_name\<close> and \<open>sp_open\<close>
  returned \<open>SP_OK\<close>, \<open>resolved\<close> is \<open>resolveSymlink(portName)\<close>.
\<close>

definition new_sensor :: "string \<Rightarrow> string \<Rightarrow> bool \<Rightarrow> bool \<Rightarrow> bool \<Rightarrow> u32 \<Rightarrow> sensor" where
  "new_sensor portName resolved found opened cb period =
     (let s = \<lparr>m_running = False, m_connected = False, m_has_callback = cb, m_period_ms = period,
                m_last_error = '''', m_data_rate = 0, m_calculating_baseline = False,
                m_baseline_samples = [], m_firmware_version = [], m_version_ready = False,
                m_thread = NoThread\<rparr> in
      if \<not> found then s\<lparr>m_last_error := port_error ''Failed to find serial port: '' portName resolved\<rparr>
      else if \<not> opened then s\<lparr>m_last_error := port_error ''Failed to open serial port: '' portName resolved\<rparr>
      else s\<lparr>m_connected := True, m_running := True, m_thread := Spawned\<rparr>)"

definition stop :: "sensor \<Rightarrow> sensor" where
  "stop s = s\<lparr>m_running := False\<rparr>"

definition start :: "sensor \<Rightarrow> sensor" where
  "start s =
     (if \<not> m_running s \<and> m_connected s then
        let s1 = s\<lparr>m_running := True\<rparr> in
        if \<not> joinable (m_thread s1) then s1\<lparr>m_thread := Spawned\<rparr> else s1
      else s)"

text \<open>
  \<open>getFirmwareVersion\<close>, up to the wait and after it. \<open>pkt\<close> is the local packet before the two
  assignments, \<open>write\<close> the port's answer; the wait ends with the predicate true or on time-out.
\<close>

definition version_request ::
    "(u8 list \<Rightarrow> int) \<Rightarrow> usb_packet \<Rightarrow> sensor \<Rightarrow> bool \<times> sensor \<times> event list" where
  "version_request write pkt s =
     (if \<not> m_connected s
      then (False, s\<lparr>m_last_error := ''Cannot query firmware version: sensor not connected''\<rparr>, [])
      else
        let s1 = s\<lparr>m_version_ready := False, m_firmware_version := []\<rparr>;
            (ok, bytes, _) = usbSend write (pkt\<lparr>command := USB_COMMAND_GET_VERSION, data_length := 0\<rparr>)
        in if ok then (True, s1, [Sent bytes])
           else (False, s1\<lparr>m_last_error := ''Failed to send GET_VERSION command''\<rparr>, [Sent bytes]))"

definition version_result :: "sensor \<Rightarrow> u8 list option \<times> sensor" where
  "version_result s =
     (if m_version_ready s then (Some (m_firmware_version s), s)
      else (None, s\<lparr>m_last_error := ''Timeout waiting for firmware version reply''\<rparr>))"

text \<open>\<open>findBaseline\<close>: starting the collection.\<close>

definition baseline_begin :: "sensor \<Rightarrow> bool \<times> sensor" where
  "baseline_begin s =
     (if \<not> m_connected s
      then (False, s\<lparr>m_last_error := ''Cannot calculate baseline: sensor not connected''\<rparr>)
      else (True, s\<lparr>m_baseline_samples := [], m_calculating_baseline := True\<rparr>))"

text \<open>
  The polling loop: \<open>obs k\<close> is what the poll number \<open>k\<close> sees, the number of samples collected and
  \<open>m_connected\<close>; \<open>k\<close> is \<open>timeout_counter\<close>, so the loop ends after 500 polls.
\<close>

datatype poll_outcome = Collected | ConnectionLost | TimedOut nat

function baseline_poll :: "(nat \<Rightarrow> nat \<times> bool) \<Rightarrow> nat \<Rightarrow> poll_outcome" where
  "baseline_poll obs k =
     (let (sampleCount, connected) = obs k in
      if \<not> connected then ConnectionLost
      else if 500 \<le> k + 1 then TimedOut sampleCount
      else if sampleCount < 1000 then baseline_poll obs (k + 1)
      else Collected)"
  by pat_completeness auto
termination
  by (relation "measure (\<lambda>(obs, k). 500 - k)") auto

declare baseline_poll.simps [simp del]

text \<open>The accumulators are 32 bits wide; the quotient is stored in sixteen.\<close>

definition accumulate :: "fingers list \<Rightarrow> nat \<Rightarrow> nat \<Rightarrow> u32" where
  "accumulate samples f i = fold (\<lambda>sample acc. acc + ucast (staticTactile (finger sample ! f) ! i)) samples 0"

definition baseline_of :: "fingers list \<Rightarrow> fingers" where
  "baseline_of samples = zero_fingers\<lparr>finger :=
     map (\<lambda>f. zero_finger\<lparr>baseline :=
       map (\<lambda>i. ucast (accumulate samples f i div 1000)) [0..<FINGER_STATIC_TACTILE_COUNT]\<rparr>) [0..<FINGER_COUNT]\<rparr>"

text \<open>The end of \<open>findBaseline\<close> for the outcome of the loop, in the state the loop ended in.\<close>

definition baseline_end :: "poll_outcome \<Rightarrow> sensor \<Rightarrow> fingers option \<times> sensor" where
  "baseline_end outcome s =
     (case outcome of
        ConnectionLost \<Rightarrow>
          (None, s\<lparr>m_calculating_baseline := False,
                   m_last_error := ''Connection lost during baseline calculation''\<rparr>)
      | TimedOut n \<Rightarrow>
          (None, s\<lparr>m_calculating_baseline := False,
                   m_last_error := ''Timeout during baseline calculation (collected '' @ decimal n @ ''/1000 samples)''\<rparr>)
      | Collected \<Rightarrow>
          (Some (baseline_of (m_baseline_samples s)),
           s\<lparr>m_calculating_baseline := False, m_baseline_samples := []\<rparr>))"

section \<open>The machine\<close>

text \<open>
  One step of a user or of the read thread. The thread first asks the sensor to send; it leaves its loop when it sees \<open>m_running\<close>
  clear, sending the stop message.
\<close>

inductive sensor_step :: "sensor \<Rightarrow> event list \<Rightarrow> sensor \<Rightarrow> bool" where
  user_stop: "sensor_step s [] (stop s)"
| user_start: "sensor_step s [] (start s)"
| user_version: "version_request write pkt s = (ok, s', evs) \<Longrightarrow> sensor_step s evs s'"
| user_version_result: "version_result s = (v, s') \<Longrightarrow> sensor_step s [] s'"
| user_baseline: "baseline_begin s = (ok, s') \<Longrightarrow> sensor_step s [] s'"
| user_baseline_end: "baseline_end outcome s = (b, s') \<Longrightarrow> sensor_step s [] s'"
| thread_entry: "m_thread s = Spawned \<Longrightarrow> wf_packet p \<Longrightarrow> wf_packet recv \<Longrightarrow>
    send_autosend (ucast (m_period_ms s)) p = (bytes, p') \<Longrightarrow>
    sensor_step s [Sent bytes] (s\<lparr>m_thread := Running (init_local p' recv now1 now2)\<rparr>)"
| thread_iteration: "m_thread s = Running l \<Longrightarrow> m_running s \<Longrightarrow> iteration pr s l = Some (s', l', evs) \<Longrightarrow>
    sensor_step s evs (s'\<lparr>m_thread := Running l'\<rparr>)"
| thread_exit: "m_thread s = Running l \<Longrightarrow> \<not> m_running s \<Longrightarrow>
    send_autosend 0 (tl_send l) = (bytes, p') \<Longrightarrow> sensor_step s [Sent bytes] (s\<lparr>m_thread := Exited\<rparr>)"

inductive sensor_steps :: "sensor \<Rightarrow> event list \<Rightarrow> sensor \<Rightarrow> bool" where
  steps_refl: "sensor_steps s [] s"
| steps_step: "sensor_steps s es t \<Longrightarrow> sensor_step t e u \<Longrightarrow> sensor_steps s (es @ e) u"

inductive_cases sensor_stepE: "sensor_step s e t"

section \<open>Frame facts\<close>

lemma on_packet_frame:
  assumes "on_packet now recv s l = (s', l', e)"
  shows "m_connected s' = m_connected s" "m_running s' = m_running s" "m_thread s' = m_thread s"
    "m_calculating_baseline s' = m_calculating_baseline s" "m_has_callback s' = m_has_callback s"
    "tl_reader l' = tl_reader l"
    "length (m_baseline_samples s) \<le> 1000 \<Longrightarrow> length (m_baseline_samples s') \<le> 1000"
  using assms by (auto simp: on_packet_def Let_def split: if_splits)

lemma on_byte_frame:
  assumes "on_byte now d s l = (s', l', e)"
  shows "m_connected s' = m_connected s" "m_running s' = m_running s" "m_thread s' = m_thread s"
    "m_calculating_baseline s' = m_calculating_baseline s" "m_has_callback s' = m_has_callback s"
    "length (m_baseline_samples s) \<le> 1000 \<Longrightarrow> length (m_baseline_samples s') \<le> 1000"
  using assms by (auto simp: on_byte_def Let_def split: prod.splits if_splits dest: on_packet_frame)

lemma on_bytes_frame:
  "on_bytes ds s l = (s', l', e) \<Longrightarrow>
    m_connected s' = m_connected s \<and> m_running s' = m_running s \<and> m_thread s' = m_thread s \<and>
    m_calculating_baseline s' = m_calculating_baseline s \<and> m_has_callback s' = m_has_callback s \<and>
    (length (m_baseline_samples s) \<le> 1000 \<longrightarrow> length (m_baseline_samples s') \<le> 1000)"
proof (induction ds s l arbitrary: s' l' e rule: on_bytes.induct)
  case (1 s l)
  then show ?case by simp
next
  case (2 d now ds s l)
  obtain s1 l1 e1 where b: "on_byte now d s l = (s1, l1, e1)" by (metis prod_cases3)
  obtain s2 l2 e2 where r: "on_bytes ds s1 l1 = (s2, l2, e2)" by (metis prod_cases3)
  from "2.IH" [OF b [symmetric] refl refl r] on_byte_frame [OF b] "2.prems" b r
  show ?case by auto
qed

lemma iteration_frame:
  assumes "iteration pr s l = Some (s', l', e)"
  shows "m_connected s' = m_connected s" "m_running s' = m_running s" "m_thread s' = m_thread s"
    "m_calculating_baseline s' = m_calculating_baseline s" "m_has_callback s' = m_has_callback s"
    "length (m_baseline_samples s) \<le> 1000 \<Longrightarrow> length (m_baseline_samples s') \<le> 1000"
  using assms
  by (auto simp: iteration_def update_rate_def Let_def split: option.splits if_splits
      dest!: on_bytes_frame)

section \<open>Lifecycle\<close>

lemma start_thread: "m_thread (start s) = (if \<not> m_running s \<and> m_connected s \<and> m_thread s = NoThread then Spawned else m_thread s)"
  by (simp add: start_def joinable_def Let_def)

lemma version_request_frame:
  assumes "version_request write pkt s = (ok, s', e)"
  shows "m_connected s' = m_connected s" "m_running s' = m_running s" "m_thread s' = m_thread s"
    "m_baseline_samples s' = m_baseline_samples s" "\<forall>fs. Callback fs \<notin> set e"
  using assms by (auto simp: version_request_def Let_def split: if_splits prod.splits)

lemma version_result_frame:
  assumes "version_result s = (v, s')"
  shows "m_connected s' = m_connected s" "m_running s' = m_running s" "m_thread s' = m_thread s"
    "m_baseline_samples s' = m_baseline_samples s"
  using assms by (auto simp: version_result_def split: if_splits)

lemma baseline_begin_frame:
  assumes "baseline_begin s = (ok, s')"
  shows "m_connected s' = m_connected s" "m_running s' = m_running s" "m_thread s' = m_thread s"
    "length (m_baseline_samples s') \<le> length (m_baseline_samples s)"
  using assms by (auto simp: baseline_begin_def split: if_splits)

lemma baseline_end_frame:
  assumes "baseline_end out s = (b, s')"
  shows "m_connected s' = m_connected s" "m_running s' = m_running s" "m_thread s' = m_thread s"
    "length (m_baseline_samples s') \<le> length (m_baseline_samples s)"
  using assms by (auto simp: baseline_end_def split: poll_outcome.splits)

lemmas frames_connected = version_request_frame(1) version_result_frame(1) baseline_begin_frame(1)
  baseline_end_frame(1) iteration_frame(1)
lemmas frames_thread = version_request_frame(3,5) version_result_frame(3) baseline_begin_frame(3)
  baseline_end_frame(3)

lemma step_connected: "sensor_step s e t \<Longrightarrow> m_connected t = m_connected s"
  by (erule sensor_stepE) (auto simp: stop_def start_def Let_def dest: frames_connected)

lemma step_samples:
  assumes "sensor_step s e t" and "length (m_baseline_samples s) \<le> 1000"
  shows "length (m_baseline_samples t) \<le> 1000"
  using assms
  by cases (auto simp: stop_def start_def Let_def
      dest: iteration_frame(6) version_request_frame(4) version_result_frame(4)
        baseline_begin_frame(4) baseline_end_frame(4))

lemma step_exited:
  assumes "sensor_step s e t" and "m_thread s = Exited"
  shows "m_thread t = Exited \<and> (\<forall>fs. Callback fs \<notin> set e)"
  using assms by cases (auto simp: stop_def start_thread dest: frames_thread)

lemma steps_connected: "sensor_steps s es t \<Longrightarrow> m_connected t = m_connected s"
  by (induction rule: sensor_steps.induct) (auto simp: step_connected)

lemma steps_samples:
  "sensor_steps s es t \<Longrightarrow> length (m_baseline_samples s) \<le> 1000 \<Longrightarrow> length (m_baseline_samples t) \<le> 1000"
  by (induction rule: sensor_steps.induct) (auto dest: step_samples)

lemma steps_exited:
  "sensor_steps s es t \<Longrightarrow> m_thread s = Exited \<Longrightarrow> m_thread t = Exited \<and> (\<forall>fs. Callback fs \<notin> set es)"
  by (induction rule: sensor_steps.induct) (auto dest: step_exited)

section \<open>The baseline\<close>

lemma unat_fold_add:
  assumes "unat (a :: u32) + (\<Sum>x\<leftarrow>xs. unat (g x :: u16)) < 2 ^ 32"
  shows "unat (fold (\<lambda>x acc. acc + ucast (g x)) xs a) = unat a + (\<Sum>x\<leftarrow>xs. unat (g x))"
  using assms
proof (induction xs arbitrary: a)
  case (Cons x xs)
  have "unat (a + ucast (g x)) = unat a + unat (g x)"
    using Cons.prems by (simp add: unat_word_ariths)
  with Cons.IH [of "a + ucast (g x)"] Cons.prems show ?case by simp
qed simp

lemma sum_list_u16_bound: "(\<Sum>x\<leftarrow>xs. unat (g x :: u16)) \<le> 65535 * length xs"
proof (induction xs)
  case (Cons x xs)
  then show ?case using unat_u16_bound [of "g x"] by simp
qed simp

lemma baseline_of_nth:
  assumes "length samples = 1000" and "f < 2" and "i < 28"
  shows "unat (baseline (finger (baseline_of samples) ! f) ! i) =
    (\<Sum>s\<leftarrow>samples. unat (staticTactile (finger s ! f) ! i)) div 1000"
proof -
  let ?g = "\<lambda>s. staticTactile (finger s ! f) ! i"
  have bound: "(\<Sum>s\<leftarrow>samples. unat (?g s)) \<le> 65535 * 1000"
    using sum_list_u16_bound [of ?g samples] assms(1) by simp
  then have acc: "unat (accumulate samples f i) = (\<Sum>s\<leftarrow>samples. unat (?g s))"
    unfolding accumulate_def by (subst unat_fold_add) simp_all
  have "(\<Sum>s\<leftarrow>samples. unat (?g s)) div 1000 < 65536" using bound by simp
  with acc have "unat (ucast (accumulate samples f i div 1000) :: u16) = (\<Sum>s\<leftarrow>samples. unat (?g s)) div 1000"
    by (simp add: unat_ucast_32_16 unat_div)
  with assms(2,3) show ?thesis by (simp add: baseline_of_def finger_counts)
qed

text \<open>The first poll that sees 1000 samples, every poll so far having seen the sensor connected.\<close>

definition collected_at :: "(nat \<Rightarrow> nat \<times> bool) \<Rightarrow> nat \<Rightarrow> nat \<Rightarrow> bool" where
  "collected_at obs k j \<longleftrightarrow> k \<le> j \<and> 1000 \<le> fst (obs j) \<and> snd (obs j) \<and>
     (\<forall>m \<in> {k..<j}. snd (obs m) \<and> fst (obs m) < 1000)"

lemma collected_at_rec:
  "collected_at obs k j \<longleftrightarrow> snd (obs k) \<and>
    (if 1000 \<le> fst (obs k) then j = k else collected_at obs (Suc k) j)"
proof (cases "j = k")
  case True
  then show ?thesis by (auto simp: collected_at_def)
next
  case False
  show ?thesis
  proof (cases "k < j")
    case True
    then have "{k..<j} = insert k {Suc k..<j}" by auto
    with True show ?thesis by (auto simp: collected_at_def)
  next
    case False
    with \<open>j \<noteq> k\<close> show ?thesis by (auto simp: collected_at_def)
  qed
qed

lemma baseline_poll_Collected:
  "k \<le> 499 \<Longrightarrow> baseline_poll obs k = Collected \<longleftrightarrow> (\<exists>j < 499. collected_at obs k j)"
proof (induction obs k rule: baseline_poll.induct)
  case (1 obs k)
  obtain n c where o: "obs k = (n, c)" by (cases "obs k")
  have late: "\<not> (\<exists>j < 499. collected_at obs k j)" if "k = 499"
    using that by (auto simp: collected_at_def)
  consider "\<not> c" | "c" "k = 499" | "c" "k < 499" "n < 1000" | "c" "k < 499" "1000 \<le> n"
    using "1.prems" by linarith
  then show ?case
  proof cases
    case 1
    then show ?thesis using o
      by (subst baseline_poll.simps) (simp add: collected_at_rec [of obs k])
  next
    case 2
    then show ?thesis using o late by (subst baseline_poll.simps) simp
  next
    case 3
    then have rec: "baseline_poll obs k = baseline_poll obs (k + 1)"
      using o by (subst baseline_poll.simps) simp
    show ?thesis
      unfolding rec using 3 o "1.IH" [OF o [symmetric]] by (simp add: collected_at_rec [of obs k])
  next
    case 4
    then show ?thesis using o
      by (subst baseline_poll.simps) (simp add: collected_at_rec [of obs k])
  qed
qed

section \<open>From bytes to packets\<close>

text \<open>The packets a chunk completes, each with the clock's reading at its last byte.\<close>

fun completed :: "(u8 \<times> int) list \<Rightarrow> usb_reader \<Rightarrow> (usb_packet \<times> int) list \<times> usb_reader" where
  "completed [] r = ([], r)"
| "completed ((d, now) # ds) r =
     (let (fin, r') = usbReadByte d r; (ps, r'') = completed ds r'
      in (if fin then (rd_packet r', now) # ps else ps, r''))"

fun on_packets :: "(usb_packet \<times> int) list \<Rightarrow> sensor \<Rightarrow> thread_local \<Rightarrow> sensor \<times> thread_local \<times> event list" where
  "on_packets [] s l = (s, l, [])"
| "on_packets ((p, now) # ps) s l =
     (let (s1, l1, e1) = on_packet now p s l; (s2, l2, e2) = on_packets ps s1 l1
      in (s2, l2, e1 @ e2))"

lemma completed_read_stream:
  "completed ds r = (ps, r') \<Longrightarrow> read_stream usbReadByte rd_packet (map fst ds) r = (map fst ps, r')"
  by (induction ds r arbitrary: ps r' rule: completed.induct)
    (auto simp: Let_def split: prod.splits if_splits)

lemma on_packet_reader:
  "on_packet now p s (l\<lparr>tl_reader := r\<rparr>) =
    (let (s', l', e) = on_packet now p s l in (s', l'\<lparr>tl_reader := r\<rparr>, e))"
  by (auto simp: on_packet_def Let_def)

lemma on_packets_reader:
  "on_packets ps s (l\<lparr>tl_reader := r\<rparr>) =
    (let (s', l', e) = on_packets ps s l in (s', l'\<lparr>tl_reader := r\<rparr>, e))"
proof (induction ps s l rule: on_packets.induct)
  case (2 p now ps s l)
  then show ?case by (simp add: on_packet_reader Let_def split: prod.splits)
qed simp

lemma on_bytes_completed:
  assumes "completed ds (tl_reader l) = (ps, r')"
  shows "on_bytes ds s l = (let (s', l', e) = on_packets ps s l in (s', l'\<lparr>tl_reader := r'\<rparr>, e))"
  using assms
proof (induction ds s l arbitrary: ps rule: on_bytes.induct)
  case (1 s l)
  then show ?case by simp
next
  case (2 d now ds s l)
  obtain fin r1 where u: "usbReadByte d (tl_reader l) = (fin, r1)" by force
  obtain qs r2 where c: "completed ds r1 = (qs, r2)" by force
  obtain s1 l1 e1 where p: "on_packet now (rd_packet r1) s l = (s1, l1, e1)" by (metis prod_cases3)
  have "on_byte now d s l = (if fin then (s1, l1\<lparr>tl_reader := r1\<rparr>, e1) else (s, l\<lparr>tl_reader := r1\<rparr>, []))"
    using u p by (simp add: on_byte_def on_packet_reader)
  with "2.IH" c u "2.prems" p show ?case
    by (cases fin) (auto simp: on_packets_reader Let_def split: prod.splits)
qed

section \<open>Sensor frames\<close>

text \<open>A packet whose payload encodes the given records, with one of the three sensor commands.\<close>

definition sensor_frame :: "usb_packet \<Rightarrow> addressed_record list \<Rightarrow> bool" where
  "sensor_frame p rs \<longleftrightarrow> valid_packet p \<and> sensor_command (command p) \<and> list_all valid_addressed rs \<and>
     take (unat (data_length p)) (data p) = concat (map encode_record rs)"

text \<open>
  What the user is promised for a sequence of frames: after each frame that carries records, a
  copy of the finger data accumulated so far, flagged and stamped.
\<close>

fun deliver :: "int \<Rightarrow> (addressed_record list \<times> int) list \<Rightarrow> fingers \<Rightarrow> fingers \<times> fingers list" where
  "deliver t0 [] fs = (fs, [])"
| "deliver t0 ((rs, now) # xs) fs =
     (if rs = [] then deliver t0 xs fs
      else
        let stamped = (fold apply_record rs fs)\<lparr>fs_timestamp := now - t0\<rparr>;
            (fs', out) = deliver t0 xs (clear_flags stamped)
        in (fs', stamped # out))"

lemma any_new_apply:
  assumes "wf_fingers fs" and "valid_addressed a"
  shows "any_new (apply_record a fs)"
proof -
  obtain f index r where a: "a = (f, index, r)" by (cases a)
  with assms have f: "f < length (finger fs)"
    by (auto simp: valid_addressed_def wf_fingers_def finger_counts)
  have "newDataAvailable (store_record r (finger fs ! f))" by (cases r) auto
  with f show ?thesis
    by (auto simp: any_new_def apply_record_def a list_ex_length intro!: exI [of _ f])
qed

lemma any_new_fold:
  assumes "wf_fingers fs" and "list_all valid_addressed rs" and "rs \<noteq> []"
  shows "any_new (fold apply_record rs fs) \<and> wf_fingers (fold apply_record rs fs)"
  using assms
proof (induction rs arbitrary: fs)
  case (Cons a rs)
  then show ?case
    using any_new_apply [of fs a] apply_record_wf [of fs a] by (cases rs) auto
qed simp

lemma clear_flags_props [simp]:
  "\<not> any_new (clear_flags fs)" "wf_fingers (clear_flags fs) = wf_fingers fs"
  "wf_fingers (fs\<lparr>fs_timestamp := t\<rparr>) = wf_fingers fs"
  by (simp_all add: clear_flags_def any_new_def list_ex_length wf_fingers_def list_all_length
      wf_finger_def)

text \<open>The state and the events after delivering a list of samples.\<close>

definition dispatch :: "fingers list \<Rightarrow> sensor \<Rightarrow> sensor \<times> event list" where
  "dispatch out s =
     (if m_calculating_baseline s
      then (s\<lparr>m_baseline_samples := take 1000 (m_baseline_samples s @ out)\<rparr>, [])
      else (s, if m_has_callback s then map Callback out else []))"

lemma dispatch_Nil: "length (m_baseline_samples s) \<le> 1000 \<Longrightarrow> dispatch [] s = (s, [])"
  by (simp add: dispatch_def)

lemma dispatch_Cons:
  assumes "length (m_baseline_samples s) \<le> 1000"
  shows "dispatch (x # xs) s =
    (let (s1, e1) = dispatch [x] s; (s2, e2) = dispatch xs s1 in (s2, e1 @ e2))"
proof (cases "length (m_baseline_samples s) < 1000")
  case True
  then show ?thesis by (auto simp: dispatch_def)
next
  case False
  with assms show ?thesis by (auto simp: dispatch_def)
qed

lemma dispatch_samples:
  "length (m_baseline_samples s) \<le> 1000 \<Longrightarrow> length (m_baseline_samples (fst (dispatch out s))) \<le> 1000"
  by (auto simp: dispatch_def)

lemma on_packet_sensor:
  assumes "sensor_frame p rs" and "wf_fingers (tl_fingers l)" and "\<not> any_new (tl_fingers l)"
    and "length (m_baseline_samples s) \<le> 1000"
  shows "on_packet now p s l =
    (let (fs, out) = deliver (tl_start_time l) [(rs, now)] (tl_fingers l); (s', e) = dispatch out s
     in (s', l\<lparr>tl_fingers := fs\<rparr>, e))"
proof -
  have cmd: "command p \<noteq> USB_COMMAND_GET_VERSION" "sensor_command (command p)"
    using assms(1) by (auto simp: sensor_frame_def sensor_command_def USB_COMMAND_GET_VERSION_def
        USB_COMMAND_AUTOSEND_SYNC_SENSORS_def USB_COMMAND_AUTOSEND_ASYNC_SENSORS_def
        USB_COMMAND_READ_SENSORS_def)
  have parse: "parseSensors p (tl_fingers l) = fold apply_record rs (tl_fingers l)"
    using assms(1,2) by (intro parseSensors_encoded) (auto simp: sensor_frame_def valid_packet_def)
  show ?thesis
  proof (cases "rs = []")
    case True
    with assms cmd parse show ?thesis by (simp add: on_packet_def dispatch_Nil)
  next
    case False
    then have "any_new (fold apply_record rs (tl_fingers l))"
      using any_new_fold assms(1,2) by (simp add: sensor_frame_def)
    with False cmd parse assms(4) show ?thesis
      by (auto simp: on_packet_def Let_def dispatch_def)
  qed
qed

lemma deliver_props:
  assumes "deliver t0 [(rs, now)] fs = (fs', out)" and "wf_fingers fs" and "\<not> any_new fs"
    and "list_all valid_addressed rs"
  shows "wf_fingers fs' \<and> \<not> any_new fs'"
  using assms any_new_fold [of fs rs] by (auto simp: Let_def split: if_splits)

lemma deliver_Cons:
  "deliver t0 (x # xs) fs =
    (let (fs1, o1) = deliver t0 [x] fs; (fs2, o2) = deliver t0 xs fs1 in (fs2, o1 @ o2))"
  by (cases x) (auto simp: Let_def split: prod.splits)

lemma on_packets_sensor:
  assumes "list_all2 (\<lambda>(p, t) (rs, t'). sensor_frame p rs \<and> t = t') ps xs"
    and "wf_fingers (tl_fingers l)" and "\<not> any_new (tl_fingers l)"
    and "length (m_baseline_samples s) \<le> 1000"
  shows "on_packets ps s l =
    (let (fs, out) = deliver (tl_start_time l) xs (tl_fingers l); (s', e) = dispatch out s
     in (s', l\<lparr>tl_fingers := fs\<rparr>, e)) \<and>
    wf_fingers (fst (deliver (tl_start_time l) xs (tl_fingers l))) \<and>
    \<not> any_new (fst (deliver (tl_start_time l) xs (tl_fingers l)))"
  using assms
proof (induction ps xs arbitrary: s l rule: list_all2_induct)
  case Nil
  then show ?case by (simp add: dispatch_Nil)
next
  case (Cons pt ps x xs)
  obtain p t rs where pt: "pt = (p, t)" "x = (rs, t)" "sensor_frame p rs"
    using Cons.hyps(1) by (cases pt, cases x) auto
  obtain fs1 o1 where d1: "deliver (tl_start_time l) [(rs, t)] (tl_fingers l) = (fs1, o1)" by force
  obtain s1 e1 where s1: "dispatch o1 s = (s1, e1)" by force
  have step: "on_packet t p s l = (s1, l\<lparr>tl_fingers := fs1\<rparr>, e1)"
    using on_packet_sensor [OF pt(3) Cons.prems, of t] d1 s1 by simp
  have fs1: "wf_fingers fs1 \<and> \<not> any_new fs1"
    using deliver_props [OF d1] Cons.prems pt(3) by (simp add: sensor_frame_def)
  have len: "length (m_baseline_samples s1) \<le> 1000"
    using dispatch_samples [OF Cons.prems(3), of o1] s1 by simp
  obtain fs2 o2 where d2: "deliver (tl_start_time l) xs fs1 = (fs2, o2)" by force
  obtain s2 e2 where s2: "dispatch o2 s1 = (s2, e2)" by force
  have o1: "o1 = [] \<or> (\<exists>y. o1 = [y])" using d1 by (auto simp: Let_def split: if_splits)
  then have "dispatch (o1 @ o2) s = (s2, e1 @ e2)"
  proof
    assume "o1 = []"
    with s1 s2 Cons.prems(3) show ?thesis by (simp add: dispatch_Nil)
  next
    assume "\<exists>y. o1 = [y]"
    then obtain y where y: "o1 = [y]" ..
    show ?thesis using s1 s2
      by (simp add: y) (subst dispatch_Cons [OF Cons.prems(3)], simp)
  qed
  moreover have "deliver (tl_start_time l) (x # xs) (tl_fingers l) = (fs2, o1 @ o2)"
    by (subst deliver_Cons) (simp only: pt(2) d1 d2 Let_def prod.case)
  moreover have "on_packets ps s1 (l\<lparr>tl_fingers := fs1\<rparr>) = (s2, l\<lparr>tl_fingers := fs2\<rparr>, e2) \<and>
      wf_fingers fs2 \<and> \<not> any_new fs2"
    using Cons.IH [of "l\<lparr>tl_fingers := fs1\<rparr>" s1] fs1 len d2 s2 by simp
  ultimately show ?case using step pt(1) by simp
qed

lemma sensor_frame_wire:
  assumes "sensor_frame p rs" and "valid_packet q" and "wire q = wire p"
  shows "sensor_frame q rs"
  using wire_eqD [OF assms(3)] assms(1,2) by (simp add: sensor_frame_def valid_packet_def)

text \<open>A frame completes one packet, at its last byte.\<close>

lemma completed_append: "completed (as @ bs) r = (let (ps, r1) = completed as r; (qs, r2) = completed bs r1 in (ps @ qs, r2))"
  by (induction as r rule: completed.induct) (auto simp: Let_def split: prod.splits)

lemma completed_noise: "rd_idle r \<Longrightarrow> list_all is_noise (map fst ds) \<Longrightarrow> completed ds r = ([], r)"
  by (induction ds) (auto simp: usb.step_noise)

lemma completed_wire:
  assumes "rd_idle r" and "valid_packet p" and "map fst ds = wire p"
  shows "\<exists>q r'. completed ds r = ([(q, snd (last ds))], r') \<and> rd_idle r' \<and> valid_packet q \<and> wire q = wire p"
proof -
  let ?k = "packet_size p - 1"
  have len: "length ds = Suc ?k" "?k < packet_size p"
    using arg_cong [OF assms(3), of length] length_wire packet_size_bounds(1) [of p] assms(2) by (auto simp: valid_packet_def)
  then have ds: "ds = take ?k ds @ [last ds]" by (metis append_butlast_last_id butlast_conv_take diff_Suc_1 length_0_conv nat.distinct(1))
  have "map fst (take ?k ds) = take ?k (wire p)" by (simp add: assms(3) flip: take_map)
  moreover obtain ps r1 where c1: "completed (take ?k ds) r = (ps, r1)" by force
  moreover obtain r2 where "read_stream usbReadByte rd_packet (take ?k (wire p)) r = ([], r2)"
    using read_prefix [OF assms(1,2) len(2)] by blast
  ultimately have none: "ps = []" using completed_read_stream [OF c1] by simp
  obtain q r' where q: "read_stream usbReadByte rd_packet (wire p) r = ([q], r')" "rd_idle r'" "valid_packet q" "wire q = wire p"
    using read_wire [OF assms(1,2)] by blast
  obtain qs r3 where c: "completed ds r = (qs, r3)" by force
  have whole: "map fst qs = [q]" "r3 = r'" using completed_read_stream [OF c] q(1) assms(3) by simp_all
  obtain d now where last: "last ds = (d, now)" by force
  have "completed (take ?k ds @ [last ds]) r = (qs, r3)" using c ds by simp
  then have "snd ` set qs \<subseteq> {snd (last ds)}"
    using c1 none last by (auto simp: completed_append split: prod.splits if_splits)
  with whole have "qs = [(q, snd (last ds))]" by (cases qs) auto
  then show ?thesis using c whole(2) q(2-4) by blast
qed

text \<open>The clock's reading at the last byte of each of the frames, from the readings at all bytes.\<close>

fun frame_ends :: "(u8 list \<times> usb_packet) list \<Rightarrow> int list \<Rightarrow> int list" where
  "frame_ends [] ts = []"
| "frame_ends ((ns, p) # fs) ts =
     (let n = length ns + length (wire p) in ts ! (n - 1) # frame_ends fs (drop n ts))"

lemma length_frame_ends [simp]: "length (frame_ends fs ts) = length fs"
  by (induction fs ts rule: frame_ends.induct) (simp_all add: Let_def)

text \<open>The packets a chunk of frames completes, wherever the chunk's noise is.\<close>

lemma completed_frames:
  assumes "rd_idle r" and "\<forall>(ns, p) \<in> set fs. list_all is_noise ns \<and> valid_packet p"
    and "list_all is_noise tail" and "map fst ds = concat (map (\<lambda>(ns, p). ns @ wire p) fs) @ tail"
  shows "\<exists>ps r'. completed ds r = (ps, r') \<and> rd_idle r' \<and> map snd ps = frame_ends fs (map snd ds) \<and>
    list_all2 (\<lambda>(q, t) (ns, p). valid_packet q \<and> wire q = wire p) ps fs"
  using assms
proof (induction fs arbitrary: ds r)
  case Nil
  then show ?case by (simp add: completed_noise)
next
  case (Cons f fs)
  obtain ns p where f: "f = (ns, p)" by force
  have v: "list_all is_noise ns" "valid_packet p" using Cons.prems(2) f by auto
  let ?n = "length ns" and ?m = "length ns + length (wire p)"
  have bytes: "map fst ds = ns @ wire p @ concat (map (\<lambda>(ns, p). ns @ wire p) fs) @ tail" using Cons.prems(4) f by simp
  define noise body rest where "noise = take ?n ds" and "body = take (length (wire p)) (drop ?n ds)" and "rest = drop ?m ds"
  have ds: "ds = noise @ body @ rest"
    unfolding noise_def body_def rest_def by (metis append_take_drop_id drop_drop add.commute)
  have parts: "map fst noise = ns" "map fst body = wire p" "map fst rest = concat (map (\<lambda>(ns, p). ns @ wire p) fs) @ tail"
    by (simp_all add: noise_def body_def rest_def bytes flip: take_map drop_map)
  have lens: "length noise = ?n" "length body = length (wire p)" using arg_cong [OF parts(1), of length] arg_cong [OF parts(2), of length] by simp_all
  have "wire p \<noteq> []" using length_wire [of p] packet_size_bounds(1) [of p] v(2) by (auto simp: valid_packet_def)
  then have "body \<noteq> []" using parts(2) by auto
  have n: "completed noise r = ([], r)" by (rule completed_noise [OF Cons.prems(1)]) (simp add: parts(1) v(1))
  obtain q r1 where b: "completed body r = ([(q, snd (last body))], r1)" "rd_idle r1" "valid_packet q" "wire q = wire p"
    using completed_wire [OF Cons.prems(1) v(2) parts(2)] by blast
  obtain ps r' where c: "completed rest r1 = (ps, r')" "rd_idle r'" "map snd ps = frame_ends fs (map snd rest)"
    "list_all2 (\<lambda>(q, t) (ns, p). valid_packet q \<and> wire q = wire p) ps fs"
    using Cons.IH [OF b(2) _ Cons.prems(3) parts(3)] Cons.prems(2) by auto
  have all: "completed ds r = ((q, snd (last body)) # ps, r')" using n b(1) c(1) by (simp add: ds completed_append)
  have pos: "0 < length body" using \<open>body \<noteq> []\<close> by simp
  then have m: "?m - 1 = ?n + (length body - 1)" using lens(2) by linarith
  have "last body = ds ! (?m - 1)"
    unfolding m ds using pos lens(1) by (simp add: last_conv_nth nth_append)
  moreover have "?m - 1 < length ds" unfolding m using pos lens(1) arg_cong [OF ds, of length] by (simp del: length_greater_0_conv)
  ultimately have "snd (last body) = map snd ds ! (?m - 1)" by simp
  moreover have "map snd rest = drop ?m (map snd ds)" by (simp add: rest_def drop_map)
  ultimately show ?case using all b c f by (simp add: Let_def)
qed

lemma stream_delivered:
  assumes "rd_idle (tl_reader l)" and "wf_fingers (tl_fingers l)" and "\<not> any_new (tl_fingers l)"
    and "length (m_baseline_samples s) \<le> 1000"
    and "\<forall>(ns, p, rs) \<in> set frames. list_all is_noise ns \<and> sensor_frame p rs"
    and "list_all is_noise tail"
    and "map fst ds = concat (map (\<lambda>(ns, p, rs). ns @ wire p) frames) @ tail"
  shows "\<exists>l' fs out.
    deliver (tl_start_time l) (zip (map (\<lambda>(ns, p, rs). rs) frames)
      (frame_ends (map (\<lambda>(ns, p, rs). (ns, p)) frames) (map snd ds))) (tl_fingers l) = (fs, out) \<and>
    on_bytes ds s l = (fst (dispatch out s), l', snd (dispatch out s)) \<and>
    tl_fingers l' = fs \<and> rd_idle (tl_reader l') \<and> \<not> any_new fs \<and> wf_fingers fs"
proof -
  let ?fs = "map (\<lambda>(ns, p, rs). (ns, p)) frames"
  have "\<forall>(ns, p) \<in> set ?fs. list_all is_noise ns \<and> valid_packet p"
    using assms(5) by (auto simp: sensor_frame_def)
  moreover have "map fst ds = concat (map (\<lambda>(ns, p). ns @ wire p) ?fs) @ tail"
    using assms(7) by (simp add: comp_def case_prod_beta')
  ultimately obtain ps r' where c: "completed ds (tl_reader l) = (ps, r')" "rd_idle r'"
      "map snd ps = frame_ends ?fs (map snd ds)"
      "list_all2 (\<lambda>(q, t) (ns, p). valid_packet q \<and> wire q = wire p) ps ?fs"
    using completed_frames [OF assms(1) _ assms(6)] by blast
  let ?xs = "zip (map (\<lambda>(ns, p, rs). rs) frames) (map snd ps)"
  have len: "length ps = length frames" using c(4) by (auto dest: list_all2_lengthD)
  have "list_all2 (\<lambda>(p, t) (rs, t'). sensor_frame p rs \<and> t = t') ps ?xs"
    unfolding list_all2_conv_all_nth
  proof (intro conjI allI impI)
    fix i assume i: "i < length ps"
    obtain q t where q: "ps ! i = (q, t)" by force
    obtain ns p rs where f: "frames ! i = (ns, p, rs)" by (metis prod_cases3)
    have "sensor_frame p rs" using assms(5) f i len by (metis (no_types, lifting) case_prodD nth_mem)
    moreover have "valid_packet q \<and> wire q = wire p"
      using list_all2_nthD [OF c(4) i] q f i len by simp
    ultimately show "(case ps ! i of (p, t) \<Rightarrow> \<lambda>(rs, t'). sensor_frame p rs \<and> t = t') (?xs ! i)"
      using q f i len by (simp add: sensor_frame_wire)
  qed (simp add: len)
  from on_packets_sensor [OF this assms(2-4)] on_bytes_completed [OF c(1), of s] c(2)
  show ?thesis unfolding c(3) by (auto split: prod.splits)
qed

section \<open>Properties\<close>

text \<open>
  C3 From bytes to samples, end to end: when the bytes received are frames of sensor records,
  with bytes other than the start byte before, between and after them, the read thread delivers for each
  frame that carries records exactly one sample, which is the finger data with every record so far applied,
  stamped with the clock's reading at the frame's last byte. The samples go to the callback or, during a
  baseline, to the first 1000 places of the baseline's buffer; nothing else changes. A stray start byte
  is outside this: with the placeholder checksum it begins a packet that nothing rejects.
\<close>

theorem sensor_stream_delivered:
  assumes "rd_idle (tl_reader l)" and "wf_fingers (tl_fingers l)" and "\<not> any_new (tl_fingers l)"
    and "length (m_baseline_samples s) \<le> 1000"
    and "\<forall>(ns, p, rs) \<in> set frames. list_all is_noise ns \<and> sensor_frame p rs"
    and "list_all is_noise tail"
    and "map fst ds = concat (map (\<lambda>(ns, p, rs). ns @ wire p) frames) @ tail"
  shows "\<exists>l' fs out.
    deliver (tl_start_time l) (zip (map (\<lambda>(ns, p, rs). rs) frames)
      (frame_ends (map (\<lambda>(ns, p, rs). (ns, p)) frames) (map snd ds))) (tl_fingers l) = (fs, out) \<and>
    on_bytes ds s l = (fst (dispatch out s), l', snd (dispatch out s)) \<and>
    tl_fingers l' = fs \<and> rd_idle (tl_reader l') \<and> \<not> any_new fs \<and> wf_fingers fs"
  by (rule stream_delivered [OF assms])

definition example_local :: thread_local where
  "example_local = init_local (example_packet 0 0 0 0 []) (example_packet 0 0 0 0 []) 100 100"

definition example_sensor :: "bool \<Rightarrow> sensor" where
  "example_sensor calculating =
     (new_sensor ''p'' ''p'' True True True 10)\<lparr>m_calculating_baseline := calculating\<rparr>"

lemma example_local_simps [simp]:
  "rd_idle (tl_reader example_local)" "tl_fingers example_local = zero_fingers"
  "tl_start_time example_local = 100" "\<not> any_new zero_fingers"
  by (simp_all add: example_local_def init_local_def any_new_def zero_fingers_def zero_finger_def
      numeral_2_eq_2)

lemma example_sensor_simps [simp]:
  "m_baseline_samples (example_sensor c) = []" "m_calculating_baseline (example_sensor c) = c"
  "m_has_callback (example_sensor c)" "m_connected (example_sensor c)" "m_running (example_sensor c)"
  by (simp_all add: example_sensor_def new_sensor_def)

lemma example_frame: "sensor_frame (example_packet 0x9A 0 0x58 3 [0x64, 1, 2]) [(1, 0, Temperature 258)]"
  by (simp add: sensor_frame_def valid_packet_def USB_PACKET_START_BYTE_def sensor_command_def
      USB_COMMAND_AUTOSEND_SYNC_SENSORS_def valid_addressed_def encode_record_def type_byte_def
      encode16_def) (simp add: example_packet_def)

theorem sensor_stream_delivered_witness:
  "\<exists>l' fs. snd (deliver 100 [([(1, 0, Temperature 258)], 127)] zero_fingers) = [fs] \<and>
    on_bytes [(7, 120), (0x9A, 121), (0, 122), (0x58, 123), (3, 124), (0x64, 125), (1, 126), (2, 127)]
      (example_sensor False) example_local = (example_sensor False, l', [Callback fs])"
proof -
  let ?p = "example_packet 0x9A 0 0x58 3 [0x64, 1, 2]"
  let ?ds = "[(7, 120), (0x9A, 121), (0, 122), (0x58, 123), (3, 124), (0x64, 125), (1, 126), (2, 127)] :: (u8 \<times> int) list"
  let ?fr = "[([7], ?p, [(1, 0, Temperature 258)])] :: (u8 list \<times> usb_packet \<times> addressed_record list) list"
  have "sensor_frame ?p [(1, 0, Temperature 258)]" by (rule example_frame)
  then have fr: "\<forall>(ns, p, rs) \<in> set ?fr. list_all is_noise ns \<and> sensor_frame p rs"
    by (simp add: is_noise_def USB_PACKET_START_BYTE_def)
  have "map fst ?ds = concat (map (\<lambda>(ns, p, rs). ns @ wire p) ?fr) @ []"
    by (simp add: wire_def raw_def packet_size_def packet_sizes) (simp add: example_packet_def)
  note stream = sensor_stream_delivered [OF _ _ _ _ fr _ this, of example_local "example_sensor False"]
  have "length (wire ?p) = 7" by (simp add: wire_def raw_def packet_size_def packet_sizes) (simp add: example_packet_def)
  then have "frame_ends (map (\<lambda>(ns, p, rs). (ns, p)) ?fr) (map snd ?ds) = [127]" by simp
  with stream obtain l' fs out where
    d: "deliver 100 [([(1, 0, Temperature 258)], 127)] zero_fingers = (fs, out)"
    and o: "on_bytes ?ds (example_sensor False) example_local =
      (fst (dispatch out (example_sensor False)), l', snd (dispatch out (example_sensor False)))"
    by auto
  from d obtain x where "out = [x]" by (auto simp: Let_def)
  with d o show ?thesis
    by (intro exI [of _ l'] exI [of _ x]) (simp add: dispatch_def)
qed

lemma update_rate_frame:
  assumes "update_rate pr n s l = (s1, l1)"
  shows "tl_reader l1 = tl_reader l"
  using assms by (auto simp: update_rate_def Let_def split: if_splits)

text \<open>
  A firmware-version reply is handed over: when the bytes of one iteration contain a version frame,
  with other bytes around it, the wait of \<open>getFirmwareVersion\<close> is notified and returns exactly
  the frame's data bytes.
\<close>

theorem version_reply_received:
  assumes "rd_idle (tl_reader l)" and "pr_first pr = Some b" and "received b pr = Some (ns @ wire p @ tail)"
    and "list_all is_noise ns" and "list_all is_noise tail"
    and "valid_packet p" and "command p = USB_COMMAND_GET_VERSION"
  shows "\<exists>s' l'. iteration pr s l = Some (s', l', [VersionNotified]) \<and> rd_idle (tl_reader l') \<and>
    version_result s' = (Some (take (unat (data_length p)) (data p)), s')"
proof -
  let ?bs = "ns @ wire p @ tail"
  let ?ds = "map (\<lambda>i. (?bs ! i, pr_clock pr i)) [0..<length ?bs]"
  obtain s1 l1 where u: "update_rate pr (length ?bs) s l = (s1, l1)" by force
  have "map fst ?ds = concat (map (\<lambda>(ns, p). ns @ wire p) [(ns, p)]) @ tail"
    by (simp add: comp_def map_nth del: length_append)
  with completed_frames [of "tl_reader l1" "[(ns, p)]" tail ?ds] assms update_rate_frame [OF u]
  obtain q t r' where c: "completed ?ds (tl_reader l1) = ([(q, t)], r')" "rd_idle r'"
      "valid_packet q" "wire q = wire p"
    by (fastforce simp: list_all2_Cons2)
  then have "command q = command p" "data_length q = data_length p"
      "take (unat (data_length p)) (data q) = take (unat (data_length p)) (data p)"
    using wire_eqD [OF c(4)] assms(6) by (auto simp: valid_packet_def)
  then show ?thesis
    using assms(2,3,7) u on_bytes_completed [OF c(1), of s1] c(2)
    by (simp add: iteration_def on_packet_def version_result_def Let_def del: length_append)
qed

definition example_read :: "u8 list \<Rightarrow> port_read" where
  "example_read bs = \<lparr>pr_first = Some (hd bs), pr_waiting = int (length bs) - 1,
     pr_more = int (length bs) - 1, pr_rest = tl bs, pr_now = 150, pr_clock = (\<lambda>i. 150 + int i)\<rparr>"

theorem version_reply_received_witness:
  "\<exists>s' l'. iteration (example_read [5, 0x9A, 0, 0xE3, 2, 0x31, 0x32]) (example_sensor False) example_local =
      Some (s', l', [VersionNotified]) \<and> fst (version_result s') = Some [0x31, 0x32]"
proof -
  let ?p = "example_packet 0x9A 0 0xE3 2 [0x31, 0x32]"
  have "received 5 (example_read [5, 0x9A, 0, 0xE3, 2, 0x31, 0x32]) = Some ([5] @ wire ?p @ [])"
    by (simp add: received_def example_read_def wire_def raw_def packet_size_def packet_sizes)
      (simp add: example_packet_def)
  from version_reply_received [OF _ _ this, of example_local "example_sensor False"]
  obtain s' l' where
    "iteration (example_read [5, 0x9A, 0, 0xE3, 2, 0x31, 0x32]) (example_sensor False) example_local =
      Some (s', l', [VersionNotified])"
    "version_result s' = (Some (take (unat (data_length ?p)) (data ?p)), s')"
    by (auto simp: example_read_def is_noise_def USB_PACKET_START_BYTE_def valid_packet_def
        USB_COMMAND_GET_VERSION_def)
  then show ?thesis by (intro exI [of _ s'] exI [of _ l']) (simp add: example_packet_def)
qed

text \<open>
  An iteration of the read thread ends with an exception out of the thread in exactly one case:
  a byte has been read and then the count of waiting bytes is an error other than -1.
\<close>

theorem iteration_throws_iff:
  "iteration pr s l = None \<longleftrightarrow> pr_first pr \<noteq> None \<and> pr_waiting pr < -1"
proof -
  have "iteration pr s l = None \<longleftrightarrow> (\<exists>b. pr_first pr = Some b \<and> received b pr = None)"
    by (simp add: iteration_def Let_def case_prod_beta split: option.splits)
  also have "\<dots> \<longleftrightarrow> pr_first pr \<noteq> None \<and> pr_waiting pr < -1"
    by (auto simp: received_def Let_def)
  finally show ?thesis .
qed

text \<open>
  A thread that has left its loop never comes back: whatever the user calls afterwards,
  \<open>start\<close> included, no callback is ever made again.
\<close>

theorem no_callback_after_exit:
  assumes "m_thread s = Exited" and "sensor_steps s es t"
  shows "m_thread t = Exited \<and> (\<forall>fs. Callback fs \<notin> set es)"
  using steps_exited [OF assms(2,1)] .

theorem no_callback_after_exit_witness:
  "\<exists>t. sensor_steps ((stop (example_sensor False))\<lparr>m_thread := Exited\<rparr>) [] t \<and> m_running t \<and>
     m_connected t \<and> m_thread t = Exited"
proof -
  let ?s = "(stop (example_sensor False))\<lparr>m_thread := Exited\<rparr>"
  have run: "sensor_steps ?s [] (start ?s)"
    using steps_step [OF steps_refl user_start, of ?s] by simp
  from no_callback_after_exit [OF _ this] have "m_thread (start ?s) = Exited" by simp
  moreover have "m_running (start ?s) \<and> m_connected (start ?s)"
    by (simp add: start_def stop_def Let_def example_sensor_def new_sensor_def joinable_def)
  ultimately show ?thesis using run by blast
qed

text \<open>
  \<open>isConnected\<close> never changes after the constructor: no sequence of calls and of iterations of
  the read thread, with whatever errors of the port, makes a connected sensor disconnected.
\<close>

theorem connected_is_constant:
  assumes "sensor_steps s es t"
  shows "m_connected t = m_connected s"
  by (rule steps_connected [OF assms])

theorem connected_is_constant_witness: "m_connected (start (stop (example_sensor False)))"
proof -
  have "sensor_steps (example_sensor False) [] (start (stop (example_sensor False)))"
    using steps_step [OF steps_step [OF steps_refl user_stop] user_start, of "example_sensor False"] by simp
  from connected_is_constant [OF this] show ?thesis by simp
qed

lemma steps_samples_new:
  assumes "sensor_steps (new_sensor n r found opened cb period) es s"
  shows "length (m_baseline_samples s) \<le> 1000"
  by (rule steps_samples [OF assms]) (simp add: new_sensor_def Let_def)

text \<open>
  A baseline that is returned is the exact mean: in every state the machine can reach, a
  baseline computed once 1000 samples are there has in each taxel the floor of the mean of the 1000
  values, with no overflow of the 32-bit sums.
\<close>

theorem baseline_is_mean:
  assumes "sensor_steps (new_sensor n r found opened cb period) es s"
    and "1000 \<le> length (m_baseline_samples s)" and "baseline_end Collected s = (Some b, s')"
    and "f < FINGER_COUNT" and "i < FINGER_STATIC_TACTILE_COUNT"
  shows "unat (baseline (finger b ! f) ! i) =
      (\<Sum>x\<leftarrow>m_baseline_samples s. unat (staticTactile (finger x ! f) ! i)) div 1000 \<and>
    m_baseline_samples s' = [] \<and> \<not> m_calculating_baseline s'"
proof -
  have "length (m_baseline_samples s) = 1000"
    using steps_samples_new [OF assms(1)] assms(2) by simp
  with assms(3-5) show ?thesis
    by (auto simp: baseline_end_def finger_counts baseline_of_nth)
qed

lemma length_deliver: "\<forall>x \<in> set xs. fst x \<noteq> [] \<Longrightarrow> length (snd (deliver t0 xs fs)) = length xs"
  by (induction xs arbitrary: fs) (auto simp: Let_def split_beta)

text \<open>A read of given bytes at the time of the last rate.\<close>

lemma iteration_example:
  assumes "bs \<noteq> []"
  shows "\<exists>pr ds. map fst ds = bs \<and> iteration pr s l =
    Some (on_bytes ds s (l\<lparr>tl_received_bytes := tl_received_bytes l + word_of_nat (length bs)\<rparr>))"
proof -
  let ?pr = "(example_read bs)\<lparr>pr_now := tl_rate_time l\<rparr>"
  let ?ds = "map (\<lambda>i. (bs ! i, pr_clock ?pr i)) [0..<length bs]"
  have "update_rate ?pr (length bs) s l = (s, l\<lparr>tl_received_bytes := tl_received_bytes l + word_of_nat (length bs)\<rparr>)"
    by (simp add: update_rate_def Let_def)
  moreover have "pr_first ?pr = Some (hd bs)" by (simp add: example_read_def)
  moreover have "received (hd bs) ?pr = Some bs"
    using assms by (cases bs) (auto simp: received_def example_read_def nat_diff_distrib)
  ultimately show ?thesis
    by (intro exI [of _ ?pr] exI [of _ ?ds]) (simp add: iteration_def comp_def map_nth)
qed

text \<open>A number of frames in one iteration, which leaves the thread ready for more.\<close>

lemma many_deliveries:
  assumes "rd_idle (tl_reader l)" and "wf_fingers (tl_fingers l)" and "\<not> any_new (tl_fingers l)"
    and "length (m_baseline_samples s) \<le> 1000" and "0 < n"
  shows "\<exists>pr l' out. iteration pr s l = Some (fst (dispatch out s), l', snd (dispatch out s)) \<and> length out = n \<and>
    rd_idle (tl_reader l') \<and> wf_fingers (tl_fingers l') \<and> \<not> any_new (tl_fingers l')"
proof -
  let ?fr = "replicate n ([] :: u8 list, example_packet 0x9A 0 0x58 3 [0x64, 1, 2], [(1 :: nat, 0 :: u8, Temperature 258)])"
  let ?bs = "concat (map (\<lambda>(ns, p, rs). ns @ wire p) ?fr)"
  let ?l = "l\<lparr>tl_received_bytes := tl_received_bytes l + word_of_nat (length ?bs)\<rparr>"
  have "?bs \<noteq> []" using assms(5) by (cases n) (simp_all add: wire_def raw_def packet_size_def packet_sizes)
  from iteration_example [OF this, of s l] obtain pr ds where ds: "map fst ds = ?bs @ []"
    and it: "iteration pr s l = Some (on_bytes ds s ?l)" by auto
  have fr: "\<forall>(ns, p, rs) \<in> set ?fr. list_all is_noise ns \<and> sensor_frame p rs" using example_frame by auto
  have pre: "rd_idle (tl_reader ?l)" "wf_fingers (tl_fingers ?l)" "\<not> any_new (tl_fingers ?l)" using assms(1-3) by simp_all
  from stream_delivered [OF pre assms(4) fr _ ds] obtain l' fs out where
    d: "deliver (tl_start_time ?l) (zip (map (\<lambda>(ns, p, rs). rs) ?fr)
      (frame_ends (map (\<lambda>(ns, p, rs). (ns, p)) ?fr) (map snd ds))) (tl_fingers ?l) = (fs, out)"
    and o: "on_bytes ds s ?l = (fst (dispatch out s), l', snd (dispatch out s))"
    and l': "rd_idle (tl_reader l') \<and> wf_fingers (tl_fingers l') \<and> \<not> any_new (tl_fingers l')" by auto
  have "\<forall>x \<in> set (zip (map (\<lambda>(ns, p, rs). rs) ?fr) (frame_ends (map (\<lambda>(ns, p, rs). (ns, p)) ?fr) (map snd ds))). fst x \<noteq> []"
    by (auto dest!: set_zip_leftD)
  from length_deliver [OF this, of "tl_start_time ?l" "tl_fingers ?l"] d have "length out = n" by simp
  then show ?thesis using it o l' by auto
qed

lemma many_samples:
  assumes "rd_idle (tl_reader l)" and "tl_fingers l = zero_fingers"
    and "m_baseline_samples s = []" and "m_calculating_baseline s" and "0 < n" and "n \<le> 1000"
  shows "\<exists>pr s' l' e. iteration pr s l = Some (s', l', e) \<and> length (m_baseline_samples s') = n"
proof -
  have "wf_fingers (tl_fingers l)" "\<not> any_new (tl_fingers l)" "length (m_baseline_samples s) \<le> 1000"
    using assms(2,3) by simp_all
  from many_deliveries [OF assms(1) this assms(5)] obtain pr l' out where
    "iteration pr s l = Some (fst (dispatch out s), l', snd (dispatch out s))" "length out = n" by blast
  then show ?thesis using assms(3,4,6) by (fastforce simp: dispatch_def)
qed

lemma thousand_samples:
  "\<exists>es s. sensor_steps (new_sensor ''p'' ''p'' True True True 10) es s \<and> length (m_baseline_samples s) = 1000"
proof -
  let ?n = "new_sensor ''p'' ''p'' True True True 10" and ?e = "example_packet 0 0 0 0 []"
  obtain bytes p' where sent: "send_autosend (ucast (m_period_ms ?n)) ?e = (bytes, p')" by force
  let ?l = "init_local p' ?e 100 100"
  let ?s1 = "?n\<lparr>m_thread := Running ?l\<rparr>"
  let ?s2 = "?s1\<lparr>m_baseline_samples := [], m_calculating_baseline := True\<rparr>"
  have "sensor_step ?n [Sent bytes] ?s1"
    by (rule thread_entry [OF _ _ _ sent]) (simp_all add: new_sensor_def Let_def)
  moreover have "sensor_step ?s1 [] ?s2"
    by (rule user_baseline [of _ True]) (simp add: baseline_begin_def new_sensor_def)
  ultimately have two: "sensor_steps ?n (([] @ [Sent bytes]) @ []) ?s2"
    by (intro steps_step [OF steps_step [OF steps_refl]])
  have "tl_fingers ?l = zero_fingers" "rd_idle (tl_reader ?l)"
    by (simp_all add: init_local_def)
  from many_samples [OF this(2,1), of ?s2 1000] obtain pr s' l' e where
    it: "iteration pr ?s2 ?l = Some (s', l', e)" "length (m_baseline_samples s') = 1000"
    by auto
  have "sensor_step ?s2 e (s'\<lparr>m_thread := Running l'\<rparr>)"
    by (rule thread_iteration [OF _ _ it(1)]) (simp_all add: new_sensor_def)
  from steps_step [OF two this] it(2) show ?thesis
    by (intro exI [of _ "s'\<lparr>m_thread := Running l'\<rparr>"] exI conjI) simp_all
qed

theorem baseline_is_mean_witness:
  "\<exists>es s. sensor_steps (new_sensor ''p'' ''p'' True True True 10) es s \<and>
     length (m_baseline_samples s) = 1000 \<and> fst (baseline_end Collected s) \<noteq> None \<and>
     unat (baseline (finger (the (fst (baseline_end Collected s))) ! 1) ! 27) =
       (\<Sum>x\<leftarrow>m_baseline_samples s. unat (staticTactile (finger x ! 1) ! 27)) div 1000"
proof -
  obtain es s where s: "sensor_steps (new_sensor ''p'' ''p'' True True True 10) es s"
    "length (m_baseline_samples s) = 1000" using thousand_samples by blast
  obtain b s' where e: "baseline_end Collected s = (Some b, s')" by (simp add: baseline_end_def)
  from baseline_is_mean [OF s(1) _ e, of 1 27] s e show ?thesis
    by (intro exI [of _ es] exI [of _ s]) (simp add: finger_counts)
qed

text \<open>
  The polling loop of \<open>findBaseline\<close> always ends, and it succeeds exactly when one of the
  first 499 polls sees 1000 samples with the sensor connected at it and before: the last of its 500 polls
  reports a time-out even with all the samples there.
\<close>

theorem baseline_poll_succeeds_iff:
  "baseline_poll obs 0 = Collected \<longleftrightarrow> (\<exists>j < 499. collected_at obs 0 j)"
  by (rule baseline_poll_Collected) simp

text \<open>
  The auto-send message on the wire is five bytes, and the period in it is the low byte of the
  requested one: a period that is a multiple of 256 sends the message that stops the sensor.
\<close>

theorem autosend_truncates_period:
  assumes "wf_packet p"
  shows "fst (send_autosend (ucast (period :: u32)) p) = [0x9A, crc8 p, 0x58, 1, word_of_nat (unat period mod 256)] \<and>
    (fst (send_autosend (ucast period) p) = fst (send_autosend 0 p) \<longleftrightarrow> 256 dvd unat period)"
proof -
  have len: "length (data p) = 256" using assms by (simp add: wf_packet_def packet_sizes)
  have w: "fst (send_autosend b p) = [0x9A, crc8 p, 0x58, 1, b]" for b
    using len by (cases "data p") (simp_all add: send_autosend_def usbSend_def autosend_packet_def raw_def
        calcCrc8_def Let_def USB_PACKET_START_BYTE_def USB_COMMAND_AUTOSEND_SYNC_SENSORS_def)
  have u: "unat (ucast period :: u8) = unat period mod 256"
    by (simp add: unsigned_ucast_eq take_bit_eq_mod)
  then have "ucast period = (word_of_nat (unat period mod 256) :: u8)"
    by (simp flip: u)
  moreover have "(ucast period :: u8) = 0 \<longleftrightarrow> 256 dvd unat period"
    using u by (metis dvd_eq_mod_eq_0 unat_eq_zero)
  ultimately show ?thesis by (simp add: w)
qed

theorem autosend_truncates_period_witness:
  "fst (send_autosend (ucast (256 :: u32)) (example_packet 0 7 0 0 [])) =
   fst (send_autosend 0 (example_packet 0 7 0 0 []))"
proof -
  have "wf_packet (example_packet 0 7 0 0 [])" and "256 dvd unat (256 :: u32)" by simp_all
  with autosend_truncates_period [of "example_packet 0 7 0 0 []" 256] show ?thesis by blast
qed

end
