(* ===== verification/SensorLifetime.thy ===== *)
theory SensorLifetime
  imports TactileSensor
begin

text \<open>
  The two ends of a \<open>RobotiqTactileSensor\<close> (\<open>tsf/sdk_cpp/RobotiqTactileSensor.cpp\<close>) as the owner of a port:
  the constructor's calls of libserialport, the destructor with its \<open>join\<close>, and the getters. libserialport
  is a record of functions on a state \<open>'o\<close>; \<open>realpath\<close> is an argument.
\<close>

section \<open>The port's owner\<close>

datatype port_setting = SetBaudrate int | SetBits int | SetParityNone | SetStopbits int | SetFlowcontrolNone

record 'o serialport =
  lsp_get_port_by_name :: "string \<Rightarrow> 'o \<Rightarrow> nat option \<times> 'o"
  lsp_open :: "nat \<Rightarrow> 'o \<Rightarrow> bool \<times> 'o"
  lsp_set :: "nat \<Rightarrow> port_setting \<Rightarrow> 'o \<Rightarrow> 'o"
  lsp_close :: "nat \<Rightarrow> 'o \<Rightarrow> 'o"
  lsp_free_port :: "nat \<Rightarrow> 'o \<Rightarrow> 'o"

text \<open>\<open>realpath\<close> answers a path or fails.\<close>

definition resolveSymlink :: "(string \<Rightarrow> string option) \<Rightarrow> string \<Rightarrow> string" where
  "resolveSymlink realpath path = (case realpath path of Some resolved \<Rightarrow> resolved | None \<Rightarrow> path)"

text \<open>115200 baud, 8N1, no flow control; the answers of these calls are not looked at.\<close>

definition line_settings :: "port_setting list" where
  "line_settings = [SetBaudrate 115200, SetBits 8, SetParityNone, SetStopbits 1, SetFlowcontrolNone]"

text \<open>The object, \<open>m_port\<close> apart from the other members, and the library.\<close>

definition constructor_calls ::
    "'o serialport \<Rightarrow> (string \<Rightarrow> string option) \<Rightarrow> string \<Rightarrow> bool \<Rightarrow> u32 \<Rightarrow> 'o \<Rightarrow> sensor \<times> nat option \<times> 'o" where
  "constructor_calls lib realpath portName cb period w =
     (let resolvedPort = resolveSymlink realpath portName in
      case lsp_get_port_by_name lib resolvedPort w of
        (None, w1) \<Rightarrow> (new_sensor portName resolvedPort False False cb period, None, w1)
      | (Some port, w1) \<Rightarrow>
          (case lsp_open lib port w1 of
             (False, w2) \<Rightarrow>
               (new_sensor portName resolvedPort True False cb period, None, lsp_free_port lib port w2)
           | (True, w2) \<Rightarrow>
               (new_sensor portName resolvedPort True True cb period, Some port,
                fold (lsp_set lib port) line_settings w2)))"

text \<open>
  \<open>join\<close>: with \<open>m_running\<close> clear the thread still enters its loop if it has not yet, asking the sensor to
  send, and leaves it, asking it to stop. \<open>p\<close> and \<open>recv\<close> are its uninitialised packets. A joined thread is
  no longer joinable.
\<close>

definition join_thread :: "usb_packet \<Rightarrow> sensor \<Rightarrow> event list \<times> sensor" where
  "join_thread p s =
     (let joined = s\<lparr>m_thread := NoThread\<rparr> in
      case m_thread s of
        NoThread \<Rightarrow> ([], s)
      | Spawned \<Rightarrow> (let (bytes, p1) = send_autosend (ucast (m_period_ms s)) p
                     in ([Sent bytes, Sent (fst (send_autosend 0 p1))], joined))
      | Running l \<Rightarrow> ([Sent (fst (send_autosend 0 (tl_send l)))], joined)
      | Exited \<Rightarrow> ([], joined))"

definition destructor_calls ::
    "'o serialport \<Rightarrow> usb_packet \<Rightarrow> nat option \<Rightarrow> sensor \<Rightarrow> 'o \<Rightarrow> event list \<times> sensor \<times> 'o" where
  "destructor_calls lib p m_port s w =
     (let s1 = stop s;
          (evs, s2) = (if joinable (m_thread s1) then join_thread p s1 else ([], s1))
      in (evs, s2, case m_port of None \<Rightarrow> w | Some port \<Rightarrow> lsp_free_port lib port (lsp_close lib port w)))"

definition isConnected :: "sensor \<Rightarrow> bool" where
  "isConnected s = m_connected s"

definition getLastError :: "sensor \<Rightarrow> string" where
  "getLastError s = m_last_error s"

definition getDataRate :: "sensor \<Rightarrow> u64" where
  "getDataRate s = m_data_rate s"

section \<open>Auto-send messages\<close>

definition is_autosend :: "u8 list \<Rightarrow> bool" where
  "is_autosend b \<longleftrightarrow> b ! 2 = USB_COMMAND_AUTOSEND_SYNC_SENSORS"

definition asks_to_stop :: "u8 list \<Rightarrow> bool" where
  "asks_to_stop b \<longleftrightarrow> length b = 5 \<and> is_autosend b \<and> b ! 3 = 1 \<and> b ! 4 = 0"

fun autosends :: "event list \<Rightarrow> u8 list list" where
  "autosends [] = []"
| "autosends (Sent b # es) = (if is_autosend b then b # autosends es else autosends es)"
| "autosends (_ # es) = autosends es"

lemma autosends_append [simp]: "autosends (a @ b) = autosends a @ autosends b"
  by (induction a rule: autosends.induct) auto

lemma send_autosend_bytes:
  assumes "wf_packet p"
  shows "fst (send_autosend b p) = [0x9A, crc8 p, 0x58, 1, b]" "wf_packet (snd (send_autosend b p))"
proof -
  have len: "length (data p) = 256" using assms by (simp add: wf_packet_def packet_sizes)
  then show "fst (send_autosend b p) = [0x9A, crc8 p, 0x58, 1, b]"
    by (cases "data p") (simp_all add: send_autosend_def usbSend_def autosend_packet_def raw_def
        calcCrc8_def Let_def USB_PACKET_START_BYTE_def USB_COMMAND_AUTOSEND_SYNC_SENSORS_def)
  show "wf_packet (snd (send_autosend b p))"
    using assms by (simp add: send_autosend_def usbSend_def autosend_packet_def Let_def wf_packet_def)
qed

lemma autosend_facts:
  assumes "wf_packet p"
  shows "is_autosend (fst (send_autosend b p))" "asks_to_stop (fst (send_autosend 0 p))"
  using send_autosend_bytes [OF assms]
  by (simp_all add: asks_to_stop_def is_autosend_def USB_COMMAND_AUTOSEND_SYNC_SENSORS_def)

section \<open>What the thread sends\<close>

lemma on_packet_sends:
  assumes "on_packet now recv s l = (s', l', e)"
  shows "tl_send l' = tl_send l" "autosends e = []"
  using assms by (auto simp: on_packet_def Let_def split: if_splits)

lemma on_byte_sends:
  assumes "on_byte now d s l = (s', l', e)"
  shows "tl_send l' = tl_send l" "autosends e = []"
  using assms by (auto simp: on_byte_def Let_def split: prod.splits if_splits dest: on_packet_sends)

lemma on_bytes_sends: "on_bytes ds s l = (s', l', e) \<Longrightarrow> tl_send l' = tl_send l \<and> autosends e = []"
proof (induction ds arbitrary: s l s' l' e)
  case (Cons x ds)
  obtain s1 l1 e1 where b: "on_byte (snd x) (fst x) s l = (s1, l1, e1)" using prod_cases3 by blast
  obtain s2 l2 e2 where r: "on_bytes ds s1 l1 = (s2, l2, e2)" using prod_cases3 by blast
  have "l' = l2 \<and> e = e1 @ e2" using Cons.prems b r by (cases x) simp
  then show ?case using on_byte_sends [OF b] Cons.IH [OF r] by simp
qed simp

lemma update_rate_sends: "update_rate pr n s l = (s', l') \<Longrightarrow> tl_send l' = tl_send l"
  by (auto simp: update_rate_def Let_def split: if_splits)

lemma iteration_sends:
  assumes "iteration pr s l = Some (s', l', e)"
  shows "tl_send l' = tl_send l" "autosends e = []"
proof -
  have "tl_send l' = tl_send l \<and> autosends e = []"
  proof (cases "pr_first pr")
    case None
    then show ?thesis using assms by (simp add: iteration_def)
  next
    case (Some b)
    then obtain bs where bs: "received b pr = Some bs" using assms by (auto simp: iteration_def split: option.splits)
    obtain s1 l1 where u: "update_rate pr (length bs) s l = (s1, l1)" by fastforce
    then have "on_bytes (map (\<lambda>i. (bs ! i, pr_clock pr i)) [0..<length bs]) s1 l1 = (s', l', e)"
      using assms Some bs by (simp add: iteration_def)
    from on_bytes_sends [OF this] update_rate_sends [OF u] show ?thesis by simp
  qed
  then show "tl_send l' = tl_send l" "autosends e = []" by simp_all
qed

lemma version_request_sends: "version_request write pkt s = (ok, s', e) \<Longrightarrow> autosends e = []"
  by (auto simp: version_request_def usbSend_def is_autosend_def raw_def Let_def USB_COMMAND_GET_VERSION_def
      USB_COMMAND_AUTOSEND_SYNC_SENSORS_def split: if_splits)

text \<open>The messages sent so far tell where the thread is.\<close>

definition told :: "sensor \<Rightarrow> event list \<Rightarrow> bool" where
  "told s es \<longleftrightarrow> (case m_thread s of
       NoThread \<Rightarrow> autosends es = [] \<and> \<not> m_connected s
     | Spawned \<Rightarrow> autosends es = [] \<and> m_connected s
     | Running l \<Rightarrow> wf_packet (tl_send l) \<and> length (autosends es) = 1 \<and> m_connected s
     | Exited \<Rightarrow> length (autosends es) = 2 \<and> asks_to_stop (last (autosends es)) \<and> m_connected s)"

lemma told_same: "told s es \<Longrightarrow> autosends e = [] \<Longrightarrow> m_thread s' = m_thread s \<Longrightarrow> m_connected s' = m_connected s \<Longrightarrow>
    told s' (es @ e)"
  by (simp add: told_def split: thread_state.splits)

lemma told_quiet: "told s es \<Longrightarrow> m_thread s' = m_thread s \<Longrightarrow> m_connected s' = m_connected s \<Longrightarrow> told s' es"
  by (simp add: told_def split: thread_state.splits)

lemma told_step: "sensor_step s e s' \<Longrightarrow> told s es \<Longrightarrow> told s' (es @ e)"
proof (induction rule: sensor_step.induct)
  case (user_start s)
  then show ?case
    by (cases "m_thread s") (auto simp: told_def start_def joinable_def Let_def)
next
  case (thread_entry s p recv bytes p' now1 now2)
  have "is_autosend bytes" using autosend_facts(1) [OF thread_entry(2)] thread_entry(4) by (metis fst_conv)
  moreover have "wf_packet p'" using send_autosend_bytes(2) [OF thread_entry(2)] thread_entry(4) by (metis snd_conv)
  ultimately show ?case using thread_entry(1,5) by (simp add: told_def init_local_def)
next
  case (thread_iteration s l pr s' l' evs)
  have "m_connected s' = m_connected s"
    using step_connected [OF sensor_step.thread_iteration [OF thread_iteration(1-3)]] by simp
  then show ?case
    using thread_iteration iteration_sends [OF thread_iteration(3)] by (simp add: told_def)
next
  case (thread_exit s l bytes p')
  then have "wf_packet (tl_send l)" by (simp add: told_def)
  then have "is_autosend bytes" "asks_to_stop bytes" using autosend_facts thread_exit(3) by (metis fst_conv)+
  then show ?case using thread_exit(1,4) by (simp add: told_def)
next
  case (user_stop s)
  then show ?case using told_quiet [of s es "stop s"] by (simp add: stop_def)
next
  case (user_version out pkt s ok s' evs)
  from version_request_frame [OF user_version(1)] version_request_sends [OF user_version(1)] user_version(2)
  show ?case by (auto intro!: told_same)
next
  case (user_version_result s v s')
  then show ?case using told_quiet [OF _ version_result_frame(3,1)] by simp
next
  case (user_baseline s ok s')
  then show ?case using told_quiet [OF _ baseline_begin_frame(3,1)] by simp
next
  case (user_baseline_end outcome s b s')
  then show ?case using told_quiet [OF _ baseline_end_frame(3,1)] by simp
qed

lemma told_steps: "sensor_steps s es t \<Longrightarrow> told s [] \<Longrightarrow> told t es"
  by (induction rule: sensor_steps.induct) (auto intro: told_step)

lemma told_new: "told (new_sensor n r found opened cb period) []"
  by (simp add: told_def new_sensor_def Let_def)

section \<open>The destructor\<close>

text \<open>What \<open>join\<close> waits for is a run of the machine, from the state \<open>m_running = false\<close> leaves.\<close>

lemma join_is_a_run:
  assumes "wf_packet p" and "\<not> m_running s" and "join_thread p s = (evs, s')"
  shows "\<exists>t. sensor_steps s evs t \<and> m_thread t \<in> {NoThread, Exited} \<and> s' = t\<lparr>m_thread := NoThread\<rparr>"
proof (cases "m_thread s")
  case NoThread
  then show ?thesis using assms(3) steps_refl [of s] by (auto simp: join_thread_def Let_def)
next
  case Exited
  then show ?thesis using assms(3) steps_refl [of s] by (auto simp: join_thread_def Let_def)
next
  case (Running l)
  obtain b q where b: "send_autosend 0 (tl_send l) = (b, q)" by fastforce
  have "sensor_steps s [Sent b] (s\<lparr>m_thread := Exited\<rparr>)"
    using steps_step [OF steps_refl thread_exit [OF Running assms(2) b]] by simp
  then show ?thesis
    using Running b assms(3) by (intro exI [of _ "s\<lparr>m_thread := Exited\<rparr>"]) (auto simp: join_thread_def Let_def)
next
  case Spawned
  obtain a q where a: "send_autosend (ucast (m_period_ms s)) p = (a, q)" by fastforce
  obtain b r where b: "send_autosend 0 q = (b, r)" by fastforce
  let ?l = "init_local q p 0 0"
  have "sensor_step s [Sent a] (s\<lparr>m_thread := Running ?l\<rparr>)" by (rule thread_entry [OF Spawned assms(1,1) a])
  moreover have "sensor_step (s\<lparr>m_thread := Running ?l\<rparr>) [Sent b] (s\<lparr>m_thread := Running ?l, m_thread := Exited\<rparr>)"
    by (rule thread_exit [where l = ?l]) (use assms(2) b in \<open>simp_all add: init_local_def\<close>)
  ultimately have "sensor_steps s [Sent a, Sent b] (s\<lparr>m_thread := Exited\<rparr>)"
    using steps_step [OF steps_step [OF steps_refl]] by fastforce
  then show ?thesis
    using Spawned a b assms(3) by (intro exI [of _ "s\<lparr>m_thread := Exited\<rparr>"]) (auto simp: join_thread_def Let_def)
qed

text \<open>
  What libserialport documents of its ports: a name is looked up into a port object of its own, which has to
  be freed; opening and closing it changes nothing else. \<open>allocated\<close> and \<open>opened\<close> read the objects from its state.
\<close>

definition owns_ports :: "'o serialport \<Rightarrow> ('o \<Rightarrow> nat set) \<Rightarrow> ('o \<Rightarrow> nat set) \<Rightarrow> bool" where
  "owns_ports lib allocated opened \<longleftrightarrow>
     (\<forall>name w. case lsp_get_port_by_name lib name w of
        (None, w') \<Rightarrow> allocated w' = allocated w \<and> opened w' = opened w
      | (Some p, w') \<Rightarrow> p \<notin> allocated w \<and> allocated w' = insert p (allocated w) \<and> opened w' = opened w) \<and>
     (\<forall>p w. case lsp_open lib p w of
        (ok, w') \<Rightarrow> allocated w' = allocated w \<and> opened w' = (if ok then insert p (opened w) else opened w)) \<and>
     (\<forall>p c w. allocated (lsp_set lib p c w) = allocated w \<and> opened (lsp_set lib p c w) = opened w) \<and>
     (\<forall>p w. allocated (lsp_close lib p w) = allocated w \<and> opened (lsp_close lib p w) = opened w - {p}) \<and>
     (\<forall>p w. allocated (lsp_free_port lib p w) = allocated w - {p} \<and> opened (lsp_free_port lib p w) = opened w)"

lemma owned_laws:
  assumes "owns_ports lib allocated opened"
  shows "lsp_get_port_by_name lib name w = (None, w') \<Longrightarrow> allocated w' = allocated w \<and> opened w' = opened w"
    and "lsp_get_port_by_name lib name w = (Some p, w') \<Longrightarrow>
      p \<notin> allocated w \<and> allocated w' = insert p (allocated w) \<and> opened w' = opened w"
    and "lsp_open lib p w = (ok, w') \<Longrightarrow>
      allocated w' = allocated w \<and> opened w' = (if ok then insert p (opened w) else opened w)"
    and "allocated (fold (lsp_set lib p) cs w) = allocated w \<and> opened (fold (lsp_set lib p) cs w) = opened w"
    and "allocated (lsp_close lib p w) = allocated w \<and> opened (lsp_close lib p w) = opened w - {p}"
    and "allocated (lsp_free_port lib p w) = allocated w - {p} \<and> opened (lsp_free_port lib p w) = opened w"
proof -
  note l = assms [unfolded owns_ports_def]
  have g: "case lsp_get_port_by_name lib name w of
        (None, w') \<Rightarrow> allocated w' = allocated w \<and> opened w' = opened w
      | (Some p, w') \<Rightarrow> p \<notin> allocated w \<and> allocated w' = insert p (allocated w) \<and> opened w' = opened w"
    by (rule l [THEN conjunct1, rule_format])
  show "lsp_get_port_by_name lib name w = (None, w') \<Longrightarrow> allocated w' = allocated w \<and> opened w' = opened w"
    using g by simp
  show "lsp_get_port_by_name lib name w = (Some p, w') \<Longrightarrow>
      p \<notin> allocated w \<and> allocated w' = insert p (allocated w) \<and> opened w' = opened w"
    using g by simp
  have o: "case lsp_open lib p w of
        (ok, w') \<Rightarrow> allocated w' = allocated w \<and> opened w' = (if ok then insert p (opened w) else opened w)"
    by (rule l [THEN conjunct2, THEN conjunct1, rule_format])
  show "lsp_open lib p w = (ok, w') \<Longrightarrow>
      allocated w' = allocated w \<and> opened w' = (if ok then insert p (opened w) else opened w)"
    using o by simp
  show "allocated (fold (lsp_set lib p) cs w) = allocated w \<and> opened (fold (lsp_set lib p) cs w) = opened w"
    using l by (induction cs arbitrary: w) simp_all
  show "allocated (lsp_close lib p w) = allocated w \<and> opened (lsp_close lib p w) = opened w - {p}" using l by blast
  show "allocated (lsp_free_port lib p w) = allocated w - {p} \<and> opened (lsp_free_port lib p w) = opened w" using l by blast
qed

lemma constructor_result:
  assumes "owns_ports lib allocated opened" and "opened w \<subseteq> allocated w"
    and "constructor_calls lib realpath portName cb period w = (s, port, w')"
  shows "told s []"
    and "case port of
        None \<Rightarrow> allocated w' = allocated w \<and> opened w' = opened w
      | Some p \<Rightarrow> p \<notin> allocated w \<and> allocated w' = insert p (allocated w) \<and> opened w' = insert p (opened w)"
    and "m_connected s \<longleftrightarrow> port \<noteq> None"
proof -
  note laws = owned_laws [OF assms(1)]
  let ?r = "resolveSymlink realpath portName"
  obtain g w1 where g: "lsp_get_port_by_name lib ?r w = (g, w1)" by fastforce
  have "told s [] \<and> (case port of
        None \<Rightarrow> allocated w' = allocated w \<and> opened w' = opened w
      | Some p \<Rightarrow> p \<notin> allocated w \<and> allocated w' = insert p (allocated w) \<and> opened w' = insert p (opened w)) \<and>
      (m_connected s \<longleftrightarrow> port \<noteq> None)"
  proof (cases g)
    case None
    then show ?thesis
      using assms(3) g laws(1) [OF g [unfolded None]]
      by (auto simp: constructor_calls_def Let_def new_sensor_def told_def)
  next
    case (Some p)
    note got = laws(2) [OF g [unfolded Some]]
    obtain ok w2 where o: "lsp_open lib p w1 = (ok, w2)" by fastforce
    show ?thesis
      using assms(3) g Some got o laws(3) [OF o] laws(4) [of p line_settings w2] laws(6) [of p w2]
      by (cases ok) (auto simp: constructor_calls_def Let_def new_sensor_def told_def)
  qed
  then show "told s []" and "case port of
        None \<Rightarrow> allocated w' = allocated w \<and> opened w' = opened w
      | Some p \<Rightarrow> p \<notin> allocated w \<and> allocated w' = insert p (allocated w) \<and> opened w' = insert p (opened w)"
    and "m_connected s \<longleftrightarrow> port \<noteq> None" by blast+
qed

lemma destroyed_sensor_leaves:
  assumes laws: "owns_ports lib allocated opened" and "opened w \<subseteq> allocated w"
    and made: "constructor_calls lib realpath portName cb period w = (s0, port, w0)"
    and life: "sensor_steps s0 es s" and "allocated w1 = allocated w0" "opened w1 = opened w0"
    and gone: "destructor_calls lib p port s w1 = (evs, s', w')" and "wf_packet p"
  shows "m_thread s' = NoThread \<and> \<not> m_running s' \<and> allocated w' = allocated w \<and> opened w' = opened w \<and>
    (if m_connected s0
     then length (autosends (es @ evs)) = 2 \<and> asks_to_stop (last (autosends (es @ evs)))
     else autosends (es @ evs) = [])"
proof -
  note new = constructor_result [OF laws assms(2) made]
  have told: "told (stop s) es"
    using told_same [OF told_steps [OF life new(1)], of "[]" "stop s"] by (simp add: stop_def)
  obtain s2 where j: "(if joinable (m_thread (stop s)) then join_thread p (stop s) else ([], stop s)) = (evs, s2)"
    using gone by (auto simp: destructor_calls_def Let_def split: prod.splits)
  have s2: "s2 = s'" using gone j by (auto simp: destructor_calls_def Let_def split: prod.splits)
  have "join_thread p (stop s) = (evs, s')"
    using j s2 by (auto simp: joinable_def join_thread_def Let_def split: if_splits thread_state.splits)
  from join_is_a_run [OF \<open>wf_packet p\<close> _ this] obtain t where
    t: "sensor_steps (stop s) evs t" "m_thread t \<in> {NoThread, Exited}" "s' = t\<lparr>m_thread := NoThread\<rparr>"
    by (auto simp: stop_def)
  have "told t (es @ evs)" using t(1) told by (induction rule: sensor_steps.induct) (auto dest: told_step)
  moreover have "m_connected t = m_connected s0"
    using steps_connected [OF t(1)] steps_connected [OF life] by (simp add: stop_def)
  ultimately have streams: "if m_connected s0
     then length (autosends (es @ evs)) = 2 \<and> asks_to_stop (last (autosends (es @ evs)))
     else autosends (es @ evs) = []"
    using t(2) by (auto simp: told_def split: thread_state.splits)
  have "\<not> m_running s'"
    using \<open>join_thread p (stop s) = (evs, s')\<close>
    by (auto simp: join_thread_def Let_def stop_def split: thread_state.splits prod.splits)
  moreover have "w' = (case port of None \<Rightarrow> w1 | Some q \<Rightarrow> lsp_free_port lib q (lsp_close lib q w1))"
    using gone by (auto simp: destructor_calls_def Let_def split: prod.splits)
  then have "allocated w' = allocated w \<and> opened w' = opened w"
    using new(2) owned_laws(5,6) [OF laws] assms(2,5,6) by (auto split: option.splits)
  ultimately show ?thesis using streams t(3) by simp
qed

text \<open>
  C26 A sensor object leaves nothing behind: whatever was called on it and however far its thread got, its
  destructor returns with the thread gone, the library has the port objects and the open ports it had before
  the constructor, and a device that was opened and asked to stream has been asked, in the last message about
  streaming it was sent, to stop. The reads and writes in between open and free no port.
\<close>

theorem destroyed_sensor_leaves_nothing:
  assumes laws: "owns_ports lib allocated opened" and "opened w \<subseteq> allocated w"
    and made: "constructor_calls lib realpath portName cb period w = (s0, port, w0)"
    and life: "sensor_steps s0 es s" and "allocated w1 = allocated w0" "opened w1 = opened w0"
    and gone: "destructor_calls lib p port s w1 = (evs, s', w')" and "wf_packet p"
  shows "m_thread s' = NoThread \<and> \<not> m_running s' \<and> allocated w' = allocated w \<and> opened w' = opened w \<and>
    (if m_connected s0
     then length (autosends (es @ evs)) = 2 \<and> asks_to_stop (last (autosends (es @ evs)))
     else autosends (es @ evs) = [])"
  by (rule destroyed_sensor_leaves [OF assms])

section \<open>Witness\<close>

text \<open>A library with the port objects and the open ports, one device, and a symbolic link to it.\<close>

definition bench_library :: "(nat list \<times> nat list) serialport" where
  "bench_library = \<lparr>
     lsp_get_port_by_name = \<lambda>name (a, o'). if name = ''/dev/ttyACM0'' then (Some (sum_list a + 1), (sum_list a + 1) # a, o')
       else (None, a, o'),
     lsp_open = \<lambda>p (a, o'). (True, a, p # o'),
     lsp_set = \<lambda>p c w. w,
     lsp_close = \<lambda>p (a, o'). (a, removeAll p o'),
     lsp_free_port = \<lambda>p (a, o'). (removeAll p a, o')\<rparr>"

definition bench_links :: "string \<Rightarrow> string option" where
  "bench_links name = (if name = ''/dev/rq_tsf85_0'' then Some ''/dev/ttyACM0'' else None)"

lemma bench_owns_ports: "owns_ports bench_library (\<lambda>w. set (fst w)) (\<lambda>w. set (snd w))"
proof -
  have "sum_list hs + 1 \<notin> set hs" for hs :: "nat list" using member_le_sum_list [of "sum_list hs + 1" hs] by auto
  then show ?thesis by (auto simp: owns_ports_def bench_library_def split: if_splits)
qed

theorem destroyed_sensor_leaves_nothing_witness:
  "\<exists>s0 port w0 evs s' w'. constructor_calls bench_library bench_links ''/dev/rq_tsf85_0'' True 1 ([], []) = (s0, port, w0) \<and>
     m_connected s0 \<and> snd w0 \<noteq> [] \<and>
     destructor_calls bench_library (example_packet 0 7 0 0 []) port s0 w0 = (evs, s', w') \<and>
     asks_to_stop (last (autosends evs)) \<and> fst w' = [] \<and> snd w' = []"
proof -
  obtain s0 port w0 where c: "constructor_calls bench_library bench_links ''/dev/rq_tsf85_0'' True 1 ([], []) = (s0, port, w0)"
    using prod_cases3 by blast
  obtain evs s' w' where d: "destructor_calls bench_library (example_packet 0 7 0 0 []) port s0 w0 = (evs, s', w')"
    using prod_cases3 by blast
  have "m_connected s0 \<and> snd w0 \<noteq> []"
    using c by (auto simp: constructor_calls_def bench_library_def bench_links_def resolveSymlink_def new_sensor_def
        line_settings_def Let_def)
  moreover from destroyed_sensor_leaves_nothing [OF bench_owns_ports _ c steps_refl refl refl d] calculation
  have "asks_to_stop (last (autosends evs)) \<and> fst w' = [] \<and> snd w' = []" by simp
  ultimately show ?thesis using c d by blast
qed

end
