(* ===== verification/QuickStart.thy ===== *)
theory QuickStart
  imports SensorLifetime
begin

text \<open>
  The tactile sensors' terminal display (\<open>tsf/sdk_cpp/Quick_start.cpp\<close>): the callback with its gate, its
  throttle and the screen it prints, the signal handler, and the parts of \<open>main\<close> around the calls of the
  sensor. Times are nanoseconds of the steady clock. \<open>std::cout\<close> is a string.
\<close>

section \<open>Globals\<close>

definition DISPLAY_UPDATE_INTERVAL_MS :: int where "DISPLAY_UPDATE_INTERVAL_MS = 16"
definition FINGER_STATIC_TACTILE_ROW :: nat where "FINGER_STATIC_TACTILE_ROW = 7"
definition FINGER_STATIC_TACTILE_COL :: nat where "FINGER_STATIC_TACTILE_COL = 4"

lemmas display_sizes = DISPLAY_UPDATE_INTERVAL_MS_def FINGER_STATIC_TACTILE_ROW_def FINGER_STATIC_TACTILE_COL_def

record display =
  g_running :: bool
  g_baselineDone :: bool
  g_baseline :: fingers
  g_lastDisplayUpdate :: int

definition new_display :: display where
  "new_display = \<lparr>g_running = True, g_baselineDone = False, g_baseline = zero_fingers, g_lastDisplayUpdate = 0\<rparr>"

section \<open>The screen\<close>

text \<open>\<open>operator<<\<close> of signed integers, and \<open>std::setw(6)\<close>.\<close>

definition int_text :: "int \<Rightarrow> string" where
  "int_text n = (if n < 0 then ''-'' @ decimal (nat (- n)) else decimal (nat n))"

definition setw6 :: "string \<Rightarrow> string" where
  "setw6 s = replicate (6 - length s) CHR '' '' @ s"

definition endl :: string where
  "endl = [CHR 0x0A]"

text \<open>Clear the screen, cursor to the first row and column.\<close>

definition clear_screen :: string where
  "clear_screen = [CHR 0x1B] @ ''[2J'' @ [CHR 0x1B] @ ''[1;1H''"

text \<open>The difference is computed in \<open>int\<close> and stored in an \<open>int16_t\<close>.\<close>

definition taxel_value :: "fingers \<Rightarrow> fingers \<Rightarrow> nat \<Rightarrow> nat \<Rightarrow> u16" where
  "taxel_value base fs f idx = word_of_int (uint (staticTactile (finger fs ! f) ! idx) - uint (baseline (finger base ! f) ! idx))"

definition grid_row :: "fingers \<Rightarrow> fingers \<Rightarrow> nat \<Rightarrow> nat \<Rightarrow> string" where
  "grid_row base fs f row =
     ''  '' @ concat (map (\<lambda>col. setw6 (int_text (sint (taxel_value base fs f (row * FINGER_STATIC_TACTILE_COL + col)))) @ '' '')
       [0..<FINGER_STATIC_TACTILE_COL])"

definition axes :: "u16 list \<Rightarrow> string" where
  "axes v = ''X='' @ int_text (sint (v ! 0)) @ '', Y='' @ int_text (sint (v ! 1)) @ '', Z='' @ int_text (sint (v ! 2))"

definition finger_lines :: "fingers \<Rightarrow> fingers \<Rightarrow> nat \<Rightarrow> string list" where
  "finger_lines base fs f =
     [''--- Finger '' @ decimal f @ '' ---'', '''', ''Static Tactile (7x4 pressure grid, baseline-subtracted):''] @
     map (grid_row base fs f) [0..<FINGER_STATIC_TACTILE_ROW] @
     ['''', ''Dynamic Tactile: '' @ int_text (sint (dynamicTactile (finger fs ! f) ! 0)), '''',
      ''Accelerometer:  '' @ axes (accelerometer (finger fs ! f)), ''Gyroscope:      '' @ axes (gyroscope (finger fs ! f)),
      ''Timestamp:      '' @ decimal (unat (fd_timestamp (finger fs ! f)))]"

definition banner :: "string list" where
  "banner = [''========================================'', ''  Robotiq Tactile Sensor Quick Start'',
     ''========================================'']"

definition screen_lines :: "fingers \<Rightarrow> fingers \<Rightarrow> string list" where
  "screen_lines base fs = banner @ [''Timestamp: '' @ int_text (fs_timestamp fs) @ '' ms'', ''''] @
     concat (map (finger_lines base fs) [0..<FINGER_COUNT]) @ [''Press Ctrl+C to exit...'']"

definition out_lines :: "string list \<Rightarrow> string" where
  "out_lines ls = concat (map (\<lambda>l. l @ endl) ls)"

section \<open>The callback and the signal handler\<close>

definition onSensorData :: "int \<Rightarrow> fingers \<Rightarrow> display \<Rightarrow> string option \<times> display" where
  "onSensorData now fs g =
     (if \<not> g_baselineDone g then (None, g)
      else let elapsed = (now - g_lastDisplayUpdate g) div 10 ^ 6
           in if elapsed < DISPLAY_UPDATE_INTERVAL_MS then (None, g)
              else (Some (clear_screen @ out_lines (screen_lines (g_baseline g) fs)), g\<lparr>g_lastDisplayUpdate := now\<rparr>))"

definition signalHandler :: "int \<Rightarrow> display \<Rightarrow> string \<times> display" where
  "signalHandler signum g =
     (endl @ out_lines [''Received signal '' @ int_text signum @ '', shutting down...''], g\<lparr>g_running := False\<rparr>)"

text \<open>A run of callbacks; the times and the screens of those that print.\<close>

fun callbacks :: "(int \<times> fingers) list \<Rightarrow> display \<Rightarrow> (int \<times> string) list \<times> display" where
  "callbacks [] g = ([], g)"
| "callbacks ((now, fs) # ds) g =
     (let (shown, g1) = onSensorData now fs g; (later, g2) = callbacks ds g1
      in ((case shown of None \<Rightarrow> [] | Some screen \<Rightarrow> [(now, screen)]) @ later, g2))"

section \<open>\<open>main\<close>\<close>

definition portName_of :: "string list \<Rightarrow> string" where
  "portName_of argv = (if 1 < length argv then argv ! 1 else ''/dev/rq_tsf85_0'')"

definition opening_text :: "string \<Rightarrow> string" where
  "opening_text portName = out_lines (banner @ [''Connecting to: '' @ portName, ''Sampling rate: 1000 Hz (1ms period)'', ''''])"

text \<open>
  After the constructor: the text and the end of the program when the sensor is not connected. The left side
  of the sum is the text on \<open>std::cerr\<close>, with which \<open>main\<close> returns 1.
\<close>

definition after_connecting :: "string list \<Rightarrow> sensor \<Rightarrow> string + string" where
  "after_connecting argv s =
     (if \<not> isConnected s then
        Inl (out_lines [''ERROR: '' @ getLastError s, '''', ''Usage: '' @ hd argv @ '' [serial_port]'',
          ''  serial_port: Serial port path (default: /dev/rq_tsf85_0)'',
          ''  Examples: /dev/rq_tsf85_0 (Linux), /dev/ttyACM0 (Linux), COM3 (Windows)''])
      else Inr (out_lines [''Connected! Waiting for initial data...'']))"

text \<open>The firmware's version, and the state \<open>getFirmwareVersion\<close> left.\<close>

definition version_text :: "u8 list option \<Rightarrow> sensor \<Rightarrow> string" where
  "version_text version s =
     out_lines [case version of
         Some v \<Rightarrow> ''Firmware version: '' @ map (\<lambda>b. char_of (unat b)) v
       | None \<Rightarrow> ''Warning: could not read firmware version ('' @ getLastError s @ '')'', '''',
       ''Calculating baseline (1000 samples, ~1 second)...'', ''Please do not touch the sensor...'', '''']"

text \<open>The end of \<open>findBaseline\<close>, and what opens the display when there is a baseline.\<close>

definition after_baseline ::
    "poll_outcome \<Rightarrow> int \<Rightarrow> int \<Rightarrow> int \<Rightarrow> sensor \<Rightarrow> display \<Rightarrow> (string + string) \<times> sensor \<times> display" where
  "after_baseline outcome startTime endTime now s g =
     (case baseline_end outcome s of
        (None, s1) \<Rightarrow> (Inl (out_lines [''ERROR: Failed to calculate baseline: '' @ getLastError s1]), s1, g)
      | (Some b, s1) \<Rightarrow>
          let duration = (endTime - startTime) div 10 ^ 6
          in (Inr (out_lines [''Baseline calculated successfully in '' @ int_text duration @ '' ms!'',
                ''Starting data display...'', '''']),
              s1, g\<lparr>g_baseline := b, g_lastDisplayUpdate := now, g_baselineDone := True\<rparr>))"

section \<open>Reading the screen\<close>

text \<open>The words of a line, and the value of a signed number.\<close>

definition words_of :: "string \<Rightarrow> string list" where
  "words_of s = filter (\<lambda>w. w \<noteq> '''') (split_on CHR '' '' s)"

definition int_read :: "string \<Rightarrow> int" where
  "int_read s = (if s \<noteq> '''' \<and> hd s = CHR ''-'' then - int (number_read (tl s)) else int (number_read s))"

lemma words_of_space [simp]: "words_of (CHR '' '' # s) = words_of s"
  by (simp add: words_of_def)

lemma words_of_append: "words_of (a @ CHR '' '' # b) = words_of a @ words_of b"
  by (simp add: words_of_def split_on_append)

lemma words_of_one: "w \<noteq> '''' \<Longrightarrow> CHR '' '' \<notin> set w \<Longrightarrow> words_of w = [w]"
  by (simp add: words_of_def split_on_one)

lemma words_of_setw6 [simp]: "words_of (setw6 w) = words_of w"
proof -
  have "words_of (replicate n CHR '' '' @ w) = words_of w" for n by (induction n) simp_all
  then show ?thesis by (simp add: setw6_def)
qed

lemma words_of_columns:
  "\<forall>c \<in> set cs. g c \<noteq> '''' \<and> CHR '' '' \<notin> set (g c) \<Longrightarrow>
    words_of (concat (map (\<lambda>c. setw6 (g c) @ '' '') cs)) = map g cs"
proof (induction cs)
  case (Cons c cs)
  have "words_of (concat (map (\<lambda>c. setw6 (g c) @ '' '') (c # cs))) =
      words_of (setw6 (g c)) @ words_of (concat (map (\<lambda>c. setw6 (g c) @ '' '') cs))"
    using words_of_append [of "setw6 (g c)"] by simp
  then show ?case using Cons words_of_one [of "g c"] by simp
qed (simp add: words_of_def)

lemma decimal_nonempty [simp]: "decimal n \<noteq> ''''"
  by (simp add: decimal.simps [of n])

lemma decimal_chars: "c \<in> set (decimal n) \<Longrightarrow> c \<noteq> CHR '' '' \<and> c \<noteq> CHR ''-'' \<and> c \<noteq> CHR 0x0A"
  using decimal_digits [of c n] by auto

lemma int_text_chars: "int_text n \<noteq> ''''" "c \<in> set (int_text n) \<Longrightarrow> c \<noteq> CHR '' '' \<and> c \<noteq> CHR 0x0A"
  by (auto simp: int_text_def split: if_splits dest: decimal_chars)

lemma int_read_text [simp]: "int_read (int_text n) = n"
proof (cases "n < 0")
  case False
  have "hd (decimal (nat n)) \<in> set (decimal (nat n))" by simp
  then have "hd (decimal (nat n)) \<noteq> CHR ''-''" using decimal_chars by blast
  then show ?thesis using False by (simp add: int_read_def int_text_def)
qed (simp add: int_read_def int_text_def)

lemma grid_row_read:
  "map int_read (words_of (grid_row base fs f row)) = map (\<lambda>col. sint (taxel_value base fs f (row * 4 + col))) [0..<4]"
proof -
  let ?g = "\<lambda>col. int_text (sint (taxel_value base fs f (row * 4 + col)))"
  have "\<forall>c \<in> set [0..<4]. ?g c \<noteq> '''' \<and> CHR '' '' \<notin> set (?g c)" using int_text_chars by blast
  from words_of_columns [OF this] show ?thesis by (simp only: grid_row_def display_sizes) (simp add: comp_def)
qed

text \<open>No line holds a line feed, so the screen can be split at them.\<close>

lemma no_feed_numbers [simp]: "CHR 0x0A \<notin> set (int_text n)" "CHR 0x0A \<notin> set (decimal k)"
  using int_text_chars decimal_chars by blast+

lemma no_feed_row [simp]: "CHR 0x0A \<notin> set (grid_row base fs f row)"
  by (auto simp: grid_row_def setw6_def)

lemma no_feed_lines: "l \<in> set (screen_lines base fs) \<Longrightarrow> CHR 0x0A \<notin> set l"
  by (auto simp: screen_lines_def banner_def finger_lines_def axes_def)

lemma split_out_lines: "\<forall>l \<in> set ls. CHR 0x0A \<notin> set l \<Longrightarrow> split_on CHR 0x0A (out_lines ls) = ls @ ['''']"
proof (induction ls)
  case (Cons l ls)
  then show ?case using split_on_append [of "CHR 0x0A" l "out_lines ls"] split_on_one [of "CHR 0x0A" l]
    by (simp add: out_lines_def endl_def)
qed (simp add: out_lines_def)

lemma row_line:
  assumes "f < 2" and "row < 7"
  shows "(screen_lines base fs @ ['''']) ! (8 + 16 * f + row) = grid_row base fs f row"
proof -
  have two: "[0..<FINGER_COUNT] = [0, 1]" by (simp add: FINGER_COUNT_def numeral_2_eq_2)
  have seven: "map (grid_row base fs f) [0..<7] ! row = grid_row base fs f row" using assms(2) by simp
  have len: "length (finger_lines base fs g) = 16" for g by (simp add: finger_lines_def display_sizes)
  have at: "finger_lines base fs f ! (3 + row) = grid_row base fs f row"
    using assms(2) by (simp add: finger_lines_def display_sizes nth_append)
  have "screen_lines base fs @ [''''] = (banner @ [''Timestamp: '' @ int_text (fs_timestamp fs) @ '' ms'', '''']) @
      finger_lines base fs 0 @ finger_lines base fs 1 @ [''Press Ctrl+C to exit...'', '''']"
    by (simp add: screen_lines_def two)
  moreover have "length (banner @ [''Timestamp: '' @ int_text (fs_timestamp fs) @ '' ms'', '''']) = 5"
    by (simp add: banner_def)
  ultimately have "(screen_lines base fs @ ['''']) ! (5 + (16 * f + (3 + row))) = finger_lines base fs f ! (3 + row)"
    using assms len by (elim less_2_cases [THEN disjE]) (auto simp: nth_append simp del: append_assoc append.simps)
  then show ?thesis using at by (simp add: add.commute add.left_commute)
qed

definition screen_grid :: "string \<Rightarrow> nat \<Rightarrow> nat \<Rightarrow> int list" where
  "screen_grid screen f row = map int_read (words_of (split_on CHR 0x0A (drop (length clear_screen) screen) ! (8 + 16 * f + row)))"

lemma screen_grid_values:
  assumes "f < 2" and "row < 7"
  shows "screen_grid (clear_screen @ out_lines (screen_lines base fs)) f row =
    map (\<lambda>col. sint (taxel_value base fs f (row * 4 + col))) [0..<4]"
proof -
  have "split_on CHR 0x0A (out_lines (screen_lines base fs)) = screen_lines base fs @ ['''']"
    by (rule split_out_lines) (use no_feed_lines in blast)
  then show ?thesis by (simp add: screen_grid_def row_line [OF assms] grid_row_read)
qed

section \<open>The run of the callback\<close>

lemma onSensorData_gate: "\<not> g_baselineDone g \<Longrightarrow> onSensorData now fs g = (None, g)"
  by (simp add: onSensorData_def)

lemma callbacks_gate: "\<not> g_baselineDone g \<Longrightarrow> callbacks ds g = ([], g)"
  by (induction ds) (auto simp: onSensorData_gate)

lemma elapsed_iff: "(now - before) div 1000000 < DISPLAY_UPDATE_INTERVAL_MS \<longleftrightarrow> now - before < 16000000"
proof -
  have "16 \<le> (now - before) div 1000000 \<longleftrightarrow> 16 * 1000000 \<le> now - before"
    using mult_div_mod_eq [of 1000000 "now - before"] pos_mod_sign [of 1000000 "now - before"]
      pos_mod_bound [of 1000000 "now - before"] by linarith
  then show ?thesis unfolding DISPLAY_UPDATE_INTERVAL_MS_def by linarith
qed

lemma callbacks_result:
  assumes "g_baselineDone g" and "callbacks ds g = (shown, g')"
  shows "g_baseline g' = g_baseline g"
    and "(t, screen) \<in> set shown \<Longrightarrow>
      \<exists>fs. (t, fs) \<in> set ds \<and> screen = clear_screen @ out_lines (screen_lines (g_baseline g) fs)"
    and "successively (\<lambda>a b. a + 16 * 10 ^ 6 \<le> b) (g_lastDisplayUpdate g # map fst shown)"
    and "sorted (g_lastDisplayUpdate g # map fst ds) \<Longrightarrow> (t, fs) \<in> set ds \<Longrightarrow>
      \<exists>t' \<in> set (g_lastDisplayUpdate g # map fst shown). t' \<le> t \<and> t < t' + 16 * 10 ^ 6"
proof -
  have "g_baseline g' = g_baseline g \<and>
    (\<forall>(t, screen) \<in> set shown. \<exists>fs. (t, fs) \<in> set ds \<and> screen = clear_screen @ out_lines (screen_lines (g_baseline g) fs)) \<and>
    successively (\<lambda>a b. a + 16 * 10 ^ 6 \<le> b) (g_lastDisplayUpdate g # map fst shown) \<and>
    (sorted (g_lastDisplayUpdate g # map fst ds) \<longrightarrow> (\<forall>(t, fs) \<in> set ds.
      \<exists>t' \<in> set (g_lastDisplayUpdate g # map fst shown). t' \<le> t \<and> t < t' + 16 * 10 ^ 6))"
    using assms
  proof (induction ds arbitrary: g shown)
    case (Cons d ds)
    obtain now fs where d: "d = (now, fs)" by fastforce
    show ?case
    proof (cases "now - g_lastDisplayUpdate g < 16 * 10 ^ 6")
      case True
      then have "onSensorData now fs g = (None, g)" by (simp add: onSensorData_def Let_def elapsed_iff)
      then have "callbacks ds g = (shown, g')" using Cons.prems(2) d by (auto split: prod.splits)
      from Cons.IH [OF Cons.prems(1) this] True show ?thesis by (auto simp: d)
    next
      case False
      let ?g = "g\<lparr>g_lastDisplayUpdate := now\<rparr>"
      let ?s = "clear_screen @ out_lines (screen_lines (g_baseline g) fs)"
      have o: "onSensorData now fs g = (Some ?s, ?g)" using False Cons.prems(1)
        by (simp add: onSensorData_def Let_def elapsed_iff)
      obtain later where l: "callbacks ds ?g = (later, g')" "shown = (now, ?s) # later"
        using Cons.prems(2) d o by (auto split: prod.splits)
      have "g_baselineDone ?g" using Cons.prems(1) by simp
      from Cons.IH [OF this l(1)] False show ?thesis by (auto simp: d l(2))
    qed
  qed simp
  then show "g_baseline g' = g_baseline g"
    and "(t, screen) \<in> set shown \<Longrightarrow>
      \<exists>fs. (t, fs) \<in> set ds \<and> screen = clear_screen @ out_lines (screen_lines (g_baseline g) fs)"
    and "successively (\<lambda>a b. a + 16 * 10 ^ 6 \<le> b) (g_lastDisplayUpdate g # map fst shown)"
    and "sorted (g_lastDisplayUpdate g # map fst ds) \<Longrightarrow> (t, fs) \<in> set ds \<Longrightarrow>
      \<exists>t' \<in> set (g_lastDisplayUpdate g # map fst shown). t' \<le> t \<and> t < t' + 16 * 10 ^ 6"
    by blast+
qed

lemma stored_difference:
  fixes d :: int
  shows "2 ^ 16 dvd sint (word_of_int d :: u16) - d"
    and "- (2 ^ 15) \<le> d \<Longrightarrow> d < 2 ^ 15 \<Longrightarrow> sint (word_of_int d :: u16) = d"
proof -
  have s: "sint (word_of_int d :: u16) = signed_take_bit 15 d" by (simp add: signed_of_int)
  have "take_bit 16 (signed_take_bit 15 d) = take_bit 16 d" by (simp add: take_bit_signed_take_bit)
  then show "2 ^ 16 dvd sint (word_of_int d :: u16) - d"
    unfolding s by (simp add: take_bit_eq_mod mod_eq_dvd_iff)
  show "- (2 ^ 15) \<le> d \<Longrightarrow> d < 2 ^ 15 \<Longrightarrow> sint (word_of_int d :: u16) = d"
    unfolding s by (simp add: signed_take_bit_int_eq_self)
qed


section \<open>The display\<close>

text \<open>
  What a screen shows, read back row by row and column by column: the callback's taxels minus the mean of the 1000
  samples, in sixteen signed bits, which is the difference itself whenever it fits.
\<close>

lemma screen_difference:
  assumes "length xs = 1000" and "f < 2" "row < 7" "col < 4"
    and screen: "screen = clear_screen @ out_lines (screen_lines (baseline_of xs) fs)"
  shows "length (screen_grid screen f row) = 4"
    and "let v = screen_grid screen f row ! col; i = row * 4 + col;
         d = int (unat (staticTactile (finger fs ! f) ! i)) - int ((\<Sum>x\<leftarrow>xs. unat (staticTactile (finger x ! f) ! i)) div 1000)
     in 2 ^ 16 dvd v - d \<and> (- (2 ^ 15) \<le> d \<and> d < 2 ^ 15 \<longrightarrow> v = d)"
proof -
  let ?i = "row * 4 + col"
  note grid = screen_grid_values [OF assms(2,3), of "baseline_of xs" fs, folded screen]
  show "length (screen_grid screen f row) = 4" by (simp add: grid)
  have "?i < 28" using assms by simp
  from baseline_of_nth [OF assms(1,2) this]
  have mean: "uint (baseline (finger (baseline_of xs) ! f) ! ?i) =
      int ((\<Sum>x\<leftarrow>xs. unat (staticTactile (finger x ! f) ! ?i)) div 1000)" by (metis uint_nat)
  have "taxel_value (baseline_of xs) fs f ?i = word_of_int (int (unat (staticTactile (finger fs ! f) ! ?i)) -
      int ((\<Sum>x\<leftarrow>xs. unat (staticTactile (finger x ! f) ! ?i)) div 1000))"
    unfolding taxel_value_def mean by (simp only: uint_nat)
  moreover have "screen_grid screen f row ! col = sint (taxel_value (baseline_of xs) fs f ?i)" using assms(4) by (simp add: grid)
  ultimately have "screen_grid screen f row ! col = sint (word_of_int (int (unat (staticTactile (finger fs ! f) ! ?i)) -
      int ((\<Sum>x\<leftarrow>xs. unat (staticTactile (finger x ! f) ! ?i)) div 1000)) :: u16)"
    by (simp only:)
  then show "let v = screen_grid screen f row ! col; i = row * 4 + col;
         d = int (unat (staticTactile (finger fs ! f) ! i)) - int ((\<Sum>x\<leftarrow>xs. unat (staticTactile (finger x ! f) ! i)) div 1000)
     in 2 ^ 16 dvd v - d \<and> (- (2 ^ 15) \<le> d \<and> d < 2 ^ 15 \<longrightarrow> v = d)"
    unfolding Let_def by (simp only:) (use stored_difference in blast)
qed

text \<open>
  The display keeps up without flooding the terminal: before \<open>main\<close> has found a baseline nothing is printed, after it
  two screens are at least 16 ms apart and at the time of every callback the last screen, or the start of the display, is
  less than 16 ms old.
\<close>

theorem display_keeps_up:
  assumes "\<not> g_baselineDone g" and "callbacks xs g = (early, g1)"
    and found: "after_baseline outcome t0 t1 now s g1 = (Inr msg, s', g2)"
    and run: "callbacks ds g2 = (shown, g3)" and "sorted (now # map fst ds)"
  shows "early = [] \<and> successively (\<lambda>a b. a + 16 * 10 ^ 6 \<le> b) (now # map fst shown) \<and>
    (\<forall>(t, fs) \<in> set ds. \<exists>t' \<in> set (now # map fst shown). t' \<le> t \<and> t < t' + 16 * 10 ^ 6)"
proof -
  have "early = []" using assms(1,2) callbacks_gate by simp
  moreover have g2: "g_baselineDone g2" "g_lastDisplayUpdate g2 = now"
    using found by (auto simp: after_baseline_def Let_def split: prod.splits option.splits)
  note r = callbacks_result(3,4) [OF g2(1) run, unfolded g2(2)]
  ultimately show ?thesis using r(1) r(2) [OF assms(5)] by blast
qed

section \<open>Witnesses\<close>

definition display_run :: "sensor \<Rightarrow> (int \<times> string) list \<times> display" where
  "display_run s = callbacks [(5 * 10 ^ 6, zero_fingers), (20 * 10 ^ 6, zero_fingers), (30 * 10 ^ 6, zero_fingers)]
     (snd (snd (after_baseline Collected 0 (10 ^ 9) 0 s new_display)))"

lemma display_run_shows: "map fst (fst (display_run s)) = [20 * 10 ^ 6]"
  by (simp add: display_run_def after_baseline_def baseline_end_def onSensorData_def DISPLAY_UPDATE_INTERVAL_MS_def)

lemma display_run_parts:
  "\<exists>msg s' g'. after_baseline Collected 0 (10 ^ 9) 0 s new_display = (Inr msg, s', g') \<and>
     callbacks [(5 * 10 ^ 6, zero_fingers), (20 * 10 ^ 6, zero_fingers), (30 * 10 ^ 6, zero_fingers)] g' =
       (fst (display_run s), snd (display_run s))"
  by (simp add: display_run_def after_baseline_def baseline_end_def)

theorem display_keeps_up_witness:
  "\<exists>shown :: (int \<times> string) list. map fst shown = [20 * 10 ^ 6] \<and> successively (\<lambda>a b. a + 16 * 10 ^ 6 \<le> b) (0 # map fst shown) \<and>
     (\<exists>t' \<in> set (0 # map fst shown). t' \<le> 30 * 10 ^ 6 \<and> 30 * 10 ^ 6 < t' + (16 * 10 ^ 6 :: int))"
proof -
  let ?s = "new_sensor ''p'' ''p'' True True True 10"
  obtain msg s' g' where p: "after_baseline Collected 0 (10 ^ 9) 0 ?s new_display = (Inr msg, s', g')"
    "callbacks [(5 * 10 ^ 6, zero_fingers), (20 * 10 ^ 6, zero_fingers), (30 * 10 ^ 6, zero_fingers)] g' =
       (fst (display_run ?s), snd (display_run ?s))" using display_run_parts by blast
  have "\<not> g_baselineDone new_display" "callbacks [] new_display = ([], new_display)" by (simp_all add: new_display_def)
  moreover have "sorted (0 # map fst [(5 * 10 ^ 6, zero_fingers), (20 * 10 ^ 6, zero_fingers), (30 * 10 ^ 6 :: int, zero_fingers)])"
    by simp
  ultimately have r: "successively (\<lambda>a b. a + 16 * 10 ^ 6 \<le> b) (0 # map fst (fst (display_run ?s)))"
    "\<exists>t' \<in> set (0 # map fst (fst (display_run ?s))). t' \<le> 30 * 10 ^ 6 \<and> 30 * 10 ^ 6 < t' + (16 * 10 ^ 6 :: int)"
    using display_keeps_up [OF _ _ p] by (blast, fastforce)
  show ?thesis by (intro exI [of _ "fst (display_run ?s)"] conjI r display_run_shows)
qed

end
