(* ===== verification/DisplayProgram.thy ===== *)
theory DisplayProgram
  imports QuickStart
begin

text \<open>
  The tactile sensors' display as a process runs it: \<open>main\<close> of \<open>tsf/sdk_cpp/Quick_start.cpp\<close>, interleaved with the
  sensor's read thread, the callback it is in and the signals that arrive, from the constructor to the destructor.
  The state is one record; main advances by one call at a time, with what the surroundings answer as arguments.
\<close>

section \<open>State\<close>

datatype written = Out string | Err string | Screen int string

text \<open>Where \<open>main\<close> is: the poll number with the start time inside \<open>findBaseline\<close>, the exit code at the end.\<close>

datatype main_phase = Constructed | Connected | Asked | Answered | Polling int nat | Polled int poll_outcome |
  Displaying | Returned nat

text \<open>
  \<open>pg_pending\<close> are the callbacks of the read thread's iteration that it has not made yet. The last three are what
  happened: the messages and the callbacks, those made with the time, and the samples of the baseline.
\<close>

record program =
  pg_phase :: main_phase
  pg_sensor :: sensor
  pg_display :: display
  pg_pending :: "fingers list"
  pg_output :: "written list"
  pg_events :: "event list"
  pg_called :: "(int \<times> fingers) list"
  pg_samples :: "fingers list"

definition program_of :: "sensor \<Rightarrow> program" where
  "program_of s = \<lparr>pg_phase = Constructed, pg_sensor = s, pg_display = new_display, pg_pending = [],
     pg_output = [], pg_events = [], pg_called = [], pg_samples = []\<rparr>"

section \<open>\<open>main\<close>\<close>

text \<open>One turn of the loop that polls in \<open>findBaseline\<close>: its end or the number of the next.\<close>

definition poll_once :: "nat \<times> bool \<Rightarrow> nat \<Rightarrow> poll_outcome + nat" where
  "poll_once seen k =
     (let (sampleCount, connected) = seen in
      if \<not> connected then Inl ConnectionLost
      else if 500 \<le> k + 1 then Inl (TimedOut sampleCount)
      else if sampleCount < 1000 then Inr (k + 1)
      else Inl Collected)"

lemma baseline_poll_once:
  "baseline_poll obs k = (case poll_once (obs k) k of Inl outcome \<Rightarrow> outcome | Inr k' \<Rightarrow> baseline_poll obs k')"
  by (subst baseline_poll.simps) (simp add: poll_once_def split: prod.splits)

text \<open>What a call of main finds: the port's \<open>write\<close>, the local packet, and the clock when it is read and read again.\<close>

record surroundings =
  su_write :: "u8 list \<Rightarrow> int"
  su_packet :: usb_packet
  su_now :: int
  su_later :: int

definition main_advance :: "string list \<Rightarrow> surroundings \<Rightarrow> program \<Rightarrow> program" where
  "main_advance argv e p =
     (let s = pg_sensor p; say = (\<lambda>w q. q\<lparr>pg_output := pg_output q @ [w]\<rparr>) in
      case pg_phase p of
        Constructed \<Rightarrow>
          (case after_connecting argv s of
             Inl complaint \<Rightarrow> say (Err complaint) (p\<lparr>pg_phase := Returned 1\<rparr>)
           | Inr message \<Rightarrow> say (Out message) (p\<lparr>pg_phase := Connected\<rparr>))
      | Connected \<Rightarrow>
          (let (sent, s1, evs) = version_request (su_write e) (su_packet e) s;
               q = p\<lparr>pg_sensor := s1, pg_events := pg_events p @ evs\<rparr>
           in if sent then q\<lparr>pg_phase := Asked\<rparr> else say (Out (version_text None s1)) (q\<lparr>pg_phase := Answered\<rparr>))
      | Asked \<Rightarrow>
          (let (version, s1) = version_result s
           in say (Out (version_text version s1)) (p\<lparr>pg_sensor := s1, pg_phase := Answered\<rparr>))
      | Answered \<Rightarrow>
          (let (begun, s1) = baseline_begin s; q = p\<lparr>pg_sensor := s1\<rparr>
           in if begun then q\<lparr>pg_phase := Polling (su_now e) 0\<rparr>
              else say (Err (out_lines [''ERROR: Failed to calculate baseline: '' @ getLastError s1])) (q\<lparr>pg_phase := Returned 1\<rparr>))
      | Polling startTime k \<Rightarrow>
          (case poll_once (length (m_baseline_samples s), m_connected s) k of
             Inl outcome \<Rightarrow> p\<lparr>pg_phase := Polled startTime outcome\<rparr>
           | Inr k' \<Rightarrow> p\<lparr>pg_phase := Polling startTime k'\<rparr>)
      | Polled startTime outcome \<Rightarrow>
          (let (message, s1, g) = after_baseline outcome startTime (su_now e) (su_later e) s (pg_display p);
               q = p\<lparr>pg_sensor := s1, pg_display := g\<rparr>
           in case message of
                Inl complaint \<Rightarrow> say (Err complaint) (q\<lparr>pg_phase := Returned 1\<rparr>)
              | Inr report \<Rightarrow> say (Out report) (q\<lparr>pg_phase := Displaying, pg_samples := m_baseline_samples s\<rparr>))
      | Displaying \<Rightarrow>
          if g_running (pg_display p) then p
          else say (Out (out_lines ['''', ''Shutting down sensor...''])) (p\<lparr>pg_phase := Returned 0\<rparr>)
      | Returned code \<Rightarrow> p)"

section \<open>The process\<close>

text \<open>The read thread's own steps of the sensor's machine.\<close>

inductive read_thread :: "sensor \<Rightarrow> event list \<Rightarrow> sensor \<Rightarrow> bool" where
  enters: "m_thread s = Spawned \<Longrightarrow> wf_packet pkt \<Longrightarrow> wf_packet recv \<Longrightarrow>
    send_autosend (ucast (m_period_ms s)) pkt = (bytes, pkt') \<Longrightarrow>
    read_thread s [Sent bytes] (s\<lparr>m_thread := Running (init_local pkt' recv now1 now2)\<rparr>)"
| iterates: "m_thread s = Running l \<Longrightarrow> m_running s \<Longrightarrow> iteration pr s l = Some (s', l', evs) \<Longrightarrow>
    read_thread s evs (s'\<lparr>m_thread := Running l'\<rparr>)"
| leaves: "m_thread s = Running l \<Longrightarrow> \<not> m_running s \<Longrightarrow>
    send_autosend 0 (tl_send l) = (bytes, pkt') \<Longrightarrow> read_thread s [Sent bytes] (s\<lparr>m_thread := Exited\<rparr>)"

fun calls_of :: "event list \<Rightarrow> fingers list" where
  "calls_of [] = []"
| "calls_of (Callback fs # es) = fs # calls_of es"
| "calls_of (_ # es) = calls_of es"

text \<open>
  Runs from a given state, with the number of turns \<open>main\<close> has had: it, the thread, the callback the thread is in and
  the signal handler take turns in any order. The thread reads again once it has made its callbacks.
\<close>

inductive program_runs :: "string list \<Rightarrow> program \<Rightarrow> nat \<Rightarrow> program \<Rightarrow> bool" for argv p0 where
  at_first: "program_runs argv p0 0 p0"
| in_main: "program_runs argv p0 n p \<Longrightarrow> program_runs argv p0 (Suc n) (main_advance argv e p)"
| in_thread: "program_runs argv p0 n p \<Longrightarrow> pg_pending p = [] \<Longrightarrow> read_thread (pg_sensor p) evs s \<Longrightarrow>
    program_runs argv p0 n (p\<lparr>pg_sensor := s, pg_pending := calls_of evs, pg_events := pg_events p @ evs\<rparr>)"
| in_callback: "program_runs argv p0 n p \<Longrightarrow> pg_pending p = fs # later \<Longrightarrow>
    onSensorData now fs (pg_display p) = (shown, g) \<Longrightarrow>
    program_runs argv p0 n (p\<lparr>pg_display := g, pg_pending := later, pg_called := pg_called p @ [(now, fs)],
      pg_output := pg_output p @ (case shown of None \<Rightarrow> [] | Some screen \<Rightarrow> [Screen now screen])\<rparr>)"
| in_handler: "program_runs argv p0 n p \<Longrightarrow> signalHandler signum (pg_display p) = (message, g) \<Longrightarrow>
    program_runs argv p0 n (p\<lparr>pg_display := g, pg_output := pg_output p @ [Out message]\<rparr>)"

fun screens :: "written list \<Rightarrow> (int \<times> string) list" where
  "screens [] = []"
| "screens (Screen now screen # ws) = (now, screen) # screens ws"
| "screens (_ # ws) = screens ws"

lemma screens_append [simp]: "screens (a @ b) = screens a @ screens b"
  by (induction a rule: screens.induct) simp_all

lemma set_calls_of: "set (calls_of es) = {fs. Callback fs \<in> set es}"
  by (induction es rule: calls_of.induct) auto

section \<open>The sensor under it\<close>

lemma read_thread_is_a_step: "read_thread s evs t \<Longrightarrow> sensor_step s evs t"
  by (induction rule: read_thread.induct) (auto intro: sensor_step.intros)

lemma steps_one: "sensor_step s evs t \<Longrightarrow> sensor_steps s evs t"
  using steps_step [OF steps_refl] by fastforce

lemma steps_append:
  assumes "sensor_steps t fs u" and "sensor_steps s es t"
  shows "sensor_steps s (es @ fs) u"
  using assms
proof (induction rule: sensor_steps.induct)
  case (steps_step t fs u e v)
  from sensor_steps.steps_step [OF steps_step.IH [OF steps_step.prems] steps_step.hyps(2)] show ?case by simp
qed simp

lemma main_advance_sensor:
  "\<exists>evs. pg_events (main_advance argv e p) = pg_events p @ evs \<and>
     sensor_steps (pg_sensor p) evs (pg_sensor (main_advance argv e p))"
proof -
  let ?s = "pg_sensor p"
  obtain sent s1 evs where v: "version_request (su_write e) (su_packet e) ?s = (sent, s1, evs)" using prod_cases3 by blast
  obtain version s2 where r: "version_result ?s = (version, s2)" by fastforce
  obtain begun s3 where b: "baseline_begin ?s = (begun, s3)" by fastforce
  note stay = steps_refl [of ?s] and steps = user_version [OF v] user_version_result [OF r] user_baseline [OF b]
  show ?thesis
  proof (cases "pg_phase p")
    case (Polled startTime outcome)
    obtain b' s4 where en: "baseline_end outcome ?s = (b', s4)" by fastforce
    from steps_one [OF user_baseline_end [OF this]] Polled en show ?thesis
      by (auto simp: main_advance_def after_baseline_def Let_def split: option.splits)
  qed (use stay v r b steps [THEN steps_one] in
      \<open>auto simp: main_advance_def Let_def split: sum.splits\<close>)
qed

lemma program_runs_sensor:
  "program_runs argv p0 n p \<Longrightarrow>
     \<exists>evs. pg_events p = pg_events p0 @ evs \<and> sensor_steps (pg_sensor p0) evs (pg_sensor p)"
proof (induction rule: program_runs.induct)
  case at_first
  then show ?case using steps_refl by fastforce
next
  case (in_main n p e)
  then show ?case using main_advance_sensor [of argv e p] steps_append by (metis append.assoc)
next
  case (in_thread n p evs s)
  then show ?case using steps_append [OF steps_one [OF read_thread_is_a_step]] by fastforce
qed simp_all

text \<open>The thread never takes a sample out.\<close>

lemma on_bytes_samples: "length (m_baseline_samples s) \<le> length (m_baseline_samples (fst (on_bytes ds s l)))"
proof (induction ds s l rule: on_bytes.induct)
  case (2 d now ds s l)
  have one: "length (m_baseline_samples s) \<le> length (m_baseline_samples (fst (on_byte now d s l)))"
    by (simp add: on_byte_def on_packet_def Let_def split: prod.splits)
  obtain s1 l1 e1 where "on_byte now d s l = (s1, l1, e1)" using prod_cases3 by blast
  with one 2 show ?case by (auto simp: Let_def split: prod.splits intro: order_trans)
qed simp

lemma read_thread_samples: "read_thread s evs t \<Longrightarrow> length (m_baseline_samples s) \<le> length (m_baseline_samples t)"
proof (induction rule: read_thread.induct)
  case (iterates s l pr s' l' evs)
  have "m_baseline_samples (fst (update_rate pr n s l)) = m_baseline_samples s" for n
    by (simp add: update_rate_def Let_def)
  then show ?case
    using iterates(3) on_bytes_samples by (auto simp: iteration_def split: option.splits prod.splits) (metis fst_conv)+
qed simp_all

section \<open>What is on the screen\<close>

text \<open>The display once there is a baseline: whose callback each screen is, and how far apart they are.\<close>

definition displayed :: "program \<Rightarrow> bool" where
  "displayed p \<longleftrightarrow>
     length (pg_samples p) = 1000 \<and> g_baseline (pg_display p) = baseline_of (pg_samples p) \<and>
     successively (\<lambda>a b. a + 16 * 10 ^ 6 \<le> b) (map fst (screens (pg_output p))) \<and>
     (screens (pg_output p) \<noteq> [] \<longrightarrow> fst (last (screens (pg_output p))) = g_lastDisplayUpdate (pg_display p)) \<and>
     (\<forall>(t, screen) \<in> set (screens (pg_output p)). \<exists>fs. (t, fs) \<in> set (pg_called p) \<and>
       screen = clear_screen @ out_lines (screen_lines (baseline_of (pg_samples p)) fs))"

definition showing :: "program \<Rightarrow> bool" where
  "showing p \<longleftrightarrow>
     (if g_baselineDone (pg_display p) then displayed p \<and> pg_phase p \<in> {Displaying, Returned 0}
      else screens (pg_output p) = [] \<and> pg_phase p \<notin> {Displaying, Returned 0}) \<and>
     (\<forall>code. pg_phase p = Returned code \<longrightarrow> code = 0 \<and> \<not> g_running (pg_display p) \<or>
       code = 1 \<and> (\<exists>complaint. Err complaint \<in> set (pg_output p)))"

text \<open>What has been collected and what has been called.\<close>

definition collecting :: "program \<Rightarrow> bool" where
  "collecting p \<longleftrightarrow> length (m_baseline_samples (pg_sensor p)) \<le> 1000 \<and>
     (\<forall>t. pg_phase p = Polled t Collected \<longrightarrow> length (m_baseline_samples (pg_sensor p)) = 1000)"

definition calling :: "program \<Rightarrow> bool" where
  "calling p \<longleftrightarrow> (\<forall>fs \<in> set (pg_pending p) \<union> snd ` set (pg_called p). Callback fs \<in> set (pg_events p))"

lemma steps_few:
  "sensor_steps s es t \<Longrightarrow> length (m_baseline_samples s) \<le> 1000 \<Longrightarrow> length (m_baseline_samples t) \<le> 1000"
  by (rule steps_samples)

lemma collecting_main:
  assumes "collecting p"
  shows "collecting (main_advance argv e p)"
proof -
  have "length (m_baseline_samples (pg_sensor (main_advance argv e p))) \<le> 1000"
    using main_advance_sensor [of argv e p] steps_few assms by (auto simp: collecting_def)
  moreover have "length (m_baseline_samples (pg_sensor p)) = 1000"
    if "pg_phase (main_advance argv e p) = Polled t Collected" for t
    using that assms
    by (auto simp: main_advance_def collecting_def poll_once_def Let_def
        split: main_phase.splits sum.splits prod.splits if_splits)
  moreover have "pg_sensor (main_advance argv e p) = pg_sensor p"
    if "pg_phase (main_advance argv e p) = Polled t Collected" for t
    using that
    by (auto simp: main_advance_def Let_def split: main_phase.splits sum.splits prod.splits if_splits)
  ultimately show ?thesis by (auto simp: collecting_def)
qed

lemma collecting_thread:
  assumes "collecting p" and "read_thread (pg_sensor p) evs s"
  shows "collecting (p\<lparr>pg_sensor := s, pg_pending := fs, pg_events := es\<rparr>)"
  using assms(1) step_samples [OF read_thread_is_a_step [OF assms(2)]] read_thread_samples [OF assms(2)]
  by (auto simp: collecting_def)

lemma showing_main:
  assumes "showing p" and "collecting p"
  shows "showing (main_advance argv e p)"
proof (cases "pg_phase p")
  case (Polled startTime outcome)
  then have "\<not> g_baselineDone (pg_display p)" "screens (pg_output p) = []"
    using assms(1) by (auto simp: showing_def split: if_splits)
  moreover have "outcome = Collected \<Longrightarrow> length (m_baseline_samples (pg_sensor p)) = 1000"
    using assms(2) Polled by (auto simp: collecting_def)
  ultimately show ?thesis using Polled
    by (cases outcome)
      (auto simp: main_advance_def after_baseline_def baseline_end_def showing_def displayed_def Let_def)
qed (use assms(1) in \<open>auto simp: main_advance_def showing_def displayed_def Let_def split: sum.splits prod.splits if_splits\<close>)

lemma showing_callback:
  assumes "showing p" and "onSensorData now fs (pg_display p) = (shown, g)"
  shows "showing (p\<lparr>pg_display := g, pg_pending := later, pg_called := pg_called p @ [(now, fs)],
      pg_output := pg_output p @ (case shown of None \<Rightarrow> [] | Some screen \<Rightarrow> [Screen now screen])\<rparr>)"
proof (cases "g_baselineDone (pg_display p) \<and> 16 * 10 ^ 6 \<le> now - g_lastDisplayUpdate (pg_display p)")
  case True
  then have d: "displayed p" "pg_phase p \<in> {Displaying, Returned 0}" using assms(1) by (auto simp: showing_def)
  have r: "shown = Some (clear_screen @ out_lines (screen_lines (g_baseline (pg_display p)) fs))"
    "g = (pg_display p)\<lparr>g_lastDisplayUpdate := now\<rparr>"
    using assms(2) True by (auto simp: onSensorData_def Let_def elapsed_iff)
  have "successively (\<lambda>a b. a + 16 * 10 ^ 6 \<le> b) (map fst (screens (pg_output p)) @ [now])"
    using d(1) True by (cases "screens (pg_output p) = []") (auto simp: displayed_def successively_append_iff last_map)
  then show ?thesis
    using assms(1) True d r by (auto simp: showing_def displayed_def)
next
  case False
  then have "shown = None" "g = pg_display p"
    using assms(2) by (auto simp: onSensorData_def Let_def elapsed_iff split: if_splits)
  then show ?thesis using assms(1) by (fastforce simp: showing_def displayed_def)
qed

lemma showing_thread: "showing (p\<lparr>pg_sensor := s, pg_pending := fs, pg_events := es\<rparr>) = showing p"
  by (simp add: showing_def displayed_def)

lemma calling_runs: "program_runs argv p0 n p \<Longrightarrow> calling p0 \<Longrightarrow> calling p"
proof (induction rule: program_runs.induct)
  case (in_main n p e)
  obtain evs where "pg_events (main_advance argv e p) = pg_events p @ evs" using main_advance_sensor by blast
  moreover have "pg_pending (main_advance argv e p) = pg_pending p" "pg_called (main_advance argv e p) = pg_called p"
    by (auto simp: main_advance_def Let_def split: main_phase.splits sum.splits prod.splits)
  ultimately show ?case using in_main by (auto simp: calling_def)
qed (auto simp: calling_def set_calls_of)

lemma showing_runs:
  "program_runs argv p0 n p \<Longrightarrow> showing p0 \<and> collecting p0 \<Longrightarrow> showing p \<and> collecting p"
proof (induction rule: program_runs.induct)
  case (in_main n p e)
  then show ?case using showing_main collecting_main by blast
next
  case (in_thread n p evs s)
  then have now: "showing p" "collecting p" by blast+
  then show ?case using collecting_thread [OF now(2) in_thread.hyps(3)] by (simp add: showing_thread)
next
  case (in_callback n p fs later now shown g)
  then show ?case using showing_callback by (auto simp: collecting_def)
next
  case (in_handler n p signum message g)
  then have "showing p" "collecting p" by blast+
  then show ?case using in_handler.hyps(2) by (auto simp: showing_def displayed_def collecting_def signalHandler_def)
qed simp

section \<open>How many turns are left\<close>

text \<open>Turns of \<open>main\<close> to its return once a signal has arrived; the loop of \<open>findBaseline\<close> polls 500 times at most.\<close>

definition turns_left :: "main_phase \<Rightarrow> nat" where
  "turns_left ph = (case ph of Constructed \<Rightarrow> 506 | Connected \<Rightarrow> 505 | Asked \<Rightarrow> 504 | Answered \<Rightarrow> 503
     | Polling t k \<Rightarrow> 3 + (499 - k) | Polled t outcome \<Rightarrow> 2 | Displaying \<Rightarrow> 1 | Returned code \<Rightarrow> 0)"

lemma poll_once_next: "poll_once seen k = Inr k' \<Longrightarrow> k < 499 \<and> k' = Suc k"
  by (auto simp: poll_once_def Let_def split: prod.splits if_splits)

lemma turn_taken:
  assumes "\<not> g_running (pg_display p)"
  shows "turns_left (pg_phase (main_advance argv e p)) \<le> turns_left (pg_phase p) - 1"
    and "\<not> g_running (pg_display (main_advance argv e p))"
  using assms
  by (auto simp: main_advance_def turns_left_def after_baseline_def Let_def dest!: poll_once_next
      split: main_phase.splits sum.splits prod.splits option.splits)

lemma turns_used:
  "program_runs argv p n q \<Longrightarrow> \<not> g_running (pg_display p) \<Longrightarrow>
     \<not> g_running (pg_display q) \<and> turns_left (pg_phase q) \<le> turns_left (pg_phase p) - n"
proof (induction rule: program_runs.induct)
  case (in_main n q e)
  then show ?case using turn_taken [of q argv e] by fastforce
next
  case (in_callback n q fs later now shown g)
  then show ?case by (auto simp: onSensorData_def Let_def split: if_splits)
next
  case (in_handler n q signum message g)
  then show ?case by (auto simp: signalHandler_def)
qed simp_all

lemma turns_left_bounds: "turns_left ph \<le> 506" "turns_left ph = 0 \<Longrightarrow> \<exists>code. ph = Returned code"
  by (cases ph, simp_all add: turns_left_def)+

lemma runs_on: "program_runs argv p m q \<Longrightarrow> program_runs argv p0 n p \<Longrightarrow> program_runs argv p0 (n + m) q"
proof (induction rule: program_runs.induct)
  case (in_main m q e)
  then show ?case using program_runs.in_main [of argv p0 "n + m" q e] by simp
qed (auto intro: program_runs.intros)

lemma program_of_starts: "length (m_baseline_samples s) \<le> 1000 \<Longrightarrow>
    showing (program_of s) \<and> collecting (program_of s) \<and> calling (program_of s)"
  by (simp add: program_of_def new_display_def showing_def collecting_def calling_def)

section \<open>Properties\<close>

text \<open>
  C27 What the terminal shows is the pressure over the baseline: in every run of the program, whatever the sensor sends and
  however main, the read thread, its callbacks and the signals interleave, a screen is printed only once 1000 samples have
  been averaged, is that of a callback the driver made, at its time, and the numbers on it, read back row by row and
  column by column, are the callback's taxels minus the mean of those samples, in sixteen signed bits: the difference
  itself whenever it fits. Two screens are at least 16 ms apart.
\<close>

theorem display_shows_pressure_over_baseline:
  assumes run: "program_runs argv (program_of (new_sensor name resolved found opened True 1)) n p"
    and shown: "(t, screen) \<in> set (screens (pg_output p))"
    and "f < FINGER_COUNT" "row < FINGER_STATIC_TACTILE_ROW" "col < FINGER_STATIC_TACTILE_COL"
  shows "length (pg_samples p) = 1000 \<and> successively (\<lambda>a b. a + 16 * 10 ^ 6 \<le> b) (map fst (screens (pg_output p))) \<and>
    (\<exists>fs. (t, fs) \<in> set (pg_called p) \<and> Callback fs \<in> set (pg_events p) \<and>
      length (screen_grid screen f row) = FINGER_STATIC_TACTILE_COL \<and>
      (let v = screen_grid screen f row ! col; i = row * FINGER_STATIC_TACTILE_COL + col;
           d = int (unat (staticTactile (finger fs ! f) ! i)) -
               int ((\<Sum>x\<leftarrow>pg_samples p. unat (staticTactile (finger x ! f) ! i)) div 1000)
       in 2 ^ 16 dvd v - d \<and> (- (2 ^ 15) \<le> d \<and> d < 2 ^ 15 \<longrightarrow> v = d)))"
proof -
  note starts = program_of_starts [OF steps_samples_new [OF steps_refl]]
  from showing_runs [OF run] starts have "showing p" by blast
  then have d: "displayed p" using shown by (auto simp: showing_def split: if_splits)
  then obtain fs where fs: "(t, fs) \<in> set (pg_called p)"
    "screen = clear_screen @ out_lines (screen_lines (baseline_of (pg_samples p)) fs)"
    using shown unfolding displayed_def by blast
  have "Callback fs \<in> set (pg_events p)"
    using calling_runs [OF run] starts fs(1) by (force simp: calling_def)
  moreover have "f < 2" "row < 7" "col < 4" using assms(3-5) by (simp_all add: finger_counts display_sizes)
  moreover note screen_difference [OF _ this fs(2)]
  ultimately show ?thesis using d fs(1) unfolding displayed_def display_sizes by blast
qed

text \<open>
  C28 The program ends and cleans up: once a signal has arrived, main returns after at most 506 turns of its own, wherever it
  was and whatever the other threads do meanwhile; with 0 when it was displaying, with 1 after a complaint otherwise. Then
  the sensor's destructor returns with the thread gone, no port object or open port left, and a device that was asked to
  stream asked to stop.
\<close>

theorem signalled_display_ends_clean:
  assumes laws: "owns_ports lib allocated opened" and "opened w \<subseteq> allocated w"
    and made: "constructor_calls lib realpath (portName_of argv) True 1 w = (s0, port, w0)"
    and run: "program_runs argv (program_of s0) n p" and signalled: "\<not> g_running (pg_display p)"
    and on: "program_runs argv p m q" and "506 \<le> m" and "allocated w1 = allocated w0" "opened w1 = opened w0"
    and gone: "destructor_calls lib pkt port (pg_sensor q) w1 = (evs, s', w')" and "wf_packet pkt"
  shows "(if g_baselineDone (pg_display q) then pg_phase q = Returned 0 \<and> length (pg_samples q) = 1000
      else pg_phase q = Returned 1 \<and> (\<exists>complaint. Err complaint \<in> set (pg_output q))) \<and>
    m_thread s' = NoThread \<and> allocated w' = allocated w \<and> opened w' = opened w \<and>
    (m_connected s0 \<longrightarrow> asks_to_stop (last (autosends (pg_events q @ evs))))"
proof -
  note all = runs_on [OF on run]
  obtain es where es: "pg_events q = es" "sensor_steps s0 es (pg_sensor q)"
    using program_runs_sensor [OF all] by (auto simp: program_of_def)
  have "turns_left (pg_phase q) = 0"
    using turns_used [OF on signalled] turns_left_bounds(1) [of "pg_phase p"] assms(7) by linarith
  then obtain code where code: "pg_phase q = Returned code" using turns_left_bounds(2) by blast
  have "m_baseline_samples s0 = []"
    using made by (auto simp: constructor_calls_def new_sensor_def Let_def split: prod.splits option.splits bool.splits)
  then have "showing q" using showing_runs [OF all] program_of_starts by simp
  then have "if g_baselineDone (pg_display q) then pg_phase q = Returned 0 \<and> length (pg_samples q) = 1000
      else pg_phase q = Returned 1 \<and> (\<exists>complaint. Err complaint \<in> set (pg_output q))"
    using code by (auto simp: showing_def displayed_def split: if_splits)
  moreover note destroyed_sensor_leaves [OF laws assms(2) made es(2) assms(8,9) gone assms(11)]
  ultimately show ?thesis using es(1) by (auto split: if_splits)
qed

section \<open>Witnesses\<close>

text \<open>A sensor that streams, up to the polls of \<open>findBaseline\<close>, through the baseline, to a screen and a signal.\<close>

definition bench_sensor :: sensor where
  "bench_sensor = new_sensor ''/dev/rq_tsf85_0'' ''/dev/ttyACM0'' True True True 1"

definition bench_answers :: surroundings where
  "bench_answers = \<lparr>su_write = \<lambda>bs. - 1, su_packet = example_packet 0 0 0 0 [], su_now = 0, su_later = 0\<rparr>"

definition streaming :: "bool \<Rightarrow> thread_local \<Rightarrow> sensor \<Rightarrow> bool" where
  "streaming calculating l s \<longleftrightarrow> m_thread s = Running l \<and> m_running s \<and> m_connected s \<and> m_has_callback s \<and>
     m_calculating_baseline s = calculating \<and> m_baseline_samples s = [] \<and>
     rd_idle (tl_reader l) \<and> wf_fingers (tl_fingers l) \<and> \<not> any_new (tl_fingers l)"

lemma bench_polls:
  "\<exists>n p l. program_runs [''quick_start''] (program_of bench_sensor) n p \<and> pg_phase p = Polling 0 0 \<and>
     streaming True l (pg_sensor p) \<and> pg_display p = new_display \<and> pg_pending p = [] \<and> screens (pg_output p) = []"
proof -
  let ?e = "example_packet 0 0 0 0 []" and ?argv = "[''quick_start'']" and ?start = "program_of bench_sensor"
  obtain bytes pkt where sent: "send_autosend (ucast (m_period_ms bench_sensor)) ?e = (bytes, pkt)" by force
  let ?l = "init_local pkt ?e 100 100"
  let ?p = "?start\<lparr>pg_sensor := bench_sensor\<lparr>m_thread := Running ?l\<rparr>, pg_pending := [], pg_events := [Sent bytes]\<rparr>"
  have "read_thread (pg_sensor ?start) [Sent bytes] (bench_sensor\<lparr>m_thread := Running ?l\<rparr>)"
    unfolding program_of_def program.simps
    by (rule enters [OF _ _ _ sent]) (simp_all add: bench_sensor_def new_sensor_def)
  from in_thread [OF at_first _ this, of ?argv] have "program_runs ?argv ?start 0 ?p" by (simp add: program_of_def)
  then have run: "program_runs ?argv ?start (Suc (Suc (Suc 0)))
      (main_advance ?argv bench_answers (main_advance ?argv bench_answers (main_advance ?argv bench_answers ?p)))"
    (is "program_runs _ _ _ ?q") by (intro in_main)
  have "tl_fingers ?l = zero_fingers" "rd_idle (tl_reader ?l)" by (simp_all add: init_local_def)
  then have "pg_phase ?q = Polling 0 0 \<and> streaming True ?l (pg_sensor ?q) \<and> pg_display ?q = new_display \<and>
      pg_pending ?q = [] \<and> screens (pg_output ?q) = []"
    by (auto simp: main_advance_def program_of_def bench_sensor_def bench_answers_def new_sensor_def after_connecting_def
        isConnected_def version_request_def usbSend_def baseline_begin_def streaming_def Let_def)
  with run show ?thesis by blast
qed

lemma bench_shows:
  "\<exists>n p screen. program_runs [''quick_start''] (program_of bench_sensor) n p \<and>
     screens (pg_output p) = [(20 * 10 ^ 6, screen)] \<and> g_baselineDone (pg_display p) \<and> \<not> g_running (pg_display p)"
proof -
  let ?argv = "[''quick_start'']" and ?start = "program_of bench_sensor"
  obtain n p l where p: "program_runs ?argv ?start n p" "pg_phase p = Polling 0 0" "streaming True l (pg_sensor p)"
    "pg_display p = new_display" "pg_pending p = []" "screens (pg_output p) = []" using bench_polls by blast
  let ?s = "pg_sensor p"
  from p(3) many_deliveries [of l ?s 1000] obtain pr l1 out where
    it: "iteration pr ?s l = Some (fst (dispatch out ?s), l1, snd (dispatch out ?s))" "length out = 1000"
    and l1: "rd_idle (tl_reader l1)" "wf_fingers (tl_fingers l1)" "\<not> any_new (tl_fingers l1)" by (auto simp: streaming_def)
  have d: "dispatch out ?s = (?s\<lparr>m_baseline_samples := out\<rparr>, [])" using p(3) it(2) by (simp add: dispatch_def streaming_def)
  let ?s1 = "?s\<lparr>m_baseline_samples := out, m_thread := Running l1\<rparr>"
  let ?p1 = "p\<lparr>pg_sensor := ?s1, pg_pending := calls_of [], pg_events := pg_events p @ []\<rparr>"
  have "read_thread ?s [] ?s1" using iterates [of ?s l pr] it(1) p(3) by (simp add: d streaming_def)
  note one = in_thread [OF p(1,5) this]
  let ?p2 = "main_advance ?argv bench_answers (main_advance ?argv bench_answers ?p1)"
  let ?s2 = "?s1\<lparr>m_calculating_baseline := False, m_baseline_samples := []\<rparr>"
  have two: "program_runs ?argv ?start (Suc (Suc n)) ?p2" by (intro in_main) (rule one)
  have p2: "pg_sensor ?p2 = ?s2" "pg_pending ?p2 = []" "screens (pg_output ?p2) = []"
    "g_baselineDone (pg_display ?p2)" "g_lastDisplayUpdate (pg_display ?p2) = 0"
    using p it(2)
    by (auto simp: main_advance_def poll_once_def after_baseline_def baseline_end_def bench_answers_def streaming_def Let_def)
  from l1 p(3) many_deliveries [of l1 ?s2 1] obtain pr' l2 out' where
    "iteration pr' ?s2 l1 = Some (fst (dispatch out' ?s2), l2, snd (dispatch out' ?s2))" "length out' = 1" by auto
  moreover from this obtain fs where "out' = [fs]" by (auto simp: length_Suc_conv)
  ultimately have "iteration pr' ?s2 l1 = Some (?s2, l2, [Callback fs])" using p(3) by (simp add: dispatch_def streaming_def)
  then have "read_thread (pg_sensor ?p2) [Callback fs] (?s2\<lparr>m_thread := Running l2\<rparr>)"
    unfolding p2(1) using iterates [of ?s2 l1 pr'] p(3) by (simp add: streaming_def)
  note three = in_thread [OF two p2(2) this]
  obtain shown g where o: "onSensorData (20 * 10 ^ 6) fs (pg_display ?p2) = (shown, g)" by fastforce
  then obtain screen where screen: "shown = Some screen" "g_baselineDone g"
    using p2(4,5) by (auto simp: onSensorData_def Let_def DISPLAY_UPDATE_INTERVAL_MS_def)
  obtain q where q: "program_runs ?argv ?start (Suc (Suc n)) q" "pg_display q = g" "screens (pg_output q) = [(20 * 10 ^ 6, screen)]"
    using in_callback [OF three, of fs "[]" "20 * 10 ^ 6" shown g] o screen(1) p2(3) by force
  obtain message where "signalHandler 2 (pg_display q) = (message, g\<lparr>g_running := False\<rparr>)"
    using q(2) by (simp add: signalHandler_def)
  from in_handler [OF q(1) this] q(3) screen(2) show ?thesis by fastforce
qed

theorem display_shows_pressure_over_baseline_witness:
  "\<exists>n p screen. program_runs [''quick_start''] (program_of bench_sensor) n p \<and>
     (20 * 10 ^ 6, screen) \<in> set (screens (pg_output p)) \<and> length (pg_samples p) = 1000 \<and> length (screen_grid screen 1 6) = 4"
proof -
  obtain n p screen where p: "program_runs [''quick_start''] (program_of bench_sensor) n p"
    "screens (pg_output p) = [(20 * 10 ^ 6, screen)]" using bench_shows by blast
  from display_shows_pressure_over_baseline [OF p(1) [unfolded bench_sensor_def], of "20 * 10 ^ 6" screen 1 6 3] p
  have "length (pg_samples p) = 1000 \<and> length (screen_grid screen 1 6) = 4" by (auto simp: finger_counts display_sizes)
  then show ?thesis using p by fastforce
qed

lemma baseline_stays: "program_runs argv p m q \<Longrightarrow> g_baselineDone (pg_display p) \<Longrightarrow> g_baselineDone (pg_display q)"
proof (induction rule: program_runs.induct)
  case (in_main m q e)
  then show ?case
    by (auto simp: main_advance_def after_baseline_def Let_def split: main_phase.splits sum.splits prod.splits option.splits)
qed (auto simp: onSensorData_def signalHandler_def Let_def split: if_splits)

lemma some_turns: "\<exists>q. program_runs argv p m q"
  by (induction m) (blast intro: program_runs.intros)+

theorem signalled_display_ends_clean_witness:
  "\<exists>n q evs s' w'. program_runs [''quick_start''] (program_of bench_sensor) n q \<and> pg_phase q = Returned 0 \<and>
     destructor_calls bench_library (example_packet 0 7 0 0 []) (Some 1) (pg_sensor q) ([1], [1]) = (evs, s', w') \<and>
     asks_to_stop (last (autosends (pg_events q @ evs))) \<and> fst w' = [] \<and> snd w' = []"
proof -
  have made: "constructor_calls bench_library bench_links (portName_of [''quick_start'']) True 1 ([], []) =
      (bench_sensor, Some 1, [1], [1])"
    by (simp add: constructor_calls_def bench_library_def bench_links_def resolveSymlink_def portName_of_def bench_sensor_def
        line_settings_def Let_def)
  obtain n p where p: "program_runs [''quick_start''] (program_of bench_sensor) n p" "g_baselineDone (pg_display p)"
    "\<not> g_running (pg_display p)" using bench_shows by blast
  obtain q where q: "program_runs [''quick_start''] p 506 q" using some_turns by blast
  obtain evs s' w' where d: "destructor_calls bench_library (example_packet 0 7 0 0 []) (Some 1) (pg_sensor q) ([1], [1]) = (evs, s', w')"
    using prod_cases3 by blast
  have "wf_packet (example_packet 0 7 0 0 [])" by simp
  note ends = signalled_display_ends_clean [OF bench_owns_ports _ made p(1,3) q order_refl refl refl d this]
  have "pg_phase q = Returned 0" "fst w' = []" "snd w' = []" "asks_to_stop (last (autosends (pg_events q @ evs)))"
    using ends baseline_stays [OF q p(2)] by (simp_all add: bench_sensor_def new_sensor_def)
  then show ?thesis using runs_on [OF q p(1)] d by blast
qed

end
