(* ===== verification/Doubles.thy ===== *)
theory Doubles
  imports Prelude Complex_Main "HOL-Library.Log_Nat"
begin

text \<open>
  The C++ \<open>double\<close> the unit conversions and the frequencies are computed in: IEEE 754 binary64 with round to
  nearest, ties to even, overflow to an infinity and gradual underflow, and the library functions the code calls
  on it. The two zeros are one value here: the code never divides by zero nor prints one.
\<close>

section \<open>Values and rounding\<close>

datatype double = NaN bool | Infinity bool | Fin rat

text \<open>The binary exponent of a positive number.\<close>

definition exponent :: "rat \<Rightarrow> int" where
  "exponent x = (case quotient_of x of (a, b) \<Rightarrow>
     let e = bitlen a - bitlen b in if 2 powi e \<le> x then e else e - 1)"

definition half_even :: "rat \<Rightarrow> int" where
  "half_even x = (let f = \<lfloor>x\<rfloor>; d = x - of_int f in
     if d < 1 / 2 \<or> d = 1 / 2 \<and> even f then f else f + 1)"

definition unit_in_last_place :: "rat \<Rightarrow> rat" where
  "unit_in_last_place x = 2 powi (if x = 0 then - 1074 else max (exponent \<bar>x\<bar> - 52) (- 1074))"

definition nearest :: "rat \<Rightarrow> rat" where
  "nearest x = of_int (half_even (x / unit_in_last_place x)) * unit_in_last_place x"

definition round64 :: "rat \<Rightarrow> double" where
  "round64 x = (if 2 ^ 1024 \<le> \<bar>nearest x\<bar> then Infinity (x < 0) else Fin (nearest x))"

section \<open>Arithmetic and comparison\<close>

fun d_neg :: "double \<Rightarrow> double" where
  "d_neg (NaN s) = NaN (\<not> s)"
| "d_neg (Infinity s) = Infinity (\<not> s)"
| "d_neg (Fin x) = Fin (- x)"

fun d_add :: "double \<Rightarrow> double \<Rightarrow> double" where
  "d_add (NaN s) y = NaN s"
| "d_add x (NaN s) = NaN s"
| "d_add (Infinity s) (Infinity t) = (if s = t then Infinity s else NaN False)"
| "d_add (Infinity s) (Fin y) = Infinity s"
| "d_add (Fin x) (Infinity t) = Infinity t"
| "d_add (Fin x) (Fin y) = round64 (x + y)"

definition d_sub :: "double \<Rightarrow> double \<Rightarrow> double" where
  "d_sub x y = d_add x (d_neg y)"

fun negative :: "double \<Rightarrow> bool" where
  "negative (NaN s) = s"
| "negative (Infinity s) = s"
| "negative (Fin x) = (x < 0)"

fun d_mul :: "double \<Rightarrow> double \<Rightarrow> double" where
  "d_mul (NaN s) y = NaN s"
| "d_mul x (NaN s) = NaN s"
| "d_mul (Fin x) (Fin y) = round64 (x * y)"
| "d_mul x y = (if x = Fin 0 \<or> y = Fin 0 then NaN False else Infinity (negative x \<noteq> negative y))"

fun d_div :: "double \<Rightarrow> double \<Rightarrow> double" where
  "d_div (NaN s) y = NaN s"
| "d_div x (NaN s) = NaN s"
| "d_div (Infinity s) (Infinity t) = NaN False"
| "d_div (Infinity s) (Fin y) = Infinity (s \<noteq> (y < 0))"
| "d_div (Fin x) (Infinity t) = Fin 0"
| "d_div (Fin x) (Fin y) = (if y = 0 then (if x = 0 then NaN False else Infinity (x < 0)) else round64 (x / y))"

fun d_less :: "double \<Rightarrow> double \<Rightarrow> bool" where
  "d_less (NaN s) y = False"
| "d_less x (NaN s) = False"
| "d_less (Infinity s) (Infinity t) = (s \<and> \<not> t)"
| "d_less (Infinity s) (Fin y) = s"
| "d_less (Fin x) (Infinity t) = (\<not> t)"
| "d_less (Fin x) (Fin y) = (x < y)"

fun is_nan :: "double \<Rightarrow> bool" where
  "is_nan (NaN s) = True"
| "is_nan _ = False"

fun is_finite :: "double \<Rightarrow> bool" where
  "is_finite (Fin x) = True"
| "is_finite _ = False"

definition d_eq :: "double \<Rightarrow> double \<Rightarrow> bool" where
  "d_eq x y \<longleftrightarrow> \<not> is_nan x \<and> x = y"

definition d_le :: "double \<Rightarrow> double \<Rightarrow> bool" where
  "d_le x y \<longleftrightarrow> d_less x y \<or> d_eq x y"

section \<open>Library functions\<close>

definition d_clamp :: "double \<Rightarrow> double \<Rightarrow> double \<Rightarrow> double" where
  "d_clamp v lo hi = (if d_less v lo then lo else if d_less hi v then hi else v)"

text \<open>Halfway cases away from zero; \<open>None\<close> where the standard leaves the result unspecified.\<close>

definition away :: "rat \<Rightarrow> int" where
  "away x = (if x < 0 then - \<lfloor>1 / 2 - x\<rfloor> else \<lfloor>x + 1 / 2\<rfloor>)"

fun lround :: "double \<Rightarrow> int option" where
  "lround (Fin x) = (if - (2 ^ 63) \<le> away x \<and> away x < 2 ^ 63 then Some (away x) else None)"
| "lround _ = None"

text \<open>The format \<open>%f\<close> with a number of decimals: the exact value rounded, ties to even; \<open>std::to_string\<close> has six.\<close>

fun fixed_point :: "nat \<Rightarrow> double \<Rightarrow> string" where
  "fixed_point k (NaN s) = (if s then ''-nan'' else ''nan'')"
| "fixed_point k (Infinity s) = (if s then ''-inf'' else ''inf'')"
| "fixed_point k (Fin x) =
     (let n = nat (half_even (\<bar>x\<bar> * 10 ^ k)) in
      (if x < 0 then ''-'' else '''') @ decimal (n div 10 ^ k) @ ''.'' @ padded k (n mod 10 ^ k))"

definition double_to_string :: "double \<Rightarrow> string" where
  "double_to_string = fixed_point 6"

section \<open>The exponent\<close>

lemma powi_quotient: "k \<le> e \<Longrightarrow> (2 :: rat) powi e / 2 powi k = of_int (2 ^ nat (e - k))"
proof -
  assume "k \<le> e"
  moreover have "(2 :: rat) powi e / 2 powi k = 2 powi (e - k)" by (simp add: power_int_diff)
  ultimately show ?thesis by (simp add: power_int_def)
qed

lemma bitlen_powi: "0 < a \<Longrightarrow> (2 :: rat) powi (bitlen a - 1) \<le> of_int a \<and> of_int a < (2 :: rat) powi bitlen a"
proof -
  assume a: "0 < a"
  have l: "1 \<le> bitlen a" using a bitlen_eq_zero_iff [of a] bitlen_nonneg [of a] by linarith
  have "(of_int (2 ^ nat (bitlen a - 1)) :: rat) \<le> of_int a" "(of_int a :: rat) < of_int (2 ^ nat (bitlen a))"
    using bitlen_bounds [OF a] by (simp_all only: of_int_le_iff of_int_less_iff)
  then show ?thesis using l by (simp add: power_int_def)
qed

lemma exponent_bounds:
  assumes "0 < x"
  shows "2 powi exponent x \<le> x \<and> x < 2 powi (exponent x + 1)"
proof (cases "quotient_of x")
  case (Pair a b)
  have b: "0 < b" using quotient_of_denom_pos [OF Pair] .
  have x: "x = of_int a / of_int b" using quotient_of_div [OF Pair] .
  have a: "0 < a" using assms b x by (simp add: zero_less_divide_iff)
  let ?e = "bitlen a - bitlen b"
  have r: "(0 :: rat) < of_int b" using b by simp
  have "2 powi (?e - 1) * of_int b < (2 :: rat) powi (?e - 1) * 2 powi bitlen b"
    using bitlen_powi [OF b] by (intro mult_strict_left_mono) auto
  also have "\<dots> = 2 powi (bitlen a - 1)" by (simp flip: power_int_add)
  also have "\<dots> \<le> of_int a" using bitlen_powi [OF a] by blast
  finally have lo: "2 powi (?e - 1) < x" using r by (simp add: x less_divide_eq mult.commute)
  have "of_int a < (2 :: rat) powi bitlen a" using bitlen_powi [OF a] by blast
  also have "\<dots> = 2 powi (?e + 1) * 2 powi (bitlen b - 1)" by (simp flip: power_int_add)
  also have "\<dots> \<le> 2 powi (?e + 1) * of_int b" using bitlen_powi [OF b] by (intro mult_left_mono) auto
  finally have "x < 2 powi (?e + 1)" using r by (simp add: x divide_less_eq mult.commute)
  with lo show ?thesis using Pair by (auto simp: exponent_def Let_def)
qed

lemma exponent_mono:
  assumes "0 < x" and "x \<le> y"
  shows "exponent x \<le> exponent y"
proof (rule ccontr)
  assume "\<not> exponent x \<le> exponent y"
  then have "(2 :: rat) powi (exponent y + 1) \<le> 2 powi exponent x"
    by (intro power_int_increasing) auto
  with exponent_bounds [OF assms(1)] exponent_bounds [of y] assms show False by linarith
qed

section \<open>Rounding to an integer\<close>

lemma floor_within: "\<exists>f. f = \<lfloor>x\<rfloor> \<and> of_int f \<le> (x :: rat) \<and> x < of_int f + 1"
  by (intro exI [of _ "\<lfloor>x\<rfloor>"]) linarith

lemma half_even_error: "\<bar>of_int (half_even x) - x\<bar> \<le> 1 / 2"
proof -
  obtain f where f: "f = \<lfloor>x\<rfloor>" "of_int f \<le> x" "x < of_int f + 1" using floor_within [of x] by blast
  show ?thesis using f(2,3) by (auto simp: half_even_def Let_def abs_if simp flip: f(1))
qed

lemma half_even_of_int [simp]: "half_even (of_int n) = n"
  by (simp add: half_even_def)

lemma half_even_mono:
  assumes "x \<le> y"
  shows "half_even x \<le> half_even y"
proof (cases "\<lfloor>x\<rfloor> = \<lfloor>y\<rfloor>")
  case True
  then show ?thesis using assms by (auto simp: half_even_def Let_def)
next
  case False
  then have "\<lfloor>x\<rfloor> + 1 \<le> \<lfloor>y\<rfloor>" using floor_mono [OF assms] by linarith
  then show ?thesis by (auto simp: half_even_def Let_def)
qed

lemma half_even_minus [simp]: "half_even (- x) = - half_even x"
proof (cases "x = of_int \<lfloor>x\<rfloor>")
  case True
  then show ?thesis by (metis half_even_of_int of_int_minus)
next
  case False
  then obtain n where n: "n = \<lfloor>x\<rfloor>" "of_int n < x" "x < of_int n + 1" using floor_within [of x] by (metis order_le_imp_less_or_eq)
  then have "\<lfloor>- x\<rfloor> = - n - 1" by (intro floor_unique) auto
  with n(2,3) show ?thesis by (auto simp: half_even_def Let_def simp flip: n(1))
qed

section \<open>Rounding to a double\<close>

lemma unit_positive [simp]: "0 < unit_in_last_place x" "0 \<le> unit_in_last_place x" "unit_in_last_place x \<noteq> 0"
  by (simp_all add: unit_in_last_place_def less_imp_neq [symmetric])

lemma nearest_zero [simp]: "nearest 0 = 0"
  using half_even_of_int [of 0] by (simp add: nearest_def)

lemma nearest_minus [simp]: "nearest (- x) = - nearest x"
  by (simp add: nearest_def unit_in_last_place_def)

lemma unit_bound: "unit_in_last_place x \<le> \<bar>x\<bar> / 2 ^ 52 + 1 / 2 ^ 1074"
proof (cases "x = 0")
  case False
  have "(2 :: rat) powi (exponent \<bar>x\<bar> - 52) = 2 powi exponent \<bar>x\<bar> / 2 ^ 52"
    by (simp add: power_int_diff)
  also have "\<dots> \<le> \<bar>x\<bar> / 2 ^ 52"
    using exponent_bounds [of "\<bar>x\<bar>"] False by (intro divide_right_mono) auto
  finally have "(2 :: rat) powi (exponent \<bar>x\<bar> - 52) \<le> \<bar>x\<bar> / 2 ^ 52" .
  moreover have "(2 :: rat) powi (- 1074) = 1 / 2 ^ 1074" by (simp add: power_int_minus inverse_eq_divide)
  ultimately show ?thesis using False
    by (cases "exponent \<bar>x\<bar> - 52 \<le> - 1074") (auto simp: unit_in_last_place_def max_def intro: add_increasing add_increasing2)
qed (simp add: unit_in_last_place_def power_int_minus inverse_eq_divide)

lemma nearest_error: "\<bar>nearest x - x\<bar> \<le> \<bar>x\<bar> / 2 ^ 53 + 1 / 2 ^ 1075"
proof -
  let ?u = "unit_in_last_place x"
  have "nearest x - x = (of_int (half_even (x / ?u)) - x / ?u) * ?u" by (simp add: nearest_def left_diff_distrib)
  then have "\<bar>nearest x - x\<bar> = \<bar>of_int (half_even (x / ?u)) - x / ?u\<bar> * ?u"
    using unit_positive(1) [of x] by (simp add: abs_mult abs_of_pos)
  also have "\<dots> \<le> 1 / 2 * ?u" using half_even_error [of "x / ?u"] by (intro mult_right_mono) auto
  also have "\<dots> \<le> \<bar>x\<bar> / 2 ^ 53 + 1 / 2 ^ 1075" using unit_bound [of x] by simp
  finally show ?thesis .
qed

lemma unit_mono: "0 < x \<Longrightarrow> x \<le> y \<Longrightarrow> unit_in_last_place x \<le> unit_in_last_place y"
  using exponent_mono [of x y] by (auto simp: unit_in_last_place_def intro: power_int_increasing)

text \<open>Where the unit changes there is a power of two in between, a whole number of both units.\<close>

lemma nearest_mono_positive:
  assumes "0 < x" and "x \<le> y"
  shows "nearest x \<le> nearest y"
proof (cases "unit_in_last_place x = unit_in_last_place y")
  case True
  have "half_even (x / unit_in_last_place y) \<le> half_even (y / unit_in_last_place y)"
    by (intro half_even_mono divide_right_mono assms(2) less_imp_le unit_positive)
  then show ?thesis by (simp add: nearest_def True mult_right_mono less_imp_le)
next
  case False
  let ?e = "exponent y" and ?u = "unit_in_last_place x" and ?v = "unit_in_last_place y"
  have y: "0 < y" using assms by simp
  have e: "exponent x < ?e" "- 1074 < ?e - 52" and v: "?v = 2 powi (?e - 52)"
    using False exponent_mono [OF assms] assms y
    by (auto simp: unit_in_last_place_def max_def order_le_less split: if_splits)
  obtain k where u: "?u = 2 powi k" "k \<le> ?e" using e assms(1) by (auto simp: unit_in_last_place_def max_def)
  have p: "2 powi ?e / ?u = of_int (2 ^ nat (?e - k))"
    unfolding u(1) by (rule powi_quotient [OF u(2)])
  have "(2 :: rat) powi (exponent x + 1) \<le> 2 powi ?e" using e(1) by (intro power_int_increasing) auto
  then have "x \<le> 2 powi ?e" using exponent_bounds [OF assms(1)] by linarith
  then have "half_even (x / ?u) \<le> half_even (2 powi ?e / ?u)"
    by (intro half_even_mono divide_right_mono unit_positive)
  then have "half_even (x / ?u) \<le> 2 ^ nat (?e - k)" unfolding p half_even_of_int .
  then have "(of_int (half_even (x / ?u)) :: rat) \<le> of_int (2 ^ nat (?e - k))" by (simp only: of_int_le_iff)
  then have "nearest x \<le> 2 powi ?e / ?u * ?u" unfolding p nearest_def by (intro mult_right_mono) auto
  moreover have q: "2 powi ?e / ?v = of_int (2 ^ 52)" unfolding v using powi_quotient [of "?e - 52" ?e] by simp
  have "half_even (2 powi ?e / ?v) \<le> half_even (y / ?v)"
    using exponent_bounds [OF y] by (intro half_even_mono divide_right_mono less_imp_le [OF unit_positive(1)]) blast
  then have "(2 :: int) ^ 52 \<le> half_even (y / ?v)" unfolding q half_even_of_int .
  then have "(of_int (2 ^ 52) :: rat) \<le> of_int (half_even (y / ?v))" by (simp only: of_int_le_iff)
  then have "2 powi ?e / ?v * ?v \<le> nearest y" unfolding q nearest_def by (intro mult_right_mono) auto
  ultimately show ?thesis by simp
qed

lemma nearest_nonneg: "0 \<le> x \<Longrightarrow> 0 \<le> nearest x"
  using half_even_mono [of 0 "x / unit_in_last_place x"] half_even_of_int [of 0]
  by (simp add: nearest_def less_imp_le)

lemma nearest_mono: "x \<le> y \<Longrightarrow> nearest x \<le> nearest y"
proof -
  assume le: "x \<le> y"
  consider "0 < x" | "x = 0" | "x < 0" "0 \<le> y" | "y < 0" by linarith
  then show ?thesis
  proof cases
    case 3
    then show ?thesis using nearest_nonneg [of "- x"] nearest_nonneg [of y] by simp
  next
    case 4
    then show ?thesis using nearest_mono_positive [of "- y" "- x"] le by simp
  qed (use le nearest_mono_positive nearest_nonneg [of y] in auto)
qed

section \<open>What a double holds\<close>

text \<open>Any 53 bits at any exponent the format has.\<close>

lemma nearest_exact:
  assumes "\<bar>m\<bar> \<le> 2 ^ 53" and "- 1074 \<le> k"
  shows "nearest (of_int m * 2 powi k) = of_int m * 2 powi k"
proof (cases "m = 0")
  case False
  let ?x = "of_int m * 2 powi k :: rat" and ?e = "exponent \<bar>of_int m * 2 powi k\<bar>"
  let ?j = "max (?e - 52) (- 1074)"
  have pos: "0 < \<bar>?x\<bar>" using False by simp
  have "(of_int \<bar>m\<bar> :: rat) \<le> of_int (2 ^ 53)" using assms(1) by (simp only: of_int_le_iff)
  then have "\<bar>?x\<bar> \<le> 2 powi 53 * 2 powi k" by (simp add: abs_mult power_int_def mult_right_mono)
  then have le: "\<bar>?x\<bar> \<le> 2 powi (53 + k)" by (simp add: power_int_add)
  have "?x / 2 powi ?j = of_int (half_even (?x / 2 powi ?j))"
  proof (cases "?e \<le> k + 52")
    case True
    then have c: "(2 :: rat) powi k / 2 powi ?j = of_int (2 ^ nat (k - ?j))" using assms(2) by (intro powi_quotient) simp
    have "?x / 2 powi ?j = of_int m * (2 powi k / 2 powi ?j)" by simp
    then have "?x / 2 powi ?j = of_int (m * 2 ^ nat (k - ?j))" unfolding c of_int_mult .
    then show ?thesis by (metis half_even_of_int)
  next
    case False
    then have "(2 :: rat) powi (53 + k) \<le> 2 powi ?e" by (intro power_int_increasing) auto
    then have eq: "\<bar>?x\<bar> = 2 powi (53 + k)" using exponent_bounds [OF pos] le by linarith
    moreover have "\<not> 53 + k < ?e"
    proof
      assume "53 + k < ?e"
      then have "(2 :: rat) powi (53 + k) < 2 powi ?e" by (intro power_int_strict_increasing) auto
      then show False using exponent_bounds [OF pos] eq by linarith
    qed
    ultimately have j: "?j = k + 1" using False assms(2) by simp
    have "\<bar>?x\<bar> / 2 powi ?j = 2 powi (53 + k) / 2 powi (k + 1)" unfolding j by (simp only: eq)
    also have "\<dots> = of_int (2 ^ nat (53 + k - (k + 1)))" by (intro powi_quotient) simp
    finally have "?x / 2 powi ?j = of_int (2 ^ nat (53 + k - (k + 1))) \<or>
        ?x / 2 powi ?j = of_int (- (2 ^ nat (53 + k - (k + 1))))" by (auto simp: abs_if split: if_splits)
    then show ?thesis by (metis half_even_of_int)
  qed
  moreover have "nearest ?x = of_int (half_even (?x / 2 powi ?j)) * 2 powi ?j"
    using False unfolding nearest_def unit_in_last_place_def by simp
  ultimately have "nearest ?x = ?x / 2 powi ?j * 2 powi ?j" by simp
  then show ?thesis by simp
qed simp

lemma nearest_of_int: "\<bar>n\<bar> \<le> 2 ^ 53 \<Longrightarrow> nearest (of_int n) = of_int n"
  using nearest_exact [of n 0] by simp

lemma nearest_of_nat: "n \<le> 2 ^ 53 \<Longrightarrow> nearest (of_nat n) = of_nat n"
  using nearest_of_int [of "int n"] by simp

text \<open>What rounding gives is 53 bits at some exponent, so rounding it again changes nothing.\<close>

lemma nearest_form: "\<exists>m k. nearest x = of_int m * 2 powi k \<and> \<bar>m\<bar> \<le> 2 ^ 53 \<and> - 1074 \<le> k"
proof (cases "x = 0")
  case False
  let ?k = "max (exponent \<bar>x\<bar> - 52) (- 1074)" and ?q = "\<bar>x\<bar> / unit_in_last_place x"
  have pos: "0 < \<bar>x\<bar>" using False by simp
  have u: "unit_in_last_place x = 2 powi ?k" using False by (simp add: unit_in_last_place_def)
  have "(2 :: rat) powi (exponent \<bar>x\<bar> + 1) \<le> 2 powi (?k + 53)" by (intro power_int_increasing) auto
  then have "\<bar>x\<bar> \<le> 2 powi (?k + 53)" using exponent_bounds [OF pos] by linarith
  then have "?q \<le> 2 powi (?k + 53) / 2 powi ?k" unfolding u by (intro divide_right_mono) auto
  also have "\<dots> = of_int (2 ^ 53)" using powi_quotient [of ?k "?k + 53"] by simp
  finally have "half_even ?q \<le> 2 ^ 53" using half_even_mono half_even_of_int by metis
  moreover have "0 \<le> half_even ?q" using half_even_mono [of 0 ?q] half_even_of_int [of 0] by simp
  moreover have "\<bar>half_even (x / unit_in_last_place x)\<bar> = \<bar>half_even ?q\<bar>"
    using half_even_minus [of ?q] by (cases "0 \<le> x") simp_all
  ultimately have "\<bar>half_even (x / unit_in_last_place x)\<bar> \<le> 2 ^ 53" by simp
  then show ?thesis unfolding nearest_def u [symmetric]
    by (intro exI [of _ "half_even (x / unit_in_last_place x)"] exI [of _ ?k]) (simp add: u)
qed (auto intro: exI [of _ 0])

lemma nearest_idem [simp]: "nearest (nearest x) = nearest x"
  using nearest_form [of x] nearest_exact by metis

text \<open>The doubles among the values.\<close>

fun wf_double :: "double \<Rightarrow> bool" where
  "wf_double (Fin x) = (nearest x = x \<and> \<bar>x\<bar> < 2 ^ 1024)"
| "wf_double _ = True"

lemma wf_round64 [simp]: "wf_double (round64 x)"
  by (simp add: round64_def)

lemma wf_arithmetic: "wf_double x \<Longrightarrow> wf_double (d_neg x)" "wf_double x \<Longrightarrow> wf_double y \<Longrightarrow> wf_double (d_add x y)"
  "wf_double x \<Longrightarrow> wf_double y \<Longrightarrow> wf_double (d_sub x y)" "wf_double x \<Longrightarrow> wf_double y \<Longrightarrow> wf_double (d_mul x y)"
  "wf_double x \<Longrightarrow> wf_double y \<Longrightarrow> wf_double (d_div x y)"
  by (cases x; cases y; auto simp: d_sub_def)+

text \<open>Doubles are whole multiples of the smallest one, so two different ones never have a difference of zero.\<close>

lemma difference_positive:
  assumes "nearest a = a" and "nearest b = b" and "a < b"
  shows "0 < nearest (b - a)"
proof -
  let ?t = "2 powi (- 1074) :: rat"
  have whole: "\<exists>i. x = of_int i * ?t" if "nearest x = x" for x
  proof -
    note fixpoint = that
    obtain m k where x: "x = of_int m * 2 powi k" "- 1074 \<le> k" using nearest_form [of x] unfolding fixpoint by blast
    have "(2 :: rat) powi k / ?t = of_int (2 ^ nat (k - (- 1074)))" by (rule powi_quotient [OF x(2)])
    then have "x = of_int (m * 2 ^ nat (k - (- 1074))) * ?t" unfolding x(1) of_int_mult by (simp add: divide_eq_eq)
    then show ?thesis ..
  qed
  from whole [OF assms(1)] whole [OF assms(2)] obtain i j where ij: "a = of_int i * ?t" "b = of_int j * ?t" by blast
  then have "i < j" using assms(3) by simp
  then have "(1 :: rat) \<le> of_int (j - i)" by (simp flip: of_int_diff)
  then have "1 * ?t \<le> of_int (j - i) * ?t" by (intro mult_right_mono) auto
  also have "\<dots> = b - a" by (simp add: ij left_diff_distrib)
  finally have "nearest (of_int 1 * ?t) \<le> nearest (b - a)" by (intro nearest_mono) simp
  moreover have "nearest (of_int 1 * ?t) = of_int 1 * ?t" by (rule nearest_exact) simp_all
  moreover have "0 < of_int 1 * ?t" by simp
  ultimately show ?thesis by linarith
qed

section \<open>Rounding to the nearest integer\<close>

lemma away_unique:
  assumes "\<bar>x - of_int n\<bar> < 1 / 2"
  shows "away x = n"
proof (cases "x < 0")
  case True
  have "\<lfloor>1 / 2 - x\<rfloor> = - n" using assms by (intro floor_unique) (auto simp: abs_if split: if_splits)
  with True show ?thesis by (simp add: away_def)
next
  case False
  have "\<lfloor>x + 1 / 2\<rfloor> = n" using assms by (intro floor_unique) (auto simp: abs_if split: if_splits)
  with False show ?thesis by (simp add: away_def)
qed

lemma away_mono: "x \<le> y \<Longrightarrow> away x \<le> away y"
  unfolding away_def using floor_mono [of "1 / 2 - y" "1 / 2 - x"] floor_mono [of "x + 1 / 2" "y + 1 / 2"]
  by (auto simp: le_floor_iff) linarith+

end
