(* ===== verification/Transport.thy ===== *)
theory Transport
  imports Prelude
begin

text \<open>
  The two interfaces a gripper is driven through: \<open>Robotiq::Serial\<close> (\<open>gripper/serial.hpp\<close>), a byte
  link, and \<open>Robotiq::Logger\<close> (\<open>gripper/logger.hpp\<close>), a sink of formatted lines, with the exceptions
  of \<open>gripper/driver_exception.hpp\<close>. A \<open>Serial\<close> is a record of its operations on a state \<open>'s\<close> of
  its own; what an operation throws is the left side of its result.
\<close>

section \<open>Logger\<close>

datatype log_level = LevelDebug | LevelInfo | LevelWarn | LevelError

fun level_name :: "log_level \<Rightarrow> string" where
  "level_name LevelDebug = ''Debug''"
| "level_name LevelInfo = ''Info''"
| "level_name LevelWarn = ''Warn''"
| "level_name LevelError = ''Error''"

text \<open>The lines logged so far, the oldest first.\<close>

type_synonym log = "(log_level \<times> string) list"

definition log_line :: "log_level \<Rightarrow> string \<Rightarrow> log \<Rightarrow> log" where
  "log_line level message l = l @ [(level, message)]"

text \<open>\<open>paddedLevel\<close> of the standard-error logger.\<close>

definition paddedLevel :: "log_level \<Rightarrow> string" where
  "paddedLevel level = take 5 (level_name level @ replicate 5 CHR '' '')"

text \<open>
  A line of the standard-error logger: \<open>local\<close> is the local time as \<open>strftime\<close> writes it, \<open>us\<close> the microseconds of its second.
  All instances share a mutex, so lines do not mix.
\<close>

definition writeTimestamp :: "string \<Rightarrow> nat \<Rightarrow> string" where
  "writeTimestamp local us = ''['' @ local @ ''.'' @ padded 6 us @ ''] ''"

definition stderr_line :: "string \<Rightarrow> nat \<Rightarrow> string \<Rightarrow> log_level \<Rightarrow> string \<Rightarrow> string" where
  "stderr_line local us name level message =
     writeTimestamp local us @ ''['' @ paddedLevel level @ ''] '' @
     (if name \<noteq> '''' then ''['' @ name @ ''] '' else '''') @ message @ [CHR 0x0A]"

section \<open>Exceptions\<close>

text \<open>A \<open>std::exception\<close> by its \<open>what()\<close>, or anything else.\<close>

datatype thrown = StdException string | UnknownException

definition driver_exception :: "string \<Rightarrow> thrown" where
  "driver_exception description = StdException (''DriverException: '' @ description @ ''.'')"

definition serial_io_exception :: "string \<Rightarrow> thrown" where
  "serial_io_exception description = StdException (''SerialIOException: '' @ description)"

text \<open>The dash of the source's messages, in UTF-8.\<close>

definition em_dash :: string where
  "em_dash = [CHR 0xE2, CHR 0x80, CHR 0x94]"

section \<open>Serial\<close>

record 's serial =
  ser_open :: "'s \<Rightarrow> (thrown + unit) \<times> 's"
  ser_isOpen :: "'s \<Rightarrow> bool"
  ser_close :: "'s \<Rightarrow> 's"
  ser_read :: "nat \<Rightarrow> int \<Rightarrow> 's \<Rightarrow> (thrown + u8 list) \<times> 's"
  ser_write :: "u8 list \<Rightarrow> 's \<Rightarrow> (thrown + unit) \<times> 's"
  ser_getTimeout :: "'s \<Rightarrow> int"

lemma length_paddedLevel [simp]: "length (paddedLevel level) = 5"
  by (cases level) (simp_all add: paddedLevel_def)

end
