(* ===== verification/Units.thy ===== *)
theory Units
  imports Doubles Transport
begin

text \<open>
  The unit conversions (\<open>gripper/units.hpp\<close>, \<open>src/units.cpp\<close>) with the device profiles they scale by
  (\<open>gripper/device_profile.hpp\<close>), over the binary64 arithmetic of \<open>Doubles\<close>. A conversion to a register
  that the header documents as \<open>nullopt\<close> is \<open>Some None\<close>; \<open>None\<close> is a \<open>lround\<close> whose result the
  standard leaves unspecified.
\<close>

section \<open>Device profiles\<close>

record device_profile =
  minSpeed :: double
  maxSpeed :: double
  minOpening :: double
  maxOpening :: double
  openPosition :: u8
  closedPosition :: u8

text \<open>A byte converted to a double.\<close>

definition from_byte :: "u8 \<Rightarrow> double" where
  "from_byte b = Fin (of_nat (unat b))"

definition registerPositionRange :: "device_profile \<Rightarrow> double" where
  "registerPositionRange p = d_sub (from_byte (closedPosition p)) (from_byte (openPosition p))"

definition openingRange :: "device_profile \<Rightarrow> double" where
  "openingRange p = d_sub (maxOpening p) (minOpening p)"

text \<open>A decimal literal with three places.\<close>

definition thousandths :: "nat \<Rightarrow> double" where
  "thousandths n = round64 (of_nat n / 1000)"

definition k2F85 :: device_profile where
  "k2F85 = \<lparr>minSpeed = thousandths 20, maxSpeed = thousandths 150, minOpening = Fin 0, maxOpening = thousandths 85,
     openPosition = 3, closedPosition = 230\<rparr>"

definition k2F140 :: device_profile where
  "k2F140 = \<lparr>minSpeed = thousandths 30, maxSpeed = thousandths 250, minOpening = Fin 0, maxOpening = thousandths 140,
     openPosition = 3, closedPosition = 230\<rparr>"

definition kHandE :: device_profile where
  "kHandE = \<lparr>minSpeed = thousandths 20, maxSpeed = thousandths 150, minOpening = Fin 0, maxOpening = thousandths 50,
     openPosition = 3, closedPosition = 250\<rparr>"

definition kHandEC10 :: device_profile where
  "kHandEC10 = \<lparr>minSpeed = thousandths 14, maxSpeed = thousandths 107, minOpening = Fin 0, maxOpening = thousandths 40,
     openPosition = 3, closedPosition = 250\<rparr>"

section \<open>Conversions\<close>

definition kAmperesPerRegisterStep :: double where
  "kAmperesPerRegisterStep = thousandths 10"

definition roundedRegister :: "double \<Rightarrow> u8 option" where
  "roundedRegister steps = map_option word_of_int (lround steps)"

definition registerFromSpan :: "double \<Rightarrow> double \<Rightarrow> double \<Rightarrow> u8 option option" where
  "registerFromSpan v minimum maximum =
     (if \<not> is_finite v \<or> d_less v (Fin 0) \<or> \<not> is_finite minimum \<or> \<not> is_finite maximum \<or> d_le maximum minimum
      then Some None
      else let fraction = d_clamp (d_div (d_sub v minimum) (d_sub maximum minimum)) (Fin 0) (Fin 1)
           in map_option Some (roundedRegister (d_mul fraction (Fin 255))))"

definition speedToRegister :: "double \<Rightarrow> device_profile \<Rightarrow> u8 option option" where
  "speedToRegister speed p = registerFromSpan speed (minSpeed p) (maxSpeed p)"

definition normalizedToRegister :: "double \<Rightarrow> log \<Rightarrow> u8 option option \<times> log" where
  "normalizedToRegister v l =
     (if \<not> is_finite v then (Some None, l)
      else let clamped = d_clamp v (Fin 0) (Fin 1);
               l' = (if \<not> d_eq clamped v
                     then log_line LevelWarn (''normalized position '' @ double_to_string v @
                       '' is outside [0, 1]; clamped to '' @ double_to_string clamped) l
                     else l)
           in (map_option Some (roundedRegister (d_mul clamped (Fin 255))), l'))"

definition normalizedFromRegister :: "u8 \<Rightarrow> double" where
  "normalizedFromRegister b = d_div (from_byte b) (Fin 255)"

definition openingToRegister :: "double \<Rightarrow> device_profile \<Rightarrow> u8 option option" where
  "openingToRegister opening p =
     (let span = openingRange p in
      if \<not> is_finite opening \<or> \<not> is_finite span \<or> d_le span (Fin 0) \<or> d_le (registerPositionRange p) (Fin 0)
      then Some None
      else let openFraction = d_clamp (d_div (d_sub opening (minOpening p)) span) (Fin 0) (Fin 1)
           in map_option Some (roundedRegister (d_add (from_byte (openPosition p))
                (d_mul (d_sub (Fin 1) openFraction) (registerPositionRange p)))))"

text \<open>The difference of two bytes is an \<open>int\<close> before it is divided.\<close>

definition openingFromRegister :: "u8 \<Rightarrow> device_profile \<Rightarrow> double option" where
  "openingFromRegister b p =
     (let band = registerPositionRange p; span = openingRange p in
      if d_le band (Fin 0) \<or> \<not> is_finite span \<or> d_le span (Fin 0) then None
      else let closedFraction =
                 d_clamp (d_div (Fin (of_int (uint b - uint (openPosition p)))) band) (Fin 0) (Fin 1)
           in Some (d_add (minOpening p) (d_mul (d_sub (Fin 1) closedFraction) span)))"

definition effortToRegister :: "double \<Rightarrow> u8 option option" where
  "effortToRegister effort = registerFromSpan effort (Fin 0) (Fin 1)"

definition motorCurrentFromRegister :: "u8 \<Rightarrow> double" where
  "motorCurrentFromRegister b = d_mul kAmperesPerRegisterStep (from_byte b)"

section \<open>Rounding within the range of a register\<close>

lemma round64_small: "\<bar>x\<bar> \<le> 2 ^ 1023 \<Longrightarrow> round64 x = Fin (nearest x)"
proof -
  assume x: "\<bar>x\<bar> \<le> 2 ^ 1023"
  have "\<bar>nearest x\<bar> = nearest \<bar>x\<bar>"
    using nearest_nonneg [of x] nearest_nonneg [of "- x"] by (cases "0 \<le> x") simp_all
  also have "\<dots> \<le> nearest (of_int 1 * 2 powi 1023)" using x by (intro nearest_mono) (simp add: power_int_def)
  also have "\<dots> = 2 ^ 1023" using nearest_exact [of 1 1023] by (simp add: power_int_def)
  also have "\<dots> < (2 :: rat) ^ 1024" by (rule power_strict_increasing) simp_all
  finally show ?thesis by (simp add: round64_def)
qed

lemma round64_le: "\<bar>x\<bar> \<le> 1000 \<Longrightarrow> round64 x = Fin (nearest x)"
proof -
  assume "\<bar>x\<bar> \<le> 1000"
  also have "(1000 :: rat) \<le> 2 ^ 10" by simp
  also have "(2 :: rat) ^ 10 \<le> 2 ^ 1023" by (rule power_increasing) simp_all
  finally show ?thesis by (rule round64_small)
qed

lemma nearest_close:
  assumes "\<bar>x\<bar> \<le> k"
  shows "\<bar>nearest x - x\<bar> \<le> (k + 1) / 2 ^ 53"
proof -
  have "(1 :: rat) / 2 ^ 1075 \<le> 1 / 2 ^ 53" by (intro divide_left_mono power_increasing) simp_all
  then show ?thesis using nearest_error [of x] assms by simp
qed

lemma nearest_range: "0 \<le> x \<Longrightarrow> x \<le> of_nat n \<Longrightarrow> n \<le> 2 ^ 53 \<Longrightarrow> 0 \<le> nearest x \<and> nearest x \<le> of_nat n"
  using nearest_mono [of x "of_nat n"] nearest_of_nat [of n] nearest_nonneg [of x] by simp

lemma clamp_round: "d_clamp (round64 q) (Fin 0) (Fin 1) = Fin (max 0 (min 1 (nearest q)))"
proof -
  have "(1 :: rat) < 2 ^ 1024" by (rule one_less_power) simp_all
  moreover have "q < 0 \<Longrightarrow> nearest q \<le> 0" using nearest_mono [of q 0] by simp
  moreover have "\<not> q < 0 \<Longrightarrow> 0 \<le> nearest q" using nearest_nonneg by simp
  ultimately show ?thesis by (auto simp: round64_def d_clamp_def max_def min_def)
qed

text \<open>A quotient clamped to the unit interval, when the dividend may overflow.\<close>

definition unit_ratio :: "rat \<Rightarrow> rat \<Rightarrow> rat" where
  "unit_ratio y s = (if 2 ^ 1024 \<le> \<bar>nearest y\<bar> then (if y < 0 then 0 else 1) else max 0 (min 1 (nearest (nearest y / s))))"

lemma clamp_ratio: "0 < s \<Longrightarrow> d_clamp (d_div (round64 y) (Fin s)) (Fin 0) (Fin 1) = Fin (unit_ratio y s)"
  by (cases "2 ^ 1024 \<le> \<bar>nearest y\<bar>") (auto simp: unit_ratio_def round64_def [of y] clamp_round, auto simp: d_clamp_def)

lemma unit_ratio_range: "0 \<le> unit_ratio y s \<and> unit_ratio y s \<le> 1"
  by (simp add: unit_ratio_def)

lemma unit_ratio_mono:
  assumes "y \<le> z" and "0 < s"
  shows "unit_ratio y s \<le> unit_ratio z s"
proof -
  note n = nearest_mono [OF assms(1)]
  have "nearest (nearest y / s) \<le> nearest (nearest z / s)"
    by (intro nearest_mono divide_right_mono n less_imp_le [OF assms(2)])
  moreover have "y < 0 \<or> 0 \<le> nearest y" "z < 0 \<Longrightarrow> nearest z \<le> 0"
    using nearest_nonneg [of y] nearest_mono [of z 0] by (metis not_less, simp)
  ultimately show ?thesis using n assms by (auto simp: unit_ratio_def)
qed

definition steps_of :: "rat \<Rightarrow> int" where
  "steps_of c = away (nearest (c * 255))"

lemma steps_range: "0 \<le> c \<Longrightarrow> c \<le> 1 \<Longrightarrow> 0 \<le> steps_of c \<and> steps_of c \<le> 255"
  using nearest_range [of "c * 255" 255] away_mono [of 0 "nearest (c * 255)"] away_mono [of "nearest (c * 255)" 255]
    away_unique [of 0 0] away_unique [of 255 255] by (simp add: steps_of_def)

lemma steps_ends [simp]: "steps_of 0 = 0" "steps_of 1 = 255"
  using nearest_of_nat [of 255] away_unique [of 0 0] away_unique [of 255 255] by (simp_all add: steps_of_def)

lemma steps_mono: "c \<le> d \<Longrightarrow> steps_of c \<le> steps_of d"
  unfolding steps_of_def by (intro away_mono nearest_mono) simp

lemma rounded_steps: "0 \<le> c \<Longrightarrow> c \<le> 1 \<Longrightarrow>
    roundedRegister (d_mul (Fin c) (Fin 255)) = Some (word_of_int (steps_of c))"
  using steps_range [of c] round64_le [of "c * 255"] by (simp add: roundedRegister_def abs_mult) (simp add: steps_of_def)

lemma unat_steps: "0 \<le> c \<Longrightarrow> c \<le> 1 \<Longrightarrow> int (unat (word_of_int (steps_of c) :: u8)) = steps_of c"
  using steps_range [of c] by (simp add: uint_word_of_int flip: uint_nat)

lemma byte_range: "0 \<le> (of_nat (unat b) :: rat)" "(of_nat (unat (b :: u8)) :: rat) \<le> 255"
proof -
  have "unat b \<le> 255" using unat_u8_bound [of b] by linarith
  then have "(of_nat (unat b) :: rat) \<le> of_nat 255" by (simp only: of_nat_le_iff)
  then show "(of_nat (unat b) :: rat) \<le> 255" by simp
qed (rule of_nat_0_le_iff)

lemma registerFromSpan_eq:
  assumes "0 \<le> v" and "a < b" and "\<bar>b - a\<bar> \<le> 2 ^ 1023" and "0 < nearest (b - a)"
  shows "registerFromSpan (Fin v) (Fin a) (Fin b) = Some (Some (word_of_int (steps_of (unit_ratio (v - a) (nearest (b - a))))))"
  using assms unit_ratio_range round64_small [of "b - a"] clamp_ratio [of "nearest (b - a)" "v - a"]
  by (simp add: registerFromSpan_def d_le_def d_eq_def d_sub_def rounded_steps del: d_mul.simps)

section \<open>Reading an opening back\<close>

lemma clamp_unit: "0 \<le> g \<Longrightarrow> g \<le> 1 \<Longrightarrow> \<bar>max 0 (min 1 x) - g\<bar> \<le> \<bar>x - (g :: rat)\<bar>"
  by (auto simp: max_def min_def)

lemma nearest_unit: "0 \<le> x \<Longrightarrow> x \<le> 1 \<Longrightarrow> 0 \<le> nearest x \<and> nearest x \<le> 1 \<and> \<bar>nearest x - x\<bar> \<le> 2 / 2 ^ 53"
  using nearest_range [of x 1] nearest_close [of x 1] by simp

text \<open>The opening of a fraction \<open>g\<close> of the span, and the fraction that opening is.\<close>

lemma scaled_back:
  assumes "0 \<le> g" and "g \<le> 1" and "1 / 1000 \<le> s" and "s \<le> 1"
  shows "\<bar>max 0 (min 1 (nearest (nearest (g * s) / s))) - g\<bar> \<le> 7 / 2 ^ 53" and "0 \<le> nearest (g * s)" and "nearest (g * s) \<le> 1"
proof -
  let ?p = "nearest (g * s)"
  have gs: "0 \<le> g * s" "g * s \<le> 1" using assms by (auto intro: mult_nonneg_nonneg mult_le_one)
  show p: "0 \<le> ?p" "?p \<le> 1" using nearest_unit [OF gs] by blast+
  have "(1 :: rat) / 2 ^ 1075 \<le> 1 / 2 ^ 63" by (intro divide_left_mono power_increasing) simp_all
  also have "\<dots> = 1 / 2 ^ 10 / 2 ^ 53" by simp
  also have "\<dots> \<le> s / 2 ^ 53" using assms(3) by (intro divide_right_mono) auto
  finally have tiny: "1 / 2 ^ 1075 \<le> s / 2 ^ 53" .
  have "\<bar>g * s\<bar> / 2 ^ 53 \<le> s / 2 ^ 53" using assms by (intro divide_right_mono) (auto simp: abs_mult mult_left_le_one_le)
  then have "\<bar>?p - g * s\<bar> \<le> 2 * s / 2 ^ 53" using nearest_error [of "g * s"] tiny by simp
  then have "\<bar>?p - g * s\<bar> / s \<le> 2 / 2 ^ 53" using assms(3) by (simp add: divide_le_eq)
  moreover have "?p / s - g = (?p - g * s) / s" using assms(3) by (simp add: diff_divide_distrib)
  then have "\<bar>?p / s - g\<bar> = \<bar>?p - g * s\<bar> / s" using assms(3) by (simp add: abs_divide)
  ultimately have q: "\<bar>?p / s - g\<bar> \<le> 2 / 2 ^ 53" by linarith
  moreover have "(2 :: rat) / 2 ^ 53 \<le> 1" by simp
  ultimately have "\<bar>?p / s\<bar> \<le> 2" using assms(1,2) by linarith
  from nearest_close [OF this] q have "\<bar>nearest (?p / s) - g\<bar> \<le> (2 + 1) / 2 ^ 53 + 2 / 2 ^ 53" by linarith
  moreover have "((2 :: rat) + 1) / 2 ^ 53 + 2 / 2 ^ 53 \<le> 7 / 2 ^ 53" by simp
  ultimately show "\<bar>max 0 (min 1 (nearest (nearest (g * s) / s))) - g\<bar> \<le> 7 / 2 ^ 53"
    using clamp_unit [OF assms(1,2), of "nearest (?p / s)"] by linarith
qed

text \<open>The whole chain, over the distance \<open>n\<close> of the register from the open end and the width of the band.\<close>

lemma opening_chain:
  assumes "0 \<le> n" and "n \<le> band" and "0 < band" and "band \<le> 255" and "0 \<le> first" and "first \<le> 255"
    and "1 / 1000 \<le> s" and "s \<le> 1"
  defines "g \<equiv> nearest (1 - nearest (of_int n / of_int band))"
  defines "f \<equiv> max 0 (min 1 (nearest (nearest (g * s) / s)))"
  defines "m \<equiv> nearest (nearest (1 - f) * of_int band)"
  shows "0 \<le> g \<and> g \<le> 1 \<and> 0 \<le> nearest (1 - f) \<and> nearest (1 - f) \<le> 1 \<and> 0 \<le> m \<and> m \<le> 255 \<and>
    away (nearest (of_int first + m)) = first + n"
proof -
  let ?c = "of_int n / of_int band :: rat" and ?b = "of_int band :: rat" and ?e = "1 / 2 ^ 53 :: rat"
  have b: "0 < ?b" "?b \<le> 255" using assms(3,4) by simp_all
  have c: "0 \<le> ?c" "?c \<le> 1" using assms(1-3) by simp_all
  note n1 = nearest_unit [OF c]
  have g: "0 \<le> g \<and> g \<le> 1 \<and> \<bar>g - (1 - nearest ?c)\<bar> \<le> 2 * ?e"
    unfolding g_def using nearest_unit [of "1 - nearest ?c"] n1 by simp
  have f: "0 \<le> f" "f \<le> 1" "\<bar>f - g\<bar> \<le> 7 * ?e" using scaled_back(1) [of g s] g assms(7,8) by (auto simp: f_def)
  have h: "0 \<le> nearest (1 - f) \<and> nearest (1 - f) \<le> 1 \<and> \<bar>nearest (1 - f) - (1 - f)\<bar> \<le> 2 * ?e"
    using nearest_unit [of "1 - f"] f by simp
  have "\<bar>nearest (1 - f) - ?c\<bar> \<le> 13 * ?e" using n1 g f h by linarith
  then have "\<bar>nearest (1 - f) - ?c\<bar> * ?b \<le> 13 * ?e * 255" using b by (intro mult_mono) auto
  moreover have "(nearest (1 - f) - ?c) * ?b = nearest (1 - f) * ?b - of_int n" using b by (simp add: left_diff_distrib)
  then have "\<bar>nearest (1 - f) * ?b - of_int n\<bar> = \<bar>nearest (1 - f) - ?c\<bar> * ?b" using b by (metis abs_mult abs_of_pos)
  ultimately have hb: "\<bar>nearest (1 - f) * ?b - of_int n\<bar> \<le> 13 * ?e * 255" by linarith
  have "nearest (1 - f) * ?b \<le> 1 * 255" using h b by (intro mult_mono) auto
  then have r: "0 \<le> nearest (1 - f) * ?b" "nearest (1 - f) * ?b \<le> 255" using h b by auto
  then have m: "0 \<le> m \<and> m \<le> 255 \<and> \<bar>m - nearest (1 - f) * ?b\<bar> \<le> 256 * ?e"
    unfolding m_def using nearest_range [of _ 255] nearest_close [of "nearest (1 - f) * ?b" 255] by simp
  have o: "0 \<le> (of_int first :: rat)" "(of_int first :: rat) \<le> 255" using assms(5,6) by simp_all
  have "\<bar>nearest (of_int first + m) - (of_int first + m)\<bar> \<le> 511 * ?e"
    using nearest_close [of "of_int first + m" 510] m o by simp
  moreover have "?e \<le> 1 / 100000" by simp
  ultimately have "\<bar>nearest (of_int first + m) - of_int (first + n)\<bar> < 1 / 2"
    using m hb unfolding of_int_add by linarith
  then show ?thesis using g h m away_unique by blast
qed

lemma clamped_unit: "0 \<le> nearest x \<Longrightarrow> nearest x \<le> 1 \<Longrightarrow> d_clamp (round64 x) (Fin 0) (Fin 1) = Fin (nearest x)"
  by (simp add: clamp_round)

lemma clamped_fraction:
  assumes "0 < band"
  shows "d_clamp (d_div (Fin (of_int i)) (Fin (of_int band))) (Fin 0) (Fin 1) =
    Fin (nearest (of_int (max 0 (min band i)) / of_int band))"
proof -
  have "nearest (of_int i / of_int band) \<le> 0" if "i < 0"
    using nearest_mono [of "of_int i / of_int band" 0] that assms by (simp add: divide_le_0_iff)
  moreover have "1 \<le> nearest (of_int i / of_int band)" if "band < i"
    using nearest_mono [of 1 "of_int i / of_int band"] nearest_of_nat [of 1] that assms by simp
  moreover have "0 \<le> nearest (of_int i / of_int band) \<and> nearest (of_int i / of_int band) \<le> 1" if "0 \<le> i" "i \<le> band"
    using nearest_unit [of "of_int i / of_int band"] that assms by simp
  ultimately show ?thesis using assms nearest_of_nat [of 1]
    by (cases "i < 0"; cases "band < i") (auto simp: clamp_round max_def min_def)
qed

lemma there_and_back:
  fixes b :: u8
  assumes "registerPositionRange p = Fin (of_int band)" and "openingRange p = Fin s" and "minOpening p = Fin 0"
    and "0 < band" and "band \<le> 255" and "1 / 1000 \<le> s" and "s \<le> 1"
  defines "n \<equiv> max 0 (min band (uint b - uint (openPosition p)))"
  shows "\<exists>x. openingFromRegister b p = Some x \<and>
    openingToRegister x p = Some (Some (word_of_int (uint (openPosition p) + n)))"
proof -
  let ?first = "uint (openPosition p)"
  define c where "c = nearest (of_int n / of_int band)"
  define g where "g = nearest (1 - c)"
  define f where "f = max 0 (min 1 (nearest (nearest (g * s) / s)))"
  define m where "m = nearest (nearest (1 - f) * of_int band)"
  have n: "0 \<le> n" "n \<le> band" using assms(4) by (auto simp: n_def)
  have "int (unat (openPosition p)) < int 256" using unat_u8_bound by (simp only: of_nat_less_iff)
  then have first: "0 \<le> ?first" "?first \<le> 255" by simp_all
  have chain: "0 \<le> g" "g \<le> 1" "0 \<le> nearest (1 - f)" "nearest (1 - f) \<le> 1" "0 \<le> m" "m \<le> 255"
    "away (nearest (of_int ?first + m)) = ?first + n"
    using opening_chain [OF n assms(4,5) first assms(6,7), folded c_def, folded g_def, folded f_def, folded m_def]
    by simp_all
  have c: "0 \<le> c \<and> c \<le> 1"
    using nearest_unit [of "of_int n / of_int band"] n assms(4) by (simp add: c_def)
  have gs: "0 \<le> g * s" "g * s \<le> 1" using chain(1,2) assms(6,7) by (auto intro: mult_nonneg_nonneg mult_le_one)
  note p = nearest_unit [OF gs]
  have sub: "d_sub (Fin 1) (Fin c) = Fin g" "d_sub (Fin 1) (Fin f) = Fin (nearest (1 - f))"
    using c by (auto simp: d_sub_def round64_le g_def f_def)
  have mul: "d_mul (Fin g) (Fin s) = Fin (nearest (g * s))" "d_mul (Fin (nearest (1 - f))) (Fin (of_int band)) = Fin m"
    "d_add (Fin 0) (Fin (nearest (g * s))) = Fin (nearest (g * s))" "d_sub (Fin (nearest (g * s))) (Fin 0) = Fin (nearest (g * s))"
  proof -
    have "nearest (1 - f) * of_int band \<le> 1 * 255" using chain(3,4) assms(4,5) by (intro mult_mono) auto
    moreover have "0 \<le> nearest (1 - f) * of_int band" using chain(3) assms(4) by simp
    ultimately show "d_mul (Fin (nearest (1 - f))) (Fin (of_int band)) = Fin m" by (simp add: round64_le m_def)
  qed (use gs p in \<open>simp_all add: round64_le d_sub_def\<close>)
  have closed: "d_clamp (d_div (Fin (of_int (uint b - ?first))) (Fin (of_int band))) (Fin 0) (Fin 1) = Fin c"
    unfolding c_def n_def by (rule clamped_fraction [OF assms(4)])
  have pos: "\<not> d_le (Fin (of_int band)) (Fin 0)" "\<not> d_le (Fin s) (Fin 0)" using assms(4,6) by (auto simp: d_le_def d_eq_def)
  have x: "openingFromRegister b p = Some (Fin (nearest (g * s)))"
    using pos unfolding openingFromRegister_def Let_def assms(1-3) closed sub mul by simp
  have opened: "d_clamp (d_div (Fin (nearest (g * s))) (Fin s)) (Fin 0) (Fin 1) = Fin f"
    using assms(6) by (simp add: clamp_round f_def)
  have byte: "from_byte (openPosition p) = Fin (of_int ?first)" by (simp add: from_byte_def)
  have "\<bar>of_int ?first + m\<bar> \<le> 1000"
  proof -
    have "(of_int ?first :: rat) \<le> of_int 255" "(0 :: rat) \<le> of_int ?first"
      using first by (simp_all only: of_int_le_iff of_int_0_le_iff)
    then show ?thesis using chain(5,6) by (simp del: of_int_uint)
  qed
  then have "d_add (Fin (of_int ?first)) (Fin m) = Fin (nearest (of_int ?first + m))"
    by (simp add: round64_le del: of_int_uint)
  then have "openingToRegister (Fin (nearest (g * s))) p = map_option Some (roundedRegister (Fin (nearest (of_int ?first + m))))"
    using pos unfolding openingToRegister_def Let_def assms(1-3) mul opened sub byte by simp
  also have "\<dots> = Some (Some (word_of_int (?first + n)))"
  proof -
    have "0 \<le> ?first + n" "?first + n \<le> 510" using first n assms(5) by linarith+
    then have "- (2 ^ 63) \<le> ?first + n \<and> ?first + n < 2 ^ 63" by simp
    then show ?thesis unfolding roundedRegister_def lround.simps chain(7) by simp
  qed
  finally show ?thesis using x by blast
qed

lemma shipped_roundtrip:
  assumes "minOpening p = Fin 0" and "40 \<le> t" and "t \<le> 140" and "maxOpening p = thousandths t"
    and "openPosition p = 3" and "closedPosition p = 230 \<or> closedPosition p = 250"
  shows "\<exists>x. openingFromRegister b p = Some x \<and>
    openingToRegister x p = Some (Some (max (openPosition p) (min (closedPosition p) b)))"
proof -
  obtain s where s: "maxOpening p = Fin s" "nearest s = s" "1 / 1000 \<le> s" "s \<le> 1"
  proof
    have "(of_nat 40 :: rat) \<le> of_nat t" "(of_nat t :: rat) \<le> of_nat 140" using assms(2,3) by (simp_all only: of_nat_le_iff)
    then have "\<bar>of_nat t / 1000 :: rat\<bar> \<le> 1" "(40 :: rat) / 1000 \<le> of_nat t / 1000" "(of_nat t :: rat) / 1000 \<le> 140 / 1000" by simp_all
    with nearest_close [OF this(1)] show "1 / 1000 \<le> nearest (of_nat t / 1000)" "nearest (of_nat t / 1000) \<le> 1"
      by (simp_all add: abs_if split: if_splits)
    show "maxOpening p = Fin (nearest (of_nat t / 1000))"
      using assms(4) \<open>\<bar>of_nat t / 1000 :: rat\<bar> \<le> 1\<close> by (simp add: thousandths_def round64_le)
  qed simp
  obtain band where band: "0 < band" "band \<le> 255" "registerPositionRange p = Fin (of_int band)"
      "uint (closedPosition p) = 3 + band"
  proof
    show "registerPositionRange p = Fin (of_int (uint (closedPosition p) - 3))"
      using assms(5,6) nearest_of_nat [of 227] nearest_of_nat [of 247]
      by (auto simp: registerPositionRange_def from_byte_def d_sub_def round64_le)
  qed (use assms(6) in auto)
  have span: "openingRange p = Fin s" using s assms(1) by (simp add: openingRange_def d_sub_def round64_le)
  have "word_of_int (3 + max 0 (min band (uint b - 3))) = max (openPosition p) (min (closedPosition p) b)"
  proof -
    have "3 + max 0 (min band (uint b - 3)) = uint (max 3 (min (closedPosition p) b))"
      using band(4) by (auto simp: max_def min_def word_le_def)
    then show ?thesis using assms(5) by simp
  qed
  then show ?thesis using there_and_back [OF band(3) span assms(1) band(1,2) s(3,4), of b] assms(5) by simp
qed

section \<open>Properties\<close>

text \<open>
  On any two bounds a representable distance apart, a conversion always gives a register, never a smaller
  one for a larger quantity, 0 at and below the minimum and 255 at and above the maximum, rounding and
  overflow of the intermediate results included.
\<close>

theorem span_conversion_is_monotone:
  assumes "wf_double (Fin a)" and "wf_double (Fin b)" and "a < b" and "b - a \<le> 2 ^ 1023" and "0 \<le> v" and "v \<le> w"
  shows "\<exists>r r'. registerFromSpan (Fin v) (Fin a) (Fin b) = Some (Some r) \<and>
    registerFromSpan (Fin w) (Fin a) (Fin b) = Some (Some r') \<and> r \<le> r' \<and> (v \<le> a \<longrightarrow> r = 0) \<and> (b \<le> w \<longrightarrow> r' = 255)"
proof -
  let ?s = "nearest (b - a)"
  have s: "0 < ?s" using difference_positive [of a b] assms(1-3) by simp
  have m: "unit_ratio (v - a) ?s \<le> unit_ratio (w - a) ?s" using assms(6) by (intro unit_ratio_mono s) simp
  have eq: "registerFromSpan (Fin x) (Fin a) (Fin b) = Some (Some (word_of_int (steps_of (unit_ratio (x - a) ?s))))"
    if "0 \<le> x" for x using registerFromSpan_eq [OF that assms(3) _ s] assms(3,4) by simp
  have "(word_of_int (steps_of (unit_ratio (v - a) ?s)) :: u8) \<le> word_of_int (steps_of (unit_ratio (w - a) ?s))"
    using unat_steps [OF conjunct1 [OF unit_ratio_range] conjunct2 [OF unit_ratio_range]] steps_mono [OF m]
    by (metis of_nat_le_iff word_le_nat_alt)
  moreover have "unit_ratio (v - a) ?s = 0" if "v \<le> a"
  proof -
    have "nearest (v - a) \<le> 0" using nearest_mono [of "v - a" 0] that by simp
    then have "nearest (v - a) / ?s \<le> 0" using s by (simp add: divide_le_0_iff)
    then have "nearest (nearest (v - a) / ?s) \<le> 0" using nearest_mono [of _ 0] by simp
    then show ?thesis using that \<open>nearest (v - a) \<le> 0\<close> by (auto simp: unit_ratio_def)
  qed
  moreover have "unit_ratio (w - a) ?s = 1" if "b \<le> w"
  proof -
    have "?s \<le> nearest (w - a)" using that by (intro nearest_mono) simp
    then have "1 \<le> nearest (w - a) / ?s" using s by simp
    then have "1 \<le> nearest (nearest (w - a) / ?s)" using nearest_mono [of 1] nearest_of_nat [of 1] by force
    then show ?thesis using that assms(3) by (auto simp: unit_ratio_def)
  qed
  ultimately show ?thesis using eq [of v] eq [of w] assms(5,6) by auto
qed

theorem span_conversion_is_monotone_witness:
  "\<exists>r r'. registerFromSpan (Fin 1) (Fin 2) (Fin 10) = Some (Some r) \<and>
     registerFromSpan (Fin 12) (Fin 2) (Fin 10) = Some (Some r') \<and> r = 0 \<and> r' = 255"
proof -
  have "(10 :: rat) \<le> 2 ^ 1023"
  proof -
    have "(10 :: rat) \<le> 2 ^ 4" by simp
    also have "(2 :: rat) ^ 4 \<le> 2 ^ 1023" by (rule power_increasing) simp_all
    finally show ?thesis .
  qed
  moreover have "(2 :: rat) ^ 4 < 2 ^ 1024" by (rule power_strict_increasing) simp_all
  ultimately show ?thesis
    using span_conversion_is_monotone [of 2 10 1 12] nearest_of_nat [of 2] nearest_of_nat [of 10] by auto
qed

text \<open>
  C30 On the profiles the SDK ships, a position register between the open and the closed position, read as an opening,
  converts back to the same register, and one outside that band converts to its nearest end: none of the eleven
  roundings on the way moves it by a step.
\<close>

theorem opening_roundtrip:
  assumes "p \<in> {k2F85, k2F140, kHandE, kHandEC10}"
  shows "\<exists>x. openingFromRegister b p = Some x \<and>
    openingToRegister x p = Some (Some (max (openPosition p) (min (closedPosition p) b)))"
proof -
  have shipped: "minOpening p = Fin 0" "\<exists>t. 40 \<le> t \<and> t \<le> 140 \<and> maxOpening p = thousandths t"
    "openPosition p = 3" "closedPosition p = 230 \<or> closedPosition p = 250"
    using assms by (auto simp: k2F85_def k2F140_def kHandE_def kHandEC10_def intro: exI [of _ 85] exI [of _ 140]
        exI [of _ 50] exI [of _ 40])
  from shipped(2) obtain t where t: "40 \<le> t" "t \<le> 140" "maxOpening p = thousandths t" by blast
  show ?thesis using shipped_roundtrip [OF shipped(1) t shipped(3,4)] .
qed

theorem opening_roundtrip_witness:
  "(\<exists>x. openingFromRegister 100 k2F85 = Some x \<and> openingToRegister x k2F85 = Some (Some 100)) \<and>
   (\<exists>x. openingFromRegister 0 k2F85 = Some x \<and> openingToRegister x k2F85 = Some (Some 3))"
  using opening_roundtrip [of k2F85 100] opening_roundtrip [of k2F85 0] by (simp add: k2F85_def)

text \<open>
  Every register value read back as a normalized position converts to itself, without a warning: the errors
  of the division, the multiplication and the rounding never add up to a step.
\<close>

theorem normalized_position_roundtrip: "normalizedToRegister (normalizedFromRegister b) l = (Some (Some b), l)"
proof -
  let ?v = "of_nat (unat b) :: rat"
  note v = byte_range [of b]
  have q: "0 \<le> nearest (?v / 255)" "nearest (?v / 255) \<le> 1" using nearest_range [of "?v / 255" 1] v by simp_all
  have "\<bar>nearest (?v / 255) - ?v / 255\<bar> \<le> 2 / 2 ^ 53" using nearest_close [of "?v / 255" 1] v by simp
  moreover have "\<bar>nearest (nearest (?v / 255) * 255) - nearest (?v / 255) * 255\<bar> \<le> 256 / 2 ^ 53"
    using nearest_close [of "nearest (?v / 255) * 255" 255] q by simp
  ultimately have "\<bar>nearest (nearest (?v / 255) * 255) - ?v\<bar> < 1 / 2" by (simp add: abs_if split: if_splits)
  then have "steps_of (nearest (?v / 255)) = int (unat b)" unfolding steps_of_def by (intro away_unique) simp
  then have "roundedRegister (d_mul (Fin (nearest (?v / 255))) (Fin 255)) = Some b"
    using rounded_steps [OF q] by simp
  then show ?thesis
    using q v by (simp add: normalizedToRegister_def normalizedFromRegister_def from_byte_def round64_le d_clamp_def d_eq_def
        del: d_mul.simps)
qed

end
