(* ===== verification/Frequency.thy ===== *)
theory Frequency
  imports Units
begin

text \<open>
  How often a gripper is exchanged with: the folding of a requested frequency (\<open>src/frequency.hpp\<close>) and its
  period in microseconds (\<open>src/exchange_period.hpp\<close>). The outer \<open>None\<close> is an unspecified \<open>llround\<close>.
\<close>

definition kMinFrequency :: double where "kMinFrequency = round64 (1 / 10)"
definition kMaxFrequency :: double where "kMaxFrequency = Fin 1000"

definition clampFrequency :: "double \<Rightarrow> thrown + double" where
  "clampFrequency hz =
     (if is_nan hz \<or> d_less hz (Fin 0)
      then Inl (driver_exception (''exchange frequency must be a non-negative number of hertz; got '' @ double_to_string hz))
      else if d_eq hz (Fin 0) then Inr (Fin 0)
      else Inr (d_clamp hz kMinFrequency kMaxFrequency))"

definition exchangePeriodFromFrequency :: "double \<Rightarrow> (thrown + int) option" where
  "exchangePeriodFromFrequency hz =
     (case clampFrequency hz of
        Inl e \<Rightarrow> Some (Inl e)
      | Inr supported \<Rightarrow>
          if d_eq supported (Fin 0) then Some (Inr 0)
          else map_option Inr (lround (d_div (Fin 1000000) supported)))"

section \<open>The period of a supported frequency\<close>

lemma kMinFrequency_eq: "\<exists>m. kMinFrequency = Fin m \<and> \<bar>m - 1 / 10\<bar> \<le> 2 / 2 ^ 53"
  using nearest_close [of "1 / 10" 1] by (simp add: kMinFrequency_def round64_le)

text \<open>Folding is idempotent, keeps to the range, and keeps the order.\<close>

definition folded :: "rat \<Rightarrow> double \<Rightarrow> rat" where
  "folded m hz = (case hz of Fin x \<Rightarrow> max m (min 1000 x) | _ \<Rightarrow> 1000)"

lemma kMinFrequency_obtain:
  obtains m where "kMinFrequency = Fin m" and "1 / 20 \<le> m" and "1 / 10 - 2 / 2 ^ 53 \<le> m" and "m \<le> 1"
  using kMinFrequency_eq by (auto simp: abs_if split: if_splits)

lemma clampFrequency_positive:
  assumes "d_less (Fin 0) hz" and "kMinFrequency = Fin m" and "1 / 20 \<le> m" and "m \<le> 1"
  shows "clampFrequency hz = Inr (Fin (folded m hz))"
  using assms(1,3,4)
  by (cases hz) (auto simp: clampFrequency_def d_clamp_def d_eq_def kMaxFrequency_def folded_def max_def min_def assms(2))

lemma folded_range: "m \<le> 1 \<Longrightarrow> m \<le> folded m hz \<and> folded m hz \<le> 1000"
  by (cases hz) (auto simp: folded_def)

lemma folded_mono: "d_le hz hz' \<Longrightarrow> d_less (Fin 0) hz \<Longrightarrow> m \<le> 1 \<Longrightarrow> folded m hz \<le> folded m hz'"
  by (cases hz; cases hz') (auto simp: folded_def d_le_def d_eq_def)

lemma period_of_supported:
  assumes "1 / 10 - 2 / 2 ^ 53 \<le> f" and "f \<le> 1000"
  shows "lround (d_div (Fin 1000000) (Fin f)) = Some (away (nearest (1000000 / f))) \<and>
    1000 \<le> away (nearest (1000000 / f)) \<and> away (nearest (1000000 / f)) \<le> 10000000"
proof -
  have "0 < (1 / 10 - 2 / 2 ^ 53 :: rat)" by simp
  then have f: "0 < f" "1 / 10 - 2 / 2 ^ 53 \<le> f" using assms(1) by linarith+
  have "1000000 / f \<le> 1000000 / (1 / 10 - 2 / 2 ^ 53)" using f(2) by (intro divide_left_mono) auto
  also have "\<dots> \<le> 10000000 + 1 / 100" by simp
  finally have hi: "1000000 / f \<le> 10000000 + 1 / 100" .
  have lo: "1000 \<le> 1000000 / f" using assms(2) f(1) by (simp add: pos_le_divide_eq)
  have close: "\<bar>nearest (1000000 / f) - 1000000 / f\<bar> \<le> 1 / 100"
  proof -
    have "\<bar>1000000 / f\<bar> \<le> 10000001" using lo hi by linarith
    moreover have "(10000001 + 1) / 2 ^ 53 \<le> (1 / 100 :: rat)" by simp
    ultimately show ?thesis using nearest_close [of "1000000 / f" 10000001] by linarith
  qed
  have "(10000001 :: rat) \<le> 2 ^ 24" by simp
  also have "(2 :: rat) ^ 24 \<le> 2 ^ 1023" by (rule power_increasing) simp_all
  finally have "\<bar>1000000 / f\<bar> \<le> 2 ^ 1023" using lo hi by linarith
  then have r: "d_div (Fin 1000000) (Fin f) = Fin (nearest (1000000 / f))" using f(1) by (simp add: round64_small)
  have "1000 \<le> away (nearest (1000000 / f))"
    using nearest_mono [OF lo] nearest_of_nat [of 1000] away_mono [of 1000] away_unique [of 1000 1000] by force
  moreover have "nearest (1000000 / f) \<le> 10000000 + 1 / 10" using close hi by linarith
  then have "away (nearest (1000000 / f)) \<le> 10000000"
    using away_mono [of "nearest (1000000 / f)" "10000000 + 1 / 10"] away_unique [of "10000000 + 1 / 10" 10000000] by simp
  ultimately show ?thesis using r by simp
qed

section \<open>Properties\<close>

text \<open>
  A frequency is refused with an exception when it is negative or not a number, and otherwise gives a period:
  zero for a frequency of zero, else between one millisecond and ten seconds whatever was asked,
  infinity included, and never a shorter one for a lower frequency.
\<close>

theorem exchange_period_in_range:
  assumes "d_le hz hz'"
  shows "\<exists>r r'. exchangePeriodFromFrequency hz = Some r \<and> exchangePeriodFromFrequency hz' = Some r' \<and>
    (isl r \<longleftrightarrow> d_less hz (Fin 0)) \<and> (hz = Fin 0 \<longrightarrow> r = Inr 0) \<and>
    (d_less (Fin 0) hz \<longrightarrow> (\<exists>p p'. r = Inr p \<and> r' = Inr p' \<and> 1000 \<le> p' \<and> p' \<le> p \<and> p \<le> 10000000)) \<and>
    isl (the (exchangePeriodFromFrequency (NaN s)))"
proof -
  obtain m where m: "kMinFrequency = Fin m" "1 / 20 \<le> m" "1 / 10 - 2 / 2 ^ 53 \<le> m" "m \<le> 1"
    by (rule kMinFrequency_obtain)
  have positive: "exchangePeriodFromFrequency h = Some (Inr (away (nearest (1000000 / folded m h)))) \<and>
      1000 \<le> away (nearest (1000000 / folded m h)) \<and> away (nearest (1000000 / folded m h)) \<le> 10000000"
    if "d_less (Fin 0) h" for h
  proof -
    have "folded m h \<noteq> 0" using folded_range [OF m(4), of h] m(2) by auto
    then show ?thesis
      using period_of_supported [of "folded m h"] folded_range [OF m(4), of h] m(3) clampFrequency_positive [OF that m(1,2,4)]
      by (simp add: exchangePeriodFromFrequency_def d_eq_def del: d_div.simps lround.simps)
  qed
  have other: "exchangePeriodFromFrequency h = Some (if h = Fin 0 then Inr 0 else
      Inl (driver_exception (''exchange frequency must be a non-negative number of hertz; got '' @ double_to_string h)))"
    if "\<not> d_less (Fin 0) h" for h
    using that by (cases h) (auto simp: exchangePeriodFromFrequency_def clampFrequency_def d_eq_def)
  have nan: "isl (the (exchangePeriodFromFrequency (NaN s)))" by (simp add: other)
  show ?thesis
  proof (cases "d_less (Fin 0) hz")
    case True
    then have up: "d_less (Fin 0) hz'" "\<not> d_less hz (Fin 0)" "hz \<noteq> Fin 0"
      using assms by (cases hz; cases hz'; auto simp: d_le_def d_eq_def)+
    have "1000000 / folded m hz' \<le> 1000000 / folded m hz"
      using folded_mono [OF assms True m(4)] folded_range [OF m(4), of hz] m(2) by (intro divide_left_mono mult_pos_pos) auto
    then have "away (nearest (1000000 / folded m hz')) \<le> away (nearest (1000000 / folded m hz))"
      by (intro away_mono nearest_mono)
    then show ?thesis using positive [OF True] positive [OF up(1)] up nan by auto
  next
    case False
    have less: "d_less hz (Fin 0) \<longleftrightarrow> hz \<noteq> Fin 0" using assms False by (cases hz) (auto simp: d_le_def d_eq_def)
    show ?thesis
      using False less other [OF False] positive [of hz'] other [of hz'] nan by (cases "d_less (Fin 0) hz'") auto
  qed
qed

theorem exchange_period_in_range_witness:
  "\<exists>p p'. exchangePeriodFromFrequency (Fin 100) = Some (Inr p) \<and>
     exchangePeriodFromFrequency (Infinity False) = Some (Inr p') \<and> 1000 \<le> p' \<and> p' \<le> p \<and> p \<le> 10000000"
  using exchange_period_in_range [of "Fin 100" "Infinity False" False] by (auto simp: d_le_def)

end
