(* ===== verification/GripperBlocks.thy ===== *)
theory GripperBlocks
  imports Prelude
begin

text \<open>
  The gripper's two register blocks, from \<open>grippers/sdk_cpp/include/Robotiq\<close>: the bit layout
  (\<open>detail/register_map.hpp\<close>), the named-bit byte (\<open>detail/named_bit_array.hpp\<close>), the command
  and status blocks (\<open>gripper/command.hpp\<close>, \<open>gripper/status.hpp\<close>, \<open>gripper/fault_status.hpp\<close>),
  the packing of blocks into registers (\<open>detail/byte_packing.hpp\<close>) and the writers a simulated
  device uses (\<open>src/fake/status_writer.cpp\<close>). A reader and a writer of the same packed field obey
  the laws of the locale \<open>packed_field\<close>.
\<close>

unbundle bit_operations_syntax

section \<open>Register map\<close>

definition kCommandBlockBytes :: nat where "kCommandBlockBytes = 16"
definition kStatusBlockBytes :: nat where "kStatusBlockBytes = 16"
definition kCommandDocumentedBytes :: nat where "kCommandDocumentedBytes = 6"
definition kStatusDocumentedBytes :: nat where "kStatusDocumentedBytes = 6"

definition kActivationStatusMask :: u8 where "kActivationStatusMask = 0x01"
definition kGoToEchoMask :: u8 where "kGoToEchoMask = 0x08"
definition kActivationStateMask :: u8 where "kActivationStateMask = 0x30"
definition kObjectDetectionMask :: u8 where "kObjectDetectionMask = 0xC0"
definition kActivationStateShift :: nat where "kActivationStateShift = 4"
definition kObjectDetectionShift :: nat where "kObjectDetectionShift = 6"

definition kGripperFaultMask :: u8 where "kGripperFaultMask = 0x0F"
definition kControllerFaultMask :: u8 where "kControllerFaultMask = 0xF0"
definition kControllerFaultShift :: nat where "kControllerFaultShift = 4"

lemmas block_sizes = kCommandBlockBytes_def kStatusBlockBytes_def kCommandDocumentedBytes_def
  kStatusDocumentedBytes_def

lemmas register_map = kActivationStatusMask_def kGoToEchoMask_def kActivationStateMask_def
  kObjectDetectionMask_def kActivationStateShift_def kObjectDetectionShift_def
  kGripperFaultMask_def kControllerFaultMask_def kControllerFaultShift_def

section \<open>Named bits\<close>

text \<open>\<open>NamedBitArray\<close> over an enum whose enumerators are bit indices; \<open>ActionRequestBit\<close> is the one in use.\<close>

datatype ActionRequestBit = Activate | GoTo | AutoRelease | AutoReleaseOpenDirection

fun bit_index :: "ActionRequestBit \<Rightarrow> nat" where
  "bit_index Activate = 0"
| "bit_index GoTo = 3"
| "bit_index AutoRelease = 4"
| "bit_index AutoReleaseOpenDirection = 5"

definition nb_mask :: "ActionRequestBit \<Rightarrow> u8" where
  "nb_mask b = ucast (push_bit (bit_index b) (1 :: u32))"

definition nb_get :: "u8 \<Rightarrow> ActionRequestBit \<Rightarrow> bool" where
  "nb_get v b \<longleftrightarrow> v AND nb_mask b \<noteq> 0"

definition nb_set :: "ActionRequestBit \<Rightarrow> u8 \<Rightarrow> u8" where
  "nb_set b v = v OR nb_mask b"

definition nb_unset :: "ActionRequestBit \<Rightarrow> u8 \<Rightarrow> u8" where
  "nb_unset b v = v AND NOT (nb_mask b)"

definition nb_put :: "ActionRequestBit \<Rightarrow> bool \<Rightarrow> u8 \<Rightarrow> u8" where
  "nb_put b on v = (if on then nb_set b v else nb_unset b v)"

section \<open>The command block\<close>

record gripper_command =
  action :: u8
  c_reserved1 :: u8
  c_reserved2 :: u8
  positionRequest :: u8
  speed :: u8
  force :: u8
  c_reservedTail :: "u8 list"

definition zero_command :: gripper_command where
  "zero_command = \<lparr>action = 0, c_reserved1 = 0, c_reserved2 = 0, positionRequest = 0, speed = 0,
     force = 0, c_reservedTail = replicate (kCommandBlockBytes - kCommandDocumentedBytes) 0\<rparr>"

definition defaults :: gripper_command where
  "defaults = zero_command\<lparr>action := nb_set Activate 0, speed := 0xFF, force := 0xFF\<rparr>"

text \<open>\<open>data()\<close> is the struct itself as sixteen bytes; \<open>command_of\<close> is the struct over given bytes.\<close>

definition command_data :: "gripper_command \<Rightarrow> u8 list" where
  "command_data c = action c # c_reserved1 c # c_reserved2 c # positionRequest c # speed c # force c #
     c_reservedTail c"

definition command_of :: "u8 list \<Rightarrow> gripper_command" where
  "command_of bs = \<lparr>action = bs ! 0, c_reserved1 = bs ! 1, c_reserved2 = bs ! 2,
     positionRequest = bs ! 3, speed = bs ! 4, force = bs ! 5, c_reservedTail = drop 6 bs\<rparr>"

definition wf_command :: "gripper_command \<Rightarrow> bool" where
  "wf_command c \<longleftrightarrow> length (command_data c) = kCommandBlockBytes"

text \<open>\<open>operator==\<close> is \<open>memcmp\<close> over the block.\<close>

definition command_eq :: "gripper_command \<Rightarrow> gripper_command \<Rightarrow> bool" where
  "command_eq a b \<longleftrightarrow> take kCommandBlockBytes (command_data a) = take kCommandBlockBytes (command_data b)"

section \<open>Faults\<close>

text \<open>An enum over a byte can hold a value without a name; that is the last constructor.\<close>

datatype GripperFault = GF_None | BrakeProblem | BlockedAtStart | ActionDelayed | ActivationRequired |
  OverTemperature | NoCommunication | UnderVoltage | AutomaticReleaseInProgress | InternalFault |
  ActivationFault | GF_Overcurrent | AutomaticReleaseComplete | GF_Unnamed u8

definition gripper_fault_codes :: "(u8 \<times> GripperFault) list" where
  "gripper_fault_codes = [(0x00, GF_None), (0x03, BrakeProblem), (0x04, BlockedAtStart),
     (0x05, ActionDelayed), (0x07, ActivationRequired), (0x08, OverTemperature),
     (0x09, NoCommunication), (0x0A, UnderVoltage), (0x0B, AutomaticReleaseInProgress),
     (0x0C, InternalFault), (0x0D, ActivationFault), (0x0E, GF_Overcurrent),
     (0x0F, AutomaticReleaseComplete)]"

definition gripper_fault_of :: "u8 \<Rightarrow> GripperFault" where
  "gripper_fault_of v =
     (case map_of gripper_fault_codes v of Some f \<Rightarrow> f | None \<Rightarrow> GF_Unnamed v)"

datatype ControllerFault = CF_None | Supply24VNotDetected | NoDeviceDetected |
  CommunicationNotReady | EmergencyStop | CF_Overcurrent | CF_Unnamed u8

definition controller_fault_codes :: "(u8 \<times> ControllerFault) list" where
  "controller_fault_codes = [(0x00, CF_None), (0x04, Supply24VNotDetected), (0x05, NoDeviceDetected),
     (0x09, CommunicationNotReady), (0x0C, EmergencyStop), (0x0E, CF_Overcurrent)]"

definition controller_fault_of :: "u8 \<Rightarrow> ControllerFault" where
  "controller_fault_of v =
     (case map_of controller_fault_codes v of Some f \<Rightarrow> f | None \<Rightarrow> CF_Unnamed v)"

datatype FaultSeverity = NoSeverity | Warning | Minor | Major

fun severity :: "GripperFault \<Rightarrow> FaultSeverity" where
  "severity GF_None = NoSeverity"
| "severity BlockedAtStart = Warning"
| "severity ActionDelayed = Warning"
| "severity ActivationRequired = Warning"
| "severity OverTemperature = Minor"
| "severity NoCommunication = Minor"
| "severity BrakeProblem = Major"
| "severity UnderVoltage = Major"
| "severity AutomaticReleaseInProgress = Major"
| "severity InternalFault = Major"
| "severity ActivationFault = Major"
| "severity GF_Overcurrent = Major"
| "severity AutomaticReleaseComplete = Major"
| "severity (GF_Unnamed v) = Major"

fun controller_severity :: "ControllerFault \<Rightarrow> FaultSeverity" where
  "controller_severity CF_None = NoSeverity"
| "controller_severity Supply24VNotDetected = Warning"
| "controller_severity NoDeviceDetected = Warning"
| "controller_severity CommunicationNotReady = Minor"
| "controller_severity EmergencyStop = Major"
| "controller_severity CF_Overcurrent = Major"
| "controller_severity (CF_Unnamed v) = Major"

text \<open>\<open>FaultStatus\<close> is its byte.\<close>

definition gripperFault :: "u8 \<Rightarrow> GripperFault" where
  "gripperFault bits = gripper_fault_of (bits AND kGripperFaultMask)"

definition controllerFault :: "u8 \<Rightarrow> ControllerFault" where
  "controllerFault bits = controller_fault_of (drop_bit kControllerFaultShift (bits AND kControllerFaultMask))"

section \<open>The status block\<close>

datatype ActivationState = AS_Reset | InProgress | AS_Reserved | Complete
datatype ObjectDetection = Moving | DetectedWhileOpening | DetectedWhileClosing | AtRequestedPosition

text \<open>The two enums name all values of their two-bit fields.\<close>

fun activation_code :: "ActivationState \<Rightarrow> u8" where
  "activation_code AS_Reset = 0x00"
| "activation_code InProgress = 0x01"
| "activation_code AS_Reserved = 0x02"
| "activation_code Complete = 0x03"

fun object_code :: "ObjectDetection \<Rightarrow> u8" where
  "object_code Moving = 0x00"
| "object_code DetectedWhileOpening = 0x01"
| "object_code DetectedWhileClosing = 0x02"
| "object_code AtRequestedPosition = 0x03"

definition activation_of :: "u8 \<Rightarrow> ActivationState" where
  "activation_of v = (if v = 0 then AS_Reset else if v = 1 then InProgress else if v = 2 then AS_Reserved else Complete)"

definition object_of :: "u8 \<Rightarrow> ObjectDetection" where
  "object_of v = (if v = 0 then Moving else if v = 1 then DetectedWhileOpening
     else if v = 2 then DetectedWhileClosing else AtRequestedPosition)"

definition activated :: "u8 \<Rightarrow> bool" where
  "activated bits \<longleftrightarrow> bits AND kActivationStatusMask \<noteq> 0"

definition goToEnabled :: "u8 \<Rightarrow> bool" where
  "goToEnabled bits \<longleftrightarrow> bits AND kGoToEchoMask \<noteq> 0"

definition activationState :: "u8 \<Rightarrow> ActivationState" where
  "activationState bits = activation_of (drop_bit kActivationStateShift (bits AND kActivationStateMask))"

definition objectDetection :: "u8 \<Rightarrow> ObjectDetection" where
  "objectDetection bits = object_of (drop_bit kObjectDetectionShift (bits AND kObjectDetectionMask))"

record gripper_status =
  gripperStatus :: u8
  s_reserved1 :: u8
  faultStatus :: u8
  positionRequestEcho :: u8
  position :: u8
  current :: u8
  s_reservedTail :: "u8 list"

definition zero_status :: gripper_status where
  "zero_status = \<lparr>gripperStatus = 0, s_reserved1 = 0, faultStatus = 0, positionRequestEcho = 0,
     position = 0, current = 0, s_reservedTail = replicate (kStatusBlockBytes - kStatusDocumentedBytes) 0\<rparr>"

definition status_data :: "gripper_status \<Rightarrow> u8 list" where
  "status_data s = gripperStatus s # s_reserved1 s # faultStatus s # positionRequestEcho s #
     position s # current s # s_reservedTail s"

definition status_of :: "u8 list \<Rightarrow> gripper_status" where
  "status_of bs = \<lparr>gripperStatus = bs ! 0, s_reserved1 = bs ! 1, faultStatus = bs ! 2,
     positionRequestEcho = bs ! 3, position = bs ! 4, current = bs ! 5, s_reservedTail = drop 6 bs\<rparr>"

definition wf_status :: "gripper_status \<Rightarrow> bool" where
  "wf_status s \<longleftrightarrow> length (status_data s) = kStatusBlockBytes"

definition status_eq :: "gripper_status \<Rightarrow> gripper_status \<Rightarrow> bool" where
  "status_eq a b \<longleftrightarrow> take kStatusBlockBytes (status_data a) = take kStatusBlockBytes (status_data b)"

section \<open>Packing blocks into registers\<close>

definition registersFromBytes :: "nat \<Rightarrow> u8 list \<Rightarrow> u16 list" where
  "registersFromBytes n block =
     map (\<lambda>i. push_bit 8 (ucast (block ! (2 * i))) OR ucast (block ! (2 * i + 1))) [0..<n]"

definition bytesFromRegisters :: "u16 list \<Rightarrow> u8 list \<Rightarrow> u8 list" where
  "bytesFromRegisters registers block =
     fold (\<lambda>i b. b[2 * i := ucast (drop_bit 8 (registers ! i)), 2 * i + 1 := ucast (registers ! i AND 0xFF)])
       [0..<length registers] block"

section \<open>Writers of packed status fields\<close>

definition withField :: "u8 \<Rightarrow> u8 \<Rightarrow> u8 \<Rightarrow> u8" where
  "withField bits msk v = (bits AND NOT msk) OR (v AND msk)"

definition withFlag :: "u8 \<Rightarrow> u8 \<Rightarrow> bool \<Rightarrow> u8" where
  "withFlag bits msk on = (if on then bits OR msk else bits AND NOT msk)"

definition setActivated :: "bool \<Rightarrow> gripper_status \<Rightarrow> gripper_status" where
  "setActivated on s = s\<lparr>gripperStatus := withFlag (gripperStatus s) kActivationStatusMask on\<rparr>"

definition setGoToEnabled :: "bool \<Rightarrow> gripper_status \<Rightarrow> gripper_status" where
  "setGoToEnabled on s = s\<lparr>gripperStatus := withFlag (gripperStatus s) kGoToEchoMask on\<rparr>"

definition setActivationState :: "ActivationState \<Rightarrow> gripper_status \<Rightarrow> gripper_status" where
  "setActivationState st s = s\<lparr>gripperStatus :=
     withField (gripperStatus s) kActivationStateMask (push_bit kActivationStateShift (activation_code st))\<rparr>"

definition setObjectDetection :: "ObjectDetection \<Rightarrow> gripper_status \<Rightarrow> gripper_status" where
  "setObjectDetection od s = s\<lparr>gripperStatus :=
     withField (gripperStatus s) kObjectDetectionMask (push_bit kObjectDetectionShift (object_code od))\<rparr>"

fun gripper_fault_code :: "GripperFault \<Rightarrow> u8" where
  "gripper_fault_code GF_None = 0x00"
| "gripper_fault_code BrakeProblem = 0x03"
| "gripper_fault_code BlockedAtStart = 0x04"
| "gripper_fault_code ActionDelayed = 0x05"
| "gripper_fault_code ActivationRequired = 0x07"
| "gripper_fault_code OverTemperature = 0x08"
| "gripper_fault_code NoCommunication = 0x09"
| "gripper_fault_code UnderVoltage = 0x0A"
| "gripper_fault_code AutomaticReleaseInProgress = 0x0B"
| "gripper_fault_code InternalFault = 0x0C"
| "gripper_fault_code ActivationFault = 0x0D"
| "gripper_fault_code GF_Overcurrent = 0x0E"
| "gripper_fault_code AutomaticReleaseComplete = 0x0F"
| "gripper_fault_code (GF_Unnamed v) = v"

definition setGripperFault :: "GripperFault \<Rightarrow> gripper_status \<Rightarrow> gripper_status" where
  "setGripperFault f s = s\<lparr>faultStatus := withField (faultStatus s) kGripperFaultMask (gripper_fault_code f)\<rparr>"

definition setStatusFlagsByte :: "u8 \<Rightarrow> gripper_status \<Rightarrow> gripper_status" where
  "setStatusFlagsByte b s = s\<lparr>gripperStatus := b\<rparr>"

definition setFaultStatusByte :: "u8 \<Rightarrow> gripper_status \<Rightarrow> gripper_status" where
  "setFaultStatusByte b s = s\<lparr>faultStatus := b\<rparr>"

section \<open>Packed fields\<close>

text \<open>
  The contract of a field packed with others: what is written is read back, a field written twice
  has the second value, and writing back what was read changes nothing. \<open>fits\<close> is the set of
  values the field has room for.
\<close>

locale packed_field =
  fixes get :: "'s \<Rightarrow> 'v"
    and put :: "'v \<Rightarrow> 's \<Rightarrow> 's"
    and fits :: "'v \<Rightarrow> bool"
  assumes get_put: "fits v \<Longrightarrow> get (put v s) = v"
    and put_put: "put w (put v s) = put w s"
    and put_get: "put (get s) s = s"
begin

lemma put_same: "get s = v \<Longrightarrow> put v s = s"
  using put_get by blast

lemma get_put_put: "fits v \<Longrightarrow> get (put v (put w s)) = v"
  by (simp add: get_put)

end

text \<open>Two fields that do not overlap: writing one leaves the other.\<close>

locale disjoint_fields =
  f: packed_field get put fits + g: packed_field get' put' fits'
  for get :: "'s \<Rightarrow> 'v" and put :: "'v \<Rightarrow> 's \<Rightarrow> 's" and fits :: "'v \<Rightarrow> bool"
    and get' :: "'s \<Rightarrow> 'w" and put' :: "'w \<Rightarrow> 's \<Rightarrow> 's" and fits' :: "'w \<Rightarrow> bool" +
  assumes get_put': "get (put' w s) = get s"
    and get'_put: "get' (put v s) = get' s"
begin

lemma both_read_back:
  "fits v \<Longrightarrow> fits' w \<Longrightarrow> get (put v (put' w s)) = v \<and> get' (put v (put' w s)) = w"
  by (simp add: f.get_put g.get_put get'_put)

end

lemma withField_and: "withField b m v AND m = v AND m"
  by (rule bit_word_eqI) (auto simp: withField_def bit_simps)

lemma withField_other: "m AND m' = 0 \<Longrightarrow> withField b m v AND m' = b AND m'"
proof (rule bit_word_eqI)
  fix n assume z: "m AND m' = 0"
  have "\<not> (bit m n \<and> bit m' n)" by (metis bit_0_eq bit_and_iff bot_apply bot_bool_def z)
  then show "n < LENGTH(8) \<Longrightarrow> bit (withField b m v AND m') n = bit (b AND m') n"
    by (auto simp: withField_def bit_simps)
qed

lemma withField_withField: "withField (withField b m v) m w = withField b m w"
  by (rule bit_word_eqI) (auto simp: withField_def bit_simps)

lemma withField_get: "v AND m = b AND m \<Longrightarrow> withField b m v = b"
proof (rule bit_word_eqI)
  fix n assume e: "v AND m = b AND m"
  have "bit v n \<and> bit m n \<longleftrightarrow> bit b n \<and> bit m n" by (metis bit_and_iff e)
  then show "n < LENGTH(8) \<Longrightarrow> bit (withField b m v) n = bit b n"
    by (auto simp: withField_def bit_simps)
qed

lemma withFlag_eq_withField: "withFlag b m on = withField b m (if on then m else 0)"
  by (rule bit_word_eqI) (auto simp: withFlag_def withField_def bit_simps)

lemma flag_get: "(b :: u8) AND 2 ^ n \<noteq> 0 \<longleftrightarrow> bit b n"
  using and_exp_eq_0_iff_not_bit [of b n] by simp

lemma flag_back: "(if (b :: u8) AND 2 ^ n \<noteq> 0 then 2 ^ n else 0) AND 2 ^ n = b AND 2 ^ n"
  by (rule bit_word_eqI) (auto simp: flag_get bit_simps)

lemma activation_of_code [simp]: "activation_of (activation_code st) = st"
  by (cases st) (simp_all add: activation_of_def)

lemma object_of_code [simp]: "object_of (object_code st) = st"
  by (cases st) (simp_all add: object_of_def)

lemma two_bits: "x AND 3 = x \<Longrightarrow> x = 0 \<or> x = 1 \<or> x = 2 \<or> x = (3 :: u8)"
proof -
  assume "x AND 3 = x"
  then have "x = take_bit 2 x" by (simp add: take_bit_eq_mask mask_eq_exp_minus_1)
  then have "unat x < 4" by (metis unsigned_take_bit_eq take_bit_nat_less_exp numeral_Bit0
        power2_eq_square numeral_times_numeral semiring_norm(13) semiring_norm(12) semiring_norm(11))
  then have "unat x = 0 \<or> unat x = 1 \<or> unat x = 2 \<or> unat x = 3" by auto
  then show ?thesis by (simp add: word_unat_eq_iff)
qed

lemma activation_field: "push_bit 4 (activation_code (activationState b)) = b AND kActivationStateMask"
proof -
  let ?x = "drop_bit 4 (b AND 0x30)"
  have "?x AND 3 = ?x" by (simp add: drop_bit_and and.assoc)
  then have "activation_code (activation_of ?x) = ?x" using two_bits [of ?x] by (auto simp: activation_of_def)
  moreover have "push_bit 4 ?x = b AND 0x30"
    using bits_ident [of 4 "b AND 0x30"] by (simp add: take_bit_and)
  ultimately show ?thesis by (simp add: activationState_def register_map)
qed

lemma object_field: "push_bit 6 (object_code (objectDetection b)) = b AND kObjectDetectionMask"
proof -
  let ?x = "drop_bit 6 (b AND 0xC0)"
  have "?x AND 3 = ?x" by (simp add: drop_bit_and and.assoc)
  then have "object_code (object_of ?x) = ?x" using two_bits [of ?x] by (auto simp: object_of_def)
  moreover have "push_bit 6 ?x = b AND 0xC0"
    using bits_ident [of 6 "b AND 0xC0"] by (simp add: take_bit_and)
  ultimately show ?thesis by (simp add: objectDetection_def register_map)
qed

interpretation activated_field: packed_field "\<lambda>s. activated (gripperStatus s)" setActivated "\<lambda>_. True"
proof unfold_locales
  fix v w and s :: gripper_status
  show "activated (gripperStatus (setActivated v s)) = v"
    by (simp add: activated_def setActivated_def withFlag_eq_withField withField_and kActivationStatusMask_def)
  show "setActivated w (setActivated v s) = setActivated w s"
    by (simp add: setActivated_def withFlag_eq_withField withField_withField)
  show "setActivated (activated (gripperStatus s)) s = s"
    using withField_get [OF flag_back [of "gripperStatus s" 0]]
    by (auto simp: setActivated_def withFlag_eq_withField activated_def kActivationStatusMask_def split: if_splits)
qed

interpretation goto_field: packed_field "\<lambda>s. goToEnabled (gripperStatus s)" setGoToEnabled "\<lambda>_. True"
proof unfold_locales
  fix v w and s :: gripper_status
  show "goToEnabled (gripperStatus (setGoToEnabled v s)) = v"
    by (simp add: goToEnabled_def setGoToEnabled_def withFlag_eq_withField withField_and kGoToEchoMask_def)
  show "setGoToEnabled w (setGoToEnabled v s) = setGoToEnabled w s"
    by (simp add: setGoToEnabled_def withFlag_eq_withField withField_withField)
  show "setGoToEnabled (goToEnabled (gripperStatus s)) s = s"
    using withField_get [OF flag_back [of "gripperStatus s" 3]]
    by (auto simp: setGoToEnabled_def withFlag_eq_withField goToEnabled_def kGoToEchoMask_def split: if_splits)
qed

interpretation state_field: packed_field "\<lambda>s. activationState (gripperStatus s)" setActivationState "\<lambda>_. True"
proof unfold_locales
  fix v w and s :: gripper_status
  have "drop_bit 4 (push_bit 4 (activation_code v) AND 0x30) = activation_code v" by (cases v) simp_all
  then show "activationState (gripperStatus (setActivationState v s)) = v"
    by (simp add: activationState_def setActivationState_def withField_and register_map)
  show "setActivationState w (setActivationState v s) = setActivationState w s"
    by (simp add: setActivationState_def withField_withField)
  show "setActivationState (activationState (gripperStatus s)) s = s"
    using activation_field [of "gripperStatus s"]
    by (simp add: setActivationState_def withField_get kActivationStateShift_def and.assoc)
qed

interpretation object_field: packed_field "\<lambda>s. objectDetection (gripperStatus s)" setObjectDetection "\<lambda>_. True"
proof unfold_locales
  fix v w and s :: gripper_status
  have "drop_bit 6 (push_bit 6 (object_code v) AND 0xC0) = object_code v" by (cases v) simp_all
  then show "objectDetection (gripperStatus (setObjectDetection v s)) = v"
    by (simp add: objectDetection_def setObjectDetection_def withField_and register_map)
  show "setObjectDetection w (setObjectDetection v s) = setObjectDetection w s"
    by (simp add: setObjectDetection_def withField_withField)
  show "setObjectDetection (objectDetection (gripperStatus s)) s = s"
    using object_field [of "gripperStatus s"]
    by (simp add: setObjectDetection_def withField_get kObjectDetectionShift_def and.assoc)
qed

lemma gripper_fault_code_of [simp]: "gripper_fault_code (gripper_fault_of v) = v"
  by (auto simp: gripper_fault_of_def gripper_fault_codes_def)

fun named_fault :: "GripperFault \<Rightarrow> bool" where
  "named_fault (GF_Unnamed v) = False"
| "named_fault f = True"

interpretation fault_field: packed_field "\<lambda>s. gripperFault (faultStatus s)" setGripperFault named_fault
proof unfold_locales
  fix v w and s :: gripper_status
  show "named_fault v \<Longrightarrow> gripperFault (faultStatus (setGripperFault v s)) = v"
    by (cases v) (simp_all add: gripperFault_def setGripperFault_def withField_and kGripperFaultMask_def
        gripper_fault_of_def gripper_fault_codes_def)
  show "setGripperFault w (setGripperFault v s) = setGripperFault w s"
    by (simp add: setGripperFault_def withField_withField)
  show "setGripperFault (gripperFault (faultStatus s)) s = s"
    by (simp add: setGripperFault_def gripperFault_def withField_get and.assoc)
qed

lemma nb_mask_exp: "nb_mask b = 2 ^ bit_index b"
  by (cases b) (simp_all add: nb_mask_def)

lemma nb_get_bit: "nb_get v b \<longleftrightarrow> bit v (bit_index b)"
  by (simp add: nb_get_def nb_mask_exp and_exp_eq_0_iff_not_bit)

lemma nb_put_withField: "nb_put b on v = withField v (nb_mask b) (if on then nb_mask b else 0)"
  by (rule bit_word_eqI) (auto simp: nb_put_def nb_set_def nb_unset_def withField_def bit_simps)

interpretation bit_field: packed_field "\<lambda>v. nb_get v b" "nb_put b" "\<lambda>_. True" for b
proof unfold_locales
  fix on w and v :: u8
  show "nb_get (nb_put b on v) b = on"
    by (cases b; cases on) (simp_all add: nb_put_withField nb_get_def withField_and nb_mask_exp)
  show "nb_put b w (nb_put b on v) = nb_put b w v"
    by (simp add: nb_put_withField withField_withField)
  show "nb_put b (nb_get v b) v = v"
    using withField_get [OF flag_back [of v "bit_index b"]]
    by (auto simp: nb_put_withField nb_get_def nb_mask_exp split: if_splits)
qed

text \<open>The four fields of the GRIPPER STATUS byte do not overlap.\<close>

lemma status_field_disjoint:
  "activated (gripperStatus (setActivationState st s)) = activated (gripperStatus s)"
  "activated (gripperStatus (setGoToEnabled g s)) = activated (gripperStatus s)"
  "activated (gripperStatus (setObjectDetection od s)) = activated (gripperStatus s)"
  "goToEnabled (gripperStatus (setActivated a s)) = goToEnabled (gripperStatus s)"
  "goToEnabled (gripperStatus (setActivationState st s)) = goToEnabled (gripperStatus s)"
  "goToEnabled (gripperStatus (setObjectDetection od s)) = goToEnabled (gripperStatus s)"
  "activationState (gripperStatus (setActivated a s)) = activationState (gripperStatus s)"
  "activationState (gripperStatus (setGoToEnabled g s)) = activationState (gripperStatus s)"
  "activationState (gripperStatus (setObjectDetection od s)) = activationState (gripperStatus s)"
  "objectDetection (gripperStatus (setActivated a s)) = objectDetection (gripperStatus s)"
  "objectDetection (gripperStatus (setGoToEnabled g s)) = objectDetection (gripperStatus s)"
  "objectDetection (gripperStatus (setActivationState st s)) = objectDetection (gripperStatus s)"
  by (simp_all add: activated_def goToEnabled_def activationState_def objectDetection_def
      setActivated_def setGoToEnabled_def setActivationState_def setObjectDetection_def
      withFlag_eq_withField withField_other register_map)

interpretation state_and_object: disjoint_fields
  "\<lambda>s. activationState (gripperStatus s)" setActivationState "\<lambda>_. True"
  "\<lambda>s. objectDetection (gripperStatus s)" setObjectDetection "\<lambda>_. True"
  by unfold_locales (simp_all add: status_field_disjoint)

interpretation activated_and_goto: disjoint_fields
  "\<lambda>s. activated (gripperStatus s)" setActivated "\<lambda>_. True"
  "\<lambda>s. goToEnabled (gripperStatus s)" setGoToEnabled "\<lambda>_. True"
  by unfold_locales (simp_all add: status_field_disjoint)

lemmas status_writers [layout] = status_field_disjoint activated_field.get_put goto_field.get_put
  state_field.get_put object_field.get_put

lemma setters_keep [simp, layout]:
  "faultStatus (setActivated a s) = faultStatus s" "faultStatus (setGoToEnabled g s) = faultStatus s"
  "faultStatus (setActivationState st s) = faultStatus s" "faultStatus (setObjectDetection od s) = faultStatus s"
  "faultStatus (setFaultStatusByte b s) = b" "gripperStatus (setFaultStatusByte b s) = gripperStatus s"
  "gripperStatus (setStatusFlagsByte b s) = b" "gripperStatus (setGripperFault f s) = gripperStatus s"
  by (simp_all add: setActivated_def setGoToEnabled_def setActivationState_def setObjectDetection_def
      setFaultStatusByte_def setStatusFlagsByte_def setGripperFault_def)

lemma setters_wf [simp]:
  "wf_status (setActivated a s) = wf_status s" "wf_status (setGoToEnabled g s) = wf_status s"
  "wf_status (setActivationState st s) = wf_status s" "wf_status (setObjectDetection od s) = wf_status s"
  "wf_status (setFaultStatusByte b s) = wf_status s"
  by (simp_all add: wf_status_def status_data_def setActivated_def setGoToEnabled_def
      setActivationState_def setObjectDetection_def setFaultStatusByte_def)

section \<open>Blocks, bytes and registers\<close>

lemma drop_six: "6 \<le> length bs \<Longrightarrow> bs = bs ! 0 # bs ! 1 # bs ! 2 # bs ! 3 # bs ! 4 # bs ! 5 # drop 6 bs"
proof -
  assume "6 \<le> length bs"
  then obtain a b c d e f xs where "bs = a # b # c # d # e # f # xs"
    by (auto simp: Suc_le_length_iff numeral_eq_Suc)
  then show ?thesis by (simp add: numeral_eq_Suc)
qed

lemma command_of_data [simp]: "command_of (command_data c) = c"
  by (simp add: command_of_def command_data_def numeral_eq_Suc)

lemma command_data_of [simp]: "6 \<le> length bs \<Longrightarrow> command_data (command_of bs) = bs"
  using drop_six [of bs] by (simp add: command_of_def command_data_def)

lemma status_of_data [simp]: "status_of (status_data s) = s"
  by (simp add: status_of_def status_data_def numeral_eq_Suc)

lemma status_data_of [simp]: "6 \<le> length bs \<Longrightarrow> status_data (status_of bs) = bs"
  using drop_six [of bs] by (simp add: status_of_def status_data_def)

lemma command_eq_iff: "wf_command a \<Longrightarrow> wf_command b \<Longrightarrow> command_eq a b \<longleftrightarrow> a = b"
  by (simp add: command_eq_def wf_command_def) (metis command_of_data)

lemma status_eq_iff: "wf_status a \<Longrightarrow> wf_status b \<Longrightarrow> status_eq a b \<longleftrightarrow> a = b"
  by (simp add: status_eq_def wf_status_def) (metis status_of_data)

lemma length_bytesFromRegisters_fold:
  "length (fold (\<lambda>i b. b[2 * i := f i, Suc (2 * i) := g i]) is b) = length b"
  by (induction "is" arbitrary: b) auto

lemma length_bytesFromRegisters [simp]: "length (bytesFromRegisters rs b) = length b"
  by (simp add: bytesFromRegisters_def length_bytesFromRegisters_fold)

lemma length_registersFromBytes [simp]: "length (registersFromBytes n b) = n"
  by (simp add: registersFromBytes_def)

lemma bytes_fold_nth:
  "2 * n \<le> length b \<Longrightarrow> k < length b \<Longrightarrow>
    fold (\<lambda>i b. b[2 * i := f i, 2 * i + 1 := g i]) [0..<n] b ! k =
    (if k < 2 * n then (if even k then f (k div 2) else g (k div 2)) else b ! k)"
proof (induction n)
  case (Suc n)
  have "k < 2 * Suc n \<longleftrightarrow> k < 2 * n \<or> k = 2 * n \<or> k = 2 * n + 1" by auto
  with Suc show ?case
    by (auto simp: nth_list_update length_bytesFromRegisters_fold)
qed simp

lemma bytesFromRegisters_nth:
  "2 * length rs \<le> length b \<Longrightarrow> k < length b \<Longrightarrow> bytesFromRegisters rs b ! k =
    (if k < 2 * length rs then (if even k then high8 (rs ! (k div 2)) else low8 (rs ! (k div 2))) else b ! k)"
  unfolding bytesFromRegisters_def by (subst bytes_fold_nth) (auto simp: low8_mask)

lemma registersFromBytes_nth: "i < n \<Longrightarrow> registersFromBytes n b ! i = join16 (b ! (2 * i)) (b ! (2 * i + 1))"
  by (simp add: registersFromBytes_def)

lemma bytes_of_registers:
  assumes "2 * n \<le> length b" and "2 * n \<le> length b'"
  shows "bytesFromRegisters (registersFromBytes n b) b' = take (2 * n) b @ drop (2 * n) b'"
proof (rule nth_equalityI)
  show "length (bytesFromRegisters (registersFromBytes n b) b') = length (take (2 * n) b @ drop (2 * n) b')"
    using assms by simp
next
  fix k assume "k < length (bytesFromRegisters (registersFromBytes n b) b')"
  then have k: "k < length b'" by simp
  show "bytesFromRegisters (registersFromBytes n b) b' ! k = (take (2 * n) b @ drop (2 * n) b') ! k"
  proof (cases "k < 2 * n")
    case True
    then have "k div 2 < n" by auto
    with True assms k show ?thesis
      by (auto simp: bytesFromRegisters_nth registersFromBytes_nth nth_append elim!: evenE oddE)
  next
    case False
    with assms k show ?thesis by (simp add: bytesFromRegisters_nth nth_append)
  qed
qed

lemma registers_of_bytes:
  assumes "2 * length rs \<le> length b"
  shows "registersFromBytes (length rs) (bytesFromRegisters rs b) = rs"
proof (rule nth_equalityI)
  fix i assume "i < length (registersFromBytes (length rs) (bytesFromRegisters rs b))"
  then have i: "i < length rs" by simp
  then have "2 * i < length b" "Suc (2 * i) < length b" "2 * i < 2 * length rs" "Suc (2 * i) < 2 * length rs"
    using assms by auto
  with i assms show "registersFromBytes (length rs) (bytesFromRegisters rs b) ! i = rs ! i"
    by (simp add: registersFromBytes_nth bytesFromRegisters_nth)
qed simp

section \<open>Properties\<close>

text \<open>
  The four packed fields of the GRIPPER STATUS byte and the gripper's fault code do not interfere:
  a simulated device that writes all of them reads every one back as written, and the writers touch
  neither the controller's fault nor the rest of the block.
\<close>

theorem status_fields_independent:
  "let t = setActivated a (setActivationState st (setGoToEnabled g (setObjectDetection od (setGripperFault f s)))) in
    activated (gripperStatus t) = a \<and> activationState (gripperStatus t) = st \<and>
    goToEnabled (gripperStatus t) = g \<and> objectDetection (gripperStatus t) = od \<and>
    gripperFault (faultStatus t) = gripper_fault_of (gripper_fault_code f AND 0x0F) \<and>
    controllerFault (faultStatus t) = controllerFault (faultStatus s) \<and> drop 3 (status_data t) = drop 3 (status_data s)"
proof -
  let ?t = "setActivated a (setActivationState st (setGoToEnabled g (setObjectDetection od (setGripperFault f s))))"
  have "controllerFault (faultStatus ?t) = controllerFault (faultStatus s)"
    by (simp add: controllerFault_def setGripperFault_def withField_other register_map)
  moreover have "gripperFault (faultStatus ?t) = gripper_fault_of (gripper_fault_code f AND 0x0F)"
    by (simp add: gripperFault_def setGripperFault_def withField_and kGripperFaultMask_def)
  moreover have "drop 3 (status_data ?t) = drop 3 (status_data s)"
    by (simp add: status_data_def setActivated_def setActivationState_def setGoToEnabled_def
        setObjectDetection_def setGripperFault_def numeral_3_eq_3)
  ultimately show ?thesis by (simp add: status_writers)
qed

text \<open>
  Blocks survive the wire's register framing: unpacking the registers packed from a block's
  first bytes restores exactly those bytes over any block and leaves its tail alone, and packing what
  was unpacked gives the registers back.
\<close>

theorem register_framing_roundtrip:
  assumes "2 * n \<le> length b" and "2 * n \<le> length b'" and "length rs = n"
  shows "bytesFromRegisters (registersFromBytes n b) b' = take (2 * n) b @ drop (2 * n) b' \<and>
    registersFromBytes n (bytesFromRegisters rs b) = rs"
  using assms by (auto simp: bytes_of_registers registers_of_bytes)

theorem register_framing_roundtrip_witness:
  "bytesFromRegisters (registersFromBytes 1 [0x12, 0x34, 5]) [1, 2, 3] = [0x12, 0x34, 3]"
  using register_framing_roundtrip [of 1 "[0x12, 0x34, 5]" "[1, 2, 3]" "[7]"] by (simp add: numeral_2_eq_2)

text \<open>
  Every fault byte has a severity, whatever its bits: a gripper or controller fault code the
  enums do not name counts as major, and nothing but code 0 counts as no fault.
\<close>

theorem severity_of_every_byte:
  "severity (gripperFault b) =
     (let n = b AND 0x0F in if n = 0 then NoSeverity else if n = 4 \<or> n = 5 \<or> n = 7 then Warning
      else if n = 8 \<or> n = 9 then Minor else Major) \<and>
   controller_severity (controllerFault b) =
     (let n = drop_bit 4 (b AND 0xF0) in if n = 0 then NoSeverity else if n = 4 \<or> n = 5 then Warning
      else if n = 9 then Minor else Major)"
  by (auto simp: gripperFault_def controllerFault_def gripper_fault_of_def controller_fault_of_def
      gripper_fault_codes_def controller_fault_codes_def register_map Let_def)

end
