(* ===== verification/RegisterModel.thy ===== *)
theory RegisterModel
  imports GripperBlocks
begin

text \<open>
  The simulated gripper's register file, \<open>RegisterModel\<close> of \<open>grippers/sdk_cpp/src/fake/register_model.{hpp,cpp}\<close>,
  with the addresses of \<open>detail/modbus_constants.hpp\<close>. What the device promises is an abstract
  machine of two bits of history: it is activated exactly while rACT is set, and a fault lasts
  until rACT is cleared.
\<close>

unbundle bit_operations_syntax

section \<open>Addresses\<close>

definition kCommandAddress :: u16 where "kCommandAddress = 0x03E8"
definition kCommandRegisterCount :: u16 where "kCommandRegisterCount = of_nat (kCommandDocumentedBytes div 2)"
definition kStatusAddress :: u16 where "kStatusAddress = 0x07D0"
definition kStatusRegisterCount :: u16 where "kStatusRegisterCount = of_nat (kStatusDocumentedBytes div 2)"

definition kBlockRegisters :: u16 where "kBlockRegisters = 8"
definition kReportedCurrent :: u8 where "kReportedCurrent = 0x2A"
definition kRegisterCount :: u16 where "kRegisterCount = kStatusAddress + kBlockRegisters"

lemmas addresses = kCommandAddress_def kStatusAddress_def kBlockRegisters_def kRegisterCount_def
  kCommandRegisterCount_def kStatusRegisterCount_def block_sizes

section \<open>The model\<close>

record register_model =
  rm_registers :: "u16 list"
  previousActivateBit :: bool
  activationDone :: bool

definition new_register_model :: register_model where
  "new_register_model = \<lparr>rm_registers = replicate (unat kRegisterCount) 0,
     previousActivateBit = False, activationDone = False\<rparr>"

definition containsRange :: "u16 \<Rightarrow> u16 \<Rightarrow> bool" where
  "containsRange address quantity \<longleftrightarrow> (ucast address + ucast quantity - 1 :: u32) < ucast kRegisterCount"

definition outOfRange :: "string \<Rightarrow> u16 \<Rightarrow> u16 \<Rightarrow> string" where
  "outOfRange access address quantity =
     access @ '' of '' @ decimal (unat quantity) @ '' registers at '' @ decimal (unat address) @
     '' reaches past the register file ('' @ decimal (unat kRegisterCount) @ ''); refused''"

text \<open>A refused access is the message logged; the caller's array or the registers are untouched.\<close>

definition rm_read :: "u16 \<Rightarrow> u16 \<Rightarrow> register_model \<Rightarrow> string + u16 list" where
  "rm_read address quantity m =
     (if \<not> containsRange address quantity then Inl (outOfRange ''read'' address quantity)
      else Inr (map (\<lambda>i. let reg = address + word_of_nat i;
                             inCommandBlock = kCommandAddress \<le> reg \<and> reg < kCommandAddress + kBlockRegisters
                         in if inCommandBlock then 0 else rm_registers m ! unat reg)
                  [0..<unat quantity]))"

definition rm_block :: "u16 \<Rightarrow> register_model \<Rightarrow> u16 list" where
  "rm_block address m = take (unat kBlockRegisters) (drop (unat address) (rm_registers m))"

definition rm_command :: "register_model \<Rightarrow> gripper_command" where
  "rm_command m = command_of (bytesFromRegisters (rm_block kCommandAddress m) (command_data zero_command))"

definition rm_status :: "register_model \<Rightarrow> gripper_status" where
  "rm_status m = status_of (bytesFromRegisters (rm_block kStatusAddress m) (status_data zero_status))"

text \<open>\<open>std::copy\<close> of some registers to an address.\<close>

definition copy_to :: "u16 list \<Rightarrow> nat \<Rightarrow> u16 list \<Rightarrow> u16 list" where
  "copy_to vs at rs = take at rs @ vs @ drop (at + length vs) rs"

definition rm_setStatus :: "gripper_status \<Rightarrow> register_model \<Rightarrow> register_model" where
  "rm_setStatus st m = m\<lparr>rm_registers :=
     copy_to (registersFromBytes (unat kBlockRegisters) (status_data st)) (unat kStatusAddress) (rm_registers m)\<rparr>"

definition processCommand ::
    "gripper_command \<Rightarrow> gripper_status \<Rightarrow> register_model \<Rightarrow> gripper_status \<times> register_model" where
  "processCommand c currentStatus m =
     (let activateBit = nb_get (action c) Activate;
          fault = faultStatus currentStatus;
          m1 = (if activateBit \<and> \<not> previousActivateBit m then m\<lparr>activationDone := True\<rparr> else m);
          (m2, fault') = (if \<not> activateBit then (m1\<lparr>activationDone := False\<rparr>, 0) else (m1, fault));
          m3 = m2\<lparr>previousActivateBit := activateBit\<rparr>;
          n1 = setActivated activateBit (setFaultStatusByte fault' zero_status);
          n2 = (if activateBit \<and> activationDone m3
                then let n = setActivationState Complete n1
                     in if nb_get (action c) GoTo
                        then setObjectDetection AtRequestedPosition (setGoToEnabled True n) else n
                else n1)
      in (n2\<lparr>positionRequestEcho := positionRequest c, position := positionRequest c,
             current := kReportedCurrent\<rparr>, m3))"

definition rm_write :: "u16 \<Rightarrow> u16 list \<Rightarrow> register_model \<Rightarrow> string + register_model" where
  "rm_write address vals m =
     (let quantity = word_of_nat (length vals) in
      if \<not> containsRange address quantity then Inl (outOfRange ''write'' address quantity)
      else
        let m1 = m\<lparr>rm_registers := copy_to vals (unat address) (rm_registers m)\<rparr>;
            (st, m2) = processCommand (rm_command m1) (rm_status m1) m1
        in Inr (rm_setStatus st m2))"

section \<open>Ranges and blocks\<close>

lemma containsRange_iff: "0 < quantity \<Longrightarrow> containsRange address quantity \<longleftrightarrow> unat address + unat quantity \<le> 2008"
proof -
  assume q: "0 < quantity"
  have a: "unat address < 65536" and b: "unat quantity < 65536" by (rule unat_u16_bound)+
  have q1: "1 \<le> unat quantity" using q by (simp add: word_greater_zero_iff unat_gt_0 Suc_leI)
  have "unat (ucast address + ucast quantity :: u32) = unat address + unat quantity"
    using a b by (simp add: unat_word_ariths)
  moreover have "(1 :: u32) \<le> ucast address + ucast quantity"
    using calculation q1 by (simp add: word_le_nat_alt)
  ultimately have "unat (ucast address + ucast quantity - 1 :: u32) = unat address + unat quantity - 1"
    by (simp add: unat_sub)
  then show ?thesis
    using q1 by (simp add: containsRange_def word_less_nat_alt addresses) arith
qed

definition rm_wf :: "register_model \<Rightarrow> bool" where
  "rm_wf m \<longleftrightarrow> length (rm_registers m) = unat kRegisterCount \<and> activationDone m = previousActivateBit m"

lemma rm_wf_new [simp]: "rm_wf new_register_model"
  by (simp add: rm_wf_def new_register_model_def)

lemma length_copy_to [simp]: "at + length vs \<le> length rs \<Longrightarrow> length (copy_to vs at rs) = length rs"
  by (simp add: copy_to_def)

lemma copy_to_read: "at + length vs \<le> length rs \<Longrightarrow> take (length vs) (drop at (copy_to vs at rs)) = vs"
  by (simp add: copy_to_def)

lemma copy_to_before: "b + n \<le> at \<Longrightarrow> at + length vs \<le> length rs \<Longrightarrow>
    take n (drop b (copy_to vs at rs)) = take n (drop b rs)"
  by (rule nth_equalityI) (auto simp: copy_to_def nth_append)

lemma length_status_data [simp]: "wf_status st \<Longrightarrow> length (status_data st) = 16"
  by (simp add: wf_status_def block_sizes)

lemma wf_zero_status [simp]: "wf_status zero_status"
  by (simp add: wf_status_def zero_status_def status_data_def block_sizes)

lemma rm_status_setStatus:
  assumes "length (rm_registers m) = 2008" and "wf_status st"
  shows "rm_status (rm_setStatus st m) = st"
proof -
  have "rm_block kStatusAddress (rm_setStatus st m) = registersFromBytes 8 (status_data st)"
    using assms copy_to_read [of 2000 "registersFromBytes 8 (status_data st)" "rm_registers m"]
    by (simp add: rm_block_def rm_setStatus_def addresses)
  then show ?thesis
    using assms(2) by (simp add: rm_status_def bytes_of_registers)
qed

lemma rm_command_setStatus:
  assumes "length (rm_registers m) = 2008" and "wf_status st"
  shows "rm_command (rm_setStatus st m) = rm_command m"
  using assms copy_to_before [of 1000 8 2000 "registersFromBytes 8 (status_data st)" "rm_registers m"]
  by (simp add: rm_command_def rm_block_def rm_setStatus_def addresses)

section \<open>What the device promises\<close>

text \<open>
  The status the device shows for a command, given the fault latched so far: no other history
  matters.
\<close>

definition promised_status :: "gripper_command \<Rightarrow> u8 \<Rightarrow> gripper_status \<Rightarrow> bool" where
  "promised_status c fault s \<longleftrightarrow>
     (let rACT = nb_get (action c) Activate; rGTO = nb_get (action c) GoTo in
      activated (gripperStatus s) = rACT \<and>
      activationState (gripperStatus s) = (if rACT then Complete else AS_Reset) \<and>
      goToEnabled (gripperStatus s) = (rACT \<and> rGTO) \<and>
      objectDetection (gripperStatus s) = (if rACT \<and> rGTO then AtRequestedPosition else Moving) \<and>
      faultStatus s = (if rACT then fault else 0) \<and>
      positionRequestEcho s = positionRequest c \<and> position s = positionRequest c \<and>
      current s = kReportedCurrent)"

lemma zero_status_fields [layout]:
  "activationState (gripperStatus zero_status) = AS_Reset" "\<not> goToEnabled (gripperStatus zero_status)"
  "objectDetection (gripperStatus zero_status) = Moving" "\<not> activated (gripperStatus zero_status)"
  by (simp_all add: zero_status_def activationState_def goToEnabled_def objectDetection_def
      activated_def activation_of_def object_of_def)

lemma wf_status_update [simp]:
  "wf_status (s\<lparr>positionRequestEcho := a, position := b, current := c\<rparr>) = wf_status s"
  by (simp add: wf_status_def status_data_def)

lemma processCommand_promised:
  assumes "processCommand c cur m = (s, m')" and "activationDone m = previousActivateBit m"
  shows "promised_status c (faultStatus cur) s" and "wf_status s"
    and "activationDone m' = previousActivateBit m'" and "rm_registers m' = rm_registers m"
  using assms by (auto simp: processCommand_def promised_status_def Let_def layout split: if_splits)

lemma rm_write_promised:
  assumes "rm_wf m" and "0 < length vals" and "length vals < 65536"
    and "containsRange address (word_of_nat (length vals))"
  defines "m1 \<equiv> m\<lparr>rm_registers := copy_to vals (unat address) (rm_registers m)\<rparr>"
  shows "\<exists>m'. rm_write address vals m = Inr m' \<and> rm_wf m' \<and> rm_command m' = rm_command m1 \<and>
    promised_status (rm_command m1) (faultStatus (rm_status m1)) (rm_status m')"
proof -
  have n: "unat (word_of_nat (length vals) :: u16) = length vals"
    using assms(3) by (rule unat_word_of_nat_u16)
  then have "0 < (word_of_nat (length vals) :: u16)" using assms(2) by (simp add: word_less_nat_alt)
  then have range: "unat address + length vals \<le> 2008" using containsRange_iff assms(4) n by simp
  obtain st m2 where p: "processCommand (rm_command m1) (rm_status m1) m1 = (st, m2)" by force
  have m1: "length (rm_registers m1) = 2008" "activationDone m1 = previousActivateBit m1"
    using assms(1) range by (simp_all add: m1_def rm_wf_def addresses)
  note ps = processCommand_promised [OF p m1(2)]
  have len: "length (rm_registers m2) = 2008" using ps(4) m1(1) by simp
  have cmd: "rm_command m2 = rm_command m1" by (simp add: rm_command_def rm_block_def ps(4))
  have "rm_write address vals m = Inr (rm_setStatus st m2)"
    using assms(4) p by (simp add: rm_write_def m1_def Let_def)
  moreover have "rm_wf (rm_setStatus st m2)"
    using len ps(2,3) by (simp add: rm_wf_def rm_setStatus_def addresses)
  ultimately show ?thesis
    using rm_status_setStatus [OF len ps(2)] rm_command_setStatus [OF len ps(2)] ps(1) cmd by simp
qed

section \<open>The two blocks on the wire\<close>

text \<open>A command travels as three registers, and a status comes back as three.\<close>

definition writeBlock :: "gripper_command \<Rightarrow> register_model \<Rightarrow> string + register_model" where
  "writeBlock c m = rm_write kCommandAddress (registersFromBytes (unat kCommandRegisterCount) (command_data c)) m"

definition readBlock :: "register_model \<Rightarrow> string + u16 list" where
  "readBlock m = rm_read kStatusAddress kStatusRegisterCount m"

lemma copy_to_after: "at + length vs \<le> b \<Longrightarrow> b \<le> length rs \<Longrightarrow> drop b (copy_to vs at rs) = drop b rs"
  by (simp add: copy_to_def)

lemma six_cases: "k < 6 \<Longrightarrow> k = 0 \<or> k = 1 \<or> k = 2 \<or> k = 3 \<or> k = 4 \<or> k = (5 :: nat)"
  by arith

lemma rm_command_written:
  fixes c :: gripper_command
  assumes "length (rm_registers m) = 2008"
  defines "m1 \<equiv> m\<lparr>rm_registers := copy_to (registersFromBytes 3 (command_data c)) 1000 (rm_registers m)\<rparr>"
  shows "action (rm_command m1) = action c" and "positionRequest (rm_command m1) = positionRequest c"
    and "faultStatus (rm_status m1) = faultStatus (rm_status m)"
proof -
  let ?vs = "registersFromBytes 3 (command_data c)"
  have b: "rm_block kCommandAddress m1 = ?vs @ take 5 (drop 1003 (rm_registers m))"
    using assms(1) by (simp add: rm_block_def m1_def copy_to_def addresses)
  have z: "length (command_data zero_command) = 16" by (simp add: zero_command_def command_data_def block_sizes)
  have n: "bytesFromRegisters (rm_block kCommandAddress m1) (command_data zero_command) ! k = command_data c ! k"
    if "k < 6" for k
    using six_cases [OF that] assms(1) z
    by (auto simp: b bytesFromRegisters_nth nth_append registersFromBytes_nth)
  show "action (rm_command m1) = action c" "positionRequest (rm_command m1) = positionRequest c"
    using n [of 0] n [of 3] by (simp_all add: rm_command_def command_of_def command_data_def)
  show "faultStatus (rm_status m1) = faultStatus (rm_status m)"
    using assms(1) by (simp add: rm_status_def rm_block_def m1_def copy_to_after addresses)
qed

lemma writeBlock_promised:
  assumes "rm_wf m"
  shows "\<exists>m'. writeBlock c m = Inr m' \<and> rm_wf m' \<and> promised_status c (faultStatus (rm_status m)) (rm_status m')"
proof -
  let ?vs = "registersFromBytes 3 (command_data c)"
  have k: "unat kCommandRegisterCount = 3" "unat kCommandAddress = 1000" "kCommandRegisterCount = 3"
    by (simp_all add: addresses)
  have r: "containsRange kCommandAddress (word_of_nat (length ?vs))"
    by (simp add: containsRange_iff k)
  have l: "length (rm_registers m) = 2008" using assms by (simp add: rm_wf_def addresses)
  from rm_write_promised [OF assms _ _ r] obtain m' where
    m': "rm_write kCommandAddress ?vs m = Inr m'" "rm_wf m'"
      "promised_status (rm_command (m\<lparr>rm_registers := copy_to ?vs 1000 (rm_registers m)\<rparr>))
        (faultStatus (rm_status (m\<lparr>rm_registers := copy_to ?vs 1000 (rm_registers m)\<rparr>))) (rm_status m')"
    unfolding k by auto
  then show ?thesis using rm_command_written [OF l, of c] by (simp add: writeBlock_def k promised_status_def Let_def)
qed

text \<open>The registers read are the status's documented bytes.\<close>

definition same_documented :: "gripper_status \<Rightarrow> gripper_status \<Rightarrow> bool" where
  "same_documented a b \<longleftrightarrow> take kStatusDocumentedBytes (status_data a) = take kStatusDocumentedBytes (status_data b)"

lemma same_documented_iff: "same_documented a b \<longleftrightarrow> gripperStatus a = gripperStatus b \<and> s_reserved1 a = s_reserved1 b \<and>
    faultStatus a = faultStatus b \<and> positionRequestEcho a = positionRequestEcho b \<and>
    position a = position b \<and> current a = current b"
  by (simp add: same_documented_def status_data_def block_sizes)

lemma promised_documented: "same_documented a b \<Longrightarrow> promised_status c f a \<longleftrightarrow> promised_status c f b"
  by (simp add: same_documented_iff promised_status_def)

lemma readBlock_status:
  assumes "length (rm_registers m) = 2008"
  shows "\<exists>regs. readBlock m = Inr regs \<and> length regs = 3 \<and>
    same_documented (status_of (bytesFromRegisters regs (status_data zero_status))) (rm_status m)"
proof -
  have k: "unat kStatusRegisterCount = 3" "kStatusRegisterCount = 3" "unat kStatusAddress = 2000"
    by (simp_all add: addresses)
  have c: "containsRange kStatusAddress kStatusRegisterCount" by (simp add: containsRange_iff k)
  let ?regs = "map (\<lambda>i. rm_registers m ! (2000 + i)) [0..<3]"
  have "readBlock m = Inr ?regs"
    using c by (simp add: readBlock_def rm_read_def k upt_rec) (simp add: addresses)
  moreover have "bytesFromRegisters ?regs (status_data zero_status) ! j =
      bytesFromRegisters (rm_block kStatusAddress m) (status_data zero_status) ! j" if "j < 6" for j
    using six_cases [OF that] assms by (auto simp: bytesFromRegisters_nth rm_block_def addresses nth_append)
  ultimately show ?thesis
    by (intro exI [of _ ?regs]) (simp add: same_documented_iff rm_status_def status_of_def)
qed

section \<open>Properties\<close>

text \<open>Successive command blocks.\<close>

fun writeBlocks :: "gripper_command list \<Rightarrow> register_model \<Rightarrow> string + register_model" where
  "writeBlocks [] m = Inr m"
| "writeBlocks (c # cs) m = (case writeBlock c m of Inl e \<Rightarrow> Inl e | Inr m' \<Rightarrow> writeBlocks cs m')"

text \<open>
  C11 A latched fault survives any sequence of commands as long as each keeps rACT set, and is gone
  after one that clears it. No such sequence is refused, and the register file stays well formed.
\<close>

theorem fault_latched_until_deactivated:
  assumes "rm_wf m"
  shows "\<exists>m'. writeBlocks cs m = Inr m' \<and> rm_wf m' \<and> faultStatus (rm_status m') =
    (if \<forall>c \<in> set cs. nb_get (action c) Activate then faultStatus (rm_status m) else 0)"
  using assms
proof (induction cs arbitrary: m)
  case (Cons c cs)
  from writeBlock_promised [OF Cons.prems] obtain m1 where
    m1: "writeBlock c m = Inr m1" "rm_wf m1" "promised_status c (faultStatus (rm_status m)) (rm_status m1)" by blast
  from Cons.IH [OF m1(2)] obtain m' where
    m': "writeBlocks cs m1 = Inr m'" "rm_wf m'" "faultStatus (rm_status m') =
      (if \<forall>c \<in> set cs. nb_get (action c) Activate then faultStatus (rm_status m1) else 0)" by blast
  have "faultStatus (rm_status m1) = (if nb_get (action c) Activate then faultStatus (rm_status m) else 0)"
    using m1(3) by (simp add: promised_status_def Let_def)
  with m1(1) m' show ?case by (intro exI [of _ m']) simp
qed simp

theorem fault_latched_until_deactivated_witness:
  "\<exists>m'. writeBlocks [defaults, zero_command] new_register_model = Inr m' \<and> faultStatus (rm_status m') = 0"
proof -
  have "\<not> nb_get (action zero_command) Activate" by (simp add: zero_command_def nb_get_def)
  with fault_latched_until_deactivated [OF rm_wf_new, of "[defaults, zero_command]"] show ?thesis by auto
qed

text \<open>
  The 32-bit range check accepts an access of at least one register exactly when all of it lies in
  the register file, and no register number of an accepted access wraps around or falls outside.
\<close>

theorem accepted_accesses_stay_inside:
  assumes "0 < quantity"
  shows "((\<exists>vs. rm_read address quantity m = Inr vs) \<longleftrightarrow> unat address + unat quantity \<le> unat kRegisterCount) \<and>
    (\<forall>vs i. rm_read address quantity m = Inr vs \<and> i < unat quantity \<longrightarrow>
      unat (address + word_of_nat i) = unat address + i \<and> unat address + i < unat kRegisterCount)"
proof -
  have k: "unat kRegisterCount = 2008" by (simp add: addresses)
  note r = containsRange_iff [OF assms, of address]
  have "(\<exists>vs. rm_read address quantity m = Inr vs) \<longleftrightarrow> unat address + unat quantity \<le> 2008"
    using r by (simp add: rm_read_def)
  moreover have "unat (address + word_of_nat i) = unat address + i \<and> unat address + i < 2008"
    if "rm_read address quantity m = Inr vs" "i < unat quantity" for vs i
  proof -
    have "unat address + i < 2008" using that r by (simp add: rm_read_def split: if_splits)
    then show ?thesis by (simp add: unat_word_ariths unat_word_of_nat_u16)
  qed
  ultimately show ?thesis unfolding k by blast
qed

theorem accepted_accesses_stay_inside_witness:
  "(\<exists>vs. rm_read 2000 3 new_register_model = Inr vs) \<longleftrightarrow> (2003 :: nat) \<le> unat kRegisterCount"
  using accepted_accesses_stay_inside [of 3 2000 new_register_model] by simp

end
