(* ===== verification/Nanomodbus.thy ===== *)
theory Nanomodbus
  imports Prelude
begin

text \<open>
  The part of the Modbus library \<open>grippers/sdk_cpp/third_party/nanomodbus/nanomodbus.c\<close> the gripper SDK
  runs, on the RTU transport: the message buffer, framing with its CRC-16, the client requests with
  function codes 3, 16 and 23, and the server's side of them. The platform's read and write
  functions are arguments; their contract, as a client of bytes sees it, is the locale
  \<open>byte_link\<close>. The TCP branches, the other function codes and \<open>NMBS_DEBUG\<close> output are left out.
\<close>

unbundle bit_operations_syntax

section \<open>Errors and state\<close>

text \<open>\<open>NMBS_ERROR_NONE\<close> is the right side of the sum a function returns.\<close>

datatype nmbs_error = INVALID_REQUEST | INVALID_UNIT_ID | INVALID_TCP_MBAP | INVALID_CRC | TRANSPORT |
  TIMEOUT | INVALID_RESPONSE | INVALID_ARGUMENT | ILLEGAL_FUNCTION | ILLEGAL_DATA_ADDRESS |
  ILLEGAL_DATA_VALUE | SERVER_DEVICE_FAILURE

fun nmbs_strerror :: "nmbs_error \<Rightarrow> string" where
  "nmbs_strerror INVALID_REQUEST = ''invalid request received''"
| "nmbs_strerror INVALID_UNIT_ID = ''invalid unit ID received''"
| "nmbs_strerror INVALID_TCP_MBAP = ''invalid TCP MBAP received''"
| "nmbs_strerror INVALID_CRC = ''invalid CRC received''"
| "nmbs_strerror TRANSPORT = ''transport error''"
| "nmbs_strerror TIMEOUT = ''timeout''"
| "nmbs_strerror INVALID_RESPONSE = ''invalid response received''"
| "nmbs_strerror INVALID_ARGUMENT = ''invalid argument provided''"
| "nmbs_strerror ILLEGAL_FUNCTION = ''modbus exception 1: illegal function''"
| "nmbs_strerror ILLEGAL_DATA_ADDRESS = ''modbus exception 2: illegal data address''"
| "nmbs_strerror ILLEGAL_DATA_VALUE = ''modbus exception 3: data value''"
| "nmbs_strerror SERVER_DEVICE_FAILURE = ''modbus exception 4: server device failure''"

definition exception_of :: "u8 \<Rightarrow> nmbs_error" where
  "exception_of v = (if v = 1 then ILLEGAL_FUNCTION else if v = 2 then ILLEGAL_DATA_ADDRESS
     else if v = 3 then ILLEGAL_DATA_VALUE else SERVER_DEVICE_FAILURE)"

text \<open>The code of an error that is a Modbus exception, as \<open>nmbs_error_is_exception\<close> tells.\<close>

fun exception_code :: "nmbs_error \<Rightarrow> u8 option" where
  "exception_code ILLEGAL_FUNCTION = Some 1"
| "exception_code ILLEGAL_DATA_ADDRESS = Some 2"
| "exception_code ILLEGAL_DATA_VALUE = Some 3"
| "exception_code SERVER_DEVICE_FAILURE = Some 4"
| "exception_code e = None"

record nmbs =
  buf :: "u8 list"
  buf_idx :: nat
  unit_id :: u8
  fc :: u8
  transaction_id :: u16
  broadcast :: bool
  ignored :: bool
  complete :: bool
  byte_timeout_ms :: int
  read_timeout_ms :: int
  address_rtu :: u8
  dest_address_rtu :: u8
  current_tid :: u16

definition NMBS_BROADCAST_ADDRESS :: u8 where "NMBS_BROADCAST_ADDRESS = 0"

text \<open>
  \<open>platform.read\<close> is given a count and a time-out, and returns a number and the bytes it stored;
  \<open>platform.write\<close> is given the bytes. Both act on a world \<open>'w\<close> of their own.
\<close>

record 'w platform =
  p_read :: "nat \<Rightarrow> int \<Rightarrow> 'w \<Rightarrow> (int \<times> u8 list) \<times> 'w"
  p_write :: "u8 list \<Rightarrow> int \<Rightarrow> 'w \<Rightarrow> int \<times> 'w"

type_synonym ('w, 'a) nm = "nmbs \<times> 'w \<Rightarrow> (nmbs_error + 'a) \<times> nmbs \<times> 'w"

definition nm_return :: "'a \<Rightarrow> ('w, 'a) nm" where
  "nm_return a = (\<lambda>(s, w). (Inr a, s, w))"

definition nm_fail :: "nmbs_error \<Rightarrow> ('w, 'a) nm" where
  "nm_fail e = (\<lambda>(s, w). (Inl e, s, w))"

text \<open>\<open>if (err != NMBS_ERROR_NONE) return err;\<close>\<close>

definition nm_bind :: "('w, 'a) nm \<Rightarrow> ('a \<Rightarrow> ('w, 'b) nm) \<Rightarrow> ('w, 'b) nm" where
  "nm_bind m f = (\<lambda>sw. case m sw of (Inl e, sw') \<Rightarrow> (Inl e, sw') | (Inr a, sw') \<Rightarrow> f a sw')"

definition nm_modify :: "(nmbs \<Rightarrow> nmbs) \<Rightarrow> ('w, unit) nm" where
  "nm_modify f = (\<lambda>(s, w). (Inr (), f s, w))"

definition nm_get :: "('w, nmbs) nm" where
  "nm_get = (\<lambda>(s, w). (Inr s, s, w))"

lemma nm_bind_eq: "nm_bind m f sw = (case m sw of (Inl e, sw') \<Rightarrow> (Inl e, sw') | (Inr a, sw') \<Rightarrow> f a sw')"
  by (simp add: nm_bind_def)

lemma nm_run [simp]:
  "nm_return a (s, w) = (Inr a, s, w)" "nm_fail e (s, w) = (Inl e, s, w)"
  "nm_modify f (s, w) = (Inr (), f s, w)" "nm_get (s, w) = (Inr s, s, w)"
  by (simp_all add: nm_return_def nm_fail_def nm_modify_def nm_get_def)

section \<open>The message buffer\<close>

definition get_1 :: "('w, u8) nm" where
  "get_1 = (\<lambda>(s, w). (Inr (buf s ! buf_idx s), s\<lparr>buf_idx := buf_idx s + 1\<rparr>, w))"

definition put_1 :: "u8 \<Rightarrow> ('w, unit) nm" where
  "put_1 d = nm_modify (\<lambda>s. s\<lparr>buf := (buf s)[buf_idx s := d], buf_idx := buf_idx s + 1\<rparr>)"

definition get_2 :: "('w, u16) nm" where
  "get_2 = (\<lambda>(s, w). (Inr (push_bit 8 (ucast (buf s ! buf_idx s)) OR ucast (buf s ! (buf_idx s + 1))),
     s\<lparr>buf_idx := buf_idx s + 2\<rparr>, w))"

definition put_2 :: "u16 \<Rightarrow> ('w, unit) nm" where
  "put_2 d = nm_modify (\<lambda>s. s\<lparr>buf := (buf s)[buf_idx s := ucast (drop_bit 8 d AND 0xFF),
     buf_idx s + 1 := ucast d], buf_idx := buf_idx s + 2\<rparr>)"

fun get_regs :: "nat \<Rightarrow> ('w, u16 list) nm" where
  "get_regs 0 = nm_return []"
| "get_regs (Suc n) = nm_bind get_2 (\<lambda>r. nm_bind (get_regs n) (\<lambda>rs. nm_return (r # rs)))"

fun put_regs :: "u16 list \<Rightarrow> ('w, unit) nm" where
  "put_regs [] = nm_return ()"
| "put_regs (r # rs) = nm_bind (put_2 r) (\<lambda>_. put_regs rs)"

section \<open>Receiving and sending\<close>

definition overwrite :: "nat \<Rightarrow> u8 list \<Rightarrow> u8 list \<Rightarrow> u8 list" where
  "overwrite i bs b = take i b @ bs @ drop (i + length bs) b"

definition recv :: "'w platform \<Rightarrow> nat \<Rightarrow> ('w, unit) nm" where
  "recv p count = (\<lambda>(s, w).
     if complete s then (Inr (), s, w)
     else
       let ((ret, bs), w') = p_read p count (byte_timeout_ms s) w;
           s' = s\<lparr>buf := overwrite (buf_idx s) bs (buf s)\<rparr>
       in if ret = int count then (Inr (), s', w')
          else if ret < int count then (if ret < 0 then (Inl TRANSPORT, s', w') else (Inl TIMEOUT, s', w'))
          else (Inl TRANSPORT, s', w'))"

definition send :: "'w platform \<Rightarrow> nat \<Rightarrow> ('w, unit) nm" where
  "send p count = (\<lambda>(s, w).
     let (ret, w') = p_write p (take count (buf s)) (byte_timeout_ms s) w
     in if ret = int count then (Inr (), s, w')
        else if ret < int count then (if ret < 0 then (Inl TRANSPORT, s, w') else (Inl TIMEOUT, s, w'))
        else (Inl TRANSPORT, s, w'))"

definition flush :: "'w platform \<Rightarrow> ('w, unit) nm" where
  "flush p = (\<lambda>(s, w).
     let ((ret, bs), w') = p_read p 260 0 w in (Inr (), s\<lparr>buf := overwrite 0 bs (buf s)\<rparr>, w'))"

definition msg_buf_reset :: "nmbs \<Rightarrow> nmbs" where
  "msg_buf_reset s = s\<lparr>buf_idx := 0\<rparr>"

definition msg_state_reset :: "nmbs \<Rightarrow> nmbs" where
  "msg_state_reset s = (msg_buf_reset s)\<lparr>unit_id := 0, fc := 0, transaction_id := 0, broadcast := False,
     ignored := False, complete := False\<rparr>"

definition msg_state_req :: "'w platform \<Rightarrow> u8 \<Rightarrow> ('w, unit) nm" where
  "msg_state_req p f =
     nm_bind (nm_modify (\<lambda>s. s\<lparr>current_tid := if current_tid s = 0xFFFF then 1 else current_tid s + 1\<rparr>)) (\<lambda>_.
     nm_bind (flush p) (\<lambda>_.
     nm_modify (\<lambda>s. let s' = (msg_state_reset s)\<lparr>unit_id := dest_address_rtu s, fc := f,
                                                    transaction_id := current_tid s\<rparr>
                     in if unit_id s' = NMBS_BROADCAST_ADDRESS then s'\<lparr>broadcast := True\<rparr> else s')))"

text \<open>CRC-16 with polynomial 0xA001, its two bytes swapped.\<close>

definition crc_shift :: "u16 \<Rightarrow> u16" where
  "crc_shift crc = (if crc AND 1 \<noteq> 0 then drop_bit 1 crc XOR 0xA001 else drop_bit 1 crc)"

definition crc_byte :: "u8 \<Rightarrow> u16 \<Rightarrow> u16" where
  "crc_byte d crc = (crc_shift ^^ 8) (crc XOR ucast d)"

definition nmbs_crc_calc :: "u8 list \<Rightarrow> u16" where
  "nmbs_crc_calc d = (let crc = fold crc_byte d 0xFFFF in push_bit 8 crc OR drop_bit 8 crc)"

definition recv_msg_footer :: "'w platform \<Rightarrow> ('w, unit) nm" where
  "recv_msg_footer p =
     nm_bind nm_get (\<lambda>s. let crc = nmbs_crc_calc (take (buf_idx s) (buf s)) in
     nm_bind (recv p 2) (\<lambda>_.
     nm_bind get_2 (\<lambda>recv_crc. if recv_crc \<noteq> crc then nm_fail INVALID_CRC else nm_return ())))"

text \<open>
  The header waits \<open>read_timeout_ms\<close> for its first byte. \<open>recv_msg_header\<close> also reports whether
  that byte came; a failure before it is told apart by the caller, so this is two steps here.
\<close>

definition recv_first_byte :: "'w platform \<Rightarrow> ('w, unit) nm" where
  "recv_first_byte p =
     nm_bind nm_get (\<lambda>s0.
     nm_bind (nm_modify (\<lambda>s. msg_state_reset (s\<lparr>byte_timeout_ms := read_timeout_ms s\<rparr>))) (\<lambda>_.
     (\<lambda>sw. case recv p 1 sw of (r, s, w) \<Rightarrow> (r, s\<lparr>byte_timeout_ms := byte_timeout_ms s0\<rparr>, w))))"

definition recv_header_rest :: "'w platform \<Rightarrow> ('w, unit) nm" where
  "recv_header_rest p =
     nm_bind get_1 (\<lambda>u.
     nm_bind (nm_modify (\<lambda>s. s\<lparr>unit_id := u\<rparr>)) (\<lambda>_.
     nm_bind (recv p 1) (\<lambda>_.
     nm_bind get_1 (\<lambda>f. nm_modify (\<lambda>s. s\<lparr>fc := f\<rparr>)))))"

definition recv_msg_header :: "'w platform \<Rightarrow> ('w, unit) nm" where
  "recv_msg_header p = nm_bind (recv_first_byte p) (\<lambda>_. recv_header_rest p)"

definition put_msg_header :: "('w, unit) nm" where
  "put_msg_header =
     nm_bind (nm_modify msg_buf_reset) (\<lambda>_. nm_bind nm_get (\<lambda>s.
     nm_bind (put_1 (unit_id s)) (\<lambda>_. put_1 (fc s))))"

definition send_msg :: "'w platform \<Rightarrow> ('w, unit) nm" where
  "send_msg p =
     nm_bind nm_get (\<lambda>s. nm_bind (put_2 (nmbs_crc_calc (take (buf_idx s) (buf s)))) (\<lambda>_.
     nm_bind nm_get (\<lambda>s'. send p (buf_idx s'))))"

section \<open>The client\<close>

definition recv_res_header :: "'w platform \<Rightarrow> ('w, unit) nm" where
  "recv_res_header p =
     nm_bind nm_get (\<lambda>req.
     nm_bind (recv_msg_header p) (\<lambda>_.
     nm_bind nm_get (\<lambda>s.
       if unit_id s \<noteq> unit_id req then nm_fail INVALID_UNIT_ID
       else if fc s \<noteq> fc req then
         (if uint (fc s) - 0x80 = uint (fc req) then
            nm_bind (recv p 1) (\<lambda>_.
            nm_bind get_1 (\<lambda>e.
            nm_bind (recv_msg_footer p) (\<lambda>_.
              if e < 1 \<or> 4 < e then nm_fail INVALID_RESPONSE else nm_fail (exception_of e))))
          else nm_fail INVALID_RESPONSE)
       else nm_return ())))"

definition recv_read_registers_res :: "'w platform \<Rightarrow> u16 \<Rightarrow> ('w, u16 list) nm" where
  "recv_read_registers_res p quantity =
     nm_bind (recv_res_header p) (\<lambda>_.
     nm_bind (recv p 1) (\<lambda>_.
     nm_bind get_1 (\<lambda>n.
       if 250 < n \<or> uint n \<noteq> uint quantity * 2 then nm_fail INVALID_RESPONSE
       else
         nm_bind (recv p (unat n)) (\<lambda>_.
         nm_bind (get_regs (unat n div 2)) (\<lambda>rs.
         nm_bind (recv_msg_footer p) (\<lambda>_. nm_return rs))))))"

definition recv_write_multiple_registers_res :: "'w platform \<Rightarrow> u16 \<Rightarrow> u16 \<Rightarrow> ('w, unit) nm" where
  "recv_write_multiple_registers_res p address quantity =
     nm_bind (recv_res_header p) (\<lambda>_.
     nm_bind (recv p 4) (\<lambda>_.
     nm_bind get_2 (\<lambda>address_res.
     nm_bind get_2 (\<lambda>quantity_res.
     nm_bind (recv_msg_footer p) (\<lambda>_.
       if address_res \<noteq> address then nm_fail INVALID_RESPONSE
       else if quantity_res \<noteq> quantity then nm_fail INVALID_RESPONSE
       else nm_return ())))))"

definition read_registers :: "'w platform \<Rightarrow> u8 \<Rightarrow> u16 \<Rightarrow> u16 \<Rightarrow> ('w, u16 list) nm" where
  "read_registers p f address quantity =
     (if quantity < 1 \<or> 125 < quantity then nm_fail INVALID_ARGUMENT
      else if 0x10000 < uint address + uint quantity then nm_fail INVALID_ARGUMENT
      else
        nm_bind (msg_state_req p f) (\<lambda>_.
        nm_bind put_msg_header (\<lambda>_.
        nm_bind (put_2 address) (\<lambda>_.
        nm_bind (put_2 quantity) (\<lambda>_.
        nm_bind (send_msg p) (\<lambda>_. recv_read_registers_res p quantity))))))"

definition nmbs_read_holding_registers :: "'w platform \<Rightarrow> u16 \<Rightarrow> u16 \<Rightarrow> ('w, u16 list) nm" where
  "nmbs_read_holding_registers p address quantity = read_registers p 3 address quantity"

definition nmbs_write_multiple_registers :: "'w platform \<Rightarrow> u16 \<Rightarrow> u16 \<Rightarrow> u16 list \<Rightarrow> ('w, unit) nm" where
  "nmbs_write_multiple_registers p address quantity registers =
     (if quantity < 1 \<or> 0x7B < quantity then nm_fail INVALID_ARGUMENT
      else if 0x10000 < uint address + uint quantity then nm_fail INVALID_ARGUMENT
      else
        nm_bind (msg_state_req p 16) (\<lambda>_.
        nm_bind put_msg_header (\<lambda>_.
        nm_bind (put_2 address) (\<lambda>_.
        nm_bind (put_2 quantity) (\<lambda>_.
        nm_bind (put_1 (ucast (quantity * 2))) (\<lambda>_.
        nm_bind (put_regs (take (unat quantity) registers)) (\<lambda>_.
        nm_bind (send_msg p) (\<lambda>_.
        nm_bind nm_get (\<lambda>s.
          if \<not> broadcast s then recv_write_multiple_registers_res p address quantity
          else nm_return ())))))))))"

definition nmbs_read_write_registers ::
    "'w platform \<Rightarrow> u16 \<Rightarrow> u16 \<Rightarrow> u16 \<Rightarrow> u16 \<Rightarrow> u16 list \<Rightarrow> ('w, u16 list) nm" where
  "nmbs_read_write_registers p read_address read_quantity write_address write_quantity registers =
     (if read_quantity < 1 \<or> 0x7D < read_quantity then nm_fail INVALID_ARGUMENT
      else if 0x10000 < uint read_address + uint read_quantity then nm_fail INVALID_ARGUMENT
      else if write_quantity < 1 \<or> 0x79 < write_quantity then nm_fail INVALID_ARGUMENT
      else if 0x10000 < uint write_address + uint write_quantity then nm_fail INVALID_ARGUMENT
      else
        nm_bind (msg_state_req p 23) (\<lambda>_.
        nm_bind put_msg_header (\<lambda>_.
        nm_bind (put_2 read_address) (\<lambda>_.
        nm_bind (put_2 read_quantity) (\<lambda>_.
        nm_bind (put_2 write_address) (\<lambda>_.
        nm_bind (put_2 write_quantity) (\<lambda>_.
        nm_bind (put_1 (ucast (write_quantity * 2))) (\<lambda>_.
        nm_bind (put_regs (take (unat write_quantity) registers)) (\<lambda>_.
        nm_bind (send_msg p) (\<lambda>_. recv_read_registers_res p read_quantity))))))))))"

section \<open>The server\<close>

text \<open>The two register callbacks; \<open>None\<close> is a null pointer. \<open>unit_id\<close> and \<open>arg\<close> are not used.\<close>

record 'w callbacks =
  read_holding_registers :: "(u16 \<Rightarrow> u16 \<Rightarrow> 'w \<Rightarrow> (nmbs_error + u16 list) \<times> 'w) option"
  write_multiple_registers :: "(u16 \<Rightarrow> u16 \<Rightarrow> u16 list \<Rightarrow> 'w \<Rightarrow> (nmbs_error + unit) \<times> 'w) option"

definition address_request :: "nmbs \<Rightarrow> nmbs" where
  "address_request s =
     (if unit_id s = NMBS_BROADCAST_ADDRESS then s\<lparr>broadcast := True\<rparr>
      else if unit_id s \<noteq> address_rtu s then s\<lparr>ignored := True\<rparr>
      else s\<lparr>ignored := False\<rparr>)"

text \<open>\<open>recv_req_header\<close> past its first byte.\<close>

definition recv_req_header :: "'w platform \<Rightarrow> ('w, unit) nm" where
  "recv_req_header p = nm_bind (recv_header_rest p) (\<lambda>_. nm_modify address_request)"

definition send_exception_msg :: "'w platform \<Rightarrow> u8 \<Rightarrow> ('w, unit) nm" where
  "send_exception_msg p e =
     nm_bind nm_get (\<lambda>s.
       if broadcast s then nm_return ()
       else
         nm_bind (nm_modify (\<lambda>s. s\<lparr>fc := fc s + 0x80\<rparr>)) (\<lambda>_.
         nm_bind put_msg_header (\<lambda>_.
         nm_bind (put_1 e) (\<lambda>_. send_msg p))))"

text \<open>A callback, and what the handlers do with its error.\<close>

definition call_back :: "('w \<Rightarrow> (nmbs_error + 'a) \<times> 'w) \<Rightarrow> ('w, nmbs_error + 'a) nm" where
  "call_back f = (\<lambda>(s, w). case f w of (r, w') \<Rightarrow> (Inr r, s, w'))"

definition send_error :: "'w platform \<Rightarrow> nmbs_error \<Rightarrow> ('w, unit) nm" where
  "send_error p e =
     (case exception_code e of Some c \<Rightarrow> send_exception_msg p c | None \<Rightarrow> send_exception_msg p 4)"

definition put_registers_res :: "'w platform \<Rightarrow> u16 \<Rightarrow> u16 list \<Rightarrow> ('w, unit) nm" where
  "put_registers_res p quantity regs =
     nm_bind put_msg_header (\<lambda>_.
     nm_bind (put_1 (ucast (quantity * 2))) (\<lambda>_.
     nm_bind (put_regs (take (unat quantity) regs)) (\<lambda>_. send_msg p)))"

definition handle_read_holding_registers :: "'w platform \<Rightarrow> 'w callbacks \<Rightarrow> ('w, unit) nm" where
  "handle_read_holding_registers p cb =
     nm_bind (recv p 4) (\<lambda>_.
     nm_bind get_2 (\<lambda>address.
     nm_bind get_2 (\<lambda>quantity.
     nm_bind (recv_msg_footer p) (\<lambda>_.
     nm_bind nm_get (\<lambda>s.
       if \<not> ignored s then
         (if quantity < 1 \<or> 125 < quantity then send_exception_msg p 3
          else if 0x10000 < uint address + uint quantity then send_exception_msg p 2
          else
            case read_holding_registers cb of
              None \<Rightarrow> send_exception_msg p 1
            | Some f \<Rightarrow>
                nm_bind (call_back (f address quantity)) (\<lambda>r. case r of
                  Inl e \<Rightarrow> send_error p e
                | Inr regs \<Rightarrow> if broadcast s then nm_return () else put_registers_res p quantity regs))
       else nm_bind (recv_read_registers_res p quantity) (\<lambda>_. nm_return ()))))))"

definition handle_write_multiple_registers :: "'w platform \<Rightarrow> 'w callbacks \<Rightarrow> ('w, unit) nm" where
  "handle_write_multiple_registers p cb =
     nm_bind (recv p 5) (\<lambda>_.
     nm_bind get_2 (\<lambda>address.
     nm_bind get_2 (\<lambda>quantity.
     nm_bind get_1 (\<lambda>n.
     nm_bind (recv p (unat n)) (\<lambda>_.
       if 246 < n then nm_fail INVALID_REQUEST
       else
         nm_bind (get_regs (unat n div 2)) (\<lambda>registers.
         nm_bind (recv_msg_footer p) (\<lambda>_.
         nm_bind nm_get (\<lambda>s.
           if \<not> ignored s then
             (if quantity < 1 \<or> 0x7B < quantity then send_exception_msg p 3
              else if 0x10000 < uint address + uint quantity then send_exception_msg p 2
              else if n = 0 then send_exception_msg p 3
              else if uint n \<noteq> uint quantity * 2 then send_exception_msg p 3
              else
                case write_multiple_registers cb of
                  None \<Rightarrow> send_exception_msg p 1
                | Some f \<Rightarrow>
                    nm_bind (call_back (f address quantity registers)) (\<lambda>r. case r of
                      Inl e \<Rightarrow> send_error p e
                    | Inr _ \<Rightarrow>
                        if broadcast s then nm_return ()
                        else
                          nm_bind put_msg_header (\<lambda>_.
                          nm_bind (put_2 address) (\<lambda>_.
                          nm_bind (put_2 quantity) (\<lambda>_. send_msg p)))))
           else recv_write_multiple_registers_res p address quantity))))))))"

definition handle_read_write_registers :: "'w platform \<Rightarrow> 'w callbacks \<Rightarrow> ('w, unit) nm" where
  "handle_read_write_registers p cb =
     nm_bind (recv p 9) (\<lambda>_.
     nm_bind get_2 (\<lambda>read_address.
     nm_bind get_2 (\<lambda>read_quantity.
     nm_bind get_2 (\<lambda>write_address.
     nm_bind get_2 (\<lambda>write_quantity.
     nm_bind get_1 (\<lambda>n.
       if 242 < n then nm_fail INVALID_REQUEST
       else
         nm_bind (recv p (unat n)) (\<lambda>_.
         nm_bind (get_regs (unat n div 2)) (\<lambda>registers.
         nm_bind (recv_msg_footer p) (\<lambda>_.
         nm_bind nm_get (\<lambda>s.
           if \<not> ignored s then
             (if read_quantity < 1 \<or> 0x7D < read_quantity then send_exception_msg p 3
              else if write_quantity < 1 \<or> 0x7B < write_quantity then send_exception_msg p 3
              else if uint n \<noteq> uint write_quantity * 2 then send_exception_msg p 3
              else if 0x10000 < uint read_address + uint read_quantity then send_exception_msg p 2
              else if 0x10000 < uint write_address + uint write_quantity then send_exception_msg p 2
              else
                case (write_multiple_registers cb, read_holding_registers cb) of
                  (Some wr, Some rd) \<Rightarrow>
                    nm_bind (call_back (wr write_address write_quantity registers)) (\<lambda>r. case r of
                      Inl e \<Rightarrow> send_error p e
                    | Inr _ \<Rightarrow>
                        if broadcast s then nm_return ()
                        else
                          nm_bind (call_back (rd read_address read_quantity)) (\<lambda>r. case r of
                            Inl e \<Rightarrow> send_error p e
                          | Inr regs \<Rightarrow> put_registers_res p read_quantity regs))
                | _ \<Rightarrow> send_exception_msg p 1)
           else recv_write_multiple_registers_res p write_address write_quantity))))))))))"

text \<open>
  \<open>handle_req_fc\<close>. The handlers of the codes listed last are not modelled; \<open>other\<close> stands for them.
\<close>

definition handle_req_fc :: "(u8 \<Rightarrow> ('w, unit) nm) \<Rightarrow> 'w platform \<Rightarrow> 'w callbacks \<Rightarrow> ('w, unit) nm" where
  "handle_req_fc other p cb =
     nm_bind nm_get (\<lambda>s.
       if fc s = 3 then handle_read_holding_registers p cb
       else if fc s = 16 then handle_write_multiple_registers p cb
       else if fc s = 23 then handle_read_write_registers p cb
       else if fc s = 1 \<or> fc s = 2 \<or> fc s = 4 \<or> fc s = 5 \<or> fc s = 6 \<or> fc s = 15 \<or> fc s = 20 \<or>
               fc s = 21 \<or> fc s = 43 then other (fc s)
       else
         nm_bind (flush p) (\<lambda>_. if ignored s then nm_return () else send_exception_msg p 1))"

definition nmbs_server_poll :: "(u8 \<Rightarrow> ('w, unit) nm) \<Rightarrow> 'w platform \<Rightarrow> 'w callbacks \<Rightarrow> ('w, unit) nm" where
  "nmbs_server_poll other p cb = (\<lambda>sw.
     case nm_bind (nm_modify msg_state_reset) (\<lambda>_. recv_first_byte p) sw of
       (Inl e, sw1) \<Rightarrow> (if e = TIMEOUT then Inr () else Inl e, sw1)
     | (Inr _, sw1) \<Rightarrow>
         (case recv_req_header p sw1 of
            (Inl e, sw2) \<Rightarrow> (Inl e, sw2)
          | (Inr _, sw2) \<Rightarrow>
              (case handle_req_fc other p cb sw2 of
                 (Inl e, sw3) \<Rightarrow>
                   (if e \<noteq> TIMEOUT
                    then (case flush p sw3 of (_, sw4) \<Rightarrow> (Inl e, sw4)) else (Inl e, sw3))
               | (Inr _, sw3) \<Rightarrow> (Inr (), sw3))))"

text \<open>\<open>nmbs_create\<close> with an RTU platform, as \<open>nmbs_platform_conf_create\<close> leaves it.\<close>

definition nmbs_create :: nmbs where
  "nmbs_create = \<lparr>buf = replicate 260 0, buf_idx = 0, unit_id = 0, fc = 0, transaction_id = 0,
     broadcast = False, ignored = False, complete = False, byte_timeout_ms = -1, read_timeout_ms = -1,
     address_rtu = 0, dest_address_rtu = 0, current_tid = 0\<rparr>"

definition nmbs_client_create :: nmbs where
  "nmbs_client_create = nmbs_create"

definition nmbs_server_create :: "u8 \<Rightarrow> nmbs_error + nmbs" where
  "nmbs_server_create address = (if address = 0 then Inl INVALID_ARGUMENT
     else Inr (nmbs_create\<lparr>address_rtu := address\<rparr>))"

end
