(* ===== verification/ModbusFrames.thy ===== *)
theory ModbusFrames
  imports Nanomodbus
begin

text \<open>
  Running the Modbus library on whole frames. A message buffer is described by the bytes already
  handled and the bytes received but not yet read; each primitive moves bytes between the two.
  The contract of the platform under it is the locale \<open>byte_link\<close>: bytes that are available
  are read exactly, and a write is accepted in full. Inside it the client's and the server's
  routines are shown to accept exactly the frames the other side composes.
\<close>

unbundle bit_operations_syntax

section \<open>Successful runs\<close>

definition ok :: "('w, 'a) nm \<Rightarrow> nmbs \<Rightarrow> 'w \<Rightarrow> 'a \<Rightarrow> nmbs \<Rightarrow> 'w \<Rightarrow> bool" where
  "ok m s w a s' w' \<longleftrightarrow> m (s, w) = (Inr a, s', w')"

lemma ok_bind: "ok m s w a s1 w1 \<Longrightarrow> ok (f a) s1 w1 b s2 w2 \<Longrightarrow> ok (nm_bind m f) s w b s2 w2"
  by (simp add: ok_def nm_bind_eq)

lemma ok_run [simp]:
  "ok (nm_return a) s w b s' w' \<longleftrightarrow> b = a \<and> s' = s \<and> w' = w"
  "ok (nm_modify f) s w u s' w' \<longleftrightarrow> s' = f s \<and> w' = w"
  "ok nm_get s w x s' w' \<longleftrightarrow> x = s \<and> s' = s \<and> w' = w"
  by (auto simp: ok_def)

section \<open>The buffer\<close>

definition view :: "nmbs \<Rightarrow> u8 list \<Rightarrow> u8 list \<Rightarrow> bool" where
  "view s d r \<longleftrightarrow> length (buf s) = 260 \<and> buf_idx s = length d \<and> length d + length r \<le> 260 \<and>
     take (length d + length r) (buf s) = d @ r"

definition adv :: "nat \<Rightarrow> nmbs \<Rightarrow> nmbs" where
  "adv n s = s\<lparr>buf_idx := buf_idx s + n\<rparr>"

definition fill :: "u8 list \<Rightarrow> nmbs \<Rightarrow> nmbs" where
  "fill bs s = s\<lparr>buf := overwrite (buf_idx s) bs (buf s)\<rparr>"

lemma adv_fill_fields [simp]:
  "unit_id (adv n s) = unit_id s" "fc (adv n s) = fc s" "broadcast (adv n s) = broadcast s"
  "ignored (adv n s) = ignored s" "complete (adv n s) = complete s"
  "byte_timeout_ms (adv n s) = byte_timeout_ms s" "read_timeout_ms (adv n s) = read_timeout_ms s"
  "address_rtu (adv n s) = address_rtu s" "dest_address_rtu (adv n s) = dest_address_rtu s"
  "unit_id (fill b s) = unit_id s" "fc (fill b s) = fc s" "broadcast (fill b s) = broadcast s"
  "ignored (fill b s) = ignored s" "complete (fill b s) = complete s"
  "byte_timeout_ms (fill b s) = byte_timeout_ms s" "read_timeout_ms (fill b s) = read_timeout_ms s"
  "address_rtu (fill b s) = address_rtu s" "dest_address_rtu (fill b s) = dest_address_rtu s"
  by (simp_all add: adv_def fill_def)

lemma length_overwrite [simp]: "i + length bs \<le> length b \<Longrightarrow> length (overwrite i bs b) = length b"
  by (simp add: overwrite_def)

lemma take_overwrite: "i \<le> length b \<Longrightarrow> take (i + length bs) (overwrite i bs b) = take i b @ bs"
  by (simp add: overwrite_def)

lemma view_nth: "view s d (x # r) \<Longrightarrow> buf s ! length d = x"
proof -
  assume v: "view s d (x # r)"
  then have "take (length d + length (x # r)) (buf s) ! length d = x" by (simp add: view_def)
  then show ?thesis using v by (simp add: view_def)
qed

lemma view_adv: "view s d (bs @ r) \<Longrightarrow> view (adv (length bs) s) (d @ bs) r"
  by (simp add: view_def adv_def add.assoc)

lemma view_fill: "view s d [] \<Longrightarrow> length d + length bs \<le> 260 \<Longrightarrow> view (fill bs s) d bs"
  using take_overwrite [of "buf_idx s" "buf s" bs] by (simp add: view_def fill_def)

lemma view_take: "view s d [] \<Longrightarrow> take (buf_idx s) (buf s) = d"
  by (simp add: view_def)

lemma view_unread: "view s d r \<Longrightarrow> view s d []"
proof -
  assume v: "view s d r"
  then have "take (length d) (take (length d + length r) (buf s)) = d" by (simp add: view_def)
  then have "take (length d) (buf s) = d" by (simp add: min_def)
  with v show ?thesis by (simp add: view_def)
qed

lemma ok_get_1: "view s d (x # r) \<Longrightarrow> ok get_1 s w x (adv 1 s) w"
  using view_nth [of s d x r] by (simp add: ok_def get_1_def adv_def view_def)

lemma ok_get_2: "view s d (h # l # r) \<Longrightarrow> ok get_2 s w (join16 h l) (adv 2 s) w"
  using view_nth [of s d h "l # r"] view_nth [of "adv 1 s" "d @ [h]" l r] view_adv [of s d "[h]" "l # r"]
  by (simp add: ok_def get_2_def adv_def view_def)

text \<open>Big-endian lists of registers.\<close>

fun be16s :: "u8 list \<Rightarrow> u16 list" where
  "be16s (h # l # r) = join16 h l # be16s r"
| "be16s bs = []"

fun bytes16 :: "u16 list \<Rightarrow> u8 list" where
  "bytes16 [] = []"
| "bytes16 (r # rs) = high8 r # low8 r # bytes16 rs"

lemma length_bytes16 [simp]: "length (bytes16 rs) = 2 * length rs"
  by (induction rs) auto

lemma be16s_bytes16 [simp]: "be16s (bytes16 rs) = rs"
  by (induction rs) auto

lemma ok_get_regs:
  "view s d (bytes16 rs @ r) \<Longrightarrow> ok (get_regs (length rs)) s w rs (adv (2 * length rs) s) w"
proof (induction rs arbitrary: s d)
  case Nil
  then show ?case by (simp add: adv_def)
next
  case (Cons x rs)
  have g: "ok get_2 s w (join16 (high8 x) (low8 x)) (adv 2 s) w"
    by (rule ok_get_2) (use Cons.prems in simp)
  have "view (adv 2 s) (d @ [high8 x, low8 x]) (bytes16 rs @ r)"
    using view_adv [of s d "[high8 x, low8 x]" "bytes16 rs @ r"] Cons.prems by (simp add: numeral_2_eq_2)
  from Cons.IH [OF this] have "ok (get_regs (length rs)) (adv 2 s) w rs (adv (2 * length rs) (adv 2 s)) w" .
  with g show ?case
    by (auto intro!: ok_bind [OF g] ok_bind simp: adv_def)
qed

definition app :: "u8 list \<Rightarrow> nmbs \<Rightarrow> nmbs" where
  "app bs s = adv (length bs) (fill bs s)"

lemma app_fields [simp]:
  "unit_id (app b s) = unit_id s" "fc (app b s) = fc s" "broadcast (app b s) = broadcast s"
  "ignored (app b s) = ignored s" "complete (app b s) = complete s"
  "byte_timeout_ms (app b s) = byte_timeout_ms s" "read_timeout_ms (app b s) = read_timeout_ms s"
  "address_rtu (app b s) = address_rtu s" "dest_address_rtu (app b s) = dest_address_rtu s"
  by (simp_all add: app_def)

lemma view_app: "view s d [] \<Longrightarrow> length d + length bs \<le> 260 \<Longrightarrow> view (app bs s) (d @ bs) []"
  using view_adv [of "fill bs s" d bs "[]"] view_fill by (simp add: app_def)

lemma overwrite_1: "i < length b \<Longrightarrow> b[i := x] = overwrite i [x] b"
  by (simp add: overwrite_def upd_conv_take_nth_drop)

lemma overwrite_append:
  "i + length xs + length ys \<le> length b \<Longrightarrow> overwrite (i + length xs) ys (overwrite i xs b) = overwrite i (xs @ ys) b"
  by (simp add: overwrite_def add.commute add.left_commute)

lemma overwrite_2: "i + 1 < length b \<Longrightarrow> b[i := x, i + 1 := y] = overwrite i [x, y] b"
  using overwrite_append [of i "[x]" "[y]" b] by (simp add: overwrite_1)

lemma ok_put_1: "view s d [] \<Longrightarrow> length d < 260 \<Longrightarrow> ok (put_1 x) s w () (app [x] s) w"
  by (simp add: put_1_def app_def adv_def fill_def view_def overwrite_1)

lemma high8_mask: "(ucast (drop_bit 8 x AND 0xFF) :: u8) = high8 (x :: u16)"
  by (rule low8_mask)

lemma ok_put_2: "view s d [] \<Longrightarrow> length d + 1 < 260 \<Longrightarrow> ok (put_2 x) s w () (app [high8 x, low8 x] s) w"
  using overwrite_2 [of "length d" "buf s" "high8 x" "low8 x"]
  by (simp add: put_2_def app_def adv_def fill_def view_def high8_mask del: low8_mask)

lemma app_app: "view s d [] \<Longrightarrow> length d + length xs + length ys \<le> 260 \<Longrightarrow> app ys (app xs s) = app (xs @ ys) s"
  using overwrite_append [of "length d" xs ys "buf s"]
  by (simp add: app_def adv_def fill_def view_def add.assoc)

lemma ok_put_regs:
  "view s d [] \<Longrightarrow> length d + 2 * length rs \<le> 260 \<Longrightarrow> ok (put_regs rs) s w () (app (bytes16 rs) s) w"
proof (induction rs arbitrary: s d)
  case Nil
  then show ?case by (simp add: app_def adv_def fill_def overwrite_def)
next
  case (Cons x rs)
  let ?x = "[high8 x, low8 x]"
  have "view (app ?x s) (d @ ?x) []" using Cons.prems by (intro view_app) simp_all
  then have "ok (put_regs rs) (app ?x s) w () (app (bytes16 rs) (app ?x s)) w"
    using Cons.prems by (intro Cons.IH [of _ "d @ ?x"]) simp_all
  moreover have "app (bytes16 rs) (app ?x s) = app (bytes16 (x # rs)) s"
    using app_app [OF Cons.prems(1), of ?x "bytes16 rs"] Cons.prems(2) by simp
  ultimately show ?case
    using Cons.prems by (auto intro!: ok_bind [OF ok_put_2])
qed

section \<open>Frames\<close>

definition modbus_frame :: "u8 \<Rightarrow> u8 \<Rightarrow> u8 list \<Rightarrow> u8 list" where
  "modbus_frame u f body = (let m = u # f # body; c = nmbs_crc_calc m in m @ [high8 c, low8 c])"

definition read_body :: "u16 list \<Rightarrow> u8 list" where
  "read_body rs = word_of_nat (2 * length rs) # bytes16 rs"

definition write_request_body :: "u16 \<Rightarrow> u16 list \<Rightarrow> u8 list" where
  "write_request_body a rs = bytes16 [a, word_of_nat (length rs)] @ read_body rs"

definition exchange_request_body :: "u16 \<Rightarrow> u16 \<Rightarrow> u16 \<Rightarrow> u16 list \<Rightarrow> u8 list" where
  "exchange_request_body ra rq wa rs = bytes16 [ra, rq, wa, word_of_nat (length rs)] @ read_body rs"

text \<open>The configuration a request does not change, and a buffer that just took a header.\<close>

definition cfg :: "nmbs \<Rightarrow> int \<times> int \<times> u8 \<times> u8" where
  "cfg s = (byte_timeout_ms s, read_timeout_ms s, address_rtu s, dest_address_rtu s)"

definition ready :: "nmbs \<Rightarrow> bool" where
  "ready s \<longleftrightarrow> length (buf s) = 260 \<and> 0 < byte_timeout_ms s \<and> 0 < read_timeout_ms s"

definition fresh_flags :: "nmbs \<Rightarrow> bool" where
  "fresh_flags s \<longleftrightarrow> \<not> broadcast s \<and> \<not> ignored s \<and> \<not> complete s"

definition headed :: "nmbs \<Rightarrow> u8 \<Rightarrow> u8 \<Rightarrow> bool" where
  "headed s u f \<longleftrightarrow> view s [u, f] [] \<and> unit_id s = u \<and> fc s = f \<and> fresh_flags s \<and> ready s"

lemma cfg_simps [simp]: "cfg (adv n s) = cfg s" "cfg (fill b s) = cfg s" "cfg (app b s) = cfg s"
  by (simp_all add: cfg_def)

lemma flags_simps [simp]: "fresh_flags (adv n s) = fresh_flags s" "fresh_flags (fill b s) = fresh_flags s"
  "fresh_flags (app b s) = fresh_flags s"
  by (simp_all add: fresh_flags_def)

lemma view_ready: "view s d r \<Longrightarrow> 0 < byte_timeout_ms s \<Longrightarrow> 0 < read_timeout_ms s \<Longrightarrow> ready s"
  by (simp add: view_def ready_def)

section \<open>The platform's contract\<close>

locale byte_link =
  fixes p :: "'w platform"
    and avail :: "'w \<Rightarrow> u8 list"
    and consume :: "nat \<Rightarrow> 'w \<Rightarrow> 'w"
    and emit :: "u8 list \<Rightarrow> 'w \<Rightarrow> 'w"
  assumes read_avail: "0 < t \<Longrightarrow> n \<le> length (avail w) \<Longrightarrow>
      p_read p n t w = ((int n, take n (avail w)), consume n w)"
    and avail_consume: "avail (consume n w) = drop n (avail w)"
    and consume_consume: "consume m (consume n w) = consume (n + m) w"
    and write_all: "bs \<noteq> [] \<Longrightarrow> p_write p bs t w = (int (length bs), emit bs w)"
begin

lemma ok_recv:
  assumes "view s d []" and "\<not> complete s" and "0 < byte_timeout_ms s" and "avail w = bs @ r"
  shows "ok (recv p (length bs)) s w () (fill bs s) (consume (length bs) w)"
  using assms read_avail [of "byte_timeout_ms s" "length bs" w]
  by (simp add: ok_def recv_def fill_def)

lemma ok_footer:
  assumes "view s d []" and "\<not> complete s" and "0 < byte_timeout_ms s" and "length d + 2 \<le> 260"
    and "avail w = high8 (nmbs_crc_calc d) # low8 (nmbs_crc_calc d) # r"
  shows "ok (recv_msg_footer p) s w () (adv 2 (fill [high8 (nmbs_crc_calc d), low8 (nmbs_crc_calc d)] s)) (consume 2 w)"
proof -
  let ?bs = "[high8 (nmbs_crc_calc d), low8 (nmbs_crc_calc d)]"
  have v: "view (fill ?bs s) d ?bs" using assms(1,4) by (intro view_fill) simp_all
  have "ok (recv p (length ?bs)) s w () (fill ?bs s) (consume (length ?bs) w)"
    using assms by (intro ok_recv [of _ d _ _ r]) simp_all
  then have r: "ok (recv p 2) s w () (fill ?bs s) (consume 2 w)" by (simp add: numeral_2_eq_2)
  have g: "ok get_2 (fill ?bs s) w' (nmbs_crc_calc d) (adv 2 (fill ?bs s)) w'" for w'
    using ok_get_2 [OF v, of w'] by (simp only: join16_split)
  show ?thesis
    unfolding recv_msg_footer_def Let_def view_take [OF assms(1)]
    by (rule ok_bind [of nm_get s w s s w]) (simp_all add: view_take [OF assms(1)] ok_bind [OF r] ok_bind [OF g])
qed

lemma ok_first_byte:
  assumes "ready s" and "avail w = u # r"
  shows "\<exists>s1. ok (recv_first_byte p) s w () s1 (consume 1 w) \<and> view s1 [] [u] \<and> fresh_flags s1 \<and>
    cfg s1 = cfg s"
proof -
  let ?s0 = "msg_state_reset (s\<lparr>byte_timeout_ms := read_timeout_ms s\<rparr>)"
  have v: "view ?s0 [] []" using assms(1) by (simp add: view_def ready_def msg_state_reset_def msg_buf_reset_def)
  have "ok (recv p (length [u])) ?s0 w () (fill [u] ?s0) (consume (length [u]) w)"
    by (rule ok_recv [OF v]) (use assms in \<open>simp_all add: ready_def msg_state_reset_def msg_buf_reset_def\<close>)
  then have "recv p 1 (?s0, w) = (Inr (), fill [u] ?s0, consume 1 w)" by (simp add: ok_def)
  moreover have "view (fill [u] ?s0) [] [u]" using view_fill [OF v, of "[u]"] by simp
  ultimately show ?thesis
    by (intro exI [of _ "(fill [u] ?s0)\<lparr>byte_timeout_ms := byte_timeout_ms s\<rparr>"])
      (simp add: recv_first_byte_def ok_def nm_bind_eq view_def fresh_flags_def cfg_def
        msg_state_reset_def msg_buf_reset_def)
qed

lemma ok_header_rest:
  assumes "view s [] [u]" and "fresh_flags s" and "0 < byte_timeout_ms s" and "0 < read_timeout_ms s"
    and "avail w = f # r"
  shows "\<exists>s2. ok (recv_header_rest p) s w () s2 (consume 1 w) \<and> headed s2 u f \<and> cfg s2 = cfg s"
proof -
  let ?s1 = "(adv 1 s)\<lparr>unit_id := u\<rparr>"
  let ?s2 = "(adv 1 (fill [f] ?s1))\<lparr>fc := f\<rparr>"
  have v1: "view ?s1 [u] []" using view_adv [of s "[]" "[u]" "[]"] assms(1) by (simp add: view_def)
  have "ok (recv p (length [f])) ?s1 w () (fill [f] ?s1) (consume (length [f]) w)"
    by (rule ok_recv [OF v1]) (use assms in \<open>simp_all add: fresh_flags_def\<close>)
  then have r: "ok (recv p 1) ?s1 w () (fill [f] ?s1) (consume 1 w)" by simp
  have v2: "view (fill [f] ?s1) [u] [f]" using view_fill [OF v1, of "[f]"] by simp
  have v3: "view (adv 1 (fill [f] ?s1)) [u, f] []" using view_adv [of _ "[u]" "[f]" "[]"] v2 by simp
  have "ok (recv_header_rest p) s w () ?s2 (consume 1 w)"
    unfolding recv_header_rest_def
    by (rule ok_bind [OF ok_get_1 [OF assms(1)]], rule ok_bind [of _ _ _ "()" ?s1 w], simp,
        rule ok_bind [OF r], rule ok_bind [OF ok_get_1 [OF v2]], simp)
  moreover have "headed ?s2 u f"
    using v3 assms(2-4) by (simp add: headed_def view_def fresh_flags_def ready_def)
  ultimately show ?thesis by (intro exI [of _ ?s2]) (simp add: cfg_def)
qed

lemma ok_header:
  assumes "ready s" and "avail w = u # f # r"
  shows "\<exists>s2. ok (recv_msg_header p) s w () s2 (consume 2 w) \<and> headed s2 u f \<and> cfg s2 = cfg s"
proof -
  from ok_first_byte [OF assms] obtain s1 where
    s1: "ok (recv_first_byte p) s w () s1 (consume 1 w)" "view s1 [] [u]" "fresh_flags s1" "cfg s1 = cfg s"
    by blast
  have "0 < byte_timeout_ms s1" "0 < read_timeout_ms s1" using assms(1) s1(4) by (auto simp: ready_def cfg_def)
  moreover have "avail (consume 1 w) = f # r" by (simp add: avail_consume assms(2))
  ultimately obtain s2 where s2: "ok (recv_header_rest p) s1 (consume 1 w) () s2 (consume 1 (consume 1 w))"
      "headed s2 u f" "cfg s2 = cfg s1"
    using ok_header_rest [OF s1(2,3)] by blast
  have "consume 1 (consume 1 w) = consume 2 w" by (simp add: consume_consume numeral_2_eq_2)
  then show ?thesis using ok_bind [OF s1(1)] s1(4) s2 unfolding recv_msg_header_def by metis
qed

end

section \<open>The client's responses\<close>

context byte_link
begin

lemma ok_recv_at:
  assumes "view s d []" and "fresh_flags s" and "ready s" and "avail w = bs @ r" and "n = length bs"
  shows "ok (recv p n) s w () (fill bs s) (consume n w)"
  using ok_recv [OF assms(1) _ _ assms(4)] assms by (simp add: ready_def fresh_flags_def)

lemma ok_recv_view:
  assumes "view s d []" and "fresh_flags s" and "ready s" and "avail w = bs @ r" and "n = length bs"
    and "length d + n \<le> 260"
  shows "ok (recv p n) s w () (fill bs s) (consume n w) \<and> view (fill bs s) d bs \<and>
    ready (fill bs s) \<and> avail (consume n w) = r"
  using ok_recv_at [OF assms(1-5)] view_fill [OF assms(1), of bs] assms
  by (simp add: avail_consume ready_def view_def)

lemma ok_footer_at:
  assumes "view s d []" and "fresh_flags s" and "ready s" and "length d + 2 \<le> 260"
    and "avail w = [high8 (nmbs_crc_calc d), low8 (nmbs_crc_calc d)] @ r"
  shows "\<exists>s'. ok (recv_msg_footer p) s w () s' (consume 2 w) \<and> cfg s' = cfg s \<and> ready s' \<and>
    fresh_flags s' \<and> unit_id s' = unit_id s \<and> fc s' = fc s"
proof -
  let ?c = "[high8 (nmbs_crc_calc d), low8 (nmbs_crc_calc d)]"
  have v: "view (adv (length ?c) (fill ?c s)) (d @ ?c) []"
    by (rule view_adv) (use view_fill [OF assms(1), of ?c] assms(4) in simp)
  have "ok (recv_msg_footer p) s w () (adv 2 (fill ?c s)) (consume 2 w)"
    using assms by (intro ok_footer [OF assms(1)]) (simp_all add: ready_def fresh_flags_def)
  then show ?thesis
    using assms(2,3) v by (intro exI [of _ "adv 2 (fill ?c s)"]) (simp add: ready_def view_def numeral_2_eq_2)
qed

lemma ok_res_header:
  assumes "ready s" and "avail w = unit_id s # fc s # r"
  shows "\<exists>s2. ok (recv_res_header p) s w () s2 (consume 2 w) \<and> headed s2 (unit_id s) (fc s) \<and> cfg s2 = cfg s"
proof -
  from ok_header [OF assms] obtain s2 where
    h: "ok (recv_msg_header p) s w () s2 (consume 2 w)" "headed s2 (unit_id s) (fc s)" "cfg s2 = cfg s" by blast
  have "ok (recv_res_header p) s w () s2 (consume 2 w)"
    unfolding recv_res_header_def
    by (rule ok_bind [of _ _ _ s s w], simp, rule ok_bind [OF h(1)],
        rule ok_bind [of _ _ _ s2 s2 "consume 2 w"], simp)
      (use h(2) in \<open>simp add: headed_def\<close>)
  with h show ?thesis by blast
qed

lemma consume_eq: "i + j = k \<Longrightarrow> consume j (consume i w) = consume k w"
  by (simp add: consume_consume)

lemma ok_read_res:
  assumes "ready s" and "length rs = unat q" and "unat q \<le> 125"
    and "avail w = modbus_frame (unit_id s) (fc s) (read_body rs) @ r"
  shows "\<exists>s'. ok (recv_read_registers_res p q) s w rs s' (consume (length (modbus_frame (unit_id s) (fc s) (read_body rs))) w) \<and>
    cfg s' = cfg s \<and> ready s'"
proof -
  let ?u = "unit_id s" and ?f = "fc s"
  obtain b :: u8 where b: "b = word_of_nat (2 * length rs)" by simp
  let ?d = "[?u, ?f, b] @ bytes16 rs"
  let ?c = "[high8 (nmbs_crc_calc ?d), low8 (nmbs_crc_calc ?d)]"
  have n: "unat b = 2 * length rs" unfolding b using assms(2,3) by (intro unat_word_of_nat_u8) simp
  have nn: "\<not> 250 < b" "uint b = uint q * 2"
    using n assms(2,3) unfolding uint_double_iff word_less_nat_alt by simp_all
  have av: "avail w = ?u # ?f # [b] @ bytes16 rs @ ?c @ r"
    using assms(4) by (simp add: modbus_frame_def read_body_def Let_def b)
  from ok_res_header [OF assms(1) av] obtain s2 where
    h: "ok (recv_res_header p) s w () s2 (consume 2 w)" "headed s2 ?u ?f" "cfg s2 = cfg s" by blast
  have s2: "view s2 [?u, ?f] []" "fresh_flags s2" "ready s2" using h(2) by (simp_all add: headed_def)
  have w2: "avail (consume 2 w) = [b] @ bytes16 rs @ ?c @ r" by (simp add: avail_consume av)
  from ok_recv_view [OF s2 w2, of 1] have
    r1: "ok (recv p 1) s2 (consume 2 w) () (fill [b] s2) (consume 1 (consume 2 w))"
      "view (fill [b] s2) [?u, ?f] [b]" "ready (fill [b] s2)"
      "avail (consume 1 (consume 2 w)) = bytes16 rs @ ?c @ r" by simp_all
  let ?s3 = "adv 1 (fill [b] s2)"
  have s3: "view ?s3 [?u, ?f, b] []" using view_adv [of _ "[?u, ?f]" "[b]" "[]"] r1(2) by simp
  have s3': "fresh_flags ?s3" "ready ?s3" using s2(2) r1(3) s3 by (simp_all add: ready_def view_def)
  from ok_recv_view [OF s3 s3' r1(4), of "unat b"] n assms(2,3) have
    r2: "ok (recv p (unat b)) ?s3 (consume 1 (consume 2 w)) () (fill (bytes16 rs) ?s3)
        (consume (2 * length rs) (consume 1 (consume 2 w)))"
      "view (fill (bytes16 rs) ?s3) [?u, ?f, b] (bytes16 rs)"
      "avail (consume (2 * length rs) (consume 1 (consume 2 w))) = ?c @ r" by simp_all
  let ?s4 = "adv (2 * length rs) (fill (bytes16 rs) ?s3)"
  have s4: "view ?s4 ?d []" using view_adv [of _ "[?u, ?f, b]" "bytes16 rs" "[]"] r2(2) by simp
  have s4': "fresh_flags ?s4" "ready ?s4" using s3' s4 by (simp_all add: ready_def view_def)
  have g: "ok (get_regs (unat b div 2)) (fill (bytes16 rs) ?s3) w' rs ?s4 w'" for w'
    using ok_get_regs [of "fill (bytes16 rs) ?s3" "[?u, ?f, b]" rs "[]" w'] r2(2) by (simp add: n)
  from ok_footer_at [OF s4 s4' _ r2(3)] assms(2,3) obtain s5 where
    f: "ok (recv_msg_footer p) ?s4 (consume (2 * length rs) (consume 1 (consume 2 w))) () s5
        (consume 2 (consume (2 * length rs) (consume 1 (consume 2 w))))"
      "cfg s5 = cfg ?s4" "ready s5" by auto
  have "ok (recv_read_registers_res p q) s w rs s5
      (consume 2 (consume (2 * length rs) (consume 1 (consume 2 w))))"
    unfolding recv_read_registers_res_def
    by (rule ok_bind [OF h(1)], rule ok_bind [OF r1(1)], rule ok_bind [OF ok_get_1 [OF r1(2)]])
      (subst if_not_P, use nn in simp, rule ok_bind [OF r2(1)], rule ok_bind [OF g], rule ok_bind [OF f(1)], simp)
  moreover have "length (modbus_frame ?u ?f (read_body rs)) = 2 + 1 + 2 * length rs + 2"
    by (simp add: modbus_frame_def read_body_def Let_def)
  moreover have "consume 2 (consume (2 * length rs) (consume 1 (consume 2 w))) =
      consume (length (modbus_frame ?u ?f (read_body rs))) w"
    unfolding calculation(2) by (simp only: consume_consume)
  ultimately show ?thesis using f(2,3) h(3) by (intro exI [of _ s5]) simp
qed

end

section \<open>Sending\<close>

lemma nm_bind_assoc: "nm_bind (nm_bind m f) g = nm_bind m (\<lambda>x. nm_bind (f x) g)"
  by (rule ext) (simp add: nm_bind_def split: prod.splits sum.splits)

text \<open>A routine that appends given bytes to the message.\<close>

definition appends :: "('w, unit) nm \<Rightarrow> u8 list \<Rightarrow> bool" where
  "appends m bs \<longleftrightarrow> (\<forall>s d w. view s d [] \<longrightarrow> length d + length bs \<le> 260 \<longrightarrow> ok m s w () (app bs s) w)"

lemma appendsD: "appends m bs \<Longrightarrow> view s d [] \<Longrightarrow> length d + length bs \<le> 260 \<Longrightarrow> ok m s w () (app bs s) w"
  by (simp add: appends_def)

lemma appends_put_1: "appends (put_1 x) [x]"
  by (simp add: appends_def ok_put_1)

lemma appends_put_2: "appends (put_2 x) (bytes16 [x])"
  by (simp add: appends_def ok_put_2)

lemma appends_put_regs: "appends (put_regs rs) (bytes16 rs)"
  by (simp add: appends_def ok_put_regs)

lemma appends_bind:
  assumes "appends m bs" and "appends m' cs"
  shows "appends (nm_bind m (\<lambda>_. m')) (bs @ cs)"
  unfolding appends_def
proof (intro allI impI)
  fix s d w assume v: "view s d []" and l: "length d + length (bs @ cs) \<le> 260"
  then have "ok m s w () (app bs s) w" using assms(1) by (simp add: appends_def)
  moreover have "view (app bs s) (d @ bs) []" using v l by (intro view_app) simp_all
  then have "ok m' (app bs s) w () (app cs (app bs s)) w"
    using assms(2) l unfolding appends_def by (metis add.assoc length_append)
  moreover have "app cs (app bs s) = app (bs @ cs) s" using v l by (intro app_app [of _ d]) simp_all
  ultimately show "ok (nm_bind m (\<lambda>_. m')) s w () (app (bs @ cs) s) w"
    by (auto intro: ok_bind)
qed

lemmas appends_rules = appends_bind appends_put_1 appends_put_2 appends_put_regs

text \<open>What a message sent leaves as it was.\<close>

definition same_head :: "nmbs \<Rightarrow> nmbs \<Rightarrow> bool" where
  "same_head s s' \<longleftrightarrow> cfg s' = cfg s \<and> unit_id s' = unit_id s \<and> fc s' = fc s \<and>
     broadcast s' = broadcast s \<and> ignored s' = ignored s \<and> complete s' = complete s"

context byte_link
begin

lemma ok_send_msg:
  assumes "view s d []" and "length d \<le> 258"
  shows "ok (send_msg p) s w () (app [high8 (nmbs_crc_calc d), low8 (nmbs_crc_calc d)] s)
    (emit (d @ [high8 (nmbs_crc_calc d), low8 (nmbs_crc_calc d)]) w)"
proof -
  let ?c = "[high8 (nmbs_crc_calc d), low8 (nmbs_crc_calc d)]" and ?s = "app [high8 (nmbs_crc_calc d), low8 (nmbs_crc_calc d)] s"
  have v: "view ?s (d @ ?c) []" using assms by (intro view_app) simp_all
  have "ok (send p (buf_idx ?s)) ?s w () ?s (emit (d @ ?c) w)"
    using v write_all [of "d @ ?c"] view_take [OF v] by (simp add: ok_def send_def view_def)
  moreover have "ok (put_2 (nmbs_crc_calc d)) s w () ?s w" using assms by (intro ok_put_2 [of _ d]) simp_all
  ultimately show ?thesis
    unfolding send_msg_def
    by (intro ok_bind [of nm_get s w s s w] ok_bind [of _ s w "()" ?s w] ok_bind [of nm_get ?s w ?s ?s w])
      (simp_all add: view_take [OF assms(1)])
qed

lemma ok_transmit:
  assumes "appends P body" and "ready s" and "length body \<le> 256"
  shows "\<exists>s'. ok (nm_bind put_msg_header (\<lambda>_. nm_bind P (\<lambda>_. send_msg p))) s w () s'
      (emit (modbus_frame (unit_id s) (fc s) body) w) \<and> same_head s s' \<and> ready s'"
proof -
  let ?s0 = "msg_buf_reset s" and ?d = "unit_id s # fc s # body"
  let ?c = "[high8 (nmbs_crc_calc ?d), low8 (nmbs_crc_calc ?d)]"
  let ?s1 = "app [unit_id s, fc s] ?s0"
  have v0: "view ?s0 [] []" using assms(2) by (simp add: view_def ready_def msg_buf_reset_def)
  have f0: "unit_id ?s0 = unit_id s" "fc ?s0 = fc s" by (simp_all add: msg_buf_reset_def)
  have "appends (nm_bind (put_1 (unit_id s)) (\<lambda>_. put_1 (fc s))) ([unit_id s] @ [fc s])"
    by (intro appends_rules)
  then have h: "ok put_msg_header s w () ?s1 w"
    unfolding put_msg_header_def using v0
    by (intro ok_bind [of "nm_modify msg_buf_reset" s w "()" ?s0 w] ok_bind [of nm_get ?s0 w ?s0 ?s0 w])
      (simp_all add: f0, use appendsD [OF _ v0] in force)
  have v1: "view ?s1 [unit_id s, fc s] []" using view_app [OF v0, of "[unit_id s, fc s]"] by simp
  have P: "ok P ?s1 w () (app body ?s1) w" using assms(1,3) v1 by (simp add: appends_def)
  have v2: "view (app body ?s1) ?d []" using view_app [OF v1, of body] assms(3) by simp
  have S: "ok (send_msg p) (app body ?s1) w () (app ?c (app body ?s1)) (emit (?d @ ?c) w)"
    using v2 assms(3) by (intro ok_send_msg) simp_all
  have "view (app ?c (app body ?s1)) (?d @ ?c) []" using v2 assms(3) by (intro view_app) simp_all
  then have "ready (app ?c (app body ?s1))" using assms(2) by (simp add: view_def ready_def msg_buf_reset_def)
  moreover have "same_head s (app ?c (app body ?s1))"
    by (simp add: same_head_def msg_buf_reset_def cfg_def)
  moreover have "ok (nm_bind put_msg_header (\<lambda>_. nm_bind P (\<lambda>_. send_msg p))) s w ()
      (app ?c (app body ?s1)) (emit (?d @ ?c) w)"
    by (rule ok_bind [OF h], rule ok_bind [OF P], rule S)
  ultimately show ?thesis by (auto simp: modbus_frame_def Let_def)
qed

lemma ok_put_registers_res:
  assumes "ready s" and "length rs = unat q" and "unat q \<le> 125"
  shows "\<exists>s'. ok (put_registers_res p q rs) s w () s'
      (emit (modbus_frame (unit_id s) (fc s) (read_body rs)) w) \<and> same_head s s' \<and> ready s'"
proof -
  have "(ucast (q * 2) :: u8) = word_of_nat (2 * length rs)"
    using low8_double [of q] assms(2,3) by simp
  then have "put_registers_res p q rs = nm_bind put_msg_header (\<lambda>_.
      nm_bind (nm_bind (put_1 (word_of_nat (2 * length rs))) (\<lambda>_. put_regs rs)) (\<lambda>_. send_msg p))"
    using assms(2) by (simp add: put_registers_res_def nm_bind_assoc)
  moreover have "appends (nm_bind (put_1 (word_of_nat (2 * length rs))) (\<lambda>_. put_regs rs))
      ([word_of_nat (2 * length rs)] @ bytes16 rs)"
    by (intro appends_rules)
  then have "appends (nm_bind (put_1 (word_of_nat (2 * length rs))) (\<lambda>_. put_regs rs)) (read_body rs)"
    by (simp add: read_body_def)
  ultimately show ?thesis
    using ok_transmit [OF _ assms(1), of _ "read_body rs"] assms(2,3) by (simp add: read_body_def)
qed

end

section \<open>Receiving a request\<close>

lemma low8_small: "n < 256 \<Longrightarrow> unat (word_of_nat n :: u8) = n"
  by (rule unat_word_of_nat_u8)

context byte_link
begin

text \<open>Receive some bytes and read registers from them: the state between two primitives.\<close>

definition at :: "nmbs \<Rightarrow> 'w \<Rightarrow> u8 list \<Rightarrow> u8 list \<Rightarrow> u8 list \<Rightarrow> bool" where
  "at s w d pend todo \<longleftrightarrow> view s d pend \<and> ready s \<and> fresh_flags s \<and> (\<exists>r. avail w = todo @ r)"

lemma at_recv:
  assumes "at s w d [] (bs @ todo)" and "n = length bs" and "length d + n \<le> 260"
  shows "ok (recv p n) s w () (fill bs s) (consume n w)" and "at (fill bs s) (consume n w) d bs todo"
proof -
  obtain r where r: "avail w = bs @ todo @ r" using assms(1) by (auto simp: at_def)
  from ok_recv_view [OF _ _ _ r assms(2,3)] assms(1) show "ok (recv p n) s w () (fill bs s) (consume n w)"
    by (simp add: at_def)
  from ok_recv_view [OF _ _ _ r assms(2,3)] assms(1) show "at (fill bs s) (consume n w) d bs todo"
    by (auto simp: at_def)
qed

lemma at_get_1:
  assumes "at s w d (x # pend) todo"
  shows "ok get_1 s w x (adv 1 s) w" and "at (adv 1 s) w (d @ [x]) pend todo"
  using assms view_adv [of s d "[x]" pend] ok_get_1 [of s d x pend w]
  by (auto simp: at_def ready_def view_def)

lemma at_get_2:
  assumes "at s w d (bytes16 [x] @ pend) todo"
  shows "ok get_2 s w x (adv 2 s) w" and "at (adv 2 s) w (d @ bytes16 [x]) pend todo"
proof -
  have v: "view s d (high8 x # low8 x # pend)" using assms by (simp add: at_def)
  show "ok get_2 s w x (adv 2 s) w" using ok_get_2 [OF v, of w] by (simp only: join16_split)
  have "view (adv (length [high8 x, low8 x]) s) (d @ [high8 x, low8 x]) pend" using v by (intro view_adv) simp
  then show "at (adv 2 s) w (d @ bytes16 [x]) pend todo"
    using assms by (auto simp: at_def ready_def view_def numeral_2_eq_2)
qed

lemma at_get_regs:
  assumes "at s w d (bytes16 rs) todo" and "n = length rs"
  shows "ok (get_regs n) s w rs (adv (2 * n) s) w" and "at (adv (2 * n) s) w (d @ bytes16 rs) [] todo"
  using assms ok_get_regs [of s d rs "[]" w] view_adv [of s d "bytes16 rs" "[]"]
  by (auto simp: at_def ready_def view_def)

lemma at_footer:
  assumes "at s w d [] [high8 (nmbs_crc_calc d), low8 (nmbs_crc_calc d)]" and "length d + 2 \<le> 260"
  shows "\<exists>s'. ok (recv_msg_footer p) s w () s' (consume 2 w) \<and> cfg s' = cfg s \<and> ready s' \<and>
    fresh_flags s' \<and> unit_id s' = unit_id s \<and> fc s' = fc s"
proof -
  obtain r where r: "avail w = [high8 (nmbs_crc_calc d), low8 (nmbs_crc_calc d)] @ r"
    using assms(1) by (auto simp: at_def)
  show ?thesis using ok_footer_at [OF _ _ _ assms(2) r] assms(1) by (simp add: at_def)
qed

lemma at_headed: "headed s u f \<Longrightarrow> avail w = todo @ r \<Longrightarrow> at s w [u, f] [] todo"
  by (auto simp: at_def headed_def)

end

text \<open>A frame's bytes after the header.\<close>

definition after_header :: "u8 \<Rightarrow> u8 \<Rightarrow> u8 list \<Rightarrow> u8 list" where
  "after_header u f body = drop 2 (modbus_frame u f body)"

lemma modbus_frame_split: "modbus_frame u f body = [u, f] @ after_header u f body"
  by (simp add: modbus_frame_def after_header_def Let_def numeral_2_eq_2)

lemma after_header_eq: "after_header u f body =
    body @ [high8 (nmbs_crc_calc ([u, f] @ body)), low8 (nmbs_crc_calc ([u, f] @ body))]"
  by (simp add: modbus_frame_def after_header_def Let_def numeral_2_eq_2)

lemma length_modbus_frame [simp]: "length (modbus_frame u f body) = length body + 4"
  by (simp add: modbus_frame_def Let_def)

context byte_link
begin

text \<open>Function code 23 on the server, both callbacks succeeding.\<close>

lemma ok_handle_exchange:
  assumes "headed s u 23" and "avail w = after_header u 23 (exchange_request_body ra rq wa rs) @ r"
    and "1 \<le> rq" and "rq \<le> 125" and "uint ra + uint rq \<le> 0x10000"
    and "rs \<noteq> []" and "length rs \<le> 121" and "uint wa + int (length rs) \<le> 0x10000"
    and "write_multiple_registers cb = Some wr" and "read_holding_registers cb = Some rd"
    and "wr wa (word_of_nat (length rs)) rs (consume (length (exchange_request_body ra rq wa rs) + 2) w) = (Inr (), w1)"
    and "rd ra rq w1 = (Inr regs, w2)" and "length regs = unat rq"
  shows "\<exists>s'. ok (handle_read_write_registers p cb) s w () s' (emit (modbus_frame u 23 (read_body regs)) w2) \<and>
    cfg s' = cfg s \<and> ready s'"
proof -
  obtain wq :: u16 where wq: "wq = word_of_nat (length rs)" by simp
  obtain n :: u8 where n: "n = word_of_nat (2 * length rs)" by simp
  have nn: "unat n = 2 * length rs" unfolding n using assms(7) by (intro unat_word_of_nat_u8) simp
  have wqn: "unat wq = length rs" unfolding wq using assms(7) by (intro unat_word_of_nat_u16) simp
  let ?d0 = "bytes16 [ra] @ bytes16 [rq] @ bytes16 [wa] @ bytes16 [wq] @ [n]"
  have body: "exchange_request_body ra rq wa rs = ?d0 @ bytes16 rs"
    by (simp add: exchange_request_body_def read_body_def wq n)
  let ?crc = "\<lambda>d. [high8 (nmbs_crc_calc d), low8 (nmbs_crc_calc d)]"
  have a0: "at s w [u, 23] [] (?d0 @ bytes16 rs @ ?crc ([u, 23] @ ?d0 @ bytes16 rs))"
    using assms(1,2) by (intro at_headed [where r = r]) (simp_all add: after_header_eq body)
  note r1 = at_recv [OF a0, of 9]
  have r1': "ok (recv p 9) s w () (fill ?d0 s) (consume 9 w)"
      "at (fill ?d0 s) (consume 9 w) [u, 23] ?d0 (bytes16 rs @ ?crc ([u, 23] @ ?d0 @ bytes16 rs))"
    using r1 by simp_all
  note g1 = at_get_2 [OF r1'(2)]
  note g2 = at_get_2 [OF g1(2)]
  note g3 = at_get_2 [OF g2(2)]
  note g4 = at_get_2 [OF g3(2)]
  note g5 = at_get_1 [OF g4(2)]
  have l: "length ((((([u, 23] @ bytes16 [ra]) @ bytes16 [rq]) @ bytes16 [wa]) @ bytes16 [wq]) @ [n]) = 11" by simp
  have r2': "unat n = length (bytes16 rs)" "11 + unat n \<le> 260" using nn assms(7) by simp_all
  note r2 = at_recv [OF g5(2) r2'(1)]
  have half: "unat n div 2 = length rs" using nn by simp
  have r2l: "length ((((([u, 23] @ bytes16 [ra]) @ bytes16 [rq]) @ bytes16 [wa]) @ bytes16 [wq]) @ [n]) + unat n \<le> 260"
    using r2'(2) by simp
  note g6 = at_get_regs [OF r2(2) [OF r2l] half, unfolded half]
  have d: "((((([u, 23] @ bytes16 [ra]) @ bytes16 [rq]) @ bytes16 [wa]) @ bytes16 [wq]) @ [n]) @ bytes16 rs =
      [u, 23] @ ?d0 @ bytes16 rs" by simp
  have crc: "length ([u, 23] @ ?d0 @ bytes16 rs) + 2 \<le> 260" using assms(7) by simp
  from at_footer [OF g6(2) [unfolded d] crc]
  obtain s7 where f: "ok (recv_msg_footer p) (adv (2 * length rs) (fill (bytes16 rs) (adv 1 (adv 2 (adv 2 (adv 2 (adv 2 (fill ?d0 s))))))))
      (consume (unat n) (consume 9 w)) () s7 (consume 2 (consume (unat n) (consume 9 w)))"
    "cfg s7 = cfg s" "ready s7" "fresh_flags s7" "unit_id s7 = u" "fc s7 = 23"
    using assms(1) by (auto simp: headed_def)
  have total: "consume 2 (consume (unat n) (consume 9 w)) = consume (length (exchange_request_body ra rq wa rs) + 2) w"
  proof -
    have "9 + unat n + 2 = length (exchange_request_body ra rq wa rs) + 2" using nn by (simp add: body)
    then show ?thesis by (simp only: consume_consume)
  qed
  from ok_put_registers_res [OF f(3) assms(13)] assms(4) obtain s8 where
    o: "ok (put_registers_res p rq regs) s7 w2 () s8 (emit (modbus_frame u 23 (read_body regs)) w2)"
      "same_head s7 s8" "ready s8" using f(5,6) by (auto simp: word_le_nat_alt)
  let ?W = "consume (length (exchange_request_body ra rq wa rs) + 2) w"
  have c1: "ok (call_back (wr wa wq rs)) s7 ?W (Inr ()) s7 w1"
    using assms(11) by (simp add: ok_def call_back_def wq)
  have c2: "ok (call_back (rd ra rq)) s7 w1 (Inr regs) s7 w2"
    using assms(12) by (simp add: ok_def call_back_def)
  have wqi: "uint wq = int (length rs)" using arg_cong [OF wqn, of int] by simp
  have conds: "\<not> 242 < n" "\<not> (rq < 1 \<or> 0x7D < rq)" "\<not> (wq < 1 \<or> 0x7B < wq)" "uint n = uint wq * 2"
      "\<not> 0x10000 < uint ra + uint rq" "\<not> 0x10000 < uint wa + uint wq"
    using assms(3-8) nn wqn wqi unfolding uint_double_iff word_less_nat_alt word_le_nat_alt
    by (auto simp: Suc_le_eq)
  have flags: "\<not> ignored s7" "\<not> broadcast s7" using f(4) by (simp_all add: fresh_flags_def)
  have "ok (handle_read_write_registers p cb) s w () s8 (emit (modbus_frame u 23 (read_body regs)) w2)"
    unfolding handle_read_write_registers_def
    apply (rule ok_bind [OF r1'(1)], rule ok_bind [OF g1(1)], rule ok_bind [OF g2(1)],
        rule ok_bind [OF g3(1)], rule ok_bind [OF g4(1)], rule ok_bind [OF g5(1)])
    apply (subst if_not_P [OF conds(1)])
    apply (rule ok_bind [OF r2(1) [OF r2l]])
    apply (subst half, rule ok_bind [OF g6(1)], rule ok_bind [OF f(1)])
    apply (unfold total)
    apply (rule ok_bind [of nm_get s7 ?W s7 s7 ?W], simp)
    apply (simp only: flags conds assms(9,10) not_False_eq_True not_True_eq_False if_True if_False prod.case option.case simp_thms)
    apply (rule ok_bind [OF c1])
    apply (simp only: sum.case flags if_False)
    apply (rule ok_bind [OF c2])
    apply (simp only: sum.case o(1))
    done
  with o f(2) show ?thesis by (auto simp: same_head_def)
qed

text \<open>Function codes 3 and 16 on the server.\<close>

lemma ok_handle_read:
  assumes "headed s u 3" and "avail w = after_header u 3 (bytes16 [a, q]) @ r"
    and "1 \<le> q" and "q \<le> 125" and "uint a + uint q \<le> 0x10000"
    and "read_holding_registers cb = Some rd" and "rd a q (consume 6 w) = (Inr regs, w1)" and "length regs = unat q"
  shows "\<exists>s'. ok (handle_read_holding_registers p cb) s w () s' (emit (modbus_frame u 3 (read_body regs)) w1) \<and>
    cfg s' = cfg s \<and> ready s'"
proof -
  let ?d0 = "bytes16 [a] @ bytes16 [q]"
  let ?crc = "\<lambda>d. [high8 (nmbs_crc_calc d), low8 (nmbs_crc_calc d)]"
  have a0: "at s w [u, 3] [] (?d0 @ ?crc ([u, 3] @ ?d0))"
    using assms(1,2) by (intro at_headed [where r = r]) (simp_all add: after_header_eq)
  have r1: "ok (recv p 4) s w () (fill ?d0 s) (consume 4 w)" "at (fill ?d0 s) (consume 4 w) [u, 3] ?d0 (?crc ([u, 3] @ ?d0))"
    using at_recv [OF a0, of 4] by simp_all
  note g1 = at_get_2 [OF r1(2)]
  have g1': "at (adv 2 (fill ?d0 s)) (consume 4 w) ([u, 3] @ bytes16 [a]) (bytes16 [q] @ []) (?crc ([u, 3] @ ?d0))"
    using g1(2) by simp
  note g2 = at_get_2 [OF g1']
  have d: "([u, 3] @ bytes16 [a]) @ bytes16 [q] = [u, 3] @ ?d0" by simp
  have crc: "length ([u, 3] @ ?d0) + 2 \<le> 260" by simp
  from at_footer [OF g2(2) [unfolded d] crc]
  obtain s7 where f: "ok (recv_msg_footer p) (adv 2 (adv 2 (fill ?d0 s))) (consume 4 w) () s7 (consume 2 (consume 4 w))"
    "cfg s7 = cfg s" "ready s7" "fresh_flags s7" "unit_id s7 = u" "fc s7 = 3"
    using assms(1) by (auto simp: headed_def)
  have total: "consume 2 (consume 4 w) = consume 6 w" by (simp add: consume_consume)
  from ok_put_registers_res [OF f(3) assms(8)] assms(4) obtain s8 where
    o: "ok (put_registers_res p q regs) s7 w1 () s8 (emit (modbus_frame u 3 (read_body regs)) w1)"
      "same_head s7 s8" "ready s8" using f(5,6) by (auto simp: word_le_nat_alt)
  have c: "ok (call_back (rd a q)) s7 (consume 6 w) (Inr regs) s7 w1"
    using assms(7) by (simp add: ok_def call_back_def)
  have conds: "\<not> (q < 1 \<or> 125 < q)" "\<not> 0x10000 < uint a + uint q" "\<not> ignored s7" "\<not> broadcast s7"
    using assms(3-5) f(4) by (auto simp: fresh_flags_def)
  have "ok (handle_read_holding_registers p cb) s w () s8 (emit (modbus_frame u 3 (read_body regs)) w1)"
    unfolding handle_read_holding_registers_def
    apply (rule ok_bind [OF r1(1)], rule ok_bind [OF g1(1)], rule ok_bind [OF g2(1)], rule ok_bind [OF f(1)])
    apply (unfold total)
    apply (rule ok_bind [of nm_get s7 "consume 6 w" s7 s7 "consume 6 w"], simp)
    apply (simp only: conds assms(6) not_False_eq_True if_True if_False option.case)
    apply (rule ok_bind [OF c])
    apply (simp only: sum.case conds if_False o(1))
    done
  with o f(2) show ?thesis by (auto simp: same_head_def)
qed

lemma ok_handle_write:
  assumes "headed s u 16" and "avail w = after_header u 16 (write_request_body a rs) @ r"
    and "rs \<noteq> []" and "length rs \<le> 123" and "uint a + int (length rs) \<le> 0x10000"
    and "write_multiple_registers cb = Some wr"
    and "wr a (word_of_nat (length rs)) rs (consume (length (write_request_body a rs) + 2) w) = (Inr (), w1)"
  shows "\<exists>s'. ok (handle_write_multiple_registers p cb) s w () s'
      (emit (modbus_frame u 16 (bytes16 [a, word_of_nat (length rs)])) w1) \<and> cfg s' = cfg s \<and> ready s'"
proof -
  obtain wq :: u16 where wq: "wq = word_of_nat (length rs)" by simp
  obtain n :: u8 where n: "n = word_of_nat (2 * length rs)" by simp
  have nn: "unat n = 2 * length rs" unfolding n using assms(4) by (intro unat_word_of_nat_u8) simp
  have wqn: "unat wq = length rs" unfolding wq using assms(4) by (intro unat_word_of_nat_u16) simp
  have wqi: "uint wq = int (length rs)" using arg_cong [OF wqn, of int] by simp
  let ?d0 = "bytes16 [a] @ bytes16 [wq] @ [n]"
  have body: "write_request_body a rs = ?d0 @ bytes16 rs"
    by (simp add: write_request_body_def read_body_def wq n)
  let ?crc = "\<lambda>d. [high8 (nmbs_crc_calc d), low8 (nmbs_crc_calc d)]"
  have a0: "at s w [u, 16] [] (?d0 @ bytes16 rs @ ?crc ([u, 16] @ ?d0 @ bytes16 rs))"
    using assms(1,2) by (intro at_headed [where r = r]) (simp_all add: after_header_eq body)
  have r1: "ok (recv p 5) s w () (fill ?d0 s) (consume 5 w)"
      "at (fill ?d0 s) (consume 5 w) [u, 16] ?d0 (bytes16 rs @ ?crc ([u, 16] @ ?d0 @ bytes16 rs))"
    using at_recv [OF a0, of 5] by simp_all
  note g1 = at_get_2 [OF r1(2)]
  note g2 = at_get_2 [OF g1(2)]
  note g3 = at_get_1 [OF g2(2)]
  have r2': "unat n = length (bytes16 rs)" "length ((([u, 16] @ bytes16 [a]) @ bytes16 [wq]) @ [n]) + unat n \<le> 260"
    using nn assms(4) by simp_all
  note r2 = at_recv [OF g3(2) r2'(1)]
  have half: "unat n div 2 = length rs" using nn by simp
  note g4 = at_get_regs [OF r2(2) [OF r2'(2)] half, unfolded half]
  have d: "((([u, 16] @ bytes16 [a]) @ bytes16 [wq]) @ [n]) @ bytes16 rs = [u, 16] @ ?d0 @ bytes16 rs" by simp
  have crc: "length ([u, 16] @ ?d0 @ bytes16 rs) + 2 \<le> 260" using assms(4) by simp
  from at_footer [OF g4(2) [unfolded d] crc]
  obtain s7 where f: "ok (recv_msg_footer p) (adv (2 * length rs) (fill (bytes16 rs) (adv 1 (adv 2 (adv 2 (fill ?d0 s))))))
      (consume (unat n) (consume 5 w)) () s7 (consume 2 (consume (unat n) (consume 5 w)))"
    "cfg s7 = cfg s" "ready s7" "fresh_flags s7" "unit_id s7 = u" "fc s7 = 16"
    using assms(1) by (auto simp: headed_def)
  have total: "consume 2 (consume (unat n) (consume 5 w)) = consume (length (write_request_body a rs) + 2) w"
  proof -
    have "5 + unat n + 2 = length (write_request_body a rs) + 2" using nn by (simp add: body)
    then show ?thesis by (simp only: consume_consume)
  qed
  let ?W = "consume (length (write_request_body a rs) + 2) w"
  have c: "ok (call_back (wr a wq rs)) s7 ?W (Inr ()) s7 w1"
    using assms(7) by (simp add: ok_def call_back_def wq)
  have "appends (nm_bind (put_2 a) (\<lambda>_. put_2 wq)) (bytes16 [a] @ bytes16 [wq])" by (intro appends_rules)
  from ok_transmit [OF this f(3), of w1] obtain s8 where
    o: "ok (nm_bind put_msg_header (\<lambda>_. nm_bind (nm_bind (put_2 a) (\<lambda>_. put_2 wq)) (\<lambda>_. send_msg p))) s7 w1 () s8
        (emit (modbus_frame u 16 (bytes16 [a, wq])) w1)"
      "same_head s7 s8" "ready s8" using f(5,6) by auto
  have n0: "n \<noteq> 0" using nn assms(3) by auto
  have conds: "\<not> 246 < n" "\<not> (wq < 1 \<or> 0x7B < wq)" "uint n = uint wq * 2" "\<not> 0x10000 < uint a + uint wq"
      "\<not> ignored s7" "\<not> broadcast s7"
    using assms(3-5) nn wqn wqi f(4) unfolding uint_double_iff word_less_nat_alt word_le_nat_alt fresh_flags_def
    by (auto simp: Suc_le_eq)
  have "ok (handle_write_multiple_registers p cb) s w () s8 (emit (modbus_frame u 16 (bytes16 [a, wq])) w1)"
    unfolding handle_write_multiple_registers_def
    apply (rule ok_bind [OF r1(1)], rule ok_bind [OF g1(1)], rule ok_bind [OF g2(1)], rule ok_bind [OF g3(1)],
        rule ok_bind [OF r2(1) [OF r2'(2)]])
    apply (subst if_not_P [OF conds(1)])
    apply (subst half, rule ok_bind [OF g4(1)], rule ok_bind [OF f(1)])
    apply (unfold total)
    apply (rule ok_bind [of nm_get s7 ?W s7 s7 ?W], simp)
    apply (simp only: conds n0 assms(6) not_False_eq_True not_True_eq_False if_True if_False option.case simp_thms)
    apply (rule ok_bind [OF c])
    apply (simp only: sum.case conds if_False o(1) [unfolded nm_bind_assoc])
    done
  with o f(2) show ?thesis by (auto simp: same_head_def wq)
qed

text \<open>A poll that finds a whole request for this server.\<close>

lemma ok_poll:
  assumes "ready s" and "address_rtu s = u" and "u \<noteq> 0" and "avail w = modbus_frame u f body @ r"
    and "\<And>s2. headed s2 u f \<Longrightarrow> cfg s2 = cfg s \<Longrightarrow> avail (consume 2 w) = after_header u f body @ r \<Longrightarrow>
      \<exists>s3. ok (handle_req_fc other p cb) s2 (consume 2 w) () s3 w3 \<and> cfg s3 = cfg s2 \<and> ready s3"
  shows "\<exists>s'. ok (nmbs_server_poll other p cb) s w () s' w3 \<and> cfg s' = cfg s \<and> ready s'"
proof -
  have av: "avail w = u # f # after_header u f body @ r" using assms(4) by (simp add: modbus_frame_split)
  let ?s0 = "msg_state_reset s"
  have s0: "ready ?s0" "cfg ?s0 = cfg s" "address_rtu ?s0 = u"
    using assms(1,2) by (simp_all add: ready_def msg_state_reset_def msg_buf_reset_def cfg_def)
  from ok_first_byte [OF s0(1) av] obtain s1 where
    s1: "ok (recv_first_byte p) ?s0 w () s1 (consume 1 w)" "view s1 [] [u]" "fresh_flags s1" "cfg s1 = cfg ?s0"
    by blast
  have "avail (consume 1 w) = f # after_header u f body @ r" by (simp add: avail_consume av)
  moreover have "0 < byte_timeout_ms s1" "0 < read_timeout_ms s1"
    using assms(1) s1(4) s0(2) by (auto simp: ready_def cfg_def)
  ultimately obtain s2 where s2: "ok (recv_header_rest p) s1 (consume 1 w) () s2 (consume 1 (consume 1 w))"
      "headed s2 u f" "cfg s2 = cfg s1"
    using ok_header_rest [OF s1(2,3)] by blast
  have two: "consume 1 (consume 1 w) = consume 2 w" by (simp add: consume_consume numeral_2_eq_2)
  have "address_rtu s2 = u" using s0 s1(4) s2(3) by (simp add: cfg_def)
  then have "address_request s2 = s2"
    using s2(2) assms(3) by (simp add: address_request_def headed_def NMBS_BROADCAST_ADDRESS_def fresh_flags_def)
  then have hdr: "ok (recv_req_header p) s1 (consume 1 w) () s2 (consume 2 w)"
    unfolding recv_req_header_def using s2(1) two by (intro ok_bind [OF s2(1)]) simp
  have "avail (consume 2 w) = after_header u f body @ r" by (simp add: avail_consume av)
  moreover have "cfg s2 = cfg s" using s0(2) s1(4) s2(3) by simp
  ultimately obtain s3 where
    s3: "ok (handle_req_fc other p cb) s2 (consume 2 w) () s3 w3" "cfg s3 = cfg s2" "ready s3"
    using assms(5) [OF s2(2)] by blast
  have "ok (nmbs_server_poll other p cb) s w () s3 w3"
    using s1(1) hdr s3(1) by (simp add: ok_def nmbs_server_poll_def nm_bind_eq)
  then show ?thesis using s3 \<open>cfg s2 = cfg s\<close> by auto
qed

section \<open>The client's requests\<close>

lemma ok_read_res':
  assumes "ready s" and "unit_id s = u" and "fc s = f" and "length rs = unat q" and "unat q \<le> 125"
    and "avail w = modbus_frame u f (read_body rs) @ r"
  shows "\<exists>s'. ok (recv_read_registers_res p q) s w rs s' (consume (length rs * 2 + 5) w) \<and> cfg s' = cfg s \<and> ready s'"
proof -
  have "length (modbus_frame u f (read_body rs)) = length rs * 2 + 5" by (simp add: read_body_def)
  then show ?thesis using ok_read_res [OF assms(1,4,5)] assms(2,3,6) by metis
qed

text \<open>A request is sent on a line that had nothing to flush.\<close>

lemma ok_msg_state_req:
  assumes "ready s" and "p_read p 260 0 w = ((0, []), w)"
  shows "\<exists>s'. ok (msg_state_req p f) s w () s' w \<and> ready s' \<and> unit_id s' = dest_address_rtu s \<and>
    fc s' = f \<and> cfg s' = cfg s \<and> broadcast s' = (dest_address_rtu s = 0)"
  using assms
  by (simp add: msg_state_req_def ok_def nm_bind_eq flush_def overwrite_def ready_def msg_state_reset_def
      msg_buf_reset_def cfg_def Let_def NMBS_BROADCAST_ADDRESS_def)

lemma ok_request:
  assumes "ready s" and "p_read p 260 0 w = ((0, []), w)" and "appends P body" and "length body \<le> 256"
  shows "\<exists>s'. ok (nm_bind (msg_state_req p f) (\<lambda>_. nm_bind put_msg_header (\<lambda>_. nm_bind P (\<lambda>_. send_msg p)))) s w () s'
      (emit (modbus_frame (dest_address_rtu s) f body) w) \<and> ready s' \<and> unit_id s' = dest_address_rtu s \<and>
    fc s' = f \<and> cfg s' = cfg s \<and> broadcast s' = (dest_address_rtu s = 0)"
proof -
  from ok_msg_state_req [OF assms(1,2)] obtain s1 where
    s1: "ok (msg_state_req p f) s w () s1 w" "ready s1" "unit_id s1 = dest_address_rtu s" "fc s1 = f"
      "cfg s1 = cfg s" "broadcast s1 = (dest_address_rtu s = 0)" by blast
  from ok_transmit [OF assms(3) s1(2) assms(4), of w] obtain s2 where
    s2: "ok (nm_bind put_msg_header (\<lambda>_. nm_bind P (\<lambda>_. send_msg p))) s1 w () s2
        (emit (modbus_frame (dest_address_rtu s) f body) w)" "same_head s1 s2" "ready s2"
    using s1(3,4) by auto
  from ok_bind [OF s1(1) s2(1)] s1 s2(2,3) show ?thesis by (auto simp: same_head_def)
qed

lemma ok_client_read:
  assumes "ready s" and "p_read p 260 0 w = ((0, []), w)" and "1 \<le> q" and "q \<le> 125"
    and "uint a + uint q \<le> 0x10000" and "length rs = unat q"
    and "avail (emit (modbus_frame (dest_address_rtu s) 3 (bytes16 [a, q])) w) =
      modbus_frame (dest_address_rtu s) 3 (read_body rs) @ r"
  shows "\<exists>s'. ok (nmbs_read_holding_registers p a q) s w rs s'
      (consume (length rs * 2 + 5) (emit (modbus_frame (dest_address_rtu s) 3 (bytes16 [a, q])) w)) \<and>
    ready s' \<and> cfg s' = cfg s"
proof -
  have "appends (nm_bind (put_2 a) (\<lambda>_. put_2 q)) (bytes16 [a] @ bytes16 [q])" by (intro appends_rules)
  from ok_request [OF assms(1,2) this, of 3] obtain s1 where
    s1: "ok (nm_bind (msg_state_req p 3) (\<lambda>_. nm_bind put_msg_header (\<lambda>_. nm_bind (nm_bind (put_2 a) (\<lambda>_. put_2 q)) (\<lambda>_. send_msg p))))
        s w () s1 (emit (modbus_frame (dest_address_rtu s) 3 (bytes16 [a, q])) w)"
      "ready s1" "unit_id s1 = dest_address_rtu s" "fc s1 = 3" "cfg s1 = cfg s" by auto
  have q: "unat q \<le> 125" using assms(4) by (simp add: word_le_nat_alt)
  from ok_read_res' [OF s1(2-4) assms(6) q assms(7)] obtain s2 where
    s2: "ok (recv_read_registers_res p q) s1 (emit (modbus_frame (dest_address_rtu s) 3 (bytes16 [a, q])) w) rs s2
        (consume (length rs * 2 + 5) (emit (modbus_frame (dest_address_rtu s) 3 (bytes16 [a, q])) w))"
      "cfg s2 = cfg s1" "ready s2"
    by blast
  have conds: "\<not> (q < 1 \<or> 125 < q)" "\<not> 0x10000 < uint a + uint q" using assms(3-5) by auto
  have "ok (nmbs_read_holding_registers p a q) s w rs s2
      (consume (length rs * 2 + 5) (emit (modbus_frame (dest_address_rtu s) 3 (bytes16 [a, q])) w))"
    unfolding nmbs_read_holding_registers_def read_registers_def if_not_P [OF conds(1)] if_not_P [OF conds(2)]
    using ok_bind [OF s1(1) s2(1)] by (simp only: nm_bind_assoc)
  with s1(5) s2 show ?thesis by auto
qed

lemma ok_client_exchange:
  assumes "ready s" and "p_read p 260 0 w = ((0, []), w)" and "1 \<le> rq" and "rq \<le> 125"
    and "uint ra + uint rq \<le> 0x10000" and "regs \<noteq> []" and "length regs \<le> 121"
    and "uint wa + int (length regs) \<le> 0x10000" and "length rs = unat rq"
  defines "w1 \<equiv> emit (modbus_frame (dest_address_rtu s) 23 (exchange_request_body ra rq wa regs)) w"
  assumes "avail w1 = modbus_frame (dest_address_rtu s) 23 (read_body rs) @ r"
  shows "\<exists>s'. ok (nmbs_read_write_registers p ra rq wa (word_of_nat (length regs)) regs) s w rs s'
      (consume (length rs * 2 + 5) w1) \<and> ready s' \<and> cfg s' = cfg s"
proof -
  obtain wq :: u16 where wq: "wq = word_of_nat (length regs)" by simp
  have wqn: "unat wq = length regs" unfolding wq using assms(7) by (intro unat_word_of_nat_u16) simp
  have wqi: "uint wq = int (length regs)" using arg_cong [OF wqn, of int] by simp
  have n: "(ucast (wq * 2) :: u8) = word_of_nat (2 * length regs)" using low8_double [of wq] wqn assms(7) by simp
  let ?P = "nm_bind (put_2 ra) (\<lambda>_. nm_bind (put_2 rq) (\<lambda>_. nm_bind (put_2 wa) (\<lambda>_. nm_bind (put_2 wq) (\<lambda>_.
      nm_bind (put_1 (ucast (wq * 2))) (\<lambda>_. put_regs (take (unat wq) regs))))))"
  have body: "bytes16 [ra] @ bytes16 [rq] @ bytes16 [wa] @ bytes16 [wq] @ [ucast (wq * 2)] @ bytes16 (take (unat wq) regs) =
      exchange_request_body ra rq wa regs"
    by (simp add: exchange_request_body_def read_body_def n wqn wq [symmetric] del: of_nat_mult)
  have "appends ?P (bytes16 [ra] @ bytes16 [rq] @ bytes16 [wa] @ bytes16 [wq] @ [ucast (wq * 2)] @ bytes16 (take (unat wq) regs))"
    by (intro appends_rules)
  then have P: "appends ?P (exchange_request_body ra rq wa regs)" by (simp only: body)
  have lb: "length (exchange_request_body ra rq wa regs) \<le> 256"
    using assms(7) by (simp add: exchange_request_body_def read_body_def)
  from ok_request [OF assms(1,2) P lb, of 23] obtain s1 where
    s1: "ok (nm_bind (msg_state_req p 23) (\<lambda>_. nm_bind put_msg_header (\<lambda>_. nm_bind ?P (\<lambda>_. send_msg p)))) s w () s1 w1"
      "ready s1" "unit_id s1 = dest_address_rtu s" "fc s1 = 23" "cfg s1 = cfg s" by (auto simp: w1_def)
  have q: "unat rq \<le> 125" using assms(4) by (simp add: word_le_nat_alt)
  from ok_read_res' [OF s1(2-4) assms(9) q assms(11)] obtain s2 where
    s2: "ok (recv_read_registers_res p rq) s1 w1 rs s2 (consume (length rs * 2 + 5) w1)"
      "cfg s2 = cfg s1" "ready s2"
    by blast
  have conds: "\<not> (rq < 1 \<or> 0x7D < rq)" "\<not> 0x10000 < uint ra + uint rq" "\<not> (wq < 1 \<or> 0x79 < wq)"
      "\<not> 0x10000 < uint wa + uint wq"
    using assms(3-8) wqn wqi unfolding word_less_nat_alt word_le_nat_alt by (auto simp: Suc_le_eq)
  have "ok (nmbs_read_write_registers p ra rq wa wq regs) s w rs s2 (consume (length rs * 2 + 5) w1)"
    unfolding nmbs_read_write_registers_def if_not_P [OF conds(1)] if_not_P [OF conds(2)]
      if_not_P [OF conds(3)] if_not_P [OF conds(4)]
    using ok_bind [OF s1(1) s2(1)] by (simp only: nm_bind_assoc)
  with s1(5) s2 show ?thesis unfolding wq by auto
qed

text \<open>The response to function code 16 repeats the address and the quantity.\<close>

lemma ok_write_res:
  assumes "ready s" and "unit_id s = u" and "fc s = f" and "avail w = modbus_frame u f (bytes16 [a, q]) @ r"
  shows "\<exists>s'. ok (recv_write_multiple_registers_res p a q) s w () s' (consume 8 w) \<and> cfg s' = cfg s \<and> ready s'"
proof -
  let ?d0 = "bytes16 [a] @ bytes16 [q]"
  let ?crc = "\<lambda>d. [high8 (nmbs_crc_calc d), low8 (nmbs_crc_calc d)]"
  have av: "avail w = unit_id s # fc s # (after_header u f (bytes16 [a, q]) @ r)"
    using assms(2-4) by (simp add: modbus_frame_split)
  from ok_res_header [OF assms(1) av] obtain s2 where
    h: "ok (recv_res_header p) s w () s2 (consume 2 w)" "headed s2 u f" "cfg s2 = cfg s" using assms(2,3) by blast
  have "avail (consume 2 w) = (?d0 @ ?crc ([u, f] @ ?d0)) @ r"
    by (simp add: avail_consume av after_header_eq)
  from at_headed [OF h(2) this] have a0: "at s2 (consume 2 w) [u, f] [] (?d0 @ ?crc ([u, f] @ ?d0))" .
  have r1: "ok (recv p 4) s2 (consume 2 w) () (fill ?d0 s2) (consume 4 (consume 2 w))"
      "at (fill ?d0 s2) (consume 4 (consume 2 w)) [u, f] ?d0 (?crc ([u, f] @ ?d0))"
    using at_recv [OF a0, of 4] by simp_all
  note g1 = at_get_2 [OF r1(2)]
  have g1': "at (adv 2 (fill ?d0 s2)) (consume 4 (consume 2 w)) ([u, f] @ bytes16 [a]) (bytes16 [q] @ []) (?crc ([u, f] @ ?d0))"
    using g1(2) by simp
  note g2 = at_get_2 [OF g1']
  have d: "([u, f] @ bytes16 [a]) @ bytes16 [q] = [u, f] @ ?d0" by simp
  have crc: "length ([u, f] @ ?d0) + 2 \<le> 260" by simp
  from at_footer [OF g2(2) [unfolded d] crc] obtain s7 where
    f: "ok (recv_msg_footer p) (adv 2 (adv 2 (fill ?d0 s2))) (consume 4 (consume 2 w)) () s7
        (consume 2 (consume 4 (consume 2 w)))" "cfg s7 = cfg s2" "ready s7" by auto
  have "ok (recv_write_multiple_registers_res p a q) s w () s7 (consume 2 (consume 4 (consume 2 w)))"
    unfolding recv_write_multiple_registers_res_def
    by (rule ok_bind [OF h(1)], rule ok_bind [OF r1(1)], rule ok_bind [OF g1(1)], rule ok_bind [OF g2(1)],
        rule ok_bind [OF f(1)], simp)
  moreover have "consume 2 (consume 4 (consume 2 w)) = consume 8 w" by (simp add: consume_consume)
  ultimately show ?thesis using f(2,3) h(3) by auto
qed

lemma ok_client_write:
  assumes "ready s" and "p_read p 260 0 w = ((0, []), w)" and "dest_address_rtu s = u" and "u \<noteq> 0"
    and "regs \<noteq> []" and "length regs \<le> 123" and "uint a + int (length regs) \<le> 0x10000"
  defines "w1 \<equiv> emit (modbus_frame u 16 (write_request_body a regs)) w"
  assumes "avail w1 = modbus_frame u 16 (bytes16 [a, word_of_nat (length regs)]) @ r"
  shows "\<exists>s'. ok (nmbs_write_multiple_registers p a (word_of_nat (length regs)) regs) s w () s' (consume 8 w1) \<and>
    ready s' \<and> cfg s' = cfg s"
proof -
  obtain wq :: u16 where wq: "wq = word_of_nat (length regs)" by simp
  have wqn: "unat wq = length regs" unfolding wq using assms(6) by (intro unat_word_of_nat_u16) simp
  have wqi: "uint wq = int (length regs)" using arg_cong [OF wqn, of int] by simp
  have n: "(ucast (wq * 2) :: u8) = word_of_nat (2 * length regs)" using low8_double [of wq] wqn assms(6) by simp
  let ?P = "nm_bind (put_2 a) (\<lambda>_. nm_bind (put_2 wq) (\<lambda>_. nm_bind (put_1 (ucast (wq * 2))) (\<lambda>_.
      put_regs (take (unat wq) regs))))"
  have "appends ?P (bytes16 [a] @ bytes16 [wq] @ [ucast (wq * 2)] @ bytes16 (take (unat wq) regs))"
    by (intro appends_rules)
  moreover have "write_request_body a regs = bytes16 [a] @ bytes16 [wq] @ [ucast (wq * 2)] @ bytes16 (take (unat wq) regs)"
    unfolding write_request_body_def read_body_def n wqn wq [symmetric] by simp
  ultimately have P: "appends ?P (write_request_body a regs)" by simp
  have lb: "length (write_request_body a regs) \<le> 256"
    using assms(6) by (simp add: write_request_body_def read_body_def)
  from ok_request [OF assms(1,2) P lb, of 16] obtain s1 where
    s1: "ok (nm_bind (msg_state_req p 16) (\<lambda>_. nm_bind put_msg_header (\<lambda>_. nm_bind ?P (\<lambda>_. send_msg p)))) s w () s1 w1"
      "ready s1" "unit_id s1 = u" "fc s1 = 16" "cfg s1 = cfg s" "\<not> broadcast s1"
    using assms(3,4) by (auto simp: w1_def)
  from ok_write_res [OF s1(2-4) assms(9)] obtain s2 where
    s2: "ok (recv_write_multiple_registers_res p a wq) s1 w1 () s2 (consume 8 w1)" "cfg s2 = cfg s1" "ready s2"
    unfolding wq by blast
  have conds: "\<not> (wq < 1 \<or> 0x7B < wq)" "\<not> 0x10000 < uint a + uint wq"
    using assms(5-7) wqn wqi unfolding word_less_nat_alt word_le_nat_alt by (auto simp: Suc_le_eq)
  have get: "ok (nm_bind nm_get (\<lambda>s. if \<not> broadcast s then recv_write_multiple_registers_res p a wq else nm_return ()))
      s1 w1 () s2 (consume 8 w1)"
    using s2(1) s1(6) by (simp add: ok_def nm_bind_eq)
  have "ok (nmbs_write_multiple_registers p a wq regs) s w () s2 (consume 8 w1)"
    unfolding nmbs_write_multiple_registers_def if_not_P [OF conds(1)] if_not_P [OF conds(2)]
    using ok_bind [where f = "\<lambda>_. nm_bind nm_get (\<lambda>s. if \<not> broadcast s then recv_write_multiple_registers_res p a wq
      else nm_return ())", OF s1(1) get] by (simp only: nm_bind_assoc)
  with s1(5) s2 show ?thesis unfolding wq by auto
qed

end

section \<open>Only valid frames are accepted\<close>

text \<open>A platform that never reports more bytes than it stored.\<close>

definition honest :: "'w platform \<Rightarrow> bool" where
  "honest p \<longleftrightarrow> (\<forall>n t w. \<forall>ret bs w'. p_read p n t w = ((ret, bs), w') \<longrightarrow> ret = int n \<longrightarrow> length bs = n)"

lemma nm_bind_Inr: "nm_bind m f sw = (Inr b, s', w') \<longleftrightarrow>
    (\<exists>a s1 w1. m sw = (Inr a, s1, w1) \<and> f a (s1, w1) = (Inr b, s', w'))"
  by (auto simp: nm_bind_eq split: prod.splits sum.splits)

lemma recv_inv:
  assumes "honest p" and "view s d []" and "\<not> complete s" and "recv p n (s, w) = (Inr (), s1, w1)"
    and "length d + n \<le> 260"
  shows "\<exists>bs. length bs = n \<and> s1 = fill bs s \<and> view s1 d bs"
proof -
  obtain ret bs w2 where r: "p_read p n (byte_timeout_ms s) w = ((ret, bs), w2)" by (metis prod.collapse)
  with assms(3,4) have "ret = int n" "s1 = fill bs s"
    by (auto simp: recv_def fill_def Let_def split: if_splits)
  moreover have "length bs = n" using assms(1) r calculation(1) unfolding honest_def by blast
  ultimately show ?thesis using view_fill [OF assms(2), of bs] assms(5) by auto
qed

lemma get_1_inv: "view s d (x # r) \<Longrightarrow> get_1 (s, w) = (Inr y, s1, w1) \<Longrightarrow>
    y = x \<and> s1 = adv 1 s \<and> view s1 (d @ [x]) r"
  using ok_get_1 [of s d x r w] view_adv [of s d "[x]" r] by (auto simp: ok_def)

lemma bytes16_be16s: "even (length bs) \<Longrightarrow> bytes16 (be16s bs) = bs"
  by (induction bs rule: be16s.induct) auto

lemma length_be16s [simp]: "length (be16s bs) = length bs div 2"
  by (induction bs rule: be16s.induct) auto

lemma get_regs_inv:
  assumes "view s d bs" and "length bs = 2 * n" and "get_regs n (s, w) = (Inr rs, s1, w1)"
  shows "bytes16 rs = bs \<and> length rs = n \<and> s1 = adv (2 * n) s \<and> view s1 (d @ bs) []"
proof -
  have b: "bytes16 (be16s bs) = bs" "length (be16s bs) = n" using assms(2) by (simp_all add: bytes16_be16s)
  then have "ok (get_regs n) s w (be16s bs) (adv (2 * n) s) w"
    using ok_get_regs [of s d "be16s bs" "[]" w] assms(1) by simp
  moreover have "view (adv (length bs) s) (d @ bs) []" using assms(1) by (intro view_adv) simp
  ultimately show ?thesis using assms(2,3) b by (simp add: ok_def)
qed

lemma view_whole: "view s d r \<Longrightarrow> take (length d + length r) (buf s) = d @ r"
  by (simp add: view_def)

lemma footer_inv:
  assumes "honest p" and "view s d []" and "\<not> complete s" and "length d + 2 \<le> 260"
    and "recv_msg_footer p (s, w) = (Inr (), s1, w1)"
  shows "\<exists>s0. s1 = adv 2 s0 \<and> view s0 d [high8 (nmbs_crc_calc d), low8 (nmbs_crc_calc d)]"
proof -
  from assms(5) obtain s0 w0 c where
    r: "recv p 2 (s, w) = (Inr (), s0, w0)" and g: "get_2 (s0, w0) = (Inr c, s1, w1)"
    and c: "c = nmbs_crc_calc (take (buf_idx s) (buf s))"
    by (auto simp: recv_msg_footer_def nm_bind_Inr Let_def split: if_splits)
  from recv_inv [OF assms(1-3) r assms(4)] obtain bs where bs: "length bs = 2" "view s0 d bs" by blast
  then obtain h l where hl: "bs = [h, l]" by (auto simp: length_Suc_conv numeral_2_eq_2)
  from ok_get_2 [of s0 d h l "[]" w0] bs(2) g have "c = join16 h l" "s1 = adv 2 s0"
    by (simp_all add: hl ok_def)
  with c show ?thesis using bs(2) view_take [OF assms(2)] by (metis hl high8_join16 low8_join16)
qed

lemma header_inv:
  assumes "honest p" and "length (buf s) = 260" and "recv_msg_header p (s, w) = (Inr (), s1, w1)"
  shows "view s1 [unit_id s1, fc s1] [] \<and> \<not> complete s1"
proof -
  let ?s0 = "msg_state_reset (s\<lparr>byte_timeout_ms := read_timeout_ms s\<rparr>)"
  have v0: "view ?s0 [] []" "\<not> complete ?s0"
    using assms(2) by (simp_all add: view_def msg_state_reset_def msg_buf_reset_def)
  from assms(3) obtain sa wa sb wb u sc wc f where
    a: "recv p 1 (?s0, w) = (Inr (), sa, wa)"
    and b: "get_1 (sa\<lparr>byte_timeout_ms := byte_timeout_ms s\<rparr>, wa) = (Inr u, sb, wb)"
    and c: "recv p 1 (sb\<lparr>unit_id := u\<rparr>, wb) = (Inr (), sc, wc)"
    and d: "\<exists>sd wd. get_1 (sc, wc) = (Inr f, sd, wd) \<and> s1 = sd\<lparr>fc := f\<rparr>"
    by (auto simp: recv_msg_header_def recv_first_byte_def recv_header_rest_def nm_bind_Inr split: prod.splits)
  from recv_inv [OF assms(1) v0 a] obtain x where x: "sa = fill [x] ?s0" "view sa [] [x]"
    by (auto simp: length_Suc_conv)
  then have "view (sa\<lparr>byte_timeout_ms := byte_timeout_ms s\<rparr>) [] [x]" by (simp add: view_def)
  from get_1_inv [OF this b] have sb: "u = x" "view sb [u] []"
    "sb = adv 1 (sa\<lparr>byte_timeout_ms := byte_timeout_ms s\<rparr>)" by (metis append_Nil)+
  then have "view (sb\<lparr>unit_id := u\<rparr>) [u] []" by (simp add: view_def)
  moreover have "\<not> complete (sb\<lparr>unit_id := u\<rparr>)" using sb(3) x(1) v0(2) by (simp add: adv_def)
  ultimately obtain y where y: "sc = fill [y] (sb\<lparr>unit_id := u\<rparr>)" "view sc [u] [y]"
    using recv_inv [OF assms(1) _ _ c, of "[u]"] by (auto simp: length_Suc_conv)
  from d obtain sd wd where "get_1 (sc, wc) = (Inr f, sd, wd)" "s1 = sd\<lparr>fc := f\<rparr>" by blast
  then have s1: "s1 = sd\<lparr>fc := f\<rparr>" and g: "get_1 (sc, wc) = (Inr f, sd, wd)" by simp_all
  have "f = y" "sd = adv 1 sc" "view sd ([u] @ [y]) []" using get_1_inv [OF y(2) g] by blast+
  with s1 have "f = y" "s1 = (adv 1 sc)\<lparr>fc := f\<rparr>" "view (adv 1 sc) [u, y] []" by simp_all
  then show ?thesis using y(1) sb(3) x(1) v0(2) by (simp add: view_def adv_def)
qed

lemma res_header_inv:
  assumes "honest p" and "length (buf s) = 260" and "recv_res_header p (s, w) = (Inr (), s1, w1)"
  shows "view s1 [unit_id s, fc s] [] \<and> \<not> complete s1"
proof -
  from assms(3) have h: "recv_msg_header p (s, w) = (Inr (), s1, w1)" and e: "unit_id s1 = unit_id s" "fc s1 = fc s"
    by (auto simp: recv_res_header_def nm_bind_Inr split: if_splits)
  from header_inv [OF assms(1,2) h] e show ?thesis by simp
qed

text \<open>The registers a response yields are those of a frame in the buffer with the request's unit and code.\<close>

lemma read_res_inv:
  assumes "honest p" and "length (buf s) = 260"
    and "recv_read_registers_res p q (s, w) = (Inr rs, s', w')"
  shows "take (2 * length rs + 5) (buf s') = modbus_frame (unit_id s) (fc s) (read_body rs) \<and> length rs = unat q"
proof -
  let ?h = "[unit_id s, fc s]"
  from assms(3) obtain s1 w1 s2 w2 n s3 w3 s4 w4 s5 w5 where
    a: "recv_res_header p (s, w) = (Inr (), s1, w1)" and b: "recv p 1 (s1, w1) = (Inr (), s2, w2)"
    and c: "get_1 (s2, w2) = (Inr n, s3, w3)" and n: "\<not> 250 < n" "uint n = uint q * 2"
    and d: "recv p (unat n) (s3, w3) = (Inr (), s4, w4)"
    and e: "get_regs (unat n div 2) (s4, w4) = (Inr rs, s5, w5)"
    and f: "recv_msg_footer p (s5, w5) = (Inr (), s', w')"
    by (auto simp: recv_read_registers_res_def nm_bind_Inr split: if_splits)
  have nn: "unat n = 2 * unat q" "unat n \<le> 250" using n by (simp_all add: uint_double_iff word_less_nat_alt)
  from res_header_inv [OF assms(1,2) a] have v1: "view s1 ?h []" "\<not> complete s1" by simp_all
  from recv_inv [OF assms(1) v1 b] obtain x where x: "s2 = fill [x] s1" "view s2 ?h [x]"
    by (auto simp: length_Suc_conv)
  from get_1_inv [OF x(2) c] have v3: "n = x" "view s3 (?h @ [n]) []" "s3 = adv 1 s2" by blast+
  from recv_inv [OF assms(1) v3(2) _ d] v1(2) x(1) v3(3) nn obtain bs where
    bs: "length bs = 2 * unat q" "s4 = fill bs s3" "view s4 (?h @ [n]) bs" by auto
  from get_regs_inv [OF bs(3) _ e] bs(1) nn have
    rs: "bytes16 rs = bs" "length rs = unat q" "s5 = adv (2 * unat q) s4" "view s5 ((?h @ [n]) @ bs) []" by auto
  have "\<not> complete s5" using rs(3) bs(2) v3(3) x(1) v1(2) by simp
  from footer_inv [OF assms(1) rs(4) this _ f] bs(1) nn obtain s0 where
    s0: "s' = adv 2 s0" "view s0 ((?h @ [n]) @ bs) [high8 (nmbs_crc_calc ((?h @ [n]) @ bs)), low8 (nmbs_crc_calc ((?h @ [n]) @ bs))]"
    by auto
  have "word_of_nat (unat n) = n" by simp
  then have "n = word_of_nat (2 * length rs)" unfolding nn(1) rs(2) by (rule sym)
  then have "modbus_frame (unit_id s) (fc s) (read_body rs) = ((?h @ [n]) @ bs) @
      [high8 (nmbs_crc_calc ((?h @ [n]) @ bs)), low8 (nmbs_crc_calc ((?h @ [n]) @ bs))]"
    by (simp add: modbus_frame_def read_body_def rs(1) Let_def)
  moreover have l: "2 * length rs + 5 = length ((?h @ [n]) @ bs) + 2" unfolding rs(2) by (simp add: bs(1))
  have "buf s' = buf s0" unfolding s0(1) by (simp add: adv_def)
  ultimately have "take (2 * length rs + 5) (buf s') = modbus_frame (unit_id s) (fc s) (read_body rs)"
    using view_whole [OF s0(2)] by (simp only: l list.size One_nat_def add_2_eq_Suc' add_0_right add_Suc_right)
  with rs(2) show ?thesis by blast
qed

end
