(* ===== verification/ModbusClient.thy ===== *)
theory ModbusClient
  imports Transport RegisterModel ModbusFrames
begin

text \<open>
  \<open>GripperModbusClient\<close> (\<open>grippers/sdk_cpp/src/modbus_client.cpp\<close>): the Modbus library's client over a
  \<open>Serial\<close>. The library's platform acts on the serial port and the log; each of the three
  operations is one transaction on the two register blocks.
\<close>

section \<open>The platform callbacks\<close>

definition kByteTimeoutMs :: int where "kByteTimeoutMs = 50"

fun thrown_line :: "string \<Rightarrow> thrown \<Rightarrow> string" where
  "thrown_line what (StdException e) = what @ '' failed: '' @ e"
| "thrown_line what UnknownException = what @ '' failed with an unknown exception''"

definition readSerial :: "'s serial \<Rightarrow> nat \<Rightarrow> int \<Rightarrow> 's \<times> log \<Rightarrow> (int \<times> u8 list) \<times> 's \<times> log" where
  "readSerial ser count timeout = (\<lambda>(s, l).
     case ser_read ser count timeout s of
       (Inl e, s') \<Rightarrow> ((-1, []), s', log_line LevelError (thrown_line ''serial read'' e) l)
     | (Inr data, s') \<Rightarrow>
         let received = min (length data) count;
             l' = (if received \<noteq> length data
                   then log_line LevelError (''serial read returned '' @ decimal (length data) @
                     '' bytes for a request of '' @ decimal count @ ''; ignoring the excess'') l
                   else l)
         in ((int received, take received data), s', l'))"

definition writeSerial :: "'s serial \<Rightarrow> u8 list \<Rightarrow> int \<Rightarrow> 's \<times> log \<Rightarrow> int \<times> 's \<times> log" where
  "writeSerial ser bs timeout = (\<lambda>(s, l).
     case ser_write ser bs s of
       (Inl e, s') \<Rightarrow> (-1, s', log_line LevelError (thrown_line ''serial write'' e) l)
     | (Inr _, s') \<Rightarrow> (int (length bs), s', l))"

definition client_platform :: "'s serial \<Rightarrow> ('s \<times> log) platform" where
  "client_platform ser = \<lparr>p_read = readSerial ser, p_write = writeSerial ser\<rparr>"

section \<open>The client\<close>

record 's modbus_client =
  mc_serial :: 's
  mc_log :: log
  mc_nmbs :: nmbs

definition check_error :: "nmbs_error \<Rightarrow> string \<Rightarrow> thrown" where
  "check_error err context = driver_exception (context @ '' failed: '' @ nmbs_strerror err)"

text \<open>The constructor: opens the link if it is not open; the library's own creation cannot fail here.\<close>

definition makeModbusClient :: "'s serial \<Rightarrow> 's \<Rightarrow> u8 \<Rightarrow> log \<Rightarrow> thrown + 's modbus_client" where
  "makeModbusClient ser s slaveAddress l =
     (case (if \<not> ser_isOpen ser s then ser_open ser s else (Inr (), s)) of
        (Inl e, _) \<Rightarrow> Inl e
      | (Inr _, s') \<Rightarrow>
          Inr \<lparr>mc_serial = s', mc_log = l,
               mc_nmbs = nmbs_client_create\<lparr>
                 read_timeout_ms := sint (word_of_int (ser_getTimeout ser s') :: 32 word),
                 byte_timeout_ms := kByteTimeoutMs, dest_address_rtu := slaveAddress\<rparr>\<rparr>)"

text \<open>A call into the library, and \<open>check\<close> of what it returns.\<close>

definition transact :: "string \<Rightarrow> ('s \<times> log, 'a) nm \<Rightarrow> 's modbus_client \<Rightarrow> (thrown + 'a) \<times> 's modbus_client" where
  "transact context call m =
     (case call (mc_nmbs m, (mc_serial m, mc_log m)) of
        (r, n, s, l) \<Rightarrow>
          (case r of Inl err \<Rightarrow> Inl (check_error err context) | Inr a \<Rightarrow> Inr a,
           \<lparr>mc_serial = s, mc_log = l, mc_nmbs = n\<rparr>))"

definition readStatus :: "'s serial \<Rightarrow> 's modbus_client \<Rightarrow> (thrown + gripper_status) \<times> 's modbus_client" where
  "readStatus ser m =
     (case transact ''readStatus''
             (nmbs_read_holding_registers (client_platform ser) kStatusAddress kStatusRegisterCount) m of
        (Inl e, m') \<Rightarrow> (Inl e, m')
      | (Inr registers, m') \<Rightarrow> (Inr (status_of (bytesFromRegisters registers (status_data zero_status))), m'))"

definition writeCommand :: "'s serial \<Rightarrow> gripper_command \<Rightarrow> 's modbus_client \<Rightarrow> (thrown + unit) \<times> 's modbus_client" where
  "writeCommand ser c m =
     (let registers = registersFromBytes (unat kCommandRegisterCount) (command_data c)
      in transact ''writeCommand''
           (nmbs_write_multiple_registers (client_platform ser) kCommandAddress kCommandRegisterCount registers) m)"

definition exchange :: "'s serial \<Rightarrow> gripper_command \<Rightarrow> 's modbus_client \<Rightarrow> (thrown + gripper_status) \<times> 's modbus_client" where
  "exchange ser c m =
     (let commandRegisters = registersFromBytes (unat kCommandRegisterCount) (command_data c)
      in case transact ''exchange''
             (nmbs_read_write_registers (client_platform ser) kStatusAddress kStatusRegisterCount
               kCommandAddress kCommandRegisterCount commandRegisters) m of
        (Inl e, m') \<Rightarrow> (Inl e, m')
      | (Inr registers, m') \<Rightarrow> (Inr (status_of (bytesFromRegisters registers (status_data zero_status))), m'))"

section \<open>Whatever the link does\<close>

text \<open>The callbacks never hand over more than was asked for, whatever the \<open>Serial\<close> returns.\<close>

lemma read_bounded: "p_read (client_platform ser) n t w = ((ret, bs), w') \<Longrightarrow> length bs \<le> n \<and> (ret = int n \<longrightarrow> length bs = n)"
  by (auto simp: client_platform_def readSerial_def Let_def split: prod.splits sum.splits if_splits)

lemma honest_client [simp]: "honest (client_platform ser)"
  using read_bounded by (fastforce simp: honest_def)

text \<open>A property of the library's state that a call keeps, whether it succeeds or not.\<close>

definition keeps :: "(nmbs \<Rightarrow> bool) \<Rightarrow> ('w, 'a) nm \<Rightarrow> bool" where
  "keeps I m \<longleftrightarrow> (\<forall>s w r s' w'. I s \<longrightarrow> m (s, w) = (r, s', w') \<longrightarrow> I s')"

lemma keepsD: "keeps I m \<Longrightarrow> I s \<Longrightarrow> m (s, w) = (r, s', w') \<Longrightarrow> I s'"
  unfolding keeps_def by blast

lemma keeps_bind:
  assumes "keeps I m" and "\<And>a. keeps I (f a)"
  shows "keeps I (nm_bind m f)"
  unfolding keeps_def
proof (intro allI impI)
  fix s w r s' w' assume I: "I s" and e: "nm_bind m f (s, w) = (r, s', w')"
  obtain x s1 w1 where m: "m (s, w) = (x, s1, w1)" by (cases "m (s, w)")
  have s1: "I s1" by (rule keepsD [OF assms(1) I m])
  show "I s'"
  proof (cases x)
    case (Inl err)
    with e m s1 show ?thesis by (simp add: nm_bind_eq)
  next
    case (Inr a)
    with e m have "f a (s1, w1) = (r, s', w')" by (simp add: nm_bind_eq)
    with keepsD [OF assms(2) s1] show ?thesis .
  qed
qed

lemma keeps_run [simp]: "keeps I (nm_return a)" "keeps I (nm_fail e)" "keeps I nm_get" "keeps I (send p n)"
  by (auto simp: keeps_def send_def Let_def split: prod.splits if_splits)

lemma keeps_modify: "(\<And>s. I s \<Longrightarrow> I (f s)) \<Longrightarrow> keeps I (nm_modify f)"
  by (simp add: keeps_def)

definition addressed :: "u8 \<Rightarrow> u8 \<Rightarrow> nmbs \<Rightarrow> bool" where
  "addressed u f s \<longleftrightarrow> length (buf s) = 260 \<and> unit_id s = u \<and> fc s = f"

lemma keeps_put [simp]: "keeps (addressed u f) (put_1 d)" "keeps (addressed u f) (put_2 e)"
  "keeps (addressed u f) (nm_modify msg_buf_reset)"
  by (auto simp: put_1_def put_2_def addressed_def msg_buf_reset_def intro!: keeps_modify)

lemma keeps_puts [simp]: "keeps (addressed u f) (put_regs rs)" "keeps (addressed u f) put_msg_header"
  "keeps (addressed u f) (send_msg p)"
  by (induction rs) (auto simp: put_msg_header_def send_msg_def intro!: keeps_bind)

lemma request_addressed:
  assumes "length (buf s) = 260" and "msg_state_req (client_platform ser) f (s, w) = (Inr (), s', w')"
  shows "addressed (dest_address_rtu s) f s'"
proof -
  let ?s = "s\<lparr>current_tid := if current_tid s = 0xFFFF then 1 else current_tid s + 1\<rparr>"
  obtain ret bs w1 where r: "p_read (client_platform ser) 260 0 w = ((ret, bs), w1)" by (metis prod.collapse)
  then have "length bs \<le> 260" using read_bounded by blast
  then have "length (overwrite 0 bs (buf s)) = 260" using assms(1) by simp
  with assms(2) r show ?thesis
    by (auto simp: msg_state_req_def nm_bind_Inr flush_def addressed_def msg_state_reset_def msg_buf_reset_def Let_def
        split: if_splits)
qed

lemma after_request:
  assumes "length (buf s) = 260" and "keeps (addressed (dest_address_rtu s) f) m"
    and "nm_bind (msg_state_req (client_platform ser) f) (\<lambda>_. nm_bind m g) (s, w) = (Inr rs, s', w')"
  shows "\<exists>a s1 w1. addressed (dest_address_rtu s) f s1 \<and> g a (s1, w1) = (Inr rs, s', w')"
proof -
  from assms(3) obtain s0 w0 s1 w1 a where
    a: "msg_state_req (client_platform ser) f (s, w) = (Inr (), s0, w0)" "m (s0, w0) = (Inr a, s1, w1)"
    and g: "g a (s1, w1) = (Inr rs, s', w')" by (auto simp: nm_bind_Inr)
  from keepsD [OF assms(2) request_addressed [OF assms(1) a(1)] a(2)] g show ?thesis by blast
qed

lemma exchange_request_kept: "keeps (addressed u 23)
    (nm_bind put_msg_header (\<lambda>_. nm_bind (put_2 a) (\<lambda>_. nm_bind (put_2 b) (\<lambda>_. nm_bind (put_2 c) (\<lambda>_. nm_bind (put_2 d) (\<lambda>_.
     nm_bind (put_1 n) (\<lambda>_. nm_bind (put_regs rs) (\<lambda>_. send_msg p))))))))"
  by (intro keeps_bind keeps_puts keeps_put)

lemma read_request_kept: "keeps (addressed u 3)
    (nm_bind put_msg_header (\<lambda>_. nm_bind (put_2 a) (\<lambda>_. nm_bind (put_2 b) (\<lambda>_. send_msg p))))"
  by (intro keeps_bind keeps_puts keeps_put)

lemma read_res_frame:
  assumes "addressed u f s" and "recv_read_registers_res (client_platform ser) q (s, w) = (Inr rs, s', w')"
  shows "take (2 * length rs + 5) (buf s') = modbus_frame u f (read_body rs) \<and> length rs = unat q"
  using read_res_inv [OF honest_client _ assms(2)] assms(1) by (auto simp: addressed_def)

lemma transact_Inr: "transact context call m = (Inr a, m') \<longleftrightarrow>
    call (mc_nmbs m, (mc_serial m, mc_log m)) = (Inr a, mc_nmbs m', (mc_serial m', mc_log m'))"
  by (auto simp: transact_def split: prod.splits sum.splits)

lemma exchange_registers:
  assumes "length (buf s) = 260"
    and "nmbs_read_write_registers (client_platform ser) ra rq wa wq regs (s, w) = (Inr rs, s', w')"
  shows "take (2 * length rs + 5) (buf s') = modbus_frame (dest_address_rtu s) 23 (read_body rs) \<and> length rs = unat rq"
proof -
  have "nm_bind (msg_state_req (client_platform ser) 23) (\<lambda>_. nm_bind
      (nm_bind put_msg_header (\<lambda>_. nm_bind (put_2 ra) (\<lambda>_. nm_bind (put_2 rq) (\<lambda>_. nm_bind (put_2 wa) (\<lambda>_. nm_bind (put_2 wq) (\<lambda>_.
        nm_bind (put_1 (ucast (wq * 2))) (\<lambda>_. nm_bind (put_regs (take (unat wq) regs)) (\<lambda>_. send_msg (client_platform ser)))))))))
      (\<lambda>_. recv_read_registers_res (client_platform ser) rq)) (s, w) = (Inr rs, s', w')"
    using assms(2) unfolding nmbs_read_write_registers_def nm_bind_assoc by (simp split: if_splits)
  from after_request [OF assms(1) exchange_request_kept this] show ?thesis using read_res_frame by blast
qed

lemma read_registers_frame:
  assumes "length (buf s) = 260"
    and "nmbs_read_holding_registers (client_platform ser) a q (s, w) = (Inr rs, s', w')"
  shows "take (2 * length rs + 5) (buf s') = modbus_frame (dest_address_rtu s) 3 (read_body rs) \<and> length rs = unat q"
proof -
  have "nm_bind (msg_state_req (client_platform ser) 3) (\<lambda>_. nm_bind
      (nm_bind put_msg_header (\<lambda>_. nm_bind (put_2 a) (\<lambda>_. nm_bind (put_2 q) (\<lambda>_. send_msg (client_platform ser)))))
      (\<lambda>_. recv_read_registers_res (client_platform ser) q)) (s, w) = (Inr rs, s', w')"
    using assms(2) unfolding nmbs_read_holding_registers_def read_registers_def nm_bind_assoc by (simp split: if_splits)
  from after_request [OF assms(1) read_request_kept this] show ?thesis using read_res_frame by blast
qed

text \<open>The status block decoded from the registers of a response.\<close>

definition decoded :: "u16 list \<Rightarrow> gripper_status" where
  "decoded registers = status_of (bytesFromRegisters registers (status_data zero_status))"

lemma kStatusRegisterCount_3: "unat kStatusRegisterCount = 3" "unat kCommandRegisterCount = 3"
  by (simp_all add: addresses)

lemma exchange_Inr:
  assumes "exchange ser c m = (Inr st, m')"
  shows "\<exists>registers. st = decoded registers \<and> nmbs_read_write_registers (client_platform ser) kStatusAddress kStatusRegisterCount
      kCommandAddress kCommandRegisterCount (registersFromBytes (unat kCommandRegisterCount) (command_data c))
      (mc_nmbs m, (mc_serial m, mc_log m)) = (Inr registers, mc_nmbs m', (mc_serial m', mc_log m'))"
  using assms unfolding exchange_def decoded_def Let_def
  by (auto simp: transact_Inr split: prod.splits sum.splits)

text \<open>
  C9 Whatever the serial port hands over, in whatever pieces and with whatever excess, \<open>exchange\<close> and \<open>readStatus\<close>
  return a status only if the message buffer then holds a complete response: the address asked, the
  function code of the request, the byte count of three registers, those registers, and the CRC-16 of all of it.
  The status is decoded from those registers and from nothing else.
\<close>

theorem only_a_valid_response_is_a_status:
  assumes "length (buf (mc_nmbs m)) = 260"
    and "(code, result) = (23, exchange ser c m) \<or> (code, result) = (3, readStatus ser m)"
    and "result = (Inr st, m')"
  shows "\<exists>registers. length registers = 3 \<and> st = decoded registers \<and>
    take 11 (buf (mc_nmbs m')) = modbus_frame (dest_address_rtu (mc_nmbs m)) code (read_body registers)"
  using assms(2)
proof
  assume "(code, result) = (23, exchange ser c m)"
  with assms(3) obtain registers where "st = decoded registers" and r: "code = 23"
      "nmbs_read_write_registers (client_platform ser) kStatusAddress kStatusRegisterCount
      kCommandAddress kCommandRegisterCount (registersFromBytes (unat kCommandRegisterCount) (command_data c))
      (mc_nmbs m, (mc_serial m, mc_log m)) = (Inr registers, mc_nmbs m', (mc_serial m', mc_log m'))"
    using exchange_Inr by (metis prod.inject)
  with exchange_registers [OF assms(1) r(2)] show ?thesis unfolding kStatusRegisterCount_3 by fastforce
next
  assume "(code, result) = (3, readStatus ser m)"
  with assms(3) obtain registers where "st = decoded registers" and r: "code = 3"
      "nmbs_read_holding_registers (client_platform ser) kStatusAddress kStatusRegisterCount
      (mc_nmbs m, (mc_serial m, mc_log m)) = (Inr registers, mc_nmbs m', (mc_serial m', mc_log m'))"
    by (auto simp: readStatus_def decoded_def transact_Inr split: prod.splits sum.splits)
  with read_registers_frame [OF assms(1) r(2)] show ?thesis unfolding kStatusRegisterCount_3 by fastforce
qed

section \<open>When the link fails\<close>

text \<open>A part of a request that only fills the buffer.\<close>

definition quiet :: "('w, unit) nm \<Rightarrow> bool" where
  "quiet m \<longleftrightarrow> (\<forall>s w. \<exists>s'. m (s, w) = (Inr (), s', w))"

lemma quiet_bind: "quiet m \<Longrightarrow> quiet (f ()) \<Longrightarrow> quiet (nm_bind m f)"
  unfolding quiet_def nm_bind_eq by (metis (mono_tags, lifting) case_prod_conv sum.simps(6))

lemma quiet_run [simp]: "quiet (nm_return ())" "quiet (nm_modify f)"
  by (simp_all add: quiet_def)

lemma quiet_put [simp]: "quiet (put_1 d)" "quiet (put_2 e)"
  by (simp_all add: put_1_def put_2_def)

lemma quiet_header [simp]: "quiet put_msg_header"
  by (simp add: quiet_def put_msg_header_def nm_bind_eq put_1_def)

lemma quiet_regs [simp]: "quiet (put_regs rs)"
  by (induction rs) (auto intro!: quiet_bind)

lemmas quiets = quiet_bind quiet_put quiet_header quiet_regs

text \<open>Whatever the flush does, a request reaches the point of sending.\<close>

lemma reaches_send:
  assumes "quiet P"
  shows "\<exists>s1 w1. nm_bind (msg_state_req p f) (\<lambda>_. nm_bind P (\<lambda>_. g)) (s, w) = g (s1, w1)"
proof -
  have "\<exists>s0 w0. msg_state_req p f (s, w) = (Inr (), s0, w0)"
    by (cases "p_read p 260 0 w") (auto simp: msg_state_req_def nm_bind_eq flush_def split: prod.splits)
  then obtain s0 w0 where a: "msg_state_req p f (s, w) = (Inr (), s0, w0)" by blast
  obtain s1 where "P (s0, w0) = (Inr (), s1, w0)" using assms unfolding quiet_def by blast
  with a show ?thesis by (intro exI [of _ s1] exI [of _ w0]) (simp add: nm_bind_eq)
qed

definition link_error :: "(('s \<times> log), 'a) nm \<Rightarrow> nmbs_error \<Rightarrow> bool" where
  "link_error call e \<longleftrightarrow> (\<forall>sw. \<exists>sw'. call sw = (Inl e, sw'))"

lemma link_error_request:
  assumes "quiet P" and "link_error g e"
  shows "link_error (nm_bind (msg_state_req p f) (\<lambda>_. nm_bind P (\<lambda>_. g))) e"
  unfolding link_error_def
proof
  fix sw :: "nmbs \<times> 'a \<times> log"
  obtain s w where sw: "sw = (s, w)" by (cases sw)
  obtain s1 w1 where "nm_bind (msg_state_req p f) (\<lambda>_. nm_bind P (\<lambda>_. g)) (s, w) = g (s1, w1)"
    using reaches_send [OF assms(1)] by blast
  then show "\<exists>sw'. nm_bind (msg_state_req p f) (\<lambda>_. nm_bind P (\<lambda>_. g)) sw = (Inl e, sw')"
    using assms(2) unfolding link_error_def sw by metis
qed

lemma link_error_transact: "link_error call e \<Longrightarrow> fst (transact context call m) = Inl (check_error e context)"
proof -
  assume "link_error call e"
  then obtain n s l where "call (mc_nmbs m, (mc_serial m, mc_log m)) = (Inl e, n, s, l)"
    unfolding link_error_def by (metis prod_cases3)
  then show ?thesis by (simp add: transact_def)
qed

lemma link_error_operations:
  assumes "\<And>r. link_error (nm_bind (send_msg (client_platform ser)) (\<lambda>_. recv_read_registers_res (client_platform ser) r)) e"
    and "\<And>a q. link_error (nm_bind (send_msg (client_platform ser)) (\<lambda>_. nm_bind nm_get (\<lambda>s. if \<not> broadcast s
      then recv_write_multiple_registers_res (client_platform ser) a q else nm_return ()))) e"
  shows "link_error (nmbs_read_write_registers (client_platform ser) kStatusAddress kStatusRegisterCount
      kCommandAddress kCommandRegisterCount regs) e"
    and "link_error (nmbs_write_multiple_registers (client_platform ser) kCommandAddress kCommandRegisterCount regs) e"
    and "link_error (nmbs_read_holding_registers (client_platform ser) kStatusAddress kStatusRegisterCount) e"
proof -
  let ?p = "client_platform ser"
  have k: "kStatusRegisterCount = 3" "kCommandRegisterCount = 3" "uint kStatusAddress = 2000" "uint kCommandAddress = 1000"
    by (simp_all add: addresses)
  have c: "\<not> (kCommandRegisterCount < 1 \<or> 0x7B < kCommandRegisterCount)"
      "\<not> 0x10000 < uint kCommandAddress + uint kCommandRegisterCount"
    by (simp_all add: addresses)
  have "quiet (nm_bind put_msg_header (\<lambda>_. nm_bind (put_2 kStatusAddress) (\<lambda>_. nm_bind (put_2 3) (\<lambda>_.
      nm_bind (put_2 kCommandAddress) (\<lambda>_. nm_bind (put_2 3) (\<lambda>_. nm_bind (put_1 (ucast ((3 :: u16) * 2))) (\<lambda>_.
      put_regs (take (unat (3 :: u16)) regs))))))))" by (intro quiets)
  from link_error_request [OF this assms(1), of ?p 23 3]
  show "link_error (nmbs_read_write_registers ?p kStatusAddress kStatusRegisterCount kCommandAddress kCommandRegisterCount regs) e"
    unfolding nmbs_read_write_registers_def nm_bind_assoc by (simp add: k)
  have "quiet (nm_bind put_msg_header (\<lambda>_. nm_bind (put_2 kCommandAddress) (\<lambda>_. nm_bind (put_2 kCommandRegisterCount) (\<lambda>_.
      nm_bind (put_1 (ucast (kCommandRegisterCount * 2))) (\<lambda>_. put_regs (take (unat kCommandRegisterCount) regs))))))"
    by (intro quiets)
  from link_error_request [OF this assms(2), of ?p 16 kCommandAddress kCommandRegisterCount]
  show "link_error (nmbs_write_multiple_registers ?p kCommandAddress kCommandRegisterCount regs) e"
    unfolding nmbs_write_multiple_registers_def nm_bind_assoc if_not_P [OF c(1)] if_not_P [OF c(2)] .
  have "quiet (nm_bind put_msg_header (\<lambda>_. nm_bind (put_2 kStatusAddress) (\<lambda>_. put_2 3)))" by (intro quiets)
  from link_error_request [OF this assms(1), of ?p 3 3]
  show "link_error (nmbs_read_holding_registers ?p kStatusAddress kStatusRegisterCount) e"
    unfolding nmbs_read_holding_registers_def read_registers_def nm_bind_assoc by (simp add: k)
qed

text \<open>A write that throws, and a link that says nothing.\<close>

lemma link_error_send:
  assumes "\<And>bs s. \<exists>x s'. ser_write ser bs s = (Inl x, s')"
  shows "link_error (nm_bind (send_msg (client_platform ser)) f) TRANSPORT"
  unfolding link_error_def
proof
  fix sw :: "nmbs \<times> 'a \<times> log"
  obtain n s l where sw: "sw = (n, s, l)" by (cases sw) auto
  let ?c = "nmbs_crc_calc (take (buf_idx n) (buf n))"
  obtain n1 where n1: "put_2 ?c (n, s, l) = (Inr (), n1, s, l)" by (simp add: put_2_def)
  obtain x s' where "ser_write ser (take (buf_idx n1) (buf n1)) s = (Inl x, s')" using assms by blast
  then have "send (client_platform ser) (buf_idx n1) (n1, s, l) =
      (Inl TRANSPORT, n1, s', log_line LevelError (thrown_line ''serial write'' x) l)"
    by (simp add: send_def client_platform_def writeSerial_def Let_def)
  with n1 have "send_msg (client_platform ser) (n, s, l) =
      (Inl TRANSPORT, n1, s', log_line LevelError (thrown_line ''serial write'' x) l)"
    by (simp add: send_msg_def nm_bind_eq)
  then show "\<exists>sw'. nm_bind (send_msg (client_platform ser)) f sw = (Inl TRANSPORT, sw')"
    by (simp add: nm_bind_eq sw)
qed

text \<open>
  When every write to the link throws, each of the three operations throws, with the library's
  transport error under the operation's name, from any state of the client. None of them reports a status.
\<close>

theorem failed_writes_are_reported:
  assumes "\<And>bs s. \<exists>x s'. ser_write ser bs s = (Inl x, s')"
  shows "fst (exchange ser c m) = Inl (StdException ''DriverException: exchange failed: transport error.'') \<and>
    fst (writeCommand ser c m) = Inl (StdException ''DriverException: writeCommand failed: transport error.'') \<and>
    fst (readStatus ser m) = Inl (StdException ''DriverException: readStatus failed: transport error.'')"
proof -
  note e = link_error_operations [OF link_error_send [OF assms] link_error_send [OF assms]]
  have "fst (exchange ser c m) = Inl (check_error TRANSPORT ''exchange'')"
    using link_error_transact [OF e(1), of "''exchange''" "registersFromBytes (unat kCommandRegisterCount) (command_data c)" m] by (auto simp: exchange_def Let_def split: prod.splits sum.splits)
  moreover have "fst (writeCommand ser c m) = Inl (check_error TRANSPORT ''writeCommand'')"
    using link_error_transact [OF e(2), of "''writeCommand''" "registersFromBytes (unat kCommandRegisterCount) (command_data c)" m] by (simp add: writeCommand_def Let_def)
  moreover have "fst (readStatus ser m) = Inl (check_error TRANSPORT ''readStatus'')"
    using link_error_transact [OF e(3), of "''readStatus''" m] by (auto simp: readStatus_def Let_def split: prod.splits sum.splits)
  ultimately show ?thesis by (simp add: check_error_def driver_exception_def)
qed

text \<open>A port that refuses all writes.\<close>

definition broken_serial :: "unit serial" where
  "broken_serial = \<lparr>ser_open = (\<lambda>s. (Inr (), s)), ser_isOpen = (\<lambda>_. True), ser_close = (\<lambda>s. s),
     ser_read = (\<lambda>n t s. (Inr [], s)), ser_write = (\<lambda>bs s. (Inl (serial_io_exception ''gone''), s)),
     ser_getTimeout = (\<lambda>_. 100)\<rparr>"

theorem failed_writes_are_reported_witness:
  "fst (readStatus broken_serial \<lparr>mc_serial = (), mc_log = [], mc_nmbs = nmbs_client_create\<rparr>) =
     Inl (StdException ''DriverException: readStatus failed: transport error.'')"
  using failed_writes_are_reported [of broken_serial] by (simp add: broken_serial_def)

text \<open>Nothing comes.\<close>

lemma silent_read_res:
  assumes "\<And>t. p_read p 1 t w = ((0, []), w)"
  shows "\<exists>s'. recv_read_registers_res p q (s, w) = (Inl TIMEOUT, s', w)"
  using assms
  by (simp add: recv_read_registers_res_def recv_res_header_def recv_msg_header_def recv_first_byte_def recv_def
      nm_bind_eq msg_state_reset_def msg_buf_reset_def Let_def)

text \<open>
  When the link takes the request and then stays silent, an exchange throws the library's time-out.
\<close>

theorem silence_is_a_timeout:
  assumes "ready (mc_nmbs m)"
    and "\<And>bs s. \<exists>s'. ser_write ser bs s = (Inr (), s')" and "\<And>n t s. ser_read ser n t s = (Inr [], s)"
  shows "fst (exchange ser c m) = Inl (StdException ''DriverException: exchange failed: timeout.'')"
proof -
  let ?p = "client_platform ser"
  let ?rs = "registersFromBytes 3 (command_data c)"
  have rd: "p_read ?p n t w = ((0, []), w)" for n t w
    by (cases w) (simp add: client_platform_def readSerial_def assms(3))
  have link: "byte_link ?p (\<lambda>_. []) (\<lambda>_ w. w) (\<lambda>bs w. (snd (ser_write ser bs (fst w)), snd w))"
  proof
    fix t :: int and n w assume "n \<le> length ([] :: u8 list)"
    then show "p_read ?p n t w = ((int n, take n []), w)" by (simp add: rd)
  next
    fix bs t w show "p_write ?p bs t w = (int (length bs), snd (ser_write ser bs (fst w)), snd w)"
      using assms(2) [of bs "fst w"] by (cases w) (auto simp: client_platform_def writeSerial_def)
  qed simp_all
  let ?P = "nm_bind (put_2 kStatusAddress) (\<lambda>_. nm_bind (put_2 kStatusRegisterCount) (\<lambda>_. nm_bind (put_2 kCommandAddress) (\<lambda>_.
    nm_bind (put_2 kCommandRegisterCount) (\<lambda>_. nm_bind (put_1 (ucast (kCommandRegisterCount * 2))) (\<lambda>_.
    put_regs (take (unat kCommandRegisterCount) ?rs))))))"
  have app: "appends ?P (bytes16 [kStatusAddress] @ bytes16 [kStatusRegisterCount] @ bytes16 [kCommandAddress] @
      bytes16 [kCommandRegisterCount] @ [ucast (kCommandRegisterCount * 2)] @ bytes16 (take (unat kCommandRegisterCount) ?rs))"
    by (intro appends_rules)
  have k: "kStatusRegisterCount = 3" "kCommandRegisterCount = 3" "uint kStatusAddress = 2000" "uint kCommandAddress = 1000"
    by (simp_all add: addresses)
  obtain s' w' where r: "nm_bind (msg_state_req ?p 23) (\<lambda>_. nm_bind put_msg_header (\<lambda>_. nm_bind ?P (\<lambda>_. send_msg ?p)))
      (mc_nmbs m, (mc_serial m, mc_log m)) = (Inr (), s', w')"
    using byte_link.ok_request [where w = "(mc_serial m, mc_log m)" and f = 23, OF link assms(1) rd app] unfolding ok_def
    by (force simp: k(2))
  obtain s2 where s2: "recv_read_registers_res ?p kStatusRegisterCount (s', w') = (Inl TIMEOUT, s2, w')"
    using silent_read_res [OF rd] by blast
  have "nm_bind (nm_bind (msg_state_req ?p 23) (\<lambda>_. nm_bind put_msg_header (\<lambda>_. nm_bind ?P (\<lambda>_. send_msg ?p))))
      (\<lambda>_. recv_read_registers_res ?p kStatusRegisterCount) (mc_nmbs m, (mc_serial m, mc_log m)) = (Inl TIMEOUT, s2, w')"
    using r s2 by (simp add: nm_bind_eq)
  then have "nmbs_read_write_registers ?p kStatusAddress kStatusRegisterCount kCommandAddress kCommandRegisterCount ?rs
      (mc_nmbs m, (mc_serial m, mc_log m)) = (Inl TIMEOUT, s2, w')"
    unfolding nm_bind_assoc by (simp add: nmbs_read_write_registers_def k)
  then show ?thesis
    by (cases w') (simp add: exchange_def transact_def k check_error_def driver_exception_def)
qed

text \<open>A port that takes everything and answers nothing.\<close>

definition silent_serial :: "unit serial" where
  "silent_serial = broken_serial\<lparr>ser_write := (\<lambda>bs s. (Inr (), s))\<rparr>"

theorem silence_is_a_timeout_witness:
  "fst (exchange silent_serial defaults \<lparr>mc_serial = (), mc_log = [], mc_nmbs = nmbs_client_create\<lparr>
     read_timeout_ms := 100, byte_timeout_ms := kByteTimeoutMs\<rparr>\<rparr>) =
     Inl (StdException ''DriverException: exchange failed: timeout.'')"
  by (rule silence_is_a_timeout)
    (simp_all add: silent_serial_def broken_serial_def ready_def nmbs_client_create_def nmbs_create_def kByteTimeoutMs_def)

end
