(* ===== verification/FakeGripper.thy ===== *)
theory FakeGripper
  imports ModbusClient
begin

text \<open>
  The simulated gripper of \<open>grippers/sdk_cpp/src/fake\<close>: \<open>GripperServer\<close> puts the Modbus library's server in
  front of a \<open>RegisterModel\<close>, with a queue of bytes each way; \<open>GripperSerial\<close> is the \<open>Serial\<close> that
  reaches it, synchronous, so that a write runs the server and a read drains its reply. Below, a
  client's transaction over the whole stack is shown to be one write and one read of the register
  model.
\<close>

section \<open>GripperServer\<close>

record fake_link =
  fk_model :: register_model
  fk_fromClient :: "u8 list"
  fk_toClient :: "u8 list"
  fk_log :: log

definition readFromClient :: "nat \<Rightarrow> int \<Rightarrow> fake_link \<Rightarrow> (int \<times> u8 list) \<times> fake_link" where
  "readFromClient count timeout w =
     (let available = min count (length (fk_fromClient w))
      in ((int available, take available (fk_fromClient w)),
          w\<lparr>fk_fromClient := drop available (fk_fromClient w)\<rparr>))"

definition writeToClient :: "u8 list \<Rightarrow> int \<Rightarrow> fake_link \<Rightarrow> int \<times> fake_link" where
  "writeToClient bs timeout w = (int (length bs), w\<lparr>fk_toClient := fk_toClient w @ bs\<rparr>)"

definition server_platform :: "fake_link platform" where
  "server_platform = \<lparr>p_read = readFromClient, p_write = writeToClient\<rparr>"

text \<open>A read the register model refuses leaves the library's zeroed array as it was.\<close>

definition onReadHoldingRegisters :: "u16 \<Rightarrow> u16 \<Rightarrow> fake_link \<Rightarrow> (nmbs_error + u16 list) \<times> fake_link" where
  "onReadHoldingRegisters address quantity w =
     (if \<not> containsRange address quantity then (Inl ILLEGAL_DATA_ADDRESS, w)
      else case rm_read address quantity (fk_model w) of
             Inl refused \<Rightarrow> (Inr (replicate (unat quantity) 0), w\<lparr>fk_log := log_line LevelError refused (fk_log w)\<rparr>)
           | Inr registers \<Rightarrow> (Inr registers, w))"

definition onWriteMultipleRegisters :: "u16 \<Rightarrow> u16 \<Rightarrow> u16 list \<Rightarrow> fake_link \<Rightarrow> (nmbs_error + unit) \<times> fake_link" where
  "onWriteMultipleRegisters address quantity vals w =
     (if \<not> containsRange address quantity then (Inl ILLEGAL_DATA_ADDRESS, w)
      else case rm_write address (take (unat quantity) vals) (fk_model w) of
             Inl refused \<Rightarrow> (Inr (), w\<lparr>fk_log := log_line LevelError refused (fk_log w)\<rparr>)
           | Inr model \<Rightarrow> (Inr (), w\<lparr>fk_model := model\<rparr>))"

definition server_callbacks :: "fake_link callbacks" where
  "server_callbacks = \<lparr>read_holding_registers = Some onReadHoldingRegisters,
     write_multiple_registers = Some onWriteMultipleRegisters\<rparr>"

record fake_server =
  fs_server :: nmbs
  fs_link :: fake_link

definition makeGripperServer :: "register_model \<Rightarrow> u8 \<Rightarrow> log \<Rightarrow> thrown + fake_server" where
  "makeGripperServer model slaveAddress l =
     (case nmbs_server_create slaveAddress of
        Inl err \<Rightarrow> Inl (driver_exception (''creating the fake gripper'' @ [CHR 0x27] @ ''s Modbus server failed: '' @ nmbs_strerror err))
      | Inr server \<Rightarrow>
          Inr \<lparr>fs_server = server\<lparr>read_timeout_ms := 10, byte_timeout_ms := 10\<rparr>,
               fs_link = \<lparr>fk_model = model, fk_fromClient = [], fk_toClient = [], fk_log = l\<rparr>\<rparr>)"

text \<open>\<open>other\<close> is what the library's server does with a function code that is not modelled.\<close>

type_synonym other_codes = "u8 \<Rightarrow> (fake_link, unit) nm"

definition fk_deliver :: "other_codes \<Rightarrow> u8 list \<Rightarrow> fake_server \<Rightarrow> fake_server" where
  "fk_deliver other request g =
     (let w = (fs_link g)\<lparr>fk_fromClient := fk_fromClient (fs_link g) @ request\<rparr>
      in case nmbs_server_poll other server_platform server_callbacks (fs_server g, w) of
           (_, server, w') \<Rightarrow> \<lparr>fs_server = server, fs_link = w'\<rparr>)"

definition drain :: "nat \<Rightarrow> fake_server \<Rightarrow> u8 list \<times> fake_server" where
  "drain max_count g =
     (let toClient = fk_toClient (fs_link g); count = min max_count (length toClient)
      in (take count toClient, g\<lparr>fs_link := (fs_link g)\<lparr>fk_toClient := drop count toClient\<rparr>\<rparr>))"

definition discardPendingReply :: "fake_server \<Rightarrow> fake_server" where
  "discardPendingReply g = g\<lparr>fs_link := (fs_link g)\<lparr>fk_toClient := []\<rparr>\<rparr>"

section \<open>GripperSerial\<close>

record fake_gripper =
  fg_server :: fake_server
  fg_open :: bool

definition fg_read :: "nat \<Rightarrow> int \<Rightarrow> fake_gripper \<Rightarrow> (thrown + u8 list) \<times> fake_gripper" where
  "fg_read count timeout g =
     (if timeout = 0 then (Inr [], g)
      else case drain count (fg_server g) of (data, server) \<Rightarrow> (Inr data, g\<lparr>fg_server := server\<rparr>))"

definition fg_write :: "other_codes \<Rightarrow> u8 list \<Rightarrow> fake_gripper \<Rightarrow> (thrown + unit) \<times> fake_gripper" where
  "fg_write other data g = (Inr (), g\<lparr>fg_server := fk_deliver other data (fg_server g)\<rparr>)"

definition fake_serial :: "other_codes \<Rightarrow> fake_gripper serial" where
  "fake_serial other = \<lparr>ser_open = (\<lambda>g. (Inr (), g\<lparr>fg_open := True\<rparr>)), ser_isOpen = fg_open,
     ser_close = (\<lambda>g. g\<lparr>fg_open := False\<rparr>), ser_read = fg_read, ser_write = fg_write other,
     ser_getTimeout = (\<lambda>_. 100)\<rparr>"

text \<open>The stack \<open>makeFakeGripper\<close> assembles, and the client a \<open>Gripper\<close> makes of it.\<close>

definition makeFakeSerial :: "u8 \<Rightarrow> log \<Rightarrow> thrown + fake_gripper" where
  "makeFakeSerial slaveAddress l =
     (case makeGripperServer new_register_model slaveAddress l of
        Inl e \<Rightarrow> Inl e | Inr server \<Rightarrow> Inr \<lparr>fg_server = server, fg_open = False\<rparr>)"

definition makeFakeClient :: "other_codes \<Rightarrow> u8 \<Rightarrow> log \<Rightarrow> thrown + fake_gripper modbus_client" where
  "makeFakeClient other slaveAddress l =
     (case makeFakeSerial slaveAddress l of
        Inl e \<Rightarrow> Inl e | Inr g \<Rightarrow> makeModbusClient (fake_serial other) g slaveAddress l)"

section \<open>Both ends are byte links\<close>

definition server_consume :: "nat \<Rightarrow> fake_link \<Rightarrow> fake_link" where
  "server_consume n w = w\<lparr>fk_fromClient := drop n (fk_fromClient w)\<rparr>"

definition server_emit :: "u8 list \<Rightarrow> fake_link \<Rightarrow> fake_link" where
  "server_emit bs w = w\<lparr>fk_toClient := fk_toClient w @ bs\<rparr>"

interpretation server: byte_link server_platform fk_fromClient server_consume server_emit
  by unfold_locales
    (auto simp: server_platform_def readFromClient_def writeToClient_def server_consume_def server_emit_def
      min_def add.commute)

definition reply :: "fake_gripper \<times> log \<Rightarrow> u8 list" where
  "reply = (\<lambda>(g, l). fk_toClient (fs_link (fg_server g)))"

definition client_consume :: "nat \<Rightarrow> fake_gripper \<times> log \<Rightarrow> fake_gripper \<times> log" where
  "client_consume n = (\<lambda>(g, l). (g\<lparr>fg_server := snd (drain n (fg_server g))\<rparr>, l))"

definition client_emit :: "other_codes \<Rightarrow> u8 list \<Rightarrow> fake_gripper \<times> log \<Rightarrow> fake_gripper \<times> log" where
  "client_emit other bs = (\<lambda>(g, l). (g\<lparr>fg_server := fk_deliver other bs (fg_server g)\<rparr>, l))"

text \<open>
  A port with the simulated device at its other end: a read that may wait takes the pending reply as far as asked,
  one that may not finds nothing when nothing is pending, and a write reaches the server.
\<close>

locale device_port =
  fixes ser :: "fake_gripper serial" and other :: other_codes
  assumes waiting_read: "0 < t \<Longrightarrow> ser_read ser n t g = fg_read n t g"
    and nothing_pending: "fk_toClient (fs_link (fg_server g)) = [] \<Longrightarrow> ser_read ser n 0 g = (Inr [], g)"
    and device_write: "bs \<noteq> [] \<Longrightarrow> ser_write ser bs g = fg_write other bs g"

sublocale device_port \<subseteq> client: byte_link "client_platform ser" reply client_consume "client_emit other"
  by unfold_locales
    (auto simp: client_platform_def readSerial_def writeSerial_def waiting_read device_write fg_read_def fg_write_def
      drain_def reply_def client_consume_def client_emit_def min_def Let_def add.commute split: prod.splits)

interpretation fake: device_port "fake_serial other" other for other
  by unfold_locales (simp_all add: fake_serial_def fg_read_def)

section \<open>What the server does with a request\<close>

definition idle_server :: "u8 \<Rightarrow> fake_server \<Rightarrow> bool" where
  "idle_server u g \<longleftrightarrow> u \<noteq> 0 \<and> ready (fs_server g) \<and> address_rtu (fs_server g) = u \<and>
     fk_fromClient (fs_link g) = [] \<and> fk_toClient (fs_link g) = []"

text \<open>It has taken the request, and this reply waits; the model is \<open>m\<close>.\<close>

definition answered :: "u8 \<Rightarrow> fake_server \<Rightarrow> register_model \<Rightarrow> u8 list \<Rightarrow> fake_server \<Rightarrow> bool" where
  "answered u g m rep g' \<longleftrightarrow> ready (fs_server g') \<and> address_rtu (fs_server g') = u \<and>
     fs_link g' = (fs_link g)\<lparr>fk_model := m, fk_toClient := rep\<rparr>"

lemma idle_address: "cfg s' = cfg s \<Longrightarrow> address_rtu s' = address_rtu s"
  by (simp add: cfg_def)

lemma server_callbacks_simps [simp]:
  "read_holding_registers server_callbacks = Some onReadHoldingRegisters"
  "write_multiple_registers server_callbacks = Some onWriteMultipleRegisters"
  by (simp_all add: server_callbacks_def)

lemma deliver_answered:
  assumes "idle_server u g"
    and "\<And>s2 w. headed s2 u f \<Longrightarrow> fk_fromClient w = after_header u f body \<Longrightarrow> fk_model w = fk_model (fs_link g) \<Longrightarrow>
      \<exists>s3. ok (handle_req_fc other server_platform server_callbacks) s2 w () s3
        (server_emit rep (server_consume (length (after_header u f body)) (w\<lparr>fk_model := m\<rparr>))) \<and> cfg s3 = cfg s2 \<and> ready s3"
  shows "answered u g m rep (fk_deliver other (modbus_frame u f body) g)"
proof -
  let ?w = "(fs_link g)\<lparr>fk_fromClient := modbus_frame u f body\<rparr>"
  let ?w2 = "server_consume 2 ?w"
  let ?w3 = "server_emit rep (server_consume (length (after_header u f body)) (?w2\<lparr>fk_model := m\<rparr>))"
  have w2: "fk_fromClient ?w2 = after_header u f body" "fk_model ?w2 = fk_model (fs_link g)"
    by (simp_all add: server_consume_def after_header_def)
  have "\<exists>s'. ok (nmbs_server_poll other server_platform server_callbacks) (fs_server g) ?w () s' ?w3 \<and>
      cfg s' = cfg (fs_server g) \<and> ready s'"
  proof (rule server.ok_poll [where r = "[]" and f = f and body = body and u = u])
    fix s2 assume "headed s2 u f"
    from assms(2) [OF this w2]
    show "\<exists>s3. ok (handle_req_fc other server_platform server_callbacks) s2 ?w2 () s3 ?w3 \<and> cfg s3 = cfg s2 \<and> ready s3"
      by blast
  qed (use assms(1) in \<open>simp_all add: idle_server_def\<close>)
  then obtain s' where s': "nmbs_server_poll other server_platform server_callbacks (fs_server g, ?w) = (Inr (), s', ?w3)"
      "cfg s' = cfg (fs_server g)" "ready s'" by (auto simp: ok_def)
  have "?w3 = (fs_link g)\<lparr>fk_model := m, fk_toClient := rep\<rparr>"
    using assms(1) by (simp add: server_emit_def server_consume_def after_header_def idle_server_def)
  then show ?thesis
    using s' assms(1) idle_address [OF s'(2)] by (simp add: answered_def fk_deliver_def idle_server_def)
qed

lemma call_write:
  assumes "rm_write a rs (fk_model w) = Inr m" and "containsRange a (word_of_nat (length rs))" and "length rs < 65536"
  shows "onWriteMultipleRegisters a (word_of_nat (length rs)) rs w = (Inr (), w\<lparr>fk_model := m\<rparr>)"
  using assms by (simp add: onWriteMultipleRegisters_def unat_word_of_nat_u16)

lemma call_read:
  assumes "rm_read a q (fk_model w) = Inr regs" and "containsRange a q"
  shows "onReadHoldingRegisters a q w = (Inr regs, w)"
  using assms by (simp add: onReadHoldingRegisters_def)

lemma rm_read_length: "rm_read a q m = Inr regs \<Longrightarrow> length regs = unat q \<and> containsRange a q"
  by (auto simp: rm_read_def split: if_splits)

lemma after_exchange_length: "length (after_header u f (body :: u8 list)) = length body + 2"
  by (simp add: after_header_def modbus_frame_def Let_def)

lemma deliver_exchange:
  assumes "idle_server u g" and "rm_write wa rs (fk_model (fs_link g)) = Inr m" and "rm_read ra rq m = Inr regs"
    and "1 \<le> rq" and "rq \<le> 125" and "uint ra + uint rq \<le> 0x10000"
    and "rs \<noteq> []" and "length rs \<le> 121" and "uint wa + int (length rs) \<le> 0x10000"
    and "containsRange wa (word_of_nat (length rs))"
  shows "answered u g m (modbus_frame u 23 (read_body regs)) (fk_deliver other (modbus_frame u 23 (exchange_request_body ra rq wa rs)) g)"
proof (rule deliver_answered [OF assms(1)])
  fix s2 and w :: fake_link
  assume h: "headed s2 u 23" "fk_fromClient w = after_header u 23 (exchange_request_body ra rq wa rs)"
    "fk_model w = fk_model (fs_link g)"
  let ?b = "exchange_request_body ra rq wa rs"
  let ?c = "server_consume (length ?b + 2) w"
  have c: "onWriteMultipleRegisters wa (word_of_nat (length rs)) rs ?c = (Inr (), ?c\<lparr>fk_model := m\<rparr>)"
    by (rule call_write) (use assms h(3) in \<open>simp_all add: server_consume_def\<close>)
  have "\<exists>s'. ok (handle_read_write_registers server_platform server_callbacks) s2 w () s'
      (server_emit (modbus_frame u 23 (read_body regs)) (?c\<lparr>fk_model := m\<rparr>)) \<and> cfg s' = cfg s2 \<and> ready s'"
    by (rule server.ok_handle_exchange [where r = "[]" and cb = server_callbacks and wr = onWriteMultipleRegisters
          and rd = onReadHoldingRegisters, OF h(1) _ assms(4-9) _ _ c])
      (use h(2) assms(3) rm_read_length [OF assms(3)] in \<open>simp_all add: call_read\<close>)
  moreover have "?c\<lparr>fk_model := m\<rparr> = server_consume (length (after_header u 23 ?b)) (w\<lparr>fk_model := m\<rparr>)"
    by (simp add: server_consume_def after_exchange_length)
  ultimately show "\<exists>s3. ok (handle_req_fc other server_platform server_callbacks) s2 w () s3
      (server_emit (modbus_frame u 23 (read_body regs)) (server_consume (length (after_header u 23 ?b)) (w\<lparr>fk_model := m\<rparr>))) \<and>
      cfg s3 = cfg s2 \<and> ready s3"
    using h(1) by (auto simp: handle_req_fc_def ok_def nm_bind_eq headed_def)
qed

lemma deliver_read:
  assumes "idle_server u g" and "rm_read a q (fk_model (fs_link g)) = Inr regs"
    and "1 \<le> q" and "q \<le> 125" and "uint a + uint q \<le> 0x10000"
  shows "answered u g (fk_model (fs_link g)) (modbus_frame u 3 (read_body regs))
    (fk_deliver other (modbus_frame u 3 (bytes16 [a, q])) g)"
proof (rule deliver_answered [OF assms(1)])
  fix s2 and w :: fake_link
  assume h: "headed s2 u 3" "fk_fromClient w = after_header u 3 (bytes16 [a, q])" "fk_model w = fk_model (fs_link g)"
  let ?c = "server_consume 6 w"
  have c: "onReadHoldingRegisters a q ?c = (Inr regs, ?c)"
    by (rule call_read) (use assms(2) h(3) rm_read_length [OF assms(2)] in \<open>simp_all add: server_consume_def\<close>)
  have "\<exists>s'. ok (handle_read_holding_registers server_platform server_callbacks) s2 w () s'
      (server_emit (modbus_frame u 3 (read_body regs)) ?c) \<and> cfg s' = cfg s2 \<and> ready s'"
    by (rule server.ok_handle_read [where r = "[]" and cb = server_callbacks and rd = onReadHoldingRegisters,
          OF h(1) _ assms(3-5) _ c]) (use h(2) rm_read_length [OF assms(2)] in simp_all)
  moreover have "?c = server_consume (length (after_header u 3 (bytes16 [a, q]))) (w\<lparr>fk_model := fk_model (fs_link g)\<rparr>)"
    using h(3) by (simp add: server_consume_def after_exchange_length eval_nat_numeral)
  ultimately show "\<exists>s3. ok (handle_req_fc other server_platform server_callbacks) s2 w () s3
      (server_emit (modbus_frame u 3 (read_body regs)) (server_consume (length (after_header u 3 (bytes16 [a, q])))
        (w\<lparr>fk_model := fk_model (fs_link g)\<rparr>))) \<and> cfg s3 = cfg s2 \<and> ready s3"
    using h(1) by (auto simp: handle_req_fc_def ok_def nm_bind_eq headed_def)
qed

lemma deliver_write:
  assumes "idle_server u g" and "rm_write a rs (fk_model (fs_link g)) = Inr m"
    and "rs \<noteq> []" and "length rs \<le> 123" and "uint a + int (length rs) \<le> 0x10000"
    and "containsRange a (word_of_nat (length rs))"
  shows "answered u g m (modbus_frame u 16 (bytes16 [a, word_of_nat (length rs)]))
    (fk_deliver other (modbus_frame u 16 (write_request_body a rs)) g)"
proof (rule deliver_answered [OF assms(1)])
  fix s2 and w :: fake_link
  assume h: "headed s2 u 16" "fk_fromClient w = after_header u 16 (write_request_body a rs)" "fk_model w = fk_model (fs_link g)"
  let ?b = "write_request_body a rs" and ?rep = "modbus_frame u 16 (bytes16 [a, word_of_nat (length rs)])"
  let ?c = "server_consume (length ?b + 2) w"
  have c: "onWriteMultipleRegisters a (word_of_nat (length rs)) rs ?c = (Inr (), ?c\<lparr>fk_model := m\<rparr>)"
    by (rule call_write) (use assms h(3) in \<open>simp_all add: server_consume_def\<close>)
  have "\<exists>s'. ok (handle_write_multiple_registers server_platform server_callbacks) s2 w () s'
      (server_emit ?rep (?c\<lparr>fk_model := m\<rparr>)) \<and> cfg s' = cfg s2 \<and> ready s'"
    by (rule server.ok_handle_write [where r = "[]" and cb = server_callbacks and wr = onWriteMultipleRegisters,
          OF h(1) _ assms(3-5) _ c]) (use h(2) in simp_all)
  moreover have "?c\<lparr>fk_model := m\<rparr> = server_consume (length (after_header u 16 ?b)) (w\<lparr>fk_model := m\<rparr>)"
    by (simp add: server_consume_def after_exchange_length)
  ultimately show "\<exists>s3. ok (handle_req_fc other server_platform server_callbacks) s2 w () s3
      (server_emit ?rep (server_consume (length (after_header u 16 ?b)) (w\<lparr>fk_model := m\<rparr>))) \<and>
      cfg s3 = cfg s2 \<and> ready s3"
    using h(1) by (auto simp: handle_req_fc_def ok_def nm_bind_eq headed_def)
qed

section \<open>A client's transactions over the whole stack\<close>

definition gripper_model :: "fake_gripper modbus_client \<Rightarrow> register_model" where
  "gripper_model m = fk_model (fs_link (fg_server (mc_serial m)))"

definition stack_idle :: "u8 \<Rightarrow> fake_gripper modbus_client \<Rightarrow> bool" where
  "stack_idle u m \<longleftrightarrow> ready (mc_nmbs m) \<and> dest_address_rtu (mc_nmbs m) = u \<and>
     idle_server u (fg_server (mc_serial m)) \<and> rm_wf (gripper_model m)"

lemma transaction:
  assumes "stack_idle u m" and "answered u (fg_server (mc_serial m)) model rep (fk_deliver other req (fg_server (mc_serial m)))"
    and "rm_wf model"
    and "ok call (mc_nmbs m) (mc_serial m, mc_log m) a n (client_consume (length rep) (client_emit other req (mc_serial m, mc_log m)))"
    and "ready n" and "cfg n = cfg (mc_nmbs m)"
  shows "\<exists>m'. transact context call m = (Inr a, m') \<and> stack_idle u m' \<and> gripper_model m' = model \<and> mc_log m' = mc_log m"
proof -
  let ?g = "fk_deliver other req (fg_server (mc_serial m))"
  have c: "client_consume (length rep) (client_emit other req (mc_serial m, mc_log m)) =
      ((mc_serial m)\<lparr>fg_server := snd (drain (length rep) ?g)\<rparr>, mc_log m)"
    by (simp add: client_consume_def client_emit_def)
  have d: "dest_address_rtu n = dest_address_rtu (mc_nmbs m)" using assms(6) by (simp add: cfg_def)
  have s: "fs_server (snd (drain (length rep) ?g)) = fs_server ?g"
      "fs_link (snd (drain (length rep) ?g)) = (fs_link ?g)\<lparr>fk_toClient := []\<rparr>"
    using assms(2) by (simp_all add: drain_def Let_def answered_def)
  show ?thesis
    using assms(1-5) d s by (simp add: transact_def ok_def c stack_idle_def gripper_model_def idle_server_def answered_def)
qed

lemma reply_emit: "answered u (fg_server g) model rep (fk_deliver other req (fg_server g)) \<Longrightarrow>
    reply (client_emit other req (g, l)) = rep"
  by (simp add: reply_def client_emit_def answered_def)

lemma block_facts:
  "(1 :: u16) \<le> kStatusRegisterCount" "kStatusRegisterCount \<le> 125" "unat kStatusRegisterCount = 3"
  "uint kStatusAddress + uint kStatusRegisterCount \<le> 0x10000" "unat kCommandRegisterCount = 3"
  "uint kCommandAddress + 3 \<le> 0x10000" "kCommandRegisterCount = 3"
  "containsRange kCommandAddress 3"
  by (simp_all add: addresses containsRange_iff)

lemma command_registers: "length (registersFromBytes 3 (command_data c)) = 3" "registersFromBytes 3 b \<noteq> []"
  by (simp_all add: registersFromBytes_def)

text \<open>Writing a block and reading one, on the register model and through the client.\<close>

context device_port
begin

lemma flush_empty: "reply w = [] \<Longrightarrow> p_read (client_platform ser) 260 0 w = ((0, []), w)"
  by (cases w) (simp add: client_platform_def readSerial_def reply_def nothing_pending)

lemma flush_idle: "stack_idle u m \<Longrightarrow> p_read (client_platform ser) 260 0 (mc_serial m, mc_log m) = ((0, []), mc_serial m, mc_log m)"
  by (rule flush_empty) (simp add: stack_idle_def idle_server_def reply_def)

lemma exchange_runs:
  assumes "stack_idle u m" and "writeBlock c (gripper_model m) = Inr model" and "rm_wf model"
    and "readBlock model = Inr regs" and "length regs = 3"
  shows "\<exists>m'. exchange ser c m = (Inr (decoded regs), m') \<and> stack_idle u m' \<and>
    gripper_model m' = model \<and> mc_log m' = mc_log m"
proof -
  let ?rs = "registersFromBytes 3 (command_data c)" and ?w = "(mc_serial m, mc_log m)"
  let ?req = "modbus_frame u 23 (exchange_request_body kStatusAddress kStatusRegisterCount kCommandAddress ?rs)"
  have i: "idle_server u (fg_server (mc_serial m))" "ready (mc_nmbs m)" "dest_address_rtu (mc_nmbs m) = u"
    using assms(1) by (simp_all add: stack_idle_def)
  have wr: "rm_write kCommandAddress ?rs (fk_model (fs_link (fg_server (mc_serial m)))) = Inr model"
    using assms(2) by (simp add: writeBlock_def gripper_model_def block_facts)
  have a: "answered u (fg_server (mc_serial m)) model (modbus_frame u 23 (read_body regs)) (fk_deliver other ?req (fg_server (mc_serial m)))"
    by (rule deliver_exchange [OF i(1) wr]) (use assms(4) block_facts in \<open>simp_all add: readBlock_def command_registers\<close>)
  have "\<exists>s'. ok (nmbs_read_write_registers (client_platform ser) kStatusAddress kStatusRegisterCount
        kCommandAddress (word_of_nat (length ?rs)) ?rs) (mc_nmbs m) ?w regs s'
        (client_consume (length regs * 2 + 5) (client_emit other
          (modbus_frame (dest_address_rtu (mc_nmbs m)) 23 (exchange_request_body kStatusAddress kStatusRegisterCount kCommandAddress ?rs)) ?w)) \<and>
      ready s' \<and> cfg s' = cfg (mc_nmbs m)"
    by (rule client.ok_client_exchange [where r = "[]", OF i(2) flush_idle [OF assms(1)]])
      (use block_facts assms(5) reply_emit [OF a] i(3) in \<open>simp_all add: command_registers\<close>)
  then obtain n where n: "ok (nmbs_read_write_registers (client_platform ser) kStatusAddress kStatusRegisterCount
        kCommandAddress kCommandRegisterCount ?rs) (mc_nmbs m) ?w regs n
        (client_consume (length (modbus_frame u 23 (read_body regs))) (client_emit other ?req ?w))"
      "ready n" "cfg n = cfg (mc_nmbs m)"
    using assms(5) i(3) by (auto simp: block_facts(7) read_body_def command_registers)
  from transaction [OF assms(1) a assms(3) n, of "''exchange''"] show ?thesis
    by (auto simp: exchange_def block_facts(5) decoded_def)
qed

lemma readStatus_runs:
  assumes "stack_idle u m" and "readBlock (gripper_model m) = Inr regs" and "length regs = 3"
  shows "\<exists>m'. readStatus ser m = (Inr (decoded regs), m') \<and> stack_idle u m' \<and>
    gripper_model m' = gripper_model m \<and> mc_log m' = mc_log m"
proof -
  let ?w = "(mc_serial m, mc_log m)" and ?req = "modbus_frame u 3 (bytes16 [kStatusAddress, kStatusRegisterCount])"
  have i: "idle_server u (fg_server (mc_serial m))" "ready (mc_nmbs m)" "dest_address_rtu (mc_nmbs m) = u"
      "rm_wf (gripper_model m)"
    using assms(1) by (simp_all add: stack_idle_def)
  have a: "answered u (fg_server (mc_serial m)) (gripper_model m) (modbus_frame u 3 (read_body regs))
      (fk_deliver other ?req (fg_server (mc_serial m)))"
    unfolding gripper_model_def
    by (rule deliver_read [OF i(1)]) (use assms(2) block_facts in \<open>simp_all add: readBlock_def gripper_model_def\<close>)
  have "\<exists>s'. ok (nmbs_read_holding_registers (client_platform ser) kStatusAddress kStatusRegisterCount)
        (mc_nmbs m) ?w regs s'
        (client_consume (length regs * 2 + 5) (client_emit other
          (modbus_frame (dest_address_rtu (mc_nmbs m)) 3 (bytes16 [kStatusAddress, kStatusRegisterCount])) ?w)) \<and>
      ready s' \<and> cfg s' = cfg (mc_nmbs m)"
    by (rule client.ok_client_read [where r = "[]", OF i(2) flush_idle [OF assms(1)]])
      (use block_facts assms(3) reply_emit [OF a] i(3) in simp_all)
  then obtain n where n: "ok (nmbs_read_holding_registers (client_platform ser) kStatusAddress kStatusRegisterCount)
        (mc_nmbs m) ?w regs n (client_consume (length (modbus_frame u 3 (read_body regs))) (client_emit other ?req ?w))"
      "ready n" "cfg n = cfg (mc_nmbs m)"
    using assms(3) i(3) by (auto simp: read_body_def)
  from transaction [OF assms(1) a i(4) n, of "''readStatus''"] show ?thesis
    by (auto simp: readStatus_def decoded_def)
qed

lemma writeCommand_runs:
  assumes "stack_idle u m" and "writeBlock c (gripper_model m) = Inr model" and "rm_wf model"
  shows "\<exists>m'. writeCommand ser c m = (Inr (), m') \<and> stack_idle u m' \<and>
    gripper_model m' = model \<and> mc_log m' = mc_log m"
proof -
  let ?rs = "registersFromBytes 3 (command_data c)" and ?w = "(mc_serial m, mc_log m)"
  let ?req = "modbus_frame u 16 (write_request_body kCommandAddress ?rs)"
  let ?rep = "modbus_frame u 16 (bytes16 [kCommandAddress, word_of_nat (length ?rs)])"
  have i: "idle_server u (fg_server (mc_serial m))" "ready (mc_nmbs m)" "dest_address_rtu (mc_nmbs m) = u" "u \<noteq> 0"
    using assms(1) by (simp_all add: stack_idle_def idle_server_def)
  have wr: "rm_write kCommandAddress ?rs (fk_model (fs_link (fg_server (mc_serial m)))) = Inr model"
    using assms(2) by (simp add: writeBlock_def gripper_model_def block_facts)
  have a: "answered u (fg_server (mc_serial m)) model ?rep (fk_deliver other ?req (fg_server (mc_serial m)))"
    by (rule deliver_write [OF i(1) wr]) (use block_facts in \<open>simp_all add: command_registers\<close>)
  have "\<exists>s'. ok (nmbs_write_multiple_registers (client_platform ser) kCommandAddress
        (word_of_nat (length ?rs)) ?rs) (mc_nmbs m) ?w () s' (client_consume 8 (client_emit other ?req ?w)) \<and>
      ready s' \<and> cfg s' = cfg (mc_nmbs m)"
    by (rule client.ok_client_write [where r = "[]", OF i(2) flush_idle [OF assms(1)] i(3,4)])
      (use block_facts reply_emit [OF a] in \<open>simp_all add: command_registers\<close>)
  then obtain n where n: "ok (nmbs_write_multiple_registers (client_platform ser) kCommandAddress
        kCommandRegisterCount ?rs) (mc_nmbs m) ?w () n (client_consume (length ?rep) (client_emit other ?req ?w))"
      "ready n" "cfg n = cfg (mc_nmbs m)"
    by (auto simp: block_facts(7) command_registers)
  from transaction [OF assms(1) a assms(3) n, of "''writeCommand''"] show ?thesis
    by (auto simp: writeCommand_def block_facts(5))
qed

end

text \<open>A run of exchanges, with what each returned.\<close>

fun session :: "'s serial \<Rightarrow> gripper_command list \<Rightarrow> 's modbus_client \<Rightarrow> (thrown + gripper_status) list \<times> 's modbus_client" where
  "session ser [] m = ([], m)"
| "session ser (c # cs) m =
     (let (r, m1) = exchange ser c m; (rs, m2) = session ser cs m1 in (r # rs, m2))"

lemma exchange_promised:
  assumes "stack_idle u m"
  shows "\<exists>st m'. exchange (fake_serial other) c m = (Inr st, m') \<and> stack_idle u m' \<and> mc_log m' = mc_log m \<and>
    promised_status c (faultStatus (rm_status (gripper_model m))) st \<and>
    same_documented st (rm_status (gripper_model m')) \<and> writeBlock c (gripper_model m) = Inr (gripper_model m')"
proof -
  have wf: "rm_wf (gripper_model m)" using assms by (simp add: stack_idle_def)
  from writeBlock_promised [OF wf] obtain model where
    w: "writeBlock c (gripper_model m) = Inr model" "rm_wf model"
      "promised_status c (faultStatus (rm_status (gripper_model m))) (rm_status model)" by blast
  have "length (rm_registers model) = 2008" using w(2) by (simp add: rm_wf_def addresses)
  from readBlock_status [OF this] obtain regs where
    r: "readBlock model = Inr regs" "length regs = 3" "same_documented (decoded regs) (rm_status model)"
    unfolding decoded_def by blast
  from fake.exchange_runs [OF assms w(1,2) r(1,2)] obtain m' where
    e: "exchange (fake_serial other) c m = (Inr (decoded regs), m')" "stack_idle u m'" "gripper_model m' = model"
      "mc_log m' = mc_log m" by blast
  have "promised_status c (faultStatus (rm_status (gripper_model m))) (decoded regs)"
    using promised_documented [OF r(3)] w(3) by simp
  with e r(3) w(1) show ?thesis by (intro exI [of _ "decoded regs"] exI [of _ m']) simp
qed

lemma session_promised:
  assumes "stack_idle u m" and "faultStatus (rm_status (gripper_model m)) = 0"
  shows "\<exists>sts m'. session (fake_serial other) cs m = (map Inr sts, m') \<and> mc_log m' = mc_log m \<and>
    list_all2 (\<lambda>c st. promised_status c 0 st) cs sts"
  using assms
proof (induction cs arbitrary: m)
  case Nil
  then show ?case by (intro exI [of _ "[]"]) simp
next
  case (Cons c cs)
  from exchange_promised [OF Cons.prems(1)] Cons.prems(2) obtain st m1 where
    e: "exchange (fake_serial other) c m = (Inr st, m1)" "stack_idle u m1" "mc_log m1 = mc_log m"
      "promised_status c 0 st" "same_documented st (rm_status (gripper_model m1))" by metis
  have "faultStatus (rm_status (gripper_model m1)) = 0"
    using e(4,5) by (simp add: same_documented_iff promised_status_def Let_def split: if_splits)
  from Cons.IH [OF e(2) this] obtain sts m' where
    "session (fake_serial other) cs m1 = (map Inr sts, m')" "mc_log m' = mc_log m1"
      "list_all2 (\<lambda>c st. promised_status c 0 st) cs sts" by blast
  with e show ?case by (intro exI [of _ "st # sts"] exI [of _ m']) simp
qed

lemma makeFakeClient_idle:
  assumes "u \<noteq> 0"
  shows "\<exists>m. makeFakeClient other u l = Inr m \<and> stack_idle u m \<and> mc_log m = l \<and> faultStatus (rm_status (gripper_model m)) = 0"
proof -
  have f: "faultStatus (rm_status new_register_model) = 0"
    by (simp add: rm_status_def rm_block_def new_register_model_def status_of_def addresses bytesFromRegisters_nth
        zero_status_def status_data_def)
  show ?thesis
    using assms f
    by (simp add: makeFakeClient_def makeFakeSerial_def makeGripperServer_def nmbs_server_create_def
        makeModbusClient_def fake_serial_def nmbs_client_create_def nmbs_create_def stack_idle_def idle_server_def
        ready_def gripper_model_def kByteTimeoutMs_def)
qed

section \<open>Properties\<close>

text \<open>
  End to end, through framing, CRC, the server, the register file and back: any sequence of commands
  exchanged with a freshly made simulated gripper is answered in full. No exchange fails, nothing
  is logged, and the status returned for each command is the one the device promises for it, with no
  fault latched, whatever came before it.
\<close>

theorem simulated_gripper_answers_every_command:
  assumes "u \<noteq> 0"
  shows "\<exists>m. makeFakeClient other u l = Inr m \<and>
    (\<forall>cs. \<exists>sts m'. session (fake_serial other) cs m = (map Inr sts, m') \<and> mc_log m' = l \<and>
      list_all2 (\<lambda>c st. promised_status c 0 st) cs sts)"
proof -
  from makeFakeClient_idle [OF assms] obtain m where
    "makeFakeClient other u l = Inr m" "stack_idle u m" "mc_log m = l" "faultStatus (rm_status (gripper_model m)) = 0"
    by blast
  with session_promised show ?thesis by metis
qed

theorem simulated_gripper_answers_every_command_witness:
  "\<exists>m sts m'. makeFakeClient (\<lambda>_. nm_return ()) 9 [] = Inr m \<and>
     session (fake_serial (\<lambda>_. nm_return ())) [defaults, zero_command] m = (map Inr sts, m') \<and> length sts = 2"
proof -
  have nz: "(9 :: u8) \<noteq> 0" by simp
  from simulated_gripper_answers_every_command [OF nz, of "\<lambda>_. nm_return ()" "[]"] obtain m where
    m: "makeFakeClient (\<lambda>_. nm_return ()) 9 [] = Inr m"
      "\<And>cs. \<exists>sts m'. session (fake_serial (\<lambda>_. nm_return ())) cs m = (map Inr sts, m') \<and> mc_log m' = [] \<and>
        list_all2 (\<lambda>c st. promised_status c 0 st) cs sts" by blast
  from m(2) [of "[defaults, zero_command]"] obtain sts m' where
    s: "session (fake_serial (\<lambda>_. nm_return ())) [defaults, zero_command] m = (map Inr sts, m')"
      "list_all2 (\<lambda>c st. promised_status c 0 st) [defaults, zero_command] sts" by blast
  have "length sts = 2" using list_all2_lengthD [OF s(2)] by simp
  with m(1) s(1) show ?thesis by blast
qed

text \<open>
  An exchange with the simulated gripper is a write of the command followed by a read of the status:
  the same status, the same registers left behind, the same log, in one transaction instead of two.
\<close>

theorem exchange_is_write_then_read:
  assumes "stack_idle u m"
  shows "\<exists>st m' m1 m2. exchange (fake_serial other) c m = (Inr st, m') \<and>
    writeCommand (fake_serial other) c m = (Inr (), m1) \<and> readStatus (fake_serial other) m1 = (Inr st, m2) \<and>
    gripper_model m2 = gripper_model m' \<and> mc_log m2 = mc_log m' \<and> stack_idle u m' \<and> stack_idle u m2"
proof -
  have wf: "rm_wf (gripper_model m)" using assms by (simp add: stack_idle_def)
  from writeBlock_promised [OF wf] obtain model where w: "writeBlock c (gripper_model m) = Inr model" "rm_wf model"
    by blast
  have "length (rm_registers model) = 2008" using w(2) by (simp add: rm_wf_def addresses)
  from readBlock_status [OF this] obtain regs where r: "readBlock model = Inr regs" "length regs = 3" by blast
  from fake.exchange_runs [OF assms w r] obtain m' where
    e: "exchange (fake_serial other) c m = (Inr (decoded regs), m')" "stack_idle u m'" "gripper_model m' = model"
      "mc_log m' = mc_log m" by blast
  from fake.writeCommand_runs [OF assms w] obtain m1 where
    f: "writeCommand (fake_serial other) c m = (Inr (), m1)" "stack_idle u m1" "gripper_model m1 = model"
      "mc_log m1 = mc_log m" by blast
  from fake.readStatus_runs [OF f(2)] r f(3) obtain m2 where
    "readStatus (fake_serial other) m1 = (Inr (decoded regs), m2)" "stack_idle u m2" "gripper_model m2 = model"
      "mc_log m2 = mc_log m1" by metis
  with e f show ?thesis by metis
qed

theorem exchange_is_write_then_read_witness:
  "\<exists>m st m'. makeFakeClient (\<lambda>_. nm_return ()) 9 [] = Inr m \<and> exchange (fake_serial (\<lambda>_. nm_return ())) defaults m = (Inr st, m')"
proof -
  have nz: "(9 :: u8) \<noteq> 0" by simp
  from makeFakeClient_idle [OF nz, of "\<lambda>_. nm_return ()" "[]"] obtain m where
    "makeFakeClient (\<lambda>_. nm_return ()) 9 [] = Inr m" "stack_idle 9 m" by blast
  with exchange_is_write_then_read [of 9 m "\<lambda>_. nm_return ()" defaults] show ?thesis by blast
qed

text \<open>The simulated gripper's reply is such a response.\<close>

theorem only_a_valid_response_is_a_status_witness:
  "\<exists>registers m st m'. makeFakeClient (\<lambda>_. nm_return ()) 9 [] = Inr m \<and>
     exchange (fake_serial (\<lambda>_. nm_return ())) defaults m = (Inr st, m') \<and> length registers = 3 \<and>
     st = decoded registers \<and> take 11 (buf (mc_nmbs m')) = modbus_frame (dest_address_rtu (mc_nmbs m)) 23 (read_body registers)"
proof -
  have nz: "(9 :: u8) \<noteq> 0" by simp
  from makeFakeClient_idle [OF nz, of "\<lambda>_. nm_return ()" "[]"] obtain m where
    m: "makeFakeClient (\<lambda>_. nm_return ()) 9 [] = Inr m" "stack_idle 9 m" by blast
  from exchange_promised [OF m(2)] obtain st m' where
    e: "exchange (fake_serial (\<lambda>_. nm_return ())) defaults m = (Inr st, m')" by blast
  have b: "length (buf (mc_nmbs m)) = 260" using m(2) by (simp add: stack_idle_def ready_def)
  from only_a_valid_response_is_a_status [OF b, of 23 "(Inr st, m')" "fake_serial (\<lambda>_. nm_return ())" defaults st m']
  show ?thesis using m(1) e by auto
qed

end
