(* ===== verification/ProcessImage.thy ===== *)
theory ProcessImage
  imports Transport GripperBlocks
begin

text \<open>
  \<open>detail::ProcessImage\<close> (\<open>grippers/sdk_cpp/src/process_image.{hpp,cpp}\<close>) with the record it keeps
  (\<open>gripper/stamped_exchange.hpp\<close>): the command to write next, and the last completed exchange.
  Each operation runs under the image's mutex, so it is one function here; the wait for a count is
  a loop over the image as others leave it, and is defined where those others are.
  Times are nanoseconds of the steady clock. The 64-bit exchange count is a natural number: it
  does not reach its width.
\<close>

record stamped_exchange =
  exchangeCount :: nat
  timestamp :: int
  x_command :: gripper_command
  x_status :: gripper_status

definition zero_stamped :: stamped_exchange where
  "zero_stamped = \<lparr>exchangeCount = 0, timestamp = 0, x_command = zero_command, x_status = zero_status\<rparr>"

record process_image =
  im_command :: gripper_command
  im_stamped :: stamped_exchange
  im_closed :: bool

text \<open>The constructor asks the platform for a mutex and for a condition variable.\<close>

definition makeProcessImage :: "bool \<Rightarrow> bool \<Rightarrow> thrown + process_image" where
  "makeProcessImage mutex condition =
     (if \<not> mutex then Inl (driver_exception (''a Platform returned a null Mutex '' @ em_dash @ '' the process image has nothing to lock''))
      else if \<not> condition
      then Inl (driver_exception (''a Platform returned a null ConditionVariable '' @ em_dash @ '' nothing can wait on the image''))
      else Inr \<lparr>im_command = zero_command, im_stamped = zero_stamped, im_closed = False\<rparr>)"

definition seed :: "gripper_status \<Rightarrow> int \<Rightarrow> gripper_command \<Rightarrow> process_image \<Rightarrow> process_image" where
  "seed st t c im = im\<lparr>im_stamped := \<lparr>exchangeCount = 0, timestamp = t, x_command = c, x_status = st\<rparr>,
     im_command := c\<rparr>"

definition im_setCommand :: "gripper_command \<Rightarrow> process_image \<Rightarrow> process_image" where
  "im_setCommand c im = im\<lparr>im_command := c\<rparr>"

definition im_status :: "process_image \<Rightarrow> gripper_status" where
  "im_status im = x_status (im_stamped im)"

definition publish :: "gripper_command \<Rightarrow> gripper_status \<Rightarrow> int \<Rightarrow> process_image \<Rightarrow> process_image" where
  "publish c st completedAt im = im\<lparr>im_stamped := \<lparr>exchangeCount = exchangeCount (im_stamped im) + 1,
     timestamp = completedAt, x_command = c, x_status = st\<rparr>\<rparr>"

text \<open>The condition on which \<open>sync\<close> keeps waiting.\<close>

definition sync_waits :: "nat \<Rightarrow> int \<Rightarrow> int \<Rightarrow> process_image \<Rightarrow> bool" where
  "sync_waits count deadline now im \<longleftrightarrow> exchangeCount (im_stamped im) \<le> count \<and> \<not> im_closed im \<and> now < deadline"

definition im_close :: "process_image \<Rightarrow> process_image" where
  "im_close im = im\<lparr>im_closed := True\<rparr>"

text \<open>The image never goes back: a later one has counted further, and stays closed.\<close>

definition image_le :: "process_image \<Rightarrow> process_image \<Rightarrow> bool" where
  "image_le a b \<longleftrightarrow> exchangeCount (im_stamped a) \<le> exchangeCount (im_stamped b) \<and>
     (exchangeCount (im_stamped a) = exchangeCount (im_stamped b) \<longrightarrow> im_stamped a = im_stamped b) \<and>
     (im_closed a \<longrightarrow> im_closed b)"

lemma image_le_refl [simp]: "image_le a a"
  by (simp add: image_le_def)

lemma image_le_trans [trans]: "image_le a b \<Longrightarrow> image_le b c \<Longrightarrow> image_le a c"
  by (auto simp: image_le_def)

lemma image_le_ops [simp]:
  "image_le im (im_setCommand c im)" "image_le im (publish c st t im)" "image_le im (im_close im)"
  by (simp_all add: image_le_def im_setCommand_def publish_def im_close_def)

end
