(* ===== verification/GripperState.thy ===== *)
theory GripperState
  imports ProcessImage
begin

text \<open>
  \<open>detail::GripperState\<close> (\<open>grippers/sdk_cpp/src/gripper_state.{hpp,cpp}\<close>) and \<open>detail::Throttle\<close>
  (\<open>detail/throttle.hpp\<close>): the process image, the link that feeds it, and the exchange thread. The
  thread is a machine with a program counter, one value for each place where another thread can see
  a difference: between two steps another thread may set the command, ask for a stop, or time may pass.
  The Modbus client is a record of the two operations used, on a state \<open>'d\<close>.
\<close>

section \<open>State\<close>

datatype connection_state = Disconnected | Connecting | Operational | Faulted

record 'd link =
  lk_readStatus :: "'d \<Rightarrow> (thrown + gripper_status) \<times> 'd"
  lk_exchange :: "gripper_command \<Rightarrow> 'd \<Rightarrow> (thrown + gripper_status) \<times> 'd"

record throttle =
  th_period :: int
  th_last :: int

text \<open>Whether the callable runs, and the throttle afterwards.\<close>

definition executeIfAllowed :: "int \<Rightarrow> throttle \<Rightarrow> bool \<times> throttle" where
  "executeIfAllowed now th = (if now - th_last th < th_period th then (False, th) else (True, th\<lparr>th_last := now\<rparr>))"

text \<open>Where the exchange thread is.\<close>

datatype pc =
    NotStarted
  | FirstCycle
  | CheckRunning
  | CopyCommand
  | Exchanging gripper_command
  | StampingTime gripper_command gripper_status
  | ResetFailures gripper_command gripper_status int
  | TurnOperational gripper_command gripper_status int
  | Publishing gripper_command gripper_status int bool
  | LoggingRecovery
  | CountFailure thrown
  | TurnFaulted thrown
  | LoggingFault thrown
  | LoggingFailure thrown
  | Pacing
  | Sleeping
  | Ended

text \<open>What may happen between two actions of a caller.\<close>

datatype gs_event = ThreadStep | SetCommand gripper_command | StopRunning | CloseImage | Tick nat

record 'd gripper_state =
  gs_image :: process_image
  gs_client :: 'd
  gs_connectionState :: connection_state
  gs_failures :: u32
  gs_throttle :: throttle
  gs_period :: int
  gs_running :: bool
  gs_pc :: pc
  gs_nextCycle :: int
  gs_now :: int
  gs_log :: log
  gs_sched :: "gs_event list list"

definition kFaultThreshold :: nat where "kFaultThreshold = 3"
definition kInitialReadAttempts :: nat where "kInitialReadAttempts = 3"

text \<open>The members' initial values; the period is in microseconds.\<close>

definition makeGripperState :: "'d \<Rightarrow> process_image \<Rightarrow> int \<Rightarrow> int \<Rightarrow> gs_event list list \<Rightarrow> 'd gripper_state" where
  "makeGripperState client im exchangePeriod now sched =
     \<lparr>gs_image = im, gs_client = client, gs_connectionState = Connecting, gs_failures = 0,
      gs_throttle = \<lparr>th_period = 1000 * 10 ^ 6, th_last = 0\<rparr>, gs_period = exchangePeriod * 10 ^ 3,
      gs_running = False, gs_pc = NotStarted, gs_nextCycle = 0, gs_now = now, gs_log = [], gs_sched = sched\<rparr>"

definition say :: "log_level \<Rightarrow> string \<Rightarrow> 'd gripper_state \<Rightarrow> 'd gripper_state" where
  "say level message g = g\<lparr>gs_log := log_line level message (gs_log g)\<rparr>"

section \<open>The first status read\<close>

text \<open>\<open>catch(const std::exception&)\<close> lets anything else through.\<close>

function initialRead :: "'d link \<Rightarrow> nat \<Rightarrow> 'd gripper_state \<Rightarrow> (thrown + gripper_status) \<times> 'd gripper_state" where
  "initialRead lk attempt g =
     (case lk_readStatus lk (gs_client g) of
        (Inr st, d) \<Rightarrow> (Inr st, g\<lparr>gs_client := d\<rparr>)
      | (Inl UnknownException, d) \<Rightarrow> (Inl UnknownException, g\<lparr>gs_client := d\<rparr>)
      | (Inl (StdException what), d) \<Rightarrow>
          (if kInitialReadAttempts \<le> attempt then
             (Inl (driver_exception (''no gripper answered the initial status read (is it powered, and '' @
                ''do its baud rate and Modbus slave address match this connection?) '' @ em_dash @
                '' last attempt: '' @ what)), g\<lparr>gs_client := d\<rparr>)
           else initialRead lk (attempt + 1)
             (say LevelWarn (''initial status read attempt '' @ decimal attempt @ '' of '' @
                decimal kInitialReadAttempts @ '' failed: '' @ what) (g\<lparr>gs_client := d\<rparr>))))"
  by pat_completeness auto

termination
  by (relation "measure (\<lambda>(lk, attempt, g). kInitialReadAttempts - attempt)") auto

declare initialRead.simps [simp del]

text \<open>The command a status echoes; speed and force have no echo and start at their maximum.\<close>

definition echoed_command :: "gripper_status \<Rightarrow> gripper_command" where
  "echoed_command st =
     (let c = defaults;
          c1 = c\<lparr>action := nb_put Activate (activated (gripperStatus st)) (action c)\<rparr>;
          c2 = c1\<lparr>action := nb_put GoTo (goToEnabled (gripperStatus st)) (action c1)\<rparr>
      in c2\<lparr>positionRequest := positionRequestEcho st\<rparr>)"

definition initializeImage :: "'d link \<Rightarrow> 'd gripper_state \<Rightarrow> (thrown + unit) \<times> 'd gripper_state" where
  "initializeImage lk g =
     (case initialRead lk 1 g of
        (Inl e, g') \<Rightarrow> (Inl e, g')
      | (Inr fresh, g') \<Rightarrow>
          (Inr (), g'\<lparr>gs_image := seed fresh (gs_now g') (echoed_command fresh) (gs_image g'),
                      gs_connectionState := Operational\<rparr>))"

section \<open>The exchange thread\<close>

text \<open>The actions of \<open>exchangeOnce\<close>, which a failed exchange leaves by throwing.\<close>

definition exchangeOnce_step :: "'d link \<Rightarrow> 'd gripper_state \<Rightarrow> 'd gripper_state" where
  "exchangeOnce_step lk g =
     (case gs_pc g of
        CopyCommand \<Rightarrow> g\<lparr>gs_pc := Exchanging (im_command (gs_image g))\<rparr>
      | Exchanging c \<Rightarrow>
          (case lk_exchange lk c (gs_client g) of
             (Inr st, d) \<Rightarrow> g\<lparr>gs_client := d, gs_pc := StampingTime c st\<rparr>
           | (Inl e, d) \<Rightarrow> g\<lparr>gs_client := d, gs_pc := CountFailure e\<rparr>)
      | StampingTime c st \<Rightarrow> g\<lparr>gs_pc := ResetFailures c st (gs_now g)\<rparr>
      | CountFailure e \<Rightarrow>
          g\<lparr>gs_failures := gs_failures g + 1,
            gs_pc := if kFaultThreshold \<le> unat (gs_failures g + 1) then TurnFaulted e else LoggingFailure e\<rparr>
      | TurnFaulted e \<Rightarrow>
          g\<lparr>gs_connectionState := Faulted,
            gs_pc := if gs_connectionState g \<noteq> Faulted then LoggingFault e else LoggingFailure e\<rparr>
      | LoggingFault e \<Rightarrow>
          say LevelWarn (''link faulted after '' @ decimal kFaultThreshold @
            '' consecutive failed exchanges; the process image is now stale'') (g\<lparr>gs_pc := LoggingFailure e\<rparr>)
      | ResetFailures c st t \<Rightarrow> g\<lparr>gs_failures := 0, gs_pc := TurnOperational c st t\<rparr>
      | TurnOperational c st t \<Rightarrow>
          g\<lparr>gs_connectionState := Operational, gs_pc := Publishing c st t (gs_connectionState g = Faulted)\<rparr>
      | Publishing c st t recovered \<Rightarrow>
          g\<lparr>gs_image := publish c st t (gs_image g), gs_pc := if recovered then LoggingRecovery else Pacing\<rparr>
      | LoggingRecovery \<Rightarrow>
          say LevelInfo ''link recovered; the process image is live again'' (g\<lparr>gs_pc := Pacing\<rparr>)
      | _ \<Rightarrow> g)"

definition log_failure :: "thrown \<Rightarrow> 'd gripper_state \<Rightarrow> 'd gripper_state" where
  "log_failure e g =
     (let (allowed, th) = executeIfAllowed (gs_now g) (gs_throttle g); g' = g\<lparr>gs_throttle := th\<rparr>
      in if allowed
         then say LevelWarn (case e of StdException what \<Rightarrow> ''exchange cycle failed: '' @ what
                | UnknownException \<Rightarrow> ''exchange cycle failed: unknown exception'') g'
         else g')"

text \<open>The thread of \<open>start\<close>.\<close>

definition thread_step :: "'d link \<Rightarrow> 'd gripper_state \<Rightarrow> 'd gripper_state" where
  "thread_step lk g =
     (case gs_pc g of
        FirstCycle \<Rightarrow> g\<lparr>gs_nextCycle := gs_now g, gs_pc := CheckRunning\<rparr>
      | CheckRunning \<Rightarrow> g\<lparr>gs_pc := if gs_running g then CopyCommand else Ended\<rparr>
      | LoggingFailure e \<Rightarrow> log_failure e (g\<lparr>gs_pc := Pacing\<rparr>)
      | Pacing \<Rightarrow> g\<lparr>gs_nextCycle := max (gs_nextCycle g + gs_period g) (gs_now g), gs_pc := Sleeping\<rparr>
      | Sleeping \<Rightarrow> if gs_now g < gs_nextCycle g then g else g\<lparr>gs_pc := CheckRunning\<rparr>
      | NotStarted \<Rightarrow> g
      | Ended \<Rightarrow> g
      | _ \<Rightarrow> exchangeOnce_step lk g)"

definition gs_start :: "'d gripper_state \<Rightarrow> 'd gripper_state" where
  "gs_start g = g\<lparr>gs_running := True, gs_pc := FirstCycle\<rparr>"

section \<open>The operations of a caller\<close>

definition gs_setCommand :: "gripper_command \<Rightarrow> 'd gripper_state \<Rightarrow> 'd gripper_state" where
  "gs_setCommand c g = g\<lparr>gs_image := im_setCommand c (gs_image g)\<rparr>"

definition closeImage :: "'d gripper_state \<Rightarrow> 'd gripper_state" where
  "closeImage g = g\<lparr>gs_image := im_close (gs_image g)\<rparr>"

definition step :: "'d link \<Rightarrow> gs_event \<Rightarrow> 'd gripper_state \<Rightarrow> 'd gripper_state" where
  "step lk e g =
     (case e of
        ThreadStep \<Rightarrow> thread_step lk g
      | SetCommand c \<Rightarrow> gs_setCommand c g
      | StopRunning \<Rightarrow> g\<lparr>gs_running := False\<rparr>
      | CloseImage \<Rightarrow> closeImage g
      | Tick n \<Rightarrow> g\<lparr>gs_now := gs_now g + int n\<rparr>)"

text \<open>Before each action of a caller the others get a turn, as long as the schedule lasts.\<close>

definition others :: "'d link \<Rightarrow> 'd gripper_state \<Rightarrow> 'd gripper_state" where
  "others lk g = (case gs_sched g of [] \<Rightarrow> g | es # rest \<Rightarrow> fold (step lk) es (g\<lparr>gs_sched := rest\<rparr>))"

lemma gs_sched_say [simp]: "gs_sched (say l m g) = gs_sched g"
  by (simp add: say_def)

lemma gs_sched_step [simp]: "gs_sched (step lk e g) = gs_sched g"
  by (auto simp: step_def thread_step_def exchangeOnce_step_def log_failure_def gs_setCommand_def closeImage_def
      Let_def split: gs_event.split pc.split prod.split sum.split)

lemma gs_sched_fold [simp]: "gs_sched (fold (step lk) es g) = gs_sched g"
  by (induction es arbitrary: g) simp_all

lemma gs_sched_others [simp]: "gs_sched (others lk g) = tl (gs_sched g)"
  by (simp add: others_def split: list.split)

text \<open>
  \<open>ProcessImage::sync\<close>: each wait lets the others run, whatever wakes it; with nobody left to wake
  it, it sleeps to its deadline.
\<close>

function sync :: "'d link \<Rightarrow> nat \<Rightarrow> int \<Rightarrow> 'd gripper_state \<Rightarrow> stamped_exchange \<times> 'd gripper_state" where
  "sync lk count deadline g =
     (if sync_waits count deadline (gs_now g) (gs_image g)
      then if gs_sched g = [] then (im_stamped (gs_image g), g\<lparr>gs_now := deadline\<rparr>)
           else sync lk count deadline (others lk g)
      else (im_stamped (gs_image g), g))"
  by pat_completeness auto

termination
  by (relation "measure (\<lambda>(lk, count, deadline, g). length (gs_sched g))") auto

declare sync.simps [simp del]

definition gs_waitForExchange :: "'d link \<Rightarrow> nat \<Rightarrow> int \<Rightarrow> 'd gripper_state \<Rightarrow> stamped_exchange \<times> 'd gripper_state" where
  "gs_waitForExchange lk desiredExchangeCount deadline g =
     (let g1 = others lk g in
      if desiredExchangeCount = 0 then (im_stamped (gs_image g1), g1)
      else sync lk (desiredExchangeCount - 1) deadline g1)"

text \<open>How many steps the thread has to its end once it was told to stop.\<close>

fun steps_left :: "pc \<Rightarrow> nat" where
  "steps_left NotStarted = 0"
| "steps_left Ended = 0"
| "steps_left CheckRunning = 1"
| "steps_left FirstCycle = 2"
| "steps_left Sleeping = 2"
| "steps_left Pacing = 3"
| "steps_left (LoggingFailure e) = 4"
| "steps_left LoggingRecovery = 4"
| "steps_left (LoggingFault e) = 5"
| "steps_left (Publishing c st t r) = 5"
| "steps_left (TurnFaulted e) = 6"
| "steps_left (TurnOperational c st t) = 6"
| "steps_left (CountFailure e) = 7"
| "steps_left (ResetFailures c st t) = 7"
| "steps_left (StampingTime c st) = 8"
| "steps_left (Exchanging c) = 9"
| "steps_left CopyCommand = 10"

definition wake :: "'d gripper_state \<Rightarrow> 'd gripper_state" where
  "wake g = (if gs_pc g = Sleeping then g\<lparr>gs_now := max (gs_now g) (gs_nextCycle g)\<rparr> else g)"

lemma wake_fields [simp]: "gs_pc (wake g) = gs_pc g" "gs_running (wake g) = gs_running g"
  "gs_image (wake g) = gs_image g" "gs_sched (wake g) = gs_sched g"
  by (simp_all add: wake_def)

lemma steps_left_step:
  "\<not> gs_running g \<Longrightarrow> 0 < steps_left (gs_pc g) \<Longrightarrow> steps_left (gs_pc (thread_step lk (wake g))) < steps_left (gs_pc g)"
  by (cases "gs_pc g") (auto simp: thread_step_def exchangeOnce_step_def log_failure_def say_def wake_def Let_def
      split: prod.split sum.split)

lemma gs_running_step [simp]: "gs_running (thread_step lk g) = gs_running g"
  by (auto simp: thread_step_def exchangeOnce_step_def log_failure_def say_def Let_def
      split: pc.split prod.split sum.split)

text \<open>\<open>join\<close> in \<open>stop\<close>: the thread runs to its end, as much time as it needs passes.\<close>

function join :: "'d link \<Rightarrow> 'd gripper_state \<Rightarrow> 'd gripper_state" where
  "join lk g = (if gs_running g \<or> steps_left (gs_pc g) = 0 then g else join lk (thread_step lk (wake g)))"
  by pat_completeness auto

termination
  by (relation "measure (\<lambda>(lk, g). steps_left (gs_pc g))") (auto intro: steps_left_step)

declare join.simps [simp del]

definition gs_stop :: "'d link \<Rightarrow> 'd gripper_state \<Rightarrow> 'd gripper_state" where
  "gs_stop lk g =
     (let g1 = others lk (g\<lparr>gs_running := False\<rparr>); g2 = closeImage g1 in join lk g2)"

end
