(* ===== verification/ExchangeCycle.thy ===== *)
theory ExchangeCycle
  imports GripperState
begin

text \<open>
  What the exchange thread keeps under every interleaving. A run carries the history of the exchanges
  made: each command written with what came back. The invariant ties the process image, the failure
  counter and the connection state to that history at each place the thread can be; the 32-bit failure
  counter may wrap around.
\<close>

section \<open>Runs and their history\<close>

type_synonym history = "(gripper_command \<times> (thrown + gripper_status)) list"

definition exchanged :: "'d link \<Rightarrow> gs_event \<Rightarrow> 'd gripper_state \<Rightarrow> history" where
  "exchanged lk e g =
     (case (e, gs_pc g) of (ThreadStep, Exchanging c) \<Rightarrow> [(c, fst (lk_exchange lk c (gs_client g)))] | _ \<Rightarrow> [])"

definition traced_step :: "'d link \<Rightarrow> gs_event \<Rightarrow> 'd gripper_state \<times> history \<Rightarrow> 'd gripper_state \<times> history" where
  "traced_step lk e = (\<lambda>(g, h). (step lk e g, h @ exchanged lk e g))"

definition run :: "'d link \<Rightarrow> gs_event list \<Rightarrow> 'd gripper_state \<times> history \<Rightarrow> 'd gripper_state \<times> history" where
  "run lk es gh = fold (traced_step lk) es gh"

lemma run_simps [simp]: "run lk [] gh = gh" "run lk (e # es) gh = run lk es (traced_step lk e gh)"
  by (simp_all add: run_def)

lemma run_append: "run lk (es @ fs) gh = run lk fs (run lk es gh)"
  by (simp add: run_def)

lemma fst_run: "fst (run lk es gh) = fold (step lk) es (fst gh)"
  by (induction es arbitrary: gh) (auto simp: traced_step_def split: prod.splits)

definition successes :: "history \<Rightarrow> (gripper_command \<times> gripper_status) list" where
  "successes h = concat (map (\<lambda>(c, r). case r of Inr st \<Rightarrow> [(c, st)] | Inl _ \<Rightarrow> []) h)"

definition trailing_failures :: "history \<Rightarrow> nat" where
  "trailing_failures h = length (takeWhile (\<lambda>(c, r). isl r) (rev h))"

lemma successes_snoc [simp]: "successes [] = []"
  "successes (h @ [(c, r)]) = successes h @ (case r of Inr st \<Rightarrow> [(c, st)] | Inl _ \<Rightarrow> [])"
  by (simp_all add: successes_def)

lemma trailing_snoc [simp]: "trailing_failures [] = 0"
  "trailing_failures (h @ [(c, r)]) = (if isl r then trailing_failures h + 1 else 0)"
  by (simp_all add: trailing_failures_def)

section \<open>The invariant\<close>

fun in_flight :: "pc \<Rightarrow> (gripper_command \<times> gripper_status) option" where
  "in_flight (StampingTime c st) = Some (c, st)"
| "in_flight (ResetFailures c st t) = Some (c, st)"
| "in_flight (TurnOperational c st t) = Some (c, st)"
| "in_flight (Publishing c st t r) = Some (c, st)"
| "in_flight _ = None"

text \<open>Places where the last exchange has not reached the failure counter, or the connection state.\<close>

fun uncounted :: "pc \<Rightarrow> bool" where
  "uncounted (StampingTime c st) = True"
| "uncounted (ResetFailures c st t) = True"
| "uncounted (CountFailure e) = True"
| "uncounted _ = False"

fun undecided :: "pc \<Rightarrow> bool" where
  "undecided (TurnOperational c st t) = True"
| "undecided (TurnFaulted e) = True"
| "undecided p = uncounted p"

fun last_failed :: "pc \<Rightarrow> bool option" where
  "last_failed (StampingTime c st) = Some False"
| "last_failed (ResetFailures c st t) = Some False"
| "last_failed (TurnOperational c st t) = Some False"
| "last_failed (CountFailure e) = Some True"
| "last_failed (TurnFaulted e) = Some True"
| "last_failed _ = None"

definition published :: "pc \<Rightarrow> history \<Rightarrow> (gripper_command \<times> gripper_status) list" where
  "published p h = (if in_flight p = None then successes h else butlast (successes h))"

definition image_ok :: "stamped_exchange \<Rightarrow> 'd gripper_state \<Rightarrow> history \<Rightarrow> bool" where
  "image_ok first g h \<longleftrightarrow>
     (\<forall>x. in_flight (gs_pc g) = Some x \<longrightarrow> successes h \<noteq> [] \<and> last (successes h) = x) \<and>
     (let s = im_stamped (gs_image g); done = published (gs_pc g) h in
      exchangeCount s = length done \<and>
      (if done = [] then s = first else (x_command s, x_status s) = last done))"

definition link_ok :: "'d gripper_state \<Rightarrow> history \<Rightarrow> bool" where
  "link_ok g h \<longleftrightarrow>
     (\<forall>b. last_failed (gs_pc g) = Some b \<longrightarrow> h \<noteq> [] \<and> isl (snd (last h)) = b) \<and>
     gs_failures g = of_nat (trailing_failures (if uncounted (gs_pc g) then butlast h else h)) \<and>
     (\<forall>e. gs_pc g = TurnFaulted e \<longrightarrow> 3 \<le> trailing_failures h) \<and>
     gs_connectionState g = (if 3 \<le> trailing_failures (if undecided (gs_pc g) then butlast h else h)
       then Faulted else Operational)"

text \<open>Where a run starts: the image just seeded, the thread started or not.\<close>

definition fresh_start :: "'d gripper_state \<Rightarrow> bool" where
  "fresh_start g \<longleftrightarrow> gs_pc g \<in> {NotStarted, FirstCycle} \<and> gs_failures g = 0 \<and>
     gs_connectionState g = Operational \<and> exchangeCount (im_stamped (gs_image g)) = 0"

lemma invariant_start: "fresh_start g \<Longrightarrow> image_ok (im_stamped (gs_image g)) g [] \<and> link_ok g []"
  by (auto simp: fresh_start_def image_ok_def link_ok_def published_def Let_def)

section \<open>Every step keeps it\<close>

lemma say_fields [simp]:
  "gs_image (say l m g) = gs_image g" "gs_client (say l m g) = gs_client g" "gs_pc (say l m g) = gs_pc g"
  "gs_connectionState (say l m g) = gs_connectionState g" "gs_failures (say l m g) = gs_failures g"
  "gs_now (say l m g) = gs_now g" "gs_nextCycle (say l m g) = gs_nextCycle g" "gs_period (say l m g) = gs_period g"
  "gs_running (say l m g) = gs_running g"
  by (simp_all add: say_def)

lemma log_failure_fields [simp]:
  "gs_image (log_failure e g) = gs_image g" "gs_client (log_failure e g) = gs_client g" "gs_pc (log_failure e g) = gs_pc g"
  "gs_connectionState (log_failure e g) = gs_connectionState g" "gs_failures (log_failure e g) = gs_failures g"
  "gs_now (log_failure e g) = gs_now g" "gs_nextCycle (log_failure e g) = gs_nextCycle g"
  "gs_period (log_failure e g) = gs_period g" "gs_running (log_failure e g) = gs_running g"
  by (simp_all add: log_failure_def Let_def split: prod.split)

lemma unat_of_nat_le: "unat (of_nat n :: u32) \<le> n"
  by (metis unat_of_nat mod_less_eq_dividend)

text \<open>The threshold on the wrapping counter decides as the true number of failures does.\<close>

lemma threshold:
  fixes n :: nat
  shows "kFaultThreshold \<le> unat (of_nat n + 1 :: u32) \<Longrightarrow> 3 \<le> n + 1"
    and "\<not> kFaultThreshold \<le> unat (of_nat n + 1 :: u32) \<Longrightarrow> 3 \<le> n + 1 \<longleftrightarrow> 3 \<le> n"
proof -
  have e: "of_nat n + 1 = (of_nat (n + 1) :: u32)" by simp
  show "kFaultThreshold \<le> unat (of_nat n + 1 :: u32) \<Longrightarrow> 3 \<le> n + 1"
    unfolding e using unat_of_nat_le [of "n + 1"] by (simp add: kFaultThreshold_def)
  assume "\<not> kFaultThreshold \<le> unat (of_nat n + 1 :: u32)"
  then have "n \<noteq> 2" by (auto simp: kFaultThreshold_def)
  then show "3 \<le> n + 1 \<longleftrightarrow> 3 \<le> n" by auto
qed

lemma last_snoc: "h \<noteq> [] \<Longrightarrow> isl (snd (last h)) = b \<Longrightarrow> \<exists>h0 c r. h = h0 @ [(c, r)] \<and> isl r = b"
  by (metis append_butlast_last_id prod.collapse)

lemma link_ok_step:
  assumes "link_ok g h"
  shows "link_ok (thread_step lk g) (h @ exchanged lk ThreadStep g)"
proof (cases "gs_pc g")
  case (Exchanging c)
  then show ?thesis
    using assms by (cases "lk_exchange lk c (gs_client g)")
      (auto simp: link_ok_def thread_step_def exchangeOnce_step_def exchanged_def split: sum.splits)
next
  case (CountFailure e)
  then obtain h0 c r where h: "h = h0 @ [(c, r)]" "isl r"
    using assms last_snoc [of h True] by (auto simp: link_ok_def)
  show ?thesis
    using assms CountFailure threshold [of "trailing_failures h0"]
    by (auto simp: h link_ok_def thread_step_def exchangeOnce_step_def exchanged_def add.commute)
next
  case (TurnFaulted e)
  then show ?thesis
    using assms by (auto simp: link_ok_def thread_step_def exchangeOnce_step_def exchanged_def)
next
  case (ResetFailures c st t)
  then obtain h0 c' r where h: "h = h0 @ [(c', r)]" "\<not> isl r"
    using assms last_snoc [of h False] by (auto simp: link_ok_def)
  show ?thesis
    using assms ResetFailures by (auto simp: h link_ok_def thread_step_def exchangeOnce_step_def exchanged_def)
next
  case (TurnOperational c st t)
  then obtain h0 c' r where h: "h = h0 @ [(c', r)]" "\<not> isl r"
    using assms last_snoc [of h False] by (auto simp: link_ok_def)
  show ?thesis
    using assms TurnOperational by (auto simp: h link_ok_def thread_step_def exchangeOnce_step_def exchanged_def)
qed (use assms in \<open>auto simp: link_ok_def thread_step_def exchangeOnce_step_def exchanged_def\<close>)

lemma image_ok_step:
  assumes "image_ok first g h"
  shows "image_ok first (thread_step lk g) (h @ exchanged lk ThreadStep g)"
proof (cases "gs_pc g")
  case (Exchanging c)
  then show ?thesis
    using assms by (cases "lk_exchange lk c (gs_client g)")
      (auto simp: image_ok_def published_def thread_step_def exchangeOnce_step_def exchanged_def Let_def split: sum.splits)
next
  case (Publishing c st t r)
  then have "successes h \<noteq> []" "last (successes h) = (c, st)" using assms by (auto simp: image_ok_def)
  then show ?thesis
    using assms Publishing
    by (auto simp: image_ok_def published_def thread_step_def exchangeOnce_step_def exchanged_def publish_def Let_def)
qed (use assms in \<open>auto simp: image_ok_def published_def thread_step_def exchangeOnce_step_def exchanged_def Let_def\<close>)

lemma other_events:
  assumes "e \<noteq> ThreadStep"
  shows "exchanged lk e g = []" and "gs_pc (step lk e g) = gs_pc g" and "gs_failures (step lk e g) = gs_failures g"
    and "gs_connectionState (step lk e g) = gs_connectionState g"
    and "im_stamped (gs_image (step lk e g)) = im_stamped (gs_image g)"
    and "gs_client (step lk e g) = gs_client g" and "gs_nextCycle (step lk e g) = gs_nextCycle g"
    and "gs_period (step lk e g) = gs_period g"
  using assms by (auto simp: exchanged_def step_def gs_setCommand_def im_setCommand_def closeImage_def im_close_def
      split: gs_event.splits)

lemma invariant_step:
  assumes "image_ok first g h" and "link_ok g h"
  shows "image_ok first (step lk e g) (h @ exchanged lk e g) \<and> link_ok (step lk e g) (h @ exchanged lk e g)"
proof (cases "e = ThreadStep")
  case True
  then show ?thesis using image_ok_step [OF assms(1)] link_ok_step [OF assms(2)] by (simp add: step_def)
next
  case False
  then show ?thesis using assms by (simp add: other_events image_ok_def link_ok_def)
qed

lemma invariant_run:
  assumes "image_ok first g h" and "link_ok g h" and "run lk es (g, h) = (g', h')"
  shows "image_ok first g' h' \<and> link_ok g' h'"
  using assms
proof (induction es arbitrary: g h)
  case (Cons e es)
  note i = invariant_step [OF Cons.prems(1,2), of lk e]
  show ?case
    by (rule Cons.IH [OF conjunct1 [OF i] conjunct2 [OF i]]) (use Cons.prems(3) in \<open>simp add: traced_step_def\<close>)
qed simp

lemma invariant_fresh:
  "fresh_start g \<Longrightarrow> run lk es (g, []) = (g', h) \<Longrightarrow> image_ok (im_stamped (gs_image g)) g' h \<and> link_ok g' h"
  using invariant_start invariant_run by metis

section \<open>Pacing\<close>

fun after_exchange :: "pc \<Rightarrow> bool" where
  "after_exchange (StampingTime c st) = True"
| "after_exchange (ResetFailures c st t) = True"
| "after_exchange (TurnOperational c st t) = True"
| "after_exchange (Publishing c st t r) = True"
| "after_exchange LoggingRecovery = True"
| "after_exchange (CountFailure e) = True"
| "after_exchange (TurnFaulted e) = True"
| "after_exchange (LoggingFault e) = True"
| "after_exchange (LoggingFailure e) = True"
| "after_exchange Pacing = True"
| "after_exchange _ = False"

text \<open>Cycles are a period apart on the schedule, and none starts before its time.\<close>

definition paced :: "int \<Rightarrow> int \<Rightarrow> 'd gripper_state \<Rightarrow> history \<Rightarrow> bool" where
  "paced t0 period g h \<longleftrightarrow> gs_period g = period \<and> t0 \<le> gs_now g \<and>
     t0 + (int (length h) - 1) * period \<le> gs_now g \<and>
     (if gs_pc g \<in> {NotStarted, FirstCycle} then h = []
      else t0 + (int (length h) - (if after_exchange (gs_pc g) then 1 else 0)) * period \<le> gs_nextCycle g \<and>
        (gs_pc g \<noteq> Sleeping \<longrightarrow> gs_nextCycle g \<le> gs_now g))"

lemma paced_step:
  assumes "paced t0 period g h" and "0 \<le> period"
  shows "paced t0 period (step lk e g) (h @ exchanged lk e g)"
proof (cases "e = ThreadStep")
  case True
  then show ?thesis
    using assms
    by (cases "gs_pc g")
      (auto simp: paced_def step_def thread_step_def exchangeOnce_step_def exchanged_def algebra_simps max_def
        split: sum.splits prod.splits)
next
  case False
  have "gs_now g \<le> gs_now (step lk e g)"
    using False by (auto simp: step_def gs_setCommand_def closeImage_def split: gs_event.splits)
  with False assms show ?thesis by (auto simp: other_events paced_def)
qed

lemma paced_run:
  assumes "paced t0 period g h" and "0 \<le> period" and "run lk es (g, h) = (g', h')"
  shows "paced t0 period g' h'"
  using assms(1,3)
proof (induction es arbitrary: g h)
  case (Cons e es)
  show ?case
    by (rule Cons.IH [OF paced_step [OF Cons.prems(1) assms(2)]]) (use Cons.prems(2) in \<open>simp add: traced_step_def\<close>)
qed simp

section \<open>What is written\<close>

definition sets_no_command :: "gs_event list \<Rightarrow> bool" where
  "sets_no_command es \<longleftrightarrow> (\<forall>c. SetCommand c \<notin> set es)"

text \<open>The command the thread holds, if it already copied one.\<close>

definition written_ok :: "gripper_command \<Rightarrow> gripper_command option \<Rightarrow> 'd gripper_state \<Rightarrow> history \<Rightarrow> bool" where
  "written_ok c old g h \<longleftrightarrow> im_command (gs_image g) = c \<and>
     (\<forall>c'. gs_pc g = Exchanging c' \<longrightarrow> c' = c \<or> h = [] \<and> old = Some c') \<and>
     (\<forall>i < length h. fst (h ! i) = c \<or> i = 0 \<and> old = Some (fst (h ! 0)))"

lemma written_step:
  assumes "written_ok c old g h" and "\<And>c'. e \<noteq> SetCommand c'"
  shows "written_ok c old (step lk e g) (h @ exchanged lk e g)"
proof (cases "e = ThreadStep")
  case True
  then show ?thesis
    using assms(1)
    by (cases "gs_pc g")
      (auto simp: written_ok_def step_def thread_step_def exchangeOnce_step_def exchanged_def publish_def nth_append
        less_Suc_eq split: sum.splits prod.splits)
next
  case False
  with assms have "im_command (gs_image (step lk e g)) = im_command (gs_image g)"
    by (auto simp: step_def closeImage_def im_close_def split: gs_event.splits)
  with False assms(1) show ?thesis by (auto simp: other_events written_ok_def)
qed

lemma written_run:
  assumes "written_ok c old g h" and "sets_no_command es" and "run lk es (g, h) = (g', h')"
  shows "written_ok c old g' h'"
  using assms
proof (induction es arbitrary: g h)
  case (Cons e es)
  then have "sets_no_command es" "\<And>c'. e \<noteq> SetCommand c'" by (auto simp: sets_no_command_def)
  with Cons written_step [of c old g h e lk] show ?case by (auto simp: traced_step_def)
qed simp

section \<open>Stopping\<close>

lemma exchanged_stopped: "\<not> gs_running g \<Longrightarrow> gs_pc g \<in> {NotStarted, Ended} \<Longrightarrow>
    exchanged lk e g = [] \<and> \<not> gs_running (step lk e g) \<and> gs_pc (step lk e g) \<in> {NotStarted, Ended}"
  by (auto simp: exchanged_def step_def thread_step_def gs_setCommand_def closeImage_def split: gs_event.split)

lemma stopped_run:
  assumes "\<not> gs_running g" and "gs_pc g \<in> {NotStarted, Ended}" and "run lk es (g, h) = (g', h')"
  shows "h' = h"
  using assms
proof (induction es arbitrary: g h)
  case (Cons e es)
  note x = exchanged_stopped [OF Cons.prems(1,2), of lk e]
  show ?case
    by (rule Cons.IH [of "step lk e g"]) (use Cons.prems(3) x in \<open>auto simp: traced_step_def\<close>)
qed simp

lemma steps_left_0: "steps_left p = 0 \<longleftrightarrow> p \<in> {NotStarted, Ended}"
  by (cases p) auto

lemma closed_thread_step: "im_closed (gs_image g) \<Longrightarrow> im_closed (gs_image (thread_step lk g))"
  by (cases "gs_pc g") (auto simp: thread_step_def exchangeOnce_step_def publish_def split: sum.split prod.split)

lemma join_ends: "\<not> gs_running g \<Longrightarrow> \<not> gs_running (join lk g) \<and> gs_pc (join lk g) \<in> {NotStarted, Ended} \<and>
    (im_closed (gs_image g) \<longrightarrow> im_closed (gs_image (join lk g)))"
proof (induction lk g rule: join.induct)
  case (1 lk g)
  show ?case
  proof (cases "steps_left (gs_pc g) = 0")
    case True
    then have "join lk g = g" by (simp add: join.simps [of lk g])
    then show ?thesis using True 1(2) by (simp add: steps_left_0)
  next
    case False
    then have "join lk g = join lk (thread_step lk (wake g))" using 1(2) by (simp add: join.simps [of lk g])
    then show ?thesis using 1 False closed_thread_step [of "wake g" lk] by simp
  qed
qed

lemma gs_running_fold: "\<not> gs_running g \<Longrightarrow> \<not> gs_running (fold (step lk) es g)"
proof (induction es arbitrary: g)
  case (Cons e es)
  have "\<not> gs_running (step lk e g)"
    using Cons.prems by (auto simp: step_def gs_setCommand_def closeImage_def split: gs_event.split)
  with Cons.IH show ?case by simp
qed simp

lemma gs_running_others: "\<not> gs_running g \<Longrightarrow> \<not> gs_running (others lk g)"
  by (simp add: others_def gs_running_fold split: list.split)

section \<open>Properties\<close>

text \<open>
  C6 The connection is Faulted exactly while the last three exchanges or more have failed, and
  Operational otherwise, under every interleaving and for any number of failures: the failure counter
  may wrap around. The one exception is the moment between an exchange's end and its effect.
\<close>

theorem faulted_after_three_failures:
  assumes "fresh_start g" and "run lk es (g, []) = (g', h)" and "\<not> undecided (gs_pc g')"
  shows "gs_connectionState g' = (if 3 \<le> trailing_failures h then Faulted else Operational)"
  using invariant_fresh [OF assms(1,2)] assms(3) by (simp add: link_ok_def)

text \<open>
  C4 The image always holds one exchange, whole. When its count is n, its command and status are
  those of the n-th successful exchange; before the first it is the seed, and it is at most one exchange behind.
\<close>

theorem image_is_the_counted_exchange:
  assumes "fresh_start g" and "run lk es (g, []) = (g', h)"
  defines "s \<equiv> im_stamped (gs_image g')"
  shows "exchangeCount s \<le> length (successes h) \<and> length (successes h) \<le> exchangeCount s + 1 \<and>
    (if exchangeCount s = 0 then s = im_stamped (gs_image g)
     else successes h ! (exchangeCount s - 1) = (x_command s, x_status s))"
proof -
  let ?d = "published (gs_pc g') h"
  have i: "image_ok (im_stamped (gs_image g)) g' h" using invariant_fresh [OF assms(1,2)] by simp
  then have c: "exchangeCount s = length ?d" and v: "if ?d = [] then s = im_stamped (gs_image g) else (x_command s, x_status s) = last ?d"
    by (simp_all add: image_ok_def s_def Let_def)
  have b: "length ?d \<le> length (successes h)" "length (successes h) \<le> length ?d + 1"
      "\<And>i. i < length ?d \<Longrightarrow> successes h ! i = ?d ! i"
    by (auto simp: published_def nth_butlast)
  show ?thesis
  proof (cases "?d = []")
    case False
    then have "last ?d = ?d ! (length ?d - 1)" by (simp add: last_conv_nth)
    with False v c b show ?thesis by simp
  qed (use c v b in simp)
qed

text \<open>
  C14 A command that is set is what every later exchange writes until another one is set; only an exchange
  whose command was already copied can still carry the old one, and that is the first at most.
\<close>

theorem set_command_is_what_is_written:
  assumes "sets_no_command es" and "run lk es (gs_setCommand c g, []) = (g', h)" and "i < length h"
  shows "fst (h ! i) = c \<or> i = 0 \<and> gs_pc g = Exchanging (fst (h ! 0))"
proof -
  let ?old = "case gs_pc g of Exchanging c' \<Rightarrow> Some c' | _ \<Rightarrow> None"
  have "written_ok c ?old (gs_setCommand c g) []"
    by (simp add: written_ok_def gs_setCommand_def im_setCommand_def)
  from written_run [OF this assms(1,2)] assms(3) have "fst (h ! i) = c \<or> i = 0 \<and> ?old = Some (fst (h ! 0))"
    by (simp add: written_ok_def)
  then show ?thesis by (auto split: pc.splits)
qed

text \<open>
  The thread never exceeds its rate: n exchanges take at least n - 1 periods. A cycle that
  overran its period is not made up for by a burst of exchanges later.
\<close>

theorem exchanges_never_burst:
  assumes "gs_pc g = FirstCycle" and "0 \<le> gs_period g" and "run lk es (g, []) = (g', h)"
  shows "(int (length h) - 1) * gs_period g \<le> gs_now g' - gs_now g"
proof -
  have "paced (gs_now g) (gs_period g) g []" using assms(1,2) by (simp add: paced_def)
  from paced_run [OF this assms(2,3)] show ?thesis by (simp add: paced_def)
qed

lemma gs_stop_ends: "\<not> gs_running (gs_stop lk g) \<and> gs_pc (gs_stop lk g) \<in> {NotStarted, Ended} \<and> im_closed (gs_image (gs_stop lk g))"
proof -
  let ?g = "closeImage (others lk (g\<lparr>gs_running := False\<rparr>))"
  have "\<not> gs_running ?g" using gs_running_others [of "g\<lparr>gs_running := False\<rparr>" lk] by (simp add: closeImage_def)
  moreover have "im_closed (gs_image ?g)" by (simp add: closeImage_def im_close_def)
  ultimately show ?thesis using join_ends [of ?g lk] by (simp add: gs_stop_def Let_def)
qed

text \<open>
  C29 Stopping ends the thread, whatever it was doing and whatever others do meanwhile: it is joined, the
  image is closed, and no exchange follows.
\<close>

theorem stop_ends_the_exchanges:
  assumes "run lk es (gs_stop lk g, []) = (g', h)"
  shows "h = [] \<and> gs_pc (gs_stop lk g) \<in> {NotStarted, Ended} \<and> im_closed (gs_image (gs_stop lk g))"
  using stopped_run [of "gs_stop lk g", OF _ _ assms] gs_stop_ends [of lk g] by simp

text \<open>The outcome of the n-th status read from a state of the link, and the link after n reads.\<close>

fun link_after :: "'d link \<Rightarrow> nat \<Rightarrow> 'd \<Rightarrow> 'd" where
  "link_after lk 0 d = d"
| "link_after lk (Suc n) d = link_after lk n (snd (lk_readStatus lk d))"

definition outcome :: "'d link \<Rightarrow> nat \<Rightarrow> 'd \<Rightarrow> thrown + gripper_status" where
  "outcome lk n d = fst (lk_readStatus lk (link_after lk n d))"

lemma outcome_Suc: "outcome lk (Suc n) d = outcome lk n (snd (lk_readStatus lk d))"
  by (simp add: outcome_def)

text \<open>What one read does to the attempts left.\<close>

lemma initialRead_result:
  assumes "attempt + left = 3" and "0 < attempt"
  shows "case initialRead lk attempt g of (r, g') \<Rightarrow>
    \<exists>k \<le> left. (\<forall>j < k. \<exists>w. outcome lk j (gs_client g) = Inl (StdException w)) \<and>
      gs_client g' = link_after lk (k + 1) (gs_client g) \<and> length (gs_log g') = length (gs_log g) + k \<and>
      gs_image g' = gs_image g \<and> gs_now g' = gs_now g \<and>
      (case outcome lk k (gs_client g) of Inr st \<Rightarrow> r = Inr st | Inl UnknownException \<Rightarrow> r = Inl UnknownException
       | Inl (StdException w) \<Rightarrow> k = left \<and> isl r)"
  using assms
proof (induction left arbitrary: attempt g)
  case 0
  then have a: "kInitialReadAttempts \<le> attempt" by (simp add: kInitialReadAttempts_def)
  obtain r d where rd: "lk_readStatus lk (gs_client g) = (r, d)" by fastforce
  show ?case
    by (cases r; subst initialRead.simps) (use rd a in \<open>simp_all add: outcome_def split: thrown.split\<close>)
next
  case (Suc left)
  have a: "\<not> kInitialReadAttempts \<le> attempt" using Suc.prems by (simp add: kInitialReadAttempts_def)
  obtain r d where rd: "lk_readStatus lk (gs_client g) = (r, d)" by fastforce
  have o0: "outcome lk 0 (gs_client g) = r" "link_after lk (Suc 0) (gs_client g) = d"
    using rd by (simp_all add: outcome_def)
  show ?case
  proof (cases "\<exists>w. r = Inl (StdException w)")
    case False
    then show ?thesis
      using rd o0
      by (auto simp: initialRead.simps [of lk attempt g] split: prod.split sum.split thrown.split intro!: exI [of _ 0])
  next
    case True
    then obtain w where w: "r = Inl (StdException w)" by blast
    obtain g1 where g1: "g1 = say LevelWarn (''initial status read attempt '' @ decimal attempt @ '' of '' @
        decimal kInitialReadAttempts @ '' failed: '' @ w) (g\<lparr>gs_client := d\<rparr>)" by simp
    have e: "initialRead lk attempt g = initialRead lk (attempt + 1) g1"
      using rd w a by (simp add: initialRead.simps [of lk attempt g] g1)
    have c: "gs_client g1 = d" "length (gs_log g1) = length (gs_log g) + 1" "gs_image g1 = gs_image g" "gs_now g1 = gs_now g"
      by (simp_all add: g1 say_def log_line_def)
    obtain r' g' where r': "initialRead lk (attempt + 1) g1 = (r', g')" by fastforce
    with Suc.IH [of "attempt + 1" g1] Suc.prems c obtain k where
      k: "k \<le> left" "\<forall>j < k. \<exists>w. outcome lk j d = Inl (StdException w)" "gs_client g' = link_after lk (k + 1) d"
        "length (gs_log g') = length (gs_log g) + 1 + k" "gs_image g' = gs_image g" "gs_now g' = gs_now g"
        "case outcome lk k d of Inr st \<Rightarrow> r' = Inr st | Inl UnknownException \<Rightarrow> r' = Inl UnknownException
         | Inl (StdException w) \<Rightarrow> k = left \<and> isl r'" by auto
    have os: "outcome lk (Suc j) (gs_client g) = outcome lk j d" "link_after lk (Suc j) (gs_client g) = link_after lk j d" for j
      using rd by (simp_all add: outcome_Suc)
    have "\<forall>j < Suc k. \<exists>w. outcome lk j (gs_client g) = Inl (StdException w)"
      using k(2) os o0 w by (simp add: All_less_Suc2)
    with k os r' e show ?thesis
      by (auto intro!: exI [of _ "Suc k"] split: sum.splits thrown.splits)
  qed
qed

text \<open>
  At start-up the status is read at most three times. The image is seeded from the first read that
  succeeds, with the command that status echoes, and the link is then Operational; each earlier failure
  was logged. When all three fail with an exception, so does the initialisation, and nothing is seeded.
\<close>

theorem initialization_reads_at_most_three_times:
  assumes "initializeImage lk g = (r, g')"
  shows "\<exists>k \<le> 2. (\<forall>j < k. \<exists>w. outcome lk j (gs_client g) = Inl (StdException w)) \<and>
    gs_client g' = link_after lk (k + 1) (gs_client g) \<and> length (gs_log g') = length (gs_log g) + k \<and>
    (case outcome lk k (gs_client g) of
       Inr st \<Rightarrow> r = Inr () \<and> gs_connectionState g' = Operational \<and>
         im_command (gs_image g') = echoed_command st \<and> im_stamped (gs_image g') =
           \<lparr>exchangeCount = 0, timestamp = gs_now g, x_command = echoed_command st, x_status = st\<rparr>
     | Inl UnknownException \<Rightarrow> r = Inl UnknownException \<and> gs_image g' = gs_image g
     | Inl (StdException w) \<Rightarrow> k = 2 \<and> isl r \<and> gs_image g' = gs_image g)"
proof -
  obtain r0 g0 where i: "initialRead lk 1 g = (r0, g0)" by fastforce
  have "(1 :: nat) + 2 = 3" "(0 :: nat) < 1" by simp_all
  from initialRead_result [OF this, of lk g] i obtain k where
    k: "k \<le> 2" "\<forall>j < k. \<exists>w. outcome lk j (gs_client g) = Inl (StdException w)"
      "gs_client g0 = link_after lk (k + 1) (gs_client g)" "length (gs_log g0) = length (gs_log g) + k"
      "gs_image g0 = gs_image g" "gs_now g0 = gs_now g"
      "case outcome lk k (gs_client g) of Inr st \<Rightarrow> r0 = Inr st | Inl UnknownException \<Rightarrow> r0 = Inl UnknownException
       | Inl (StdException w) \<Rightarrow> k = 2 \<and> isl r0" by auto
  have g': "(r, g') = (case r0 of Inl e \<Rightarrow> (Inl e, g0) | Inr fresh \<Rightarrow>
      (Inr (), g0\<lparr>gs_image := seed fresh (gs_now g0) (echoed_command fresh) (gs_image g0), gs_connectionState := Operational\<rparr>))"
    using assms i by (simp add: initializeImage_def)
  show ?thesis
  proof (intro exI [of _ k] conjI)
    show "case outcome lk k (gs_client g) of
       Inr st \<Rightarrow> r = Inr () \<and> gs_connectionState g' = Operational \<and>
         im_command (gs_image g') = echoed_command st \<and> im_stamped (gs_image g') =
           \<lparr>exchangeCount = 0, timestamp = gs_now g, x_command = echoed_command st, x_status = st\<rparr>
     | Inl UnknownException \<Rightarrow> r = Inl UnknownException \<and> gs_image g' = gs_image g
     | Inl (StdException w) \<Rightarrow> k = 2 \<and> isl r \<and> gs_image g' = gs_image g"
      using k(5-7) g' by (auto simp: seed_def split: sum.splits thrown.splits)
  qed (use k(1-4) g' in \<open>auto split: sum.splits\<close>)
qed

section \<open>Witnesses\<close>

text \<open>A link that answers from a script, and a state whose thread is about to begin.\<close>

definition scripted_link :: "(thrown + gripper_status) list link" where
  "scripted_link = (let next = (\<lambda>d. (hd d, tl d)) in \<lparr>lk_readStatus = next, lk_exchange = (\<lambda>c. next)\<rparr>)"

definition about_to_run :: "(thrown + gripper_status) list \<Rightarrow> (thrown + gripper_status) list gripper_state" where
  "about_to_run script = (gs_start (makeGripperState script \<lparr>im_command = defaults, im_stamped = zero_stamped, im_closed = False\<rparr>
     0 0 []))\<lparr>gs_connectionState := Operational\<rparr>"

lemma about_to_run_fresh: "fresh_start (about_to_run script)"
  by (simp add: fresh_start_def about_to_run_def gs_start_def makeGripperState_def zero_stamped_def)

definition failing_script :: "(thrown + gripper_status) list" where
  "failing_script = [Inr zero_status, Inl (StdException ''a''), Inl (StdException ''b''), Inl (StdException ''c'')]"

definition failing_run :: "(thrown + gripper_status) list gripper_state \<times> history" where
  "failing_run = run scripted_link (replicate 31 ThreadStep) (about_to_run failing_script, [])"

lemma failing_run_end: "gs_pc (fst failing_run) = Pacing" "length (snd failing_run) = 4"
  "trailing_failures (snd failing_run) = 3" "exchangeCount (im_stamped (gs_image (fst failing_run))) = 1"
  by code_simp+

lemma failing_run_eq: "run scripted_link (replicate 31 ThreadStep) (about_to_run failing_script, []) = (fst failing_run, snd failing_run)"
  by (simp add: failing_run_def)

theorem faulted_after_three_failures_witness: "gs_connectionState (fst failing_run) = Faulted"
  using faulted_after_three_failures [OF about_to_run_fresh failing_run_eq] by (simp add: failing_run_end)

theorem image_is_the_counted_exchange_witness:
  "successes (snd failing_run) ! 0 =
     (x_command (im_stamped (gs_image (fst failing_run))), x_status (im_stamped (gs_image (fst failing_run))))"
  using image_is_the_counted_exchange [OF about_to_run_fresh failing_run_eq] by (simp add: failing_run_end)

theorem set_command_is_what_is_written_witness:
  "fst (snd (run scripted_link (replicate 31 ThreadStep) (gs_setCommand zero_command (about_to_run failing_script), [])) ! 2) = zero_command"
proof -
  let ?r = "run scripted_link (replicate 31 ThreadStep) (gs_setCommand zero_command (about_to_run failing_script), [])"
  have "2 < length (snd ?r)" by code_simp
  moreover have "sets_no_command (replicate 31 ThreadStep)" by (simp add: sets_no_command_def)
  ultimately show ?thesis
    using set_command_is_what_is_written [of "replicate 31 ThreadStep" scripted_link zero_command
        "about_to_run failing_script" "fst ?r" "snd ?r" 2] by simp
qed

theorem exchanges_never_burst_witness:
  "(int (length (snd failing_run)) - 1) * gs_period (about_to_run failing_script) \<le>
     gs_now (fst failing_run) - gs_now (about_to_run failing_script)"
proof (rule exchanges_never_burst [OF _ _ failing_run_eq])
  show "gs_pc (about_to_run failing_script) = FirstCycle" by (simp add: about_to_run_def gs_start_def)
  show "0 \<le> gs_period (about_to_run failing_script)"
    by (simp add: about_to_run_def gs_start_def makeGripperState_def)
qed

theorem stop_ends_the_exchanges_witness: "gs_pc (gs_stop scripted_link (fst failing_run)) \<in> {NotStarted, Ended}"
  using stop_ends_the_exchanges [of scripted_link "[]" "fst failing_run"] by simp

theorem initialization_reads_at_most_three_times_witness:
  "\<exists>r g'. initializeImage scripted_link (about_to_run (tl failing_script)) = (r, g') \<and> isl r"
proof -
  let ?g = "about_to_run (tl failing_script)"
  obtain r g' where i: "initializeImage scripted_link ?g = (r, g')" by fastforce
  have o: "outcome scripted_link 0 (gs_client ?g) = Inl (StdException ''a'')"
      "outcome scripted_link 1 (gs_client ?g) = Inl (StdException ''b'')"
      "outcome scripted_link 2 (gs_client ?g) = Inl (StdException ''c'')" by code_simp+
  from initialization_reads_at_most_three_times [OF i] obtain k where
    "k \<le> 2" "case outcome scripted_link k (gs_client ?g) of
       Inr st \<Rightarrow> r = Inr () \<and> gs_connectionState g' = Operational \<and>
         im_command (gs_image g') = echoed_command st \<and> im_stamped (gs_image g') =
           \<lparr>exchangeCount = 0, timestamp = gs_now ?g, x_command = echoed_command st, x_status = st\<rparr>
     | Inl UnknownException \<Rightarrow> r = Inl UnknownException \<and> gs_image g' = gs_image ?g
     | Inl (StdException w) \<Rightarrow> k = 2 \<and> isl r \<and> gs_image g' = gs_image ?g" by blast
  moreover from this(1) have "k = 0 \<or> k = 1 \<or> k = 2" by arith
  ultimately have "isl r" using o by auto
  with i show ?thesis by blast
qed

end
