(* ===== verification/Gripper.thy ===== *)
theory Gripper
  imports ExchangeCycle
begin

text \<open>
  The public \<open>Gripper\<close> and the free functions over it (\<open>grippers/sdk_cpp/src/gripper.cpp\<close>, \<open>src/wait.cpp\<close>,
  \<open>gripper/wait.hpp\<close>). Every action that reads or writes shared state, or the clock, first lets the
  others run, so that a proof about a call covers every interleaving with the exchange thread and
  with other callers. Durations are milliseconds, times nanoseconds.
\<close>

section \<open>The class\<close>

text \<open>The platform is null, or gives or refuses a mutex and a condition variable.\<close>

definition makeGripper ::
    "'d link \<Rightarrow> 'd \<Rightarrow> int \<Rightarrow> (bool \<times> bool) option \<Rightarrow> int \<Rightarrow> gs_event list list \<Rightarrow> thrown + 'd gripper_state" where
  "makeGripper lk client exchangePeriod platform now sched =
     (case platform of
        None \<Rightarrow> Inl (driver_exception (''a null Platform was passed '' @ em_dash @
                  '' pass your RTOS platform, or use a hosted constructor''))
      | Some (mutex, condition) \<Rightarrow>
          (case makeProcessImage mutex condition of
             Inl e \<Rightarrow> Inl e
           | Inr im \<Rightarrow>
               (case initializeImage lk (makeGripperState client im exchangePeriod now sched) of
                  (Inl e, _) \<Rightarrow> Inl e
                | (Inr _, g) \<Rightarrow> Inr (gs_start g))))"

definition setCommand :: "'d link \<Rightarrow> gripper_command \<Rightarrow> 'd gripper_state \<Rightarrow> 'd gripper_state" where
  "setCommand lk c g = gs_setCommand c (others lk g)"

definition getCommand :: "'d link \<Rightarrow> 'd gripper_state \<Rightarrow> gripper_command \<times> 'd gripper_state" where
  "getCommand lk g = (let g1 = others lk g in (im_command (gs_image g1), g1))"

definition getStatus :: "'d link \<Rightarrow> 'd gripper_state \<Rightarrow> gripper_status \<times> 'd gripper_state" where
  "getStatus lk g = (let g1 = others lk g in (im_status (gs_image g1), g1))"

definition getMostRecentStampedExchange :: "'d link \<Rightarrow> 'd gripper_state \<Rightarrow> stamped_exchange \<times> 'd gripper_state" where
  "getMostRecentStampedExchange lk g = (let g1 = others lk g in (im_stamped (gs_image g1), g1))"

definition connectionState :: "'d link \<Rightarrow> 'd gripper_state \<Rightarrow> connection_state \<times> 'd gripper_state" where
  "connectionState lk g = (let g1 = others lk g in (gs_connectionState g1, g1))"

text \<open>\<open>steady_clock::now()\<close>; its largest value; the longest time-out a deadline is computed with.\<close>

definition clock :: "'d link \<Rightarrow> 'd gripper_state \<Rightarrow> int \<times> 'd gripper_state" where
  "clock lk g = (let g1 = others lk g in (gs_now g1, g1))"

definition kSteadyMax :: int where "kSteadyMax = 2 ^ 63 - 1"
definition kLongest :: int where "kLongest = kSteadyMax div 10 ^ 6 div 2"

definition deadlineAfter :: "'d link \<Rightarrow> int \<Rightarrow> 'd gripper_state \<Rightarrow> int \<times> 'd gripper_state" where
  "deadlineAfter lk timeout g = (let (now, g1) = clock lk g in (now + min timeout kLongest * 10 ^ 6, g1))"

definition waitForExchangeCount ::
    "'d link \<Rightarrow> nat \<Rightarrow> int \<Rightarrow> 'd gripper_state \<Rightarrow> stamped_exchange option \<times> 'd gripper_state" where
  "waitForExchangeCount lk desiredExchangeCount timeout g =
     (let (deadline, g1) = deadlineAfter lk timeout g;
          (fresh, g2) = gs_waitForExchange lk desiredExchangeCount deadline g1
      in (if exchangeCount fresh < desiredExchangeCount then None else Some fresh, g2))"

definition waitForExchange :: "'d link \<Rightarrow> int \<Rightarrow> 'd gripper_state \<Rightarrow> stamped_exchange option \<times> 'd gripper_state" where
  "waitForExchange lk timeout g =
     (let (s, g1) = getMostRecentStampedExchange lk g in waitForExchangeCount lk (exchangeCount s + 1) timeout g1)"

section \<open>Shared automation\<close>

lemma others_idle [simp]: "gs_sched g = [] \<Longrightarrow> others lk g = g"
  by (simp add: others_def)

lemma sync_sched: "length (gs_sched (snd (sync lk n d g))) \<le> length (gs_sched g)"
  by (induction lk n d g rule: sync.induct) (subst sync.simps, auto)

lemma sync_idle: "gs_sched g = [] \<Longrightarrow> sync lk n d g = (im_stamped (gs_image g),
    if sync_waits n d (gs_now g) (gs_image g) then g\<lparr>gs_now := d\<rparr> else g)"
  by (simp add: sync.simps [of lk n d g])

lemma gs_wait_sched: "length (gs_sched (snd (gs_waitForExchange lk n d g))) \<le> length (gs_sched g) - 1"
  using sync_sched [of lk "n - 1" d "others lk g"] by (simp add: gs_waitForExchange_def Let_def)

lemma wait_count_eq: "waitForExchangeCount lk desired timeout g =
    (let r = gs_waitForExchange lk desired (gs_now (others lk g) + min timeout kLongest * 10 ^ 6) (others lk g)
     in (if exchangeCount (fst r) < desired then None else Some (fst r), snd r))"
  by (simp add: waitForExchangeCount_def deadlineAfter_def clock_def Let_def split: prod.split)

lemma wait_count_sched:
  "length (gs_sched (snd (waitForExchangeCount lk desired timeout g))) \<le> length (gs_sched g) - 1"
  using gs_wait_sched [of lk desired _ "others lk g"] by (fastforce simp: wait_count_eq Let_def intro: le_trans)

lemma wait_count_idle:
  assumes "waitForExchangeCount lk desired timeout g = (Some x, g')" and "gs_sched g = []"
  shows "gs_sched g' = [] \<and> desired \<le> exchangeCount (im_stamped (gs_image g)) \<and>
    x = im_stamped (gs_image g) \<and> gs_image g' = gs_image g"
  using assms by (auto simp: wait_count_eq gs_waitForExchange_def Let_def sync_idle split: if_splits)

text \<open>\<open>chrono::ceil\<close> to milliseconds.\<close>

definition remaining_ms :: "int \<Rightarrow> int \<Rightarrow> int" where
  "remaining_ms deadline now = (if now < deadline then (deadline - now + 999999) div 10 ^ 6 else 0)"

section \<open>Waiting for a predicate\<close>

text \<open>\<open>waitForExchangeAfter\<close> after its deadline is set.\<close>

function wait_loop :: "'d link \<Rightarrow> nat \<Rightarrow> (stamped_exchange \<Rightarrow> bool) \<Rightarrow> int \<Rightarrow> 'd gripper_state \<Rightarrow>
    stamped_exchange option \<times> 'd gripper_state" where
  "wait_loop lk desired p deadline g =
     (case waitForExchangeCount lk desired (remaining_ms deadline (gs_now (others lk g))) (others lk g) of
        (None, g2) \<Rightarrow> (None, g2)
      | (Some x, g2) \<Rightarrow> if p x then (Some x, g2) else wait_loop lk (exchangeCount x + 1) p deadline g2)"
  by pat_completeness auto

text \<open>Each turn uses up the schedule; without one, only a count already reached can be returned.\<close>

termination
proof (relation "measure (\<lambda>(lk, desired, p, deadline, g). 2 * length (gs_sched g) +
    (if desired \<le> exchangeCount (im_stamped (gs_image g)) then 1 else 0))", goal_cases)
  case 1
  show ?case by simp
next
  case (2 lk desired p deadline g r g2 x)
  show ?case
  proof (cases "gs_sched g = []")
    case True
    then show ?thesis using wait_count_idle [of lk desired _ g x g2] 2 by auto
  next
    case False
    have "snd (waitForExchangeCount lk desired (remaining_ms deadline (gs_now (others lk g))) (others lk g)) = g2"
      using 2 by (metis snd_conv)
    then have "length (gs_sched g2) \<le> length (gs_sched g) - 1 - 1"
      using wait_count_sched [of lk desired "remaining_ms deadline (gs_now (others lk g))" "others lk g"] by simp
    then have "length (gs_sched g2) < length (gs_sched g)" using False by (cases "gs_sched g") auto
    then show ?thesis by auto
  qed
qed

declare wait_loop.simps [simp del]

definition waitForExchangeAfter :: "'d link \<Rightarrow> nat \<Rightarrow> (stamped_exchange \<Rightarrow> bool) \<Rightarrow> int \<Rightarrow> 'd gripper_state \<Rightarrow>
    stamped_exchange option \<times> 'd gripper_state" where
  "waitForExchangeAfter lk afterCount p timeout g =
     (let (deadline, g1) = deadlineAfter lk timeout g in wait_loop lk (afterCount + 1) p deadline g1)"

definition waitFor :: "'d link \<Rightarrow> (stamped_exchange \<Rightarrow> bool) \<Rightarrow> int \<Rightarrow> 'd gripper_state \<Rightarrow>
    stamped_exchange option \<times> 'd gripper_state" where
  "waitFor lk p timeout g =
     (let (s, g1) = getMostRecentStampedExchange lk g in waitForExchangeAfter lk (exchangeCount s) p timeout g1)"

definition setCommandAndWaitForExchange :: "'d link \<Rightarrow> gripper_command \<Rightarrow> int \<Rightarrow> 'd gripper_state \<Rightarrow>
    stamped_exchange option \<times> 'd gripper_state" where
  "setCommandAndWaitForExchange lk c timeout g =
     (let (s, g1) = getMostRecentStampedExchange lk g; before = exchangeCount s; g2 = setCommand lk c g1
      in waitForExchangeAfter lk before (\<lambda>x. command_eq (x_command x) c) timeout g2)"

definition waitForPositionEcho :: "'d link \<Rightarrow> u8 \<Rightarrow> int \<Rightarrow> 'd gripper_state \<Rightarrow> stamped_exchange option \<times> 'd gripper_state" where
  "waitForPositionEcho lk pos timeout = waitFor lk (\<lambda>x. positionRequestEcho (x_status x) = pos) timeout"

definition waitForObjectDetection ::
    "'d link \<Rightarrow> ObjectDetection \<Rightarrow> int \<Rightarrow> 'd gripper_state \<Rightarrow> stamped_exchange option \<times> 'd gripper_state" where
  "waitForObjectDetection lk detection timeout =
     waitFor lk (\<lambda>x. objectDetection (gripperStatus (x_status x)) = detection) timeout"

definition waitForMotionEnd :: "'d link \<Rightarrow> int \<Rightarrow> 'd gripper_state \<Rightarrow> stamped_exchange option \<times> 'd gripper_state" where
  "waitForMotionEnd lk timeout = waitFor lk (\<lambda>x. objectDetection (gripperStatus (x_status x)) \<noteq> Moving) timeout"

section \<open>Activation\<close>

datatype activation_result = Activated | AlreadyActive | FaultLatched | ActivationTimeout

text \<open>\<open>steady_clock::now() + timeout\<close> in 64-bit arithmetic; \<open>None\<close> is an overflow, which C++ leaves undefined.\<close>

definition steady_add :: "int \<Rightarrow> int \<Rightarrow> int option" where
  "steady_add now timeout =
     (let d = timeout * 10 ^ 6 in
      if \<bar>d\<bar> \<le> kSteadyMax \<and> \<bar>now + d\<bar> \<le> kSteadyMax then Some (now + d) else None)"

definition waitForStatus :: "'d link \<Rightarrow> (gripper_status \<Rightarrow> bool) \<Rightarrow> int \<Rightarrow> 'd gripper_state \<Rightarrow>
    stamped_exchange option \<times> 'd gripper_state" where
  "waitForStatus lk p deadline g =
     (let (now, g1) = clock lk g in waitFor lk (\<lambda>x. p (x_status x)) (remaining_ms deadline now) g1)"

definition waitOperational :: "'d link \<Rightarrow> int \<Rightarrow> 'd gripper_state \<Rightarrow> stamped_exchange option \<times> 'd gripper_state" where
  "waitOperational lk = waitForStatus lk (\<lambda>_. True)"

definition activation_complete :: "gripper_status \<Rightarrow> bool" where
  "activation_complete st \<longleftrightarrow> activationState (gripperStatus st) = Complete"

definition waitForActivationComplete :: "'d link \<Rightarrow> int \<Rightarrow> 'd gripper_state \<Rightarrow> activation_result \<times> 'd gripper_state" where
  "waitForActivationComplete lk deadline g =
     (case waitForStatus lk activation_complete deadline g of
        (Some _, g1) \<Rightarrow> (Activated, g1) | (None, g1) \<Rightarrow> (ActivationTimeout, g1))"

definition isActivationHandshakeAllowed :: "'d link \<Rightarrow> int \<Rightarrow> int \<Rightarrow> 'd gripper_state \<Rightarrow> bool \<times> 'd gripper_state" where
  "isActivationHandshakeAllowed lk deadline timeout g =
     (let (now, g1) = clock lk g;
          half = (if timeout < 0 then - (- timeout div 2) else timeout div 2)
      in (half * 10 ^ 6 \<le> deadline - now, g1))"

text \<open>Finishing the activation must not start a motion.\<close>

definition activateCommand :: "gripper_command \<Rightarrow> gripper_command" where
  "activateCommand previous = previous\<lparr>action := nb_put Activate True (nb_put GoTo False (action previous))\<rparr>"

definition deactivateCommand :: "gripper_command \<Rightarrow> gripper_command" where
  "deactivateCommand previous =
     (let c = activateCommand previous in c\<lparr>action := nb_put Activate False (action c)\<rparr>)"

definition runActivationHandshake :: "'d link \<Rightarrow> int \<Rightarrow> 'd gripper_state \<Rightarrow> activation_result \<times> 'd gripper_state" where
  "runActivationHandshake lk deadline g =
     (let (previous, g1) = getCommand lk g; g2 = setCommand lk (deactivateCommand previous) g1
      in case waitForStatus lk (\<lambda>st. \<not> activated (gripperStatus st)) deadline g2 of
           (None, g3) \<Rightarrow> (ActivationTimeout, setCommand lk previous g3)
         | (Some _, g3) \<Rightarrow> waitForActivationComplete lk deadline (setCommand lk (activateCommand previous) g3))"

text \<open>\<open>None\<close> when the deadline overflows.\<close>

definition activate :: "'d link \<Rightarrow> int \<Rightarrow> 'd gripper_state \<Rightarrow> (activation_result \<times> 'd gripper_state) option" where
  "activate lk timeout g =
     (let (now, g1) = clock lk g in
      case steady_add now timeout of
        None \<Rightarrow> None
      | Some deadline \<Rightarrow>
          Some (case waitOperational lk deadline g1 of
             (None, g2) \<Rightarrow> (ActivationTimeout, g2)
           | (Some fresh, g2) \<Rightarrow>
               let st = x_status fresh in
               if severity (gripperFault (faultStatus st)) = Major then (FaultLatched, g2)
               else if activationState (gripperStatus st) = Complete then (AlreadyActive, g2)
               else if activationState (gripperStatus st) = InProgress then waitForActivationComplete lk deadline g2
               else case isActivationHandshakeAllowed lk deadline timeout g2 of
                      (allowed, g3) \<Rightarrow>
                        if \<not> allowed then (ActivationTimeout, g3) else runActivationHandshake lk deadline g3))"

definition recoverFromFault :: "'d link \<Rightarrow> int \<Rightarrow> 'd gripper_state \<Rightarrow> (activation_result \<times> 'd gripper_state) option" where
  "recoverFromFault lk timeout g =
     (let (now, g1) = clock lk g in
      case steady_add now timeout of
        None \<Rightarrow> None
      | Some deadline \<Rightarrow>
          Some (case waitOperational lk deadline g1 of
             (None, g2) \<Rightarrow> (ActivationTimeout, g2)
           | (Some _, g2) \<Rightarrow>
               case isActivationHandshakeAllowed lk deadline timeout g2 of
                 (allowed, g3) \<Rightarrow>
                   if \<not> allowed then (ActivationTimeout, g3) else runActivationHandshake lk deadline g3))"

end
