(* ===== verification/GripperWaits.thy ===== *)
theory GripperWaits
  imports Gripper
begin

text \<open>
  What the blocking calls of \<open>Gripper\<close> return. The interface to the rest of the process is the locale
  \<open>cycle_invariant\<close>: a fact about the state which every event allowed to the others keeps; inside it, every
  call is shown to keep the fact too. It is interpreted by the image's progress, and by the command nobody
  else sets.
\<close>

lemma gs_setCommand_fields [simp]: "gs_sched (gs_setCommand c g) = gs_sched g" "gs_now (gs_setCommand c g) = gs_now g"
  "im_stamped (gs_image (gs_setCommand c g)) = im_stamped (gs_image g)"
  "im_closed (gs_image (gs_setCommand c g)) = im_closed (gs_image g)"
  "im_command (gs_image (gs_setCommand c g)) = c"
  by (simp_all add: gs_setCommand_def im_setCommand_def)

section \<open>Facts the others keep\<close>

locale cycle_invariant =
  fixes lk :: "'d link" and allowed :: "gs_event \<Rightarrow> bool" and I :: "'d gripper_state \<Rightarrow> bool"
  assumes kept_step: "allowed e \<Longrightarrow> I g \<Longrightarrow> I (step lk e g)"
    and kept_sched: "I g \<Longrightarrow> I (g\<lparr>gs_sched := s\<rparr>)"
    and kept_later: "I g \<Longrightarrow> gs_now g \<le> t \<Longrightarrow> I (g\<lparr>gs_now := t\<rparr>)"
begin

definition K :: "'d gripper_state \<Rightarrow> bool" where
  "K g \<longleftrightarrow> I g \<and> (\<forall>es \<in> set (gs_sched g). \<forall>e \<in> set es. allowed e)"

lemma kept_fold: "I g \<Longrightarrow> \<forall>e \<in> set es. allowed e \<Longrightarrow> I (fold (step lk) es g)"
  by (induction es arbitrary: g) (simp_all add: kept_step)

lemma kept_others: "K g \<Longrightarrow> K (others lk g)"
  by (cases "gs_sched g") (simp_all add: K_def others_def kept_fold kept_sched)

lemma kept_sync: "lk' = lk \<Longrightarrow> K g \<Longrightarrow> K (snd (sync lk' n d g))"
proof (induction lk' n d g rule: sync.induct)
  case (1 lk' n d g)
  have "gs_sched g \<noteq> [] \<Longrightarrow> sync_waits n d (gs_now g) (gs_image g) \<Longrightarrow> K (snd (sync lk' n d (others lk' g)))"
    using 1 kept_others by simp
  then show ?case
    using 1(3) by (subst sync.simps) (auto simp: K_def kept_later sync_waits_def)
qed

lemma kept_gs_wait: "K g \<Longrightarrow> K (snd (gs_waitForExchange lk n d g))"
  using kept_sync kept_others by (simp add: gs_waitForExchange_def Let_def)

lemma kept_wait_count: "K g \<Longrightarrow> K (snd (waitForExchangeCount lk n timeout g))"
  using kept_gs_wait kept_others by (simp add: wait_count_eq Let_def)

lemma kept_wait_loop: "lk' = lk \<Longrightarrow> K g \<Longrightarrow> K (snd (wait_loop lk' n p deadline g))"
proof (induction lk' n p deadline g rule: wait_loop.induct)
  case (1 lk' n p deadline g)
  obtain r g2 where r: "waitForExchangeCount lk n (remaining_ms deadline (gs_now (others lk g))) (others lk g) = (r, g2)"
    by fastforce
  have "K g2"
    using kept_wait_count [OF kept_others [OF 1(3)], of n "remaining_ms deadline (gs_now (others lk g))"] r by simp
  with 1 r show ?case by (subst wait_loop.simps) (auto split: option.split)
qed

lemma kept_waitForExchangeAfter: "K g \<Longrightarrow> K (snd (waitForExchangeAfter lk n p timeout g))"
  using kept_wait_loop kept_others by (simp add: waitForExchangeAfter_def deadlineAfter_def clock_def Let_def)

lemma kept_waitFor: "K g \<Longrightarrow> K (snd (waitFor lk p timeout g))"
  using kept_waitForExchangeAfter kept_others by (simp add: waitFor_def getMostRecentStampedExchange_def Let_def)

lemma kept_waitForStatus: "K g \<Longrightarrow> K (snd (waitForStatus lk q deadline g))"
  using kept_waitFor kept_others by (simp add: waitForStatus_def clock_def Let_def)

lemma kept_waitForActivationComplete: "K g \<Longrightarrow> K (snd (waitForActivationComplete lk deadline g))"
  using kept_waitForStatus [of g activation_complete deadline]
  by (auto simp: waitForActivationComplete_def split: prod.split option.split)

end

text \<open>A fact that setting a command keeps as well.\<close>

locale writable_invariant = cycle_invariant lk allowed I
  for lk :: "'d link" and allowed :: "gs_event \<Rightarrow> bool" and I :: "'d gripper_state \<Rightarrow> bool" +
  assumes kept_set: "I g \<Longrightarrow> I (gs_setCommand c g)"
begin

lemma kept_setCommand: "K g \<Longrightarrow> K (setCommand lk c g)"
  using kept_others [of g] by (simp add: setCommand_def K_def kept_set)

lemma kept_set_and_wait: "K g \<Longrightarrow> K (snd (setCommandAndWaitForExchange lk c timeout g))"
  using kept_waitForExchangeAfter kept_setCommand kept_others
  by (simp add: setCommandAndWaitForExchange_def getMostRecentStampedExchange_def Let_def)

end

section \<open>Progress\<close>

lemma image_le_setCommand [simp]: "image_le im (im_setCommand c im') = image_le im im'"
  "image_le im im' \<Longrightarrow> image_le im (publish c' st t im')" "image_le im im' \<Longrightarrow> image_le im (im_close im')"
  by (auto simp: image_le_def im_setCommand_def publish_def im_close_def)

text \<open>Time goes on, and the image counts on, whatever anybody does.\<close>

definition since :: "process_image \<Rightarrow> int \<Rightarrow> 'd gripper_state \<Rightarrow> bool" where
  "since im t g \<longleftrightarrow> image_le im (gs_image g) \<and> t \<le> gs_now g"

interpretation progress: writable_invariant lk "\<lambda>_. True" "since im t" for lk :: "'d link" and im t
proof
  fix e and g :: "'d gripper_state" assume "since im t g"
  then show "since im t (step lk e g)"
    by (cases e; cases "gs_pc g") (auto simp: since_def step_def thread_step_def exchangeOnce_step_def gs_setCommand_def
        closeImage_def split: sum.split prod.split)
qed (auto simp: since_def gs_setCommand_def)

lemma since_refl [simp]: "since (gs_image g) (gs_now g) g"
  by (simp add: since_def)

lemma progress_K [simp]: "progress.K im t g \<longleftrightarrow> since im t g"
  by (simp add: progress.K_def)

lemmas kept_since = progress.kept_others [unfolded progress_K] progress.kept_sync [OF refl, unfolded progress_K]
  progress.kept_wait_count [unfolded progress_K] progress.kept_wait_loop [OF refl, unfolded progress_K]
  progress.kept_waitFor [unfolded progress_K] progress.kept_waitForExchangeAfter [unfolded progress_K]
  progress.kept_waitForStatus [unfolded progress_K] progress.kept_setCommand [unfolded progress_K]

lemma since_others: "since (gs_image g) (gs_now g) (others lk g)"
  by (rule kept_since(1)) simp

lemma since_wait_count: "waitForExchangeCount lk n m g = (r, g') \<Longrightarrow> since (gs_image g) (gs_now g) g'"
  using kept_since(3) [of "gs_image g" "gs_now g" g] by (metis since_refl snd_conv)

lemma since_wait_loop: "wait_loop lk n p d g = (r, g') \<Longrightarrow> since (gs_image g) (gs_now g) g'"
  using kept_since(4) [of "gs_image g" "gs_now g" g] by (metis since_refl snd_conv)

lemma sync_result: "case sync lk n d g of (x, g') \<Rightarrow> x = im_stamped (gs_image g') \<and>
    (n < exchangeCount x \<or> im_closed (gs_image g') \<or> d \<le> gs_now g')"
proof (induction lk n d g rule: sync.induct)
  case (1 lk n d g)
  then show ?case by (subst sync.simps) (auto simp: sync_waits_def)
qed

text \<open>A wait for a count, and a wait for a predicate: what comes back is the image, and why.\<close>

lemma wait_count_result:
  assumes "waitForExchangeCount lk desired timeout g = (r, g')"
  shows "case r of Some x \<Rightarrow> x = im_stamped (gs_image g') \<and> desired \<le> exchangeCount x
    | None \<Rightarrow> exchangeCount (im_stamped (gs_image g')) < desired \<and>
        (im_closed (gs_image g') \<or> gs_now g + min timeout kLongest * 10 ^ 6 \<le> gs_now g')"
proof -
  let ?d = "gs_now (others lk g) + min timeout kLongest * 10 ^ 6"
  obtain x g0 where w0: "gs_waitForExchange lk desired ?d (others lk g) = (x, g0)" by fastforce
  then have w: "gs_waitForExchange lk desired ?d (others lk g) = (x, g')"
      "r = (if exchangeCount x < desired then None else Some x)"
    using assms by (auto simp: wait_count_eq Let_def)
  have "x = im_stamped (gs_image g') \<and> (desired \<le> exchangeCount x \<or> im_closed (gs_image g') \<or> ?d \<le> gs_now g')"
    using w(1) sync_result [where lk = lk and n = "desired - 1" and d = ?d and g = "others lk (others lk g)"]
    by (auto simp: gs_waitForExchange_def Let_def split: if_splits)
  moreover have "gs_now g \<le> gs_now (others lk g)"
    using since_others [of g lk] by (simp add: since_def)
  ultimately show ?thesis using w(2) by auto
qed

lemma remaining_reaches: "now \<le> now2 \<Longrightarrow> deadline \<le> now + kLongest * 10 ^ 6 \<Longrightarrow>
    deadline \<le> now2 + min (remaining_ms deadline now) kLongest * 10 ^ 6"
  by (auto simp: remaining_ms_def min_def kLongest_def)

lemma wait_loop_result:
  assumes "wait_loop lk desired p deadline g = (r, g')"
  shows "case r of Some x \<Rightarrow> x = im_stamped (gs_image g') \<and> desired \<le> exchangeCount x \<and> p x
    | None \<Rightarrow> (exchangeCount (im_stamped (gs_image g')) < desired \<or> \<not> p (im_stamped (gs_image g'))) \<and>
        (deadline \<le> gs_now g + kLongest * 10 ^ 6 \<longrightarrow> im_closed (gs_image g') \<or> deadline \<le> gs_now g')"
  using assms
proof (induction lk desired p deadline g arbitrary: r rule: wait_loop.induct)
  case (1 lk desired p deadline g)
  let ?g1 = "others lk g" and ?m = "remaining_ms deadline (gs_now (others lk g))"
  obtain r2 g2 where c: "waitForExchangeCount lk desired ?m ?g1 = (r2, g2)" by fastforce
  have t: "gs_now g \<le> gs_now ?g1" using since_others [of g lk] by (simp add: since_def)
  have s2: "since (gs_image ?g1) (gs_now ?g1) g2" using since_wait_count [OF c] .
  note w = wait_count_result [OF c]
  show ?case
  proof (cases r2)
    case None
    then have "r = None \<and> g' = g2" using 1(2) c by (simp add: wait_loop.simps [of lk desired])
    moreover have "deadline \<le> gs_now ?g1 + min ?m kLongest * 10 ^ 6" if "deadline \<le> gs_now g + kLongest * 10 ^ 6"
      using remaining_reaches [of "gs_now ?g1" "gs_now ?g1" deadline] that t by simp
    ultimately show ?thesis using w None by auto
  next
    case (Some x)
    show ?thesis
    proof (cases "p x")
      case True
      then have "r = Some x \<and> g' = g2" using 1(2) c Some by (simp add: wait_loop.simps [of lk desired])
      then show ?thesis using w Some True by auto
    next
      case False
      then have e: "wait_loop lk (exchangeCount x + 1) p deadline g2 = (r, g')"
        using 1(2) c Some by (simp add: wait_loop.simps [of lk desired])
      note ih = 1(1) [OF c [symmetric] Some False e]
      have s: "since (gs_image g2) (gs_now g2) g'"
        using since_wait_loop [OF e] .
      have x: "x = im_stamped (gs_image g2)" "desired \<le> exchangeCount x" using w Some by auto
      obtain s' where s': "s' = im_stamped (gs_image g')" by simp
      have i: "image_le (gs_image g2) (gs_image g')" using s by (simp add: since_def)
      have m: "gs_now g \<le> gs_now g2" "exchangeCount x \<le> exchangeCount s'" "exchangeCount s' = exchangeCount x \<Longrightarrow> s' = x"
        using t s2 i unfolding x(1) s' since_def image_le_def by (linarith, blast, metis)
      show ?thesis
      proof (cases r)
        case None
        have "exchangeCount s' < exchangeCount x + 1 \<or> \<not> p s'" using ih None s' by simp
        then have "\<not> p s'" using m(2,3) False by (cases "exchangeCount s' = exchangeCount x") auto
        then show ?thesis using ih None m(1) s' by auto
      next
        case (Some y)
        then show ?thesis using ih x(2) by auto
      qed
    qed
  qed
qed

lemma waitForExchangeAfter_result:
  assumes "waitForExchangeAfter lk n p timeout g = (r, g')"
  shows "case r of Some x \<Rightarrow> x = im_stamped (gs_image g') \<and> n < exchangeCount x \<and> p x
    | None \<Rightarrow> (exchangeCount (im_stamped (gs_image g')) \<le> n \<or> \<not> p (im_stamped (gs_image g'))) \<and>
        (im_closed (gs_image g') \<or> gs_now g + min timeout kLongest * 10 ^ 6 \<le> gs_now g')"
proof -
  let ?g = "others lk g"
  let ?d = "gs_now ?g + min timeout kLongest * 10 ^ 6"
  have w: "wait_loop lk (n + 1) p ?d ?g = (r, g')"
    using assms by (simp add: waitForExchangeAfter_def deadlineAfter_def clock_def Let_def)
  have "?d \<le> gs_now ?g + kLongest * 10 ^ 6" by simp
  moreover have "gs_now g \<le> gs_now ?g" using since_others [of g lk] by (simp add: since_def)
  ultimately show ?thesis using wait_loop_result [OF w] by (auto split: option.splits)
qed

lemma waitFor_result:
  assumes "waitFor lk p timeout g = (r, g')"
  shows "case r of Some x \<Rightarrow> x = im_stamped (gs_image g') \<and> exchangeCount (im_stamped (gs_image g)) < exchangeCount x \<and> p x
    | None \<Rightarrow> im_closed (gs_image g') \<or> gs_now g + min timeout kLongest * 10 ^ 6 \<le> gs_now g'"
proof -
  let ?n = "exchangeCount (im_stamped (gs_image (others lk g)))"
  have w: "waitForExchangeAfter lk ?n p timeout (others lk g) = (r, g')"
    using assms by (simp add: waitFor_def getMostRecentStampedExchange_def Let_def)
  have "exchangeCount (im_stamped (gs_image g)) \<le> ?n" "gs_now g \<le> gs_now (others lk g)"
    using since_others [of g lk] by (simp_all add: since_def image_le_def)
  with waitForExchangeAfter_result [OF w] show ?thesis by (auto split: option.splits)
qed

lemma waitForStatus_result:
  assumes "waitForStatus lk q deadline g = (r, g')"
  shows "case r of Some x \<Rightarrow> x = im_stamped (gs_image g') \<and> exchangeCount (im_stamped (gs_image g)) < exchangeCount x \<and> q (x_status x)
    | None \<Rightarrow> True"
proof -
  let ?m = "remaining_ms deadline (gs_now (others lk g))"
  have w: "waitFor lk (\<lambda>x. q (x_status x)) ?m (others lk g) = (r, g')"
    using assms by (simp add: waitForStatus_def clock_def Let_def)
  have "exchangeCount (im_stamped (gs_image g)) \<le> exchangeCount (im_stamped (gs_image (others lk g)))"
    using since_others [of g lk] by (simp add: since_def image_le_def)
  with waitFor_result [OF w] show ?thesis by (auto split: option.splits)
qed

section \<open>Properties of the waits\<close>

text \<open>
  C7 \<open>setCommandAndWaitForExchange\<close> never answers with an exchange that did not carry the command: what it
  returns was completed after the call began, wrote this command, and is the image's latest. When it
  gives up, either the image was closed or the whole time-out has passed, and the latest exchange is
  still one from before the call or one with another command.
\<close>

theorem set_and_wait_is_sound:
  assumes "setCommandAndWaitForExchange lk c timeout g = (r, g')"
  shows "case r of
      Some x \<Rightarrow> command_eq (x_command x) c \<and> exchangeCount (im_stamped (gs_image g)) < exchangeCount x \<and>
        x = im_stamped (gs_image g')
    | None \<Rightarrow> (im_closed (gs_image g') \<or> gs_now g + min timeout kLongest * 10 ^ 6 \<le> gs_now g') \<and>
        (exchangeCount (im_stamped (gs_image g')) \<le> exchangeCount (im_stamped (gs_image (others lk g))) \<or>
         \<not> command_eq (x_command (im_stamped (gs_image g'))) c)"
proof -
  let ?g1 = "others lk g"
  let ?g2 = "setCommand lk c ?g1"
  have w: "waitForExchangeAfter lk (exchangeCount (im_stamped (gs_image ?g1))) (\<lambda>x. command_eq (x_command x) c) timeout ?g2 = (r, g')"
    using assms by (simp add: setCommandAndWaitForExchange_def getMostRecentStampedExchange_def Let_def)
  have "exchangeCount (im_stamped (gs_image g)) \<le> exchangeCount (im_stamped (gs_image ?g1))" "gs_now g \<le> gs_now ?g1"
    using since_others [of g lk] by (simp_all add: since_def image_le_def)
  moreover have "gs_now ?g1 \<le> gs_now ?g2"
    using since_others [of ?g1 lk] by (simp add: since_def setCommand_def)
  ultimately show ?thesis using waitForExchangeAfter_result [OF w] by (auto split: option.splits)
qed

text \<open>
  No time-out overflows a deadline computed by \<open>deadlineAfter\<close>, whatever its length, as long as the clock
  is in the first half of its range.
\<close>

theorem deadlines_never_overflow:
  assumes "gs_now (others lk g) \<le> kSteadyMax div 2" and "0 \<le> gs_now (others lk g)" and "0 \<le> timeout"
  shows "fst (deadlineAfter lk timeout g) \<le> kSteadyMax \<and> gs_now g \<le> fst (deadlineAfter lk timeout g)"
proof -
  obtain d where d: "d = min timeout kLongest * 10 ^ 6" by simp
  have "d \<le> kLongest * 10 ^ 6" "0 \<le> d"
    using assms(3) by (simp_all add: d kLongest_def kSteadyMax_def)
  moreover have "gs_now g \<le> gs_now (others lk g)" using since_others [of g lk] by (simp add: since_def)
  ultimately show ?thesis
    using assms(1,2) unfolding deadlineAfter_def clock_def Let_def case_prod_conv fst_conv d [symmetric]
    by (simp add: kLongest_def kSteadyMax_def)
qed

section \<open>Activation\<close>

text \<open>A command nobody but the caller sets.\<close>

fun sets_a_command :: "gs_event \<Rightarrow> bool" where
  "sets_a_command (SetCommand c) = True"
| "sets_a_command _ = False"

definition commanded :: "gripper_command \<Rightarrow> 'd gripper_state \<Rightarrow> bool" where
  "commanded c g \<longleftrightarrow> im_command (gs_image g) = c"

interpretation untouched: cycle_invariant lk "\<lambda>e. \<not> sets_a_command e" "commanded c" for lk :: "'d link" and c
proof
  fix e and g :: "'d gripper_state" assume "\<not> sets_a_command e" "commanded c g"
  then show "commanded c (step lk e g)"
    by (cases e; cases "gs_pc g") (auto simp: commanded_def step_def thread_step_def exchangeOnce_step_def
        closeImage_def im_close_def publish_def split: sum.split prod.split)
qed (auto simp: commanded_def)

abbreviation "only_caller \<equiv> untouched.K"

lemma only_caller_iff: "only_caller c g \<longleftrightarrow> im_command (gs_image g) = c \<and> (\<forall>es \<in> set (gs_sched g). \<forall>e \<in> set es. \<not> sets_a_command e)"
  by (simp add: untouched.K_def commanded_def)

lemma only_caller_set: "only_caller c g \<Longrightarrow> only_caller c' (gs_setCommand c' g)"
  by (simp add: only_caller_iff)

lemmas kept_command = untouched.kept_others untouched.kept_waitForStatus untouched.kept_waitForActivationComplete

text \<open>Through the handshake, the command is the one before it, or the one that activates.\<close>

lemma handshake_command:
  assumes "only_caller c g" and "runActivationHandshake lk deadline g = (r, g')"
  shows "only_caller c g' \<and> r = ActivationTimeout \<or> only_caller (activateCommand c) g'"
proof -
  let ?g1 = "others lk g"
  have k1: "only_caller c ?g1" using assms(1) by (rule kept_command(1))
  then have p: "im_command (gs_image ?g1) = c" by (simp add: only_caller_iff)
  obtain w g3 where w: "waitForStatus lk (\<lambda>st. \<not> activated (gripperStatus st)) deadline
      (setCommand lk (deactivateCommand c) ?g1) = (w, g3)" by fastforce
  have "only_caller (deactivateCommand c) (setCommand lk (deactivateCommand c) ?g1)"
    unfolding setCommand_def by (rule only_caller_set [OF kept_command(1) [OF k1]])
  from kept_command(2) [OF this] w have k3: "only_caller (deactivateCommand c) g3" by (metis snd_conv)
  have s: "only_caller c' (setCommand lk c' g3)" for c'
    unfolding setCommand_def by (rule only_caller_set [OF kept_command(1) [OF k3]])
  have e: "runActivationHandshake lk deadline g = (case w of None \<Rightarrow> (ActivationTimeout, setCommand lk c g3)
      | Some _ \<Rightarrow> waitForActivationComplete lk deadline (setCommand lk (activateCommand c) g3))"
    using w p by (simp add: runActivationHandshake_def getCommand_def Let_def split: option.split)
  show ?thesis
  proof (cases w)
    case None
    then show ?thesis using e assms(2) s by simp
  next
    case (Some x)
    then show ?thesis using e assms(2) kept_command(3) [OF s] by (metis option.simps(5) snd_conv)
  qed
qed

text \<open>What a result tells about the image the call leaves.\<close>

definition result_ok :: "'d gripper_state \<Rightarrow> activation_result \<Rightarrow> 'd gripper_state \<Rightarrow> bool" where
  "result_ok g r g' \<longleftrightarrow>
     (let st = x_status (im_stamped (gs_image g')); later = exchangeCount (im_stamped (gs_image g)) < exchangeCount (im_stamped (gs_image g'))
      in case r of
        Activated \<Rightarrow> later \<and> activation_complete st
      | AlreadyActive \<Rightarrow> later \<and> activation_complete st \<and> severity (gripperFault (faultStatus st)) \<noteq> Major
      | FaultLatched \<Rightarrow> later \<and> severity (gripperFault (faultStatus st)) = Major
      | ActivationTimeout \<Rightarrow> True)"

lemma waitForActivationComplete_ok:
  assumes "waitForActivationComplete lk deadline g = (r, g')"
  shows "result_ok g r g' \<and> r \<in> {Activated, ActivationTimeout}"
proof -
  obtain w g1 where w: "waitForStatus lk activation_complete deadline g = (w, g1)" by fastforce
  from assms w have "g' = g1" "r = (case w of None \<Rightarrow> ActivationTimeout | Some _ \<Rightarrow> Activated)"
    by (auto simp: waitForActivationComplete_def split: option.splits)
  with waitForStatus_result [OF w] show ?thesis by (auto simp: result_ok_def split: option.splits)
qed

lemma result_ok_later: "exchangeCount (im_stamped (gs_image g)) \<le> exchangeCount (im_stamped (gs_image g1)) \<Longrightarrow>
    result_ok g1 r g' \<Longrightarrow> result_ok g r g'"
  by (auto simp: result_ok_def Let_def split: activation_result.splits)

lemma counted_later:
  "exchangeCount (im_stamped (gs_image g)) \<le> exchangeCount (im_stamped (gs_image (others lk g)))"
  "waitForStatus lk q deadline g = (w, g') \<Longrightarrow> exchangeCount (im_stamped (gs_image g)) \<le> exchangeCount (im_stamped (gs_image g'))"
  using since_others [of g lk] kept_since(7) [OF since_refl, of g lk q deadline]
  by (auto simp: since_def image_le_def)

lemma handshake_ok:
  assumes "runActivationHandshake lk deadline g = (r, g')"
  shows "result_ok g r g' \<and> r \<in> {Activated, ActivationTimeout}"
proof -
  let ?g1 = "others lk g"
  let ?c = "im_command (gs_image ?g1)"
  let ?g2 = "setCommand lk (deactivateCommand ?c) ?g1"
  obtain w g3 where w: "waitForStatus lk (\<lambda>st. \<not> activated (gripperStatus st)) deadline ?g2 = (w, g3)" by fastforce
  have e: "(r, g') = (case w of None \<Rightarrow> (ActivationTimeout, setCommand lk ?c g3)
      | Some _ \<Rightarrow> waitForActivationComplete lk deadline (setCommand lk (activateCommand ?c) g3))"
    using w assms by (simp add: runActivationHandshake_def getCommand_def Let_def split: option.split)
  have set: "exchangeCount (im_stamped (gs_image h)) \<le> exchangeCount (im_stamped (gs_image (setCommand lk c h)))" for c h
    using counted_later(1) [of h lk] by (simp add: setCommand_def)
  show ?thesis
  proof (cases w)
    case None
    then show ?thesis using e by (simp add: result_ok_def)
  next
    case (Some x)
    let ?g4 = "setCommand lk (activateCommand ?c) g3"
    have "waitForActivationComplete lk deadline ?g4 = (r, g')" using e Some by simp
    from waitForActivationComplete_ok [OF this] have ok: "result_ok ?g4 r g'" "r \<in> {Activated, ActivationTimeout}" by simp_all
    have "exchangeCount (im_stamped (gs_image g)) \<le> exchangeCount (im_stamped (gs_image ?g4))"
      using counted_later(1) [of g lk] set [of ?g1] counted_later(2) [OF w] set [of g3] by (meson le_trans)
    with ok show ?thesis using result_ok_later by blast
  qed
qed

text \<open>Both entry points: the wait for the link, then one of the branches.\<close>

lemma activate_cases:
  assumes "activate lk timeout g = Some (r, g')"
  obtains (link_down) d g2 where "waitOperational lk d (others lk g) = (None, g2)" "r = ActivationTimeout" "g' = g2"
  | (answered) d x g2 where "waitOperational lk d (others lk g) = (Some x, g2)" "g' = g2"
      "r = FaultLatched \<and> severity (gripperFault (faultStatus (x_status x))) = Major \<or>
       r = AlreadyActive \<and> severity (gripperFault (faultStatus (x_status x))) \<noteq> Major \<and> activation_complete (x_status x)"
  | (in_progress) d x g2 where "waitOperational lk d (others lk g) = (Some x, g2)"
      "waitForActivationComplete lk d g2 = (r, g')"
  | (too_late) d x g2 where "waitOperational lk d (others lk g) = (Some x, g2)" "r = ActivationTimeout" "g' = others lk g2"
  | (handshake) d x g2 where "waitOperational lk d (others lk g) = (Some x, g2)"
      "runActivationHandshake lk d (others lk g2) = (r, g')"
proof -
  from assms obtain d where d: "(case waitOperational lk d (others lk g) of
             (None, g2) \<Rightarrow> (ActivationTimeout, g2)
           | (Some fresh, g2) \<Rightarrow>
               let st = x_status fresh in
               if severity (gripperFault (faultStatus st)) = Major then (FaultLatched, g2)
               else if activationState (gripperStatus st) = Complete then (AlreadyActive, g2)
               else if activationState (gripperStatus st) = InProgress then waitForActivationComplete lk d g2
               else case isActivationHandshakeAllowed lk d timeout g2 of
                      (allowed, g3) \<Rightarrow>
                        if \<not> allowed then (ActivationTimeout, g3) else runActivationHandshake lk d g3) = (r, g')"
    by (auto simp: activate_def clock_def Let_def split: option.splits)
  obtain w g2 where w: "waitOperational lk d (others lk g) = (w, g2)" by fastforce
  show thesis
  proof (cases w)
    case None
    then show thesis using d w link_down by simp
  next
    case (Some x)
    obtain b where b: "isActivationHandshakeAllowed lk d timeout g2 = (b, others lk g2)"
      by (simp add: isActivationHandshakeAllowed_def clock_def Let_def)
    show thesis
    proof (cases "severity (gripperFault (faultStatus (x_status x))) = Major \<or> activation_complete (x_status x)")
      case True
      then show thesis using d w Some answered [of d x g2] by (auto simp: activation_complete_def Let_def split: if_splits)
    next
      case False
      note ws = w [unfolded Some]
      show thesis
      proof (cases "activationState (gripperStatus (x_status x)) = InProgress")
        case True
        then show thesis using in_progress [OF ws] d False by (simp add: w Some activation_complete_def)
      next
        case no_progress: False
        with False d have "(if \<not> b then (ActivationTimeout, others lk g2) else runActivationHandshake lk d (others lk g2)) = (r, g')"
          by (simp add: w Some activation_complete_def b)
        then show thesis using too_late [OF ws] handshake [OF ws] by (cases b) simp_all
      qed
    qed
  qed
qed

lemma waitOperational_later:
  assumes "waitOperational lk d (others lk g) = (Some x, g2)"
  shows "x = im_stamped (gs_image g2) \<and> exchangeCount (im_stamped (gs_image g)) < exchangeCount (im_stamped (gs_image g2))"
proof -
  have w: "x = im_stamped (gs_image g2) \<and> exchangeCount (im_stamped (gs_image (others lk g))) < exchangeCount x"
    using waitForStatus_result [OF assms [unfolded waitOperational_def]] unfolding option.case by blast
  then have x: "x = im_stamped (gs_image g2)" by blast
  show ?thesis using w counted_later(1) [of g lk] unfolding x by linarith
qed

text \<open>
  C13 What \<open>activate\<close> returns is what the gripper last reported, in an exchange completed during the call:
  Activated and AlreadyActive only with a status that shows the activation complete, AlreadyActive and a plain
  refusal only without and with a major fault.
\<close>

theorem activate_reports_what_the_gripper_said:
  assumes "activate lk timeout g = Some (r, g')"
  shows "result_ok g r g'"
  using assms
proof (cases rule: activate_cases)
  case (answered d x g2)
  then show ?thesis using waitOperational_later [OF answered(1)] by (auto simp: result_ok_def)
next
  case (in_progress d x g2)
  then show ?thesis
    using waitOperational_later [OF in_progress(1)] waitForActivationComplete_ok [OF in_progress(2)] result_ok_later
    by (metis less_imp_le)
next
  case (handshake d x g2)
  have "exchangeCount (im_stamped (gs_image g)) \<le> exchangeCount (im_stamped (gs_image (others lk g2)))"
    using waitOperational_later [OF handshake(1)] counted_later(1) [of g2 lk] by simp
  then show ?thesis using handshake_ok [OF handshake(2)] result_ok_later by blast
qed (simp_all add: result_ok_def)

text \<open>
  The activation calls add their time-out to the clock without that cap: up to the cap's length they have a
  deadline, but the longest representable time-out overflows.
\<close>

theorem activation_deadline_overflows:
  assumes "0 \<le> timeout" and "timeout \<le> kLongest" and "0 \<le> gs_now (others lk g)" and "gs_now (others lk g) \<le> kSteadyMax div 2"
  shows "activate lk timeout g \<noteq> None \<and> recoverFromFault lk timeout g \<noteq> None \<and> activate lk (2 ^ 63 - 1) g = None"
  using assms by (simp add: activate_def recoverFromFault_def clock_def steady_add_def kLongest_def kSteadyMax_def Let_def)

text \<open>The command that activates: rACT set and rGTO clear, all else as before.\<close>

lemma activateCommand_bits:
  "let c' = activateCommand c in c' = c\<lparr>action := action c'\<rparr> \<and> bit (action c') 0 \<and> \<not> bit (action c') 3 \<and>
     (\<forall>n. n \<noteq> 0 \<and> n \<noteq> 3 \<longrightarrow> bit (action c') n = bit (action c) n)"
proof -
  have mask: "bit (nb_mask b) n \<longleftrightarrow> n = bit_index b" for b n unfolding nb_mask_exp bit_exp_iff by (cases b) auto
  show ?thesis
    by (auto simp: activateCommand_def nb_put_def nb_set_def nb_unset_def mask bit_or_iff bit_and_iff bit_not_iff Let_def
        dest: bit_imp_le_length)
qed

lemma activation_command:
  assumes "only_caller c g" and "activate lk timeout g = Some (r, g') \<or> recoverFromFault lk timeout g = Some (r, g')"
  shows "im_command (gs_image g') = c \<or> (r \<noteq> AlreadyActive \<and> r \<noteq> FaultLatched \<and> im_command (gs_image g') = activateCommand c)"
proof -
  have k1: "only_caller c (others lk g)" using assms(1) by (rule kept_command(1))
  have op: "only_caller c g2" if "waitOperational lk d (others lk g) = (w, g2)" for d w g2
    using kept_command(2) [where lk = lk and q = "\<lambda>_. True" and deadline = d, OF k1] that by (simp add: waitOperational_def)
  have hs: "im_command (gs_image g') = c \<or> (r \<noteq> AlreadyActive \<and> r \<noteq> FaultLatched \<and> im_command (gs_image g') = activateCommand c)"
    if "waitOperational lk d (others lk g) = (w, g2)" "runActivationHandshake lk d (others lk g2) = (r, g')" for d w g2
    using handshake_command [OF kept_command(1) [OF op [OF that(1)]] that(2)] handshake_ok [OF that(2)]
    by (auto simp: only_caller_iff)
  from assms(2) show ?thesis
  proof
    assume "activate lk timeout g = Some (r, g')"
    then show ?thesis
    proof (cases rule: activate_cases)
      case (link_down d g2)
      then show ?thesis using op by (simp add: only_caller_iff)
    next
      case (answered d x g2)
      then show ?thesis using op by (simp add: only_caller_iff)
    next
      case (in_progress d x g2)
      then show ?thesis using kept_command(3) [where lk = lk and deadline = d, OF op [OF in_progress(1)]] by (simp add: only_caller_iff)
    next
      case (too_late d x g2)
      then show ?thesis using kept_command(1) [OF op [OF too_late(1)]] by (simp add: only_caller_iff)
    next
      case (handshake d x g2)
      then show ?thesis by (rule hs)
    qed
  next
    assume "recoverFromFault lk timeout g = Some (r, g')"
    then obtain d where d: "(case waitOperational lk d (others lk g) of
             (None, g2) \<Rightarrow> (ActivationTimeout, g2)
           | (Some _, g2) \<Rightarrow>
               case isActivationHandshakeAllowed lk d timeout g2 of
                 (allowed, g3) \<Rightarrow>
                   if \<not> allowed then (ActivationTimeout, g3) else runActivationHandshake lk d g3) = (r, g')"
      by (auto simp: recoverFromFault_def clock_def Let_def split: option.splits)
    obtain w g2 where w: "waitOperational lk d (others lk g) = (w, g2)" by fastforce
    obtain b where b: "isActivationHandshakeAllowed lk d timeout g2 = (b, others lk g2)"
      by (simp add: isActivationHandshakeAllowed_def clock_def Let_def)
    from d w b consider "w = None" "g' = g2" | "w \<noteq> None" "\<not> b" "g' = others lk g2"
      | "w \<noteq> None" "b" "runActivationHandshake lk d (others lk g2) = (r, g')"
      by (cases w; cases b) auto
    then show ?thesis
    proof cases
      case 1
      then show ?thesis using op [OF w] by (simp add: only_caller_iff)
    next
      case 2
      then show ?thesis using kept_command(1) [OF op [OF w]] by (simp add: only_caller_iff)
    next
      case 3
      then show ?thesis using hs [OF w] by simp
    qed
  qed
qed

text \<open>
  C33 Neither \<open>activate\<close> nor \<open>recoverFromFault\<close> leaves the gripper commanded to deactivate. When nobody else sets a command,
  the one left is the one found, or the one found with rACT (bit 0 of the action byte) set, rGTO (bit 3) clear and
  everything else as it was: activation without a motion. It is the one found when the result says nothing was sent.
\<close>

theorem activation_never_leaves_a_deactivate_command:
  assumes "only_caller c g" and "activate lk timeout g = Some (r, g') \<or> recoverFromFault lk timeout g = Some (r, g')"
  shows "im_command (gs_image g') = c \<or>
    (r \<noteq> AlreadyActive \<and> r \<noteq> FaultLatched \<and>
     (let c' = im_command (gs_image g') in
      c' = c\<lparr>action := action c'\<rparr> \<and> bit (action c') 0 \<and> \<not> bit (action c') 3 \<and>
      (\<forall>n. n \<noteq> 0 \<and> n \<noteq> 3 \<longrightarrow> bit (action c') n = bit (action c) n)))"
  using activation_command [OF assms] activateCommand_bits [of c] by auto

section \<open>Witnesses\<close>

definition complete_status :: gripper_status where
  "complete_status = setActivationState Complete (setActivated True zero_status)"

text \<open>A gripper whose thread completes one exchange once a caller waits.\<close>

definition one_exchange :: "gripper_status \<Rightarrow> (thrown + gripper_status) list gripper_state" where
  "one_exchange st = (about_to_run [Inr st])\<lparr>gs_sched := [[], [], [], [], [], [], replicate 9 ThreadStep]\<rparr>"

theorem set_and_wait_is_sound_witness:
  "\<exists>x g'. setCommandAndWaitForExchange scripted_link zero_command 1000 (one_exchange zero_status) = (Some x, g') \<and>
     command_eq (x_command x) zero_command \<and> 0 < exchangeCount x"
proof -
  obtain r g' where r: "setCommandAndWaitForExchange scripted_link zero_command 1000 (one_exchange zero_status) = (r, g')"
    by fastforce
  have "fst (setCommandAndWaitForExchange scripted_link zero_command 1000 (one_exchange zero_status)) \<noteq> None"
    by code_simp
  with r set_and_wait_is_sound [OF r] show ?thesis by (cases r) auto
qed

theorem deadlines_never_overflow_witness:
  "fst (deadlineAfter scripted_link (2 ^ 62) (one_exchange zero_status)) \<le> kSteadyMax"
proof -
  have "gs_now (others scripted_link (one_exchange zero_status)) = 0"
    by (simp add: others_def one_exchange_def about_to_run_def gs_start_def makeGripperState_def)
  with deadlines_never_overflow [of scripted_link "one_exchange zero_status" "2 ^ 62"] show ?thesis
    by (simp add: kSteadyMax_def)
qed

lemma activate_complete: "map_option fst (activate scripted_link 1000 (one_exchange complete_status)) = Some AlreadyActive"
  by code_simp

theorem activate_reports_what_the_gripper_said_witness:
  "\<exists>g'. activate scripted_link 1000 (one_exchange complete_status) = Some (AlreadyActive, g') \<and>
     activation_complete (x_status (im_stamped (gs_image g')))"
proof -
  from activate_complete obtain g' where a: "activate scripted_link 1000 (one_exchange complete_status) = Some (AlreadyActive, g')"
    by auto
  from activate_reports_what_the_gripper_said [OF a] a show ?thesis by (auto simp: result_ok_def Let_def)
qed

theorem activation_deadline_overflows_witness:
  "activate scripted_link (2 ^ 63 - 1) (one_exchange zero_status) = None"
proof -
  have "gs_now (others scripted_link (one_exchange zero_status)) = 0"
    by (simp add: others_def one_exchange_def about_to_run_def gs_start_def makeGripperState_def)
  with activation_deadline_overflows [of 1 scripted_link "one_exchange zero_status"] show ?thesis
    by (simp add: kSteadyMax_def kLongest_def)
qed

text \<open>A gripper asked to go somewhere that is not active yet; two exchanges later it is.\<close>

definition waking_gripper :: "(thrown + gripper_status) list gripper_state" where
  "waking_gripper = (about_to_run [Inr zero_status, Inr zero_status, Inr complete_status])\<lparr>
     gs_image := \<lparr>im_command = zero_command\<lparr>action := 8\<rparr>, im_stamped = zero_stamped, im_closed = False\<rparr>,
     gs_sched := replicate 3 [] @ [replicate 9 ThreadStep] @ replicate 8 [] @ [replicate 9 ThreadStep] @ replicate 6 [] @
       [replicate 9 ThreadStep]\<rparr>"

lemma waking_activated: "map_option (\<lambda>(r, g). (r, action (im_command (gs_image g)))) (activate scripted_link 1000 waking_gripper) =
    Some (Activated, 1)"
  by code_simp

theorem activation_never_leaves_a_deactivate_command_witness:
  "\<exists>g'. activate scripted_link 1000 waking_gripper = Some (Activated, g') \<and>
     im_command (gs_image g') = zero_command\<lparr>action := 1\<rparr>"
proof -
  let ?c = "zero_command\<lparr>action := 8\<rparr>"
  from waking_activated obtain g' where a: "activate scripted_link 1000 waking_gripper = Some (Activated, g')"
    "action (im_command (gs_image g')) = 1" by auto
  have "only_caller ?c waking_gripper"
    by (auto simp: only_caller_iff waking_gripper_def about_to_run_def gs_start_def makeGripperState_def)
  from activation_never_leaves_a_deactivate_command [OF this disjI1 [OF a(1)]] a(2)
  have "im_command (gs_image g') = ?c\<lparr>action := 1\<rparr>" by (auto simp: Let_def)
  then show ?thesis using a(1) by simp
qed

end
