(* ===== verification/GripperCalls.thy ===== *)
theory GripperCalls
  imports GripperWaits
begin

text \<open>
  A program's use of a gripper as a list of calls, each with the value it returns. A fact that the thread and the
  setting of commands keep is kept by all calls; and two links whose operations answer alike give all calls the same
  values, whatever the schedule.
\<close>

section \<open>The calls a program makes\<close>

datatype gripper_call = CallGetCommand | CallGetStatus | CallGetMostRecentStampedExchange | CallConnectionState |
  CallSetCommand gripper_command | CallSetCommandAndWaitForExchange gripper_command int |
  CallWaitForExchange int | CallWaitForExchangeCount nat int | CallWaitFor "stamped_exchange \<Rightarrow> bool" int |
  CallActivate int | CallRecoverFromFault int

datatype call_result = ReturnsNothing | ReturnsCommand gripper_command | ReturnsStatus gripper_status |
  ReturnsExchange stamped_exchange | ReturnsConnection connection_state |
  ReturnsOptional "stamped_exchange option" | ReturnsActivation activation_result

text \<open>\<open>None\<close> when a time-out overflows the clock.\<close>

fun call_gripper :: "'d link \<Rightarrow> gripper_call \<Rightarrow> 'd gripper_state \<Rightarrow> (call_result \<times> 'd gripper_state) option" where
  "call_gripper lk CallGetCommand g = Some (apfst ReturnsCommand (getCommand lk g))"
| "call_gripper lk CallGetStatus g = Some (apfst ReturnsStatus (getStatus lk g))"
| "call_gripper lk CallGetMostRecentStampedExchange g = Some (apfst ReturnsExchange (getMostRecentStampedExchange lk g))"
| "call_gripper lk CallConnectionState g = Some (apfst ReturnsConnection (connectionState lk g))"
| "call_gripper lk (CallSetCommand c) g = Some (ReturnsNothing, setCommand lk c g)"
| "call_gripper lk (CallSetCommandAndWaitForExchange c t) g =
     Some (apfst ReturnsOptional (setCommandAndWaitForExchange lk c t g))"
| "call_gripper lk (CallWaitForExchange t) g = Some (apfst ReturnsOptional (waitForExchange lk t g))"
| "call_gripper lk (CallWaitForExchangeCount n t) g = Some (apfst ReturnsOptional (waitForExchangeCount lk n t g))"
| "call_gripper lk (CallWaitFor p t) g = Some (apfst ReturnsOptional (waitFor lk p t g))"
| "call_gripper lk (CallActivate t) g = map_option (apfst ReturnsActivation) (activate lk t g)"
| "call_gripper lk (CallRecoverFromFault t) g = map_option (apfst ReturnsActivation) (recoverFromFault lk t g)"

fun call_all :: "'d link \<Rightarrow> gripper_call list \<Rightarrow> 'd gripper_state \<Rightarrow> (call_result list \<times> 'd gripper_state) option" where
  "call_all lk [] g = Some ([], g)"
| "call_all lk (call # calls) g =
     (case call_gripper lk call g of
        None \<Rightarrow> None
      | Some (r, g1) \<Rightarrow> map_option (apfst (Cons r)) (call_all lk calls g1))"

lemma prod_fun_eq: "apfst f p = (a, b) \<longleftrightarrow> a = f (fst p) \<and> b = snd p"
  by (cases p) auto

section \<open>Facts kept by every call\<close>

context writable_invariant
begin

lemma kept_clock: "K g \<Longrightarrow> K (snd (clock lk g))" "K g \<Longrightarrow> K (snd (isActivationHandshakeAllowed lk d t g))"
  using kept_others by (simp_all add: clock_def isActivationHandshakeAllowed_def Let_def)

lemma kept_handshake: "K g \<Longrightarrow> K (snd (runActivationHandshake lk deadline g))"
proof -
  assume g: "K g"
  let ?previous = "im_command (gs_image (others lk g))"
  let ?g2 = "setCommand lk (deactivateCommand ?previous) (others lk g)"
  obtain r g3 where r: "waitForStatus lk (\<lambda>st. \<not> activated (gripperStatus st)) deadline ?g2 = (r, g3)" by fastforce
  have "K g3" using kept_waitForStatus [OF kept_setCommand [OF kept_others [OF g]]] r by (metis snd_conv)
  then show ?thesis
    using r kept_setCommand kept_waitForActivationComplete
    by (cases r) (simp_all add: runActivationHandshake_def getCommand_def Let_def)
qed

lemma kept_activate: "K g \<Longrightarrow> activate lk t g = Some (r, g') \<Longrightarrow> K g'"
proof -
  assume g: "K g" and a: "activate lk t g = Some (r, g')"
  obtain deadline where d: "steady_add (gs_now (others lk g)) t = Some deadline"
    using a by (auto simp: activate_def clock_def Let_def split: option.splits)
  obtain x g2 where x: "waitOperational lk deadline (others lk g) = (x, g2)" by fastforce
  obtain b g3 where b: "isActivationHandshakeAllowed lk deadline t g2 = (b, g3)" by fastforce
  have g2: "K g2" using kept_waitForStatus [OF kept_others [OF g]] x unfolding waitOperational_def by (metis snd_conv)
  have g3: "K g3" using kept_clock(2) [OF g2] b by (metis snd_conv)
  show ?thesis
    using a d x b g2 g3 kept_waitForActivationComplete [OF g2, of deadline] kept_handshake [OF g3, of deadline]
    by (cases x) (auto simp: activate_def clock_def Let_def split: if_splits)
qed

lemma kept_recover: "K g \<Longrightarrow> recoverFromFault lk t g = Some (r, g') \<Longrightarrow> K g'"
proof -
  assume g: "K g" and a: "recoverFromFault lk t g = Some (r, g')"
  obtain deadline where d: "steady_add (gs_now (others lk g)) t = Some deadline"
    using a by (auto simp: recoverFromFault_def clock_def Let_def split: option.splits)
  obtain x g2 where x: "waitOperational lk deadline (others lk g) = (x, g2)" by fastforce
  obtain b g3 where b: "isActivationHandshakeAllowed lk deadline t g2 = (b, g3)" by fastforce
  have g2: "K g2" using kept_waitForStatus [OF kept_others [OF g]] x unfolding waitOperational_def by (metis snd_conv)
  have g3: "K g3" using kept_clock(2) [OF g2] b by (metis snd_conv)
  show ?thesis
    using a d x b g2 g3 kept_handshake [OF g3, of deadline]
    by (cases x) (auto simp: recoverFromFault_def clock_def Let_def split: if_splits)
qed

lemma kept_call:
  assumes "K g" and "call_gripper lk call g = Some (r, g')"
  shows "K g'"
proof (cases call)
  case (CallWaitForExchange t)
  have "K (snd (waitForExchange lk t g))"
    using kept_wait_count [OF kept_others [OF assms(1)]] by (simp add: waitForExchange_def getMostRecentStampedExchange_def Let_def)
  then show ?thesis using assms(2) CallWaitForExchange by (auto simp: prod_fun_eq)
next
  case (CallActivate t)
  obtain x where "activate lk t g = Some (x, g')"
    using assms(2) CallActivate by auto
  then show ?thesis by (rule kept_activate [OF assms(1)])
next
  case (CallRecoverFromFault t)
  obtain x where "recoverFromFault lk t g = Some (x, g')"
    using assms(2) CallRecoverFromFault by auto
  then show ?thesis by (rule kept_recover [OF assms(1)])
next
  case (CallSetCommandAndWaitForExchange c t)
  then show ?thesis using assms(2) kept_set_and_wait [OF assms(1), of c t] by (auto simp: prod_fun_eq)
next
  case (CallWaitForExchangeCount n t)
  then show ?thesis using assms(2) kept_wait_count [OF assms(1), of n t] by (auto simp: prod_fun_eq)
next
  case (CallWaitFor p t)
  then show ?thesis using assms(2) kept_waitFor [OF assms(1), of p t] by (auto simp: prod_fun_eq)
next
  case (CallSetCommand c)
  then show ?thesis using assms(2) kept_setCommand [OF assms(1), of c] by auto
qed (use assms(2) kept_others [OF assms(1)] in \<open>auto simp: prod_fun_eq getCommand_def getStatus_def
    getMostRecentStampedExchange_def connectionState_def Let_def\<close>)

lemma kept_calls: "K g \<Longrightarrow> call_all lk calls g = Some (rs, g') \<Longrightarrow> K g'"
  by (induction calls arbitrary: g rs) (auto dest: kept_call split: option.splits prod.splits)

lemma kept_join: "lk' = lk \<Longrightarrow> allowed ThreadStep \<Longrightarrow> I g \<Longrightarrow> I (join lk' g)"
proof (induction lk' g rule: join.induct)
  case (1 lk' g)
  have "I (wake g)" using 1(4) kept_later [of g "gs_nextCycle g"] by (auto simp: wake_def max_def)
  then have "I (thread_step lk (wake g))" using kept_step [OF 1(3), of "wake g"] by (simp add: step_def)
  then show ?case using 1 by (subst join.simps) auto
qed

lemma kept_stop:
  assumes "K g" and "allowed ThreadStep" and "allowed StopRunning" and "allowed CloseImage"
  shows "I (gs_stop lk g)"
proof -
  have "K (g\<lparr>gs_running := False\<rparr>)" using assms kept_step [OF assms(3), of g] by (simp add: K_def step_def)
  then have "I (others lk (g\<lparr>gs_running := False\<rparr>))" using kept_others by (simp add: K_def)
  then have "I (closeImage (others lk (g\<lparr>gs_running := False\<rparr>)))" using kept_step [OF assms(4)] by (fastforce simp: step_def)
  from kept_join [OF refl assms(2) this] show ?thesis by (simp add: gs_stop_def Let_def)
qed

end

section \<open>The states a call passes through\<close>

text \<open>Steps of any thread, the schedule being used up, and time going on.\<close>

inductive leads_to :: "'d link \<Rightarrow> 'd gripper_state \<Rightarrow> 'd gripper_state \<Rightarrow> bool" for lk g where
  leads_refl [simp]: "leads_to lk g g"
| leads_step: "leads_to lk g h \<Longrightarrow> leads_to lk g (step lk e h)"
| leads_sched: "leads_to lk g h \<Longrightarrow> leads_to lk g (h\<lparr>gs_sched := s\<rparr>)"
| leads_later: "leads_to lk g h \<Longrightarrow> gs_now h \<le> t \<Longrightarrow> leads_to lk g (h\<lparr>gs_now := t\<rparr>)"

interpretation passes: writable_invariant lk "\<lambda>_. True" "leads_to lk g" for lk :: "'d link" and g
proof
  fix c and h :: "'d gripper_state" assume "leads_to lk g h"
  from leads_step [OF this, of "SetCommand c"] show "leads_to lk g (gs_setCommand c h)" by (simp add: step_def)
qed (simp_all add: leads_step leads_sched leads_later)

lemma passes_K [simp]: "passes.K lk g h \<longleftrightarrow> leads_to lk g h"
  by (simp add: passes.K_def)

lemmas leads = passes.kept_others [unfolded passes_K] passes.kept_waitFor [unfolded passes_K]
  passes.kept_set_and_wait [unfolded passes_K] passes.kept_setCommand [unfolded passes_K]
  passes.kept_call [unfolded passes_K] passes.kept_calls [unfolded passes_K]

lemma leads_trans: "leads_to lk h k \<Longrightarrow> leads_to lk g h \<Longrightarrow> leads_to lk g k"
  by (induction rule: leads_to.induct) (simp_all add: leads_step leads_sched leads_later)

lemma leads_since: "leads_to lk g h \<Longrightarrow> since (gs_image g) (gs_now g) h"
  by (induction rule: leads_to.induct) (simp_all add: progress.kept_step progress.kept_sched progress.kept_later)

lemma leads_counts: "leads_to lk g h \<Longrightarrow> exchangeCount (im_stamped (gs_image g)) \<le> exchangeCount (im_stamped (gs_image h))"
  using leads_since [of lk g h] by (simp add: since_def image_le_def)

text \<open>What a call returns is what the image held at its end, and the call led there.\<close>

lemma waitFor_leads: "waitFor lk p timeout g = (r, g') \<Longrightarrow> leads_to lk g g'"
  using leads(2) [OF leads_refl, of lk g p timeout] by simp

lemma set_and_wait_leads: "setCommandAndWaitForExchange lk c timeout g = (r, g') \<Longrightarrow> leads_to lk g g'"
  using leads(3) [OF leads_refl, of lk g c timeout] by simp

section \<open>Links that answer alike\<close>

locale link_sim =
  fixes lk :: "'d link" and lk' :: "'e link" and R :: "'d \<Rightarrow> 'e \<Rightarrow> bool"
  assumes sim_lk_read: "R d e \<Longrightarrow> rel_prod (=) R (lk_readStatus lk d) (lk_readStatus lk' e)"
    and sim_lk_exchange: "R d e \<Longrightarrow> rel_prod (=) R (lk_exchange lk c d) (lk_exchange lk' c e)"
begin

text \<open>All members are the same, but for the clients, which are related.\<close>

definition alike :: "'d gripper_state \<Rightarrow> 'e gripper_state \<Rightarrow> bool" where
  "alike g h \<longleftrightarrow> R (gs_client g) (gs_client h) \<and> gs_image h = gs_image g \<and>
     gs_connectionState h = gs_connectionState g \<and> gs_failures h = gs_failures g \<and> gs_throttle h = gs_throttle g \<and>
     gs_period h = gs_period g \<and> gs_running h = gs_running g \<and> gs_pc h = gs_pc g \<and> gs_nextCycle h = gs_nextCycle g \<and>
     gs_now h = gs_now g \<and> gs_log h = gs_log g \<and> gs_sched h = gs_sched g"

lemma alike_fields:
  assumes "alike g h"
  shows "gs_image h = gs_image g" and "gs_now h = gs_now g" and "gs_sched h = gs_sched g" and "gs_pc h = gs_pc g"
    and "gs_connectionState h = gs_connectionState g"
  using assms by (simp_all add: alike_def)

lemma alike_step: "alike g h \<Longrightarrow> alike (step lk e g) (step lk' e h)"
proof -
  assume a: "alike g h"
  show ?thesis
  proof (cases "e = ThreadStep")
    case True
    show ?thesis
    proof (cases "gs_pc g")
      case (Exchanging c)
      obtain x d where x: "lk_exchange lk c (gs_client g) = (x, d)" by fastforce
      obtain d' where "lk_exchange lk' c (gs_client h) = (x, d')" "R d d'"
        using sim_lk_exchange [of "gs_client g" "gs_client h" c] a x
        by (cases "lk_exchange lk' c (gs_client h)") (auto simp: alike_def)
      then show ?thesis using a True x Exchanging
        by (cases x) (simp_all add: alike_def step_def thread_step_def exchangeOnce_step_def)
    qed (use a True in \<open>simp_all add: alike_def step_def thread_step_def exchangeOnce_step_def log_failure_def say_def Let_def
        split: prod.split\<close>)
  next
    case False
    then show ?thesis using a by (cases e) (simp_all add: alike_def step_def gs_setCommand_def closeImage_def)
  qed
qed

lemma alike_sched: "alike g h \<Longrightarrow> alike (g\<lparr>gs_sched := s\<rparr>) (h\<lparr>gs_sched := s\<rparr>)"
  "alike g h \<Longrightarrow> alike (g\<lparr>gs_now := t\<rparr>) (h\<lparr>gs_now := t\<rparr>)"
  by (simp_all add: alike_def)

lemma alike_fold: "alike g h \<Longrightarrow> alike (fold (step lk) es g) (fold (step lk') es h)"
  by (induction es arbitrary: g h) (simp_all add: alike_step)

lemma alike_others: "alike g h \<Longrightarrow> alike (others lk g) (others lk' h)"
  using alike_fold [OF alike_sched(1)] by (auto simp: others_def alike_fields(3) split: list.split)

lemma alike_sync: "l = lk \<Longrightarrow> alike g h \<Longrightarrow> rel_prod (=) alike (sync l n d g) (sync lk' n d h)"
proof (induction l n d g arbitrary: h rule: sync.induct)
  case (1 l n d g)
  note f = alike_fields [OF 1(3)]
  show ?case
  proof (cases "sync_waits n d (gs_now g) (gs_image g) \<and> gs_sched g \<noteq> []")
    case True
    then have "rel_prod (=) alike (sync lk n d (others lk g)) (sync lk' n d (others lk' h))"
      using 1(1) [of "others lk' h"] 1(2) alike_others [OF 1(3)] by simp
    then show ?thesis using True 1(2)
      by (simp add: sync.simps [of lk n d g] sync.simps [of lk' n d h] f)
  next
    case False
    then show ?thesis using 1(2,3) alike_sched(2) [OF 1(3), of d]
      by (auto simp: sync.simps [of lk n d g] sync.simps [of lk' n d h] f)
  qed
qed

lemma alike_wait_count: "alike g h \<Longrightarrow> rel_prod (=) alike (waitForExchangeCount lk n t g) (waitForExchangeCount lk' n t h)"
proof -
  assume a: "alike g h"
  let ?d = "gs_now (others lk g) + min t kLongest * 10 ^ 6"
  note o1 = alike_others [OF a] and o2 = alike_others [OF alike_others [OF a]]
  have "rel_prod (=) alike (gs_waitForExchange lk n ?d (others lk g)) (gs_waitForExchange lk' n ?d (others lk' h))"
    using alike_sync [OF refl o2] o2 alike_fields(1) [OF o2] by (simp add: gs_waitForExchange_def Let_def)
  then show ?thesis using alike_fields(2) [OF o1]
    by (auto simp: wait_count_eq Let_def rel_prod_sel)
qed

lemma alike_wait_loop: "l = lk \<Longrightarrow> alike g h \<Longrightarrow> rel_prod (=) alike (wait_loop l n p d g) (wait_loop lk' n p d h)"
proof (induction l n p d g arbitrary: h rule: wait_loop.induct)
  case (1 l n p d g)
  note o1 = alike_others [OF 1(3)]
  let ?t = "remaining_ms d (gs_now (others lk g))"
  obtain r g2 where r: "waitForExchangeCount lk n ?t (others lk g) = (r, g2)" by fastforce
  obtain h2 where h2: "waitForExchangeCount lk' n ?t (others lk' h) = (r, h2)" "alike g2 h2"
    using alike_wait_count [OF o1, of n ?t] r by (cases "waitForExchangeCount lk' n ?t (others lk' h)") auto
  have "rel_prod (=) alike (wait_loop lk (exchangeCount x + 1) p d g2) (wait_loop lk' (exchangeCount x + 1) p d h2)"
    if "r = Some x" "\<not> p x" for x
    using 1(1) 1(2) r that h2(2) by fastforce
  then show ?case
    using r h2 alike_fields(2) [OF o1] 1(2)
    by (cases r) (simp_all add: wait_loop.simps [of lk n p d g] wait_loop.simps [of lk' n p d h])
qed

lemma alike_waitForExchangeAfter:
  "alike g h \<Longrightarrow> rel_prod (=) alike (waitForExchangeAfter lk n p t g) (waitForExchangeAfter lk' n p t h)"
  using alike_wait_loop [OF refl alike_others] alike_fields(2) [OF alike_others]
  by (simp add: waitForExchangeAfter_def deadlineAfter_def clock_def Let_def)

lemma alike_waitFor: "alike g h \<Longrightarrow> rel_prod (=) alike (waitFor lk p t g) (waitFor lk' p t h)"
  using alike_waitForExchangeAfter [OF alike_others] alike_fields(1) [OF alike_others]
  by (simp add: waitFor_def getMostRecentStampedExchange_def Let_def)

lemma alike_waitForStatus: "alike g h \<Longrightarrow> rel_prod (=) alike (waitForStatus lk q d g) (waitForStatus lk' q d h)"
  using alike_waitFor [OF alike_others] alike_fields(2) [OF alike_others]
  by (simp add: waitForStatus_def clock_def Let_def)

lemma alike_activationComplete:
  "alike g h \<Longrightarrow> rel_prod (=) alike (waitForActivationComplete lk d g) (waitForActivationComplete lk' d h)"
  using alike_waitForStatus [of g h activation_complete d]
  by (cases "waitForStatus lk activation_complete d g"; cases "waitForStatus lk' activation_complete d h")
    (auto simp: waitForActivationComplete_def split: option.split)

lemma alike_setCommand: "alike g h \<Longrightarrow> alike (setCommand lk c g) (setCommand lk' c h)"
  using alike_step [OF alike_others, of g h "SetCommand c"] by (simp add: setCommand_def step_def)

lemma alike_set_and_wait: "alike g h \<Longrightarrow>
    rel_prod (=) alike (setCommandAndWaitForExchange lk c t g) (setCommandAndWaitForExchange lk' c t h)"
  using alike_waitForExchangeAfter [OF alike_setCommand [OF alike_others]] alike_fields(1) [OF alike_others]
  by (simp add: setCommandAndWaitForExchange_def getMostRecentStampedExchange_def Let_def)

lemma alike_allowed: "alike g h \<Longrightarrow>
    rel_prod (=) alike (isActivationHandshakeAllowed lk d t g) (isActivationHandshakeAllowed lk' d t h)"
  using alike_others alike_fields(2) [OF alike_others] by (simp add: isActivationHandshakeAllowed_def clock_def Let_def)

lemma alike_handshake: "alike g h \<Longrightarrow> rel_prod (=) alike (runActivationHandshake lk d g) (runActivationHandshake lk' d h)"
proof -
  assume a: "alike g h"
  let ?previous = "im_command (gs_image (others lk g))" and ?q = "\<lambda>st. \<not> activated (gripperStatus st)"
  note o = alike_others [OF a]
  note s = alike_setCommand [OF o, of "deactivateCommand ?previous"]
  obtain r g3 where r: "waitForStatus lk ?q d (setCommand lk (deactivateCommand ?previous) (others lk g)) = (r, g3)" by fastforce
  obtain h3 where h3: "waitForStatus lk' ?q d (setCommand lk' (deactivateCommand ?previous) (others lk' h)) = (r, h3)" "alike g3 h3"
    using alike_waitForStatus [OF s, of ?q d] r
    by (cases "waitForStatus lk' ?q d (setCommand lk' (deactivateCommand ?previous) (others lk' h))") auto
  show ?thesis
    using r h3 alike_fields(1) [OF o] alike_setCommand [OF h3(2)] alike_activationComplete [OF alike_setCommand [OF h3(2)]]
    by (cases r) (simp_all add: runActivationHandshake_def getCommand_def Let_def)
qed

text \<open>What both procedures do once they have a deadline.\<close>

lemma alike_operational:
  assumes "alike g h" and "waitOperational lk d g = (r, g2)"
  shows "\<exists>h2. waitOperational lk' d h = (r, h2) \<and> alike g2 h2"
  using alike_waitForStatus [OF assms(1), of "\<lambda>_. True" d] assms(2)
  by (cases "waitForStatus lk' (\<lambda>_. True) d h") (auto simp: waitOperational_def)

lemma alike_try_handshake:
  assumes "alike g h"
  shows "rel_prod (=) alike
    (case isActivationHandshakeAllowed lk d t g of (allowed, g3) \<Rightarrow>
       if \<not> allowed then (ActivationTimeout, g3) else runActivationHandshake lk d g3)
    (case isActivationHandshakeAllowed lk' d t h of (allowed, g3) \<Rightarrow>
       if \<not> allowed then (ActivationTimeout, g3) else runActivationHandshake lk' d g3)"
  using alike_allowed [OF assms, of d t] alike_handshake
  by (cases "isActivationHandshakeAllowed lk d t g"; cases "isActivationHandshakeAllowed lk' d t h") simp

lemma alike_recover: "alike g h \<Longrightarrow> rel_option (rel_prod (=) alike) (recoverFromFault lk t g) (recoverFromFault lk' t h)"
proof -
  assume a: "alike g h"
  note o = alike_others [OF a]
  show ?thesis
  proof (cases "steady_add (gs_now (others lk g)) t")
    case (Some d)
    obtain r g2 where r: "waitOperational lk d (others lk g) = (r, g2)" by fastforce
    obtain h2 where h2: "waitOperational lk' d (others lk' h) = (r, h2)" "alike g2 h2" using alike_operational [OF o r] by blast
    show ?thesis
      using Some r h2 alike_fields(2) [OF o] alike_try_handshake [OF h2(2), of d t]
      by (cases r) (simp_all add: recoverFromFault_def clock_def Let_def)
  qed (use alike_fields(2) [OF o] in \<open>simp add: recoverFromFault_def clock_def Let_def\<close>)
qed

lemma alike_activate: "alike g h \<Longrightarrow> rel_option (rel_prod (=) alike) (activate lk t g) (activate lk' t h)"
proof -
  assume a: "alike g h"
  note o = alike_others [OF a]
  show ?thesis
  proof (cases "steady_add (gs_now (others lk g)) t")
    case (Some d)
    obtain r g2 where r: "waitOperational lk d (others lk g) = (r, g2)" by fastforce
    obtain h2 where h2: "waitOperational lk' d (others lk' h) = (r, h2)" "alike g2 h2" using alike_operational [OF o r] by blast
    show ?thesis
      using Some r h2 alike_fields(2) [OF o] alike_try_handshake [OF h2(2), of d t] alike_activationComplete [OF h2(2), of d]
      by (cases r) (simp_all add: activate_def clock_def Let_def)
  qed (use alike_fields(2) [OF o] in \<open>simp add: activate_def clock_def Let_def\<close>)
qed

lemma alike_apfst: "rel_prod (=) alike x y \<Longrightarrow> rel_prod (=) alike (apfst f x) (apfst f y)"
  by (cases x; cases y) simp

lemma alike_call:
  assumes "alike g h"
  shows "rel_option (rel_prod (=) alike) (call_gripper lk call g) (call_gripper lk' call h)"
proof (cases call)
  case (CallWaitForExchange t)
  have "rel_prod (=) alike (waitForExchange lk t g) (waitForExchange lk' t h)"
    using alike_wait_count [OF alike_others [OF assms]] alike_fields(1) [OF alike_others [OF assms]]
    by (simp add: waitForExchange_def getMostRecentStampedExchange_def Let_def)
  then show ?thesis using CallWaitForExchange by (simp add: alike_apfst)
next
  case (CallActivate t)
  then show ?thesis using alike_activate [OF assms, of t]
    by (cases "activate lk t g"; cases "activate lk' t h") (simp_all add: alike_apfst)
next
  case (CallRecoverFromFault t)
  then show ?thesis using alike_recover [OF assms, of t]
    by (cases "recoverFromFault lk t g"; cases "recoverFromFault lk' t h") (simp_all add: alike_apfst)
next
  case (CallSetCommandAndWaitForExchange c t)
  then show ?thesis using alike_set_and_wait [OF assms] by (simp add: alike_apfst)
next
  case (CallWaitForExchangeCount n t)
  then show ?thesis using alike_wait_count [OF assms] by (simp add: alike_apfst)
next
  case (CallWaitFor p t)
  then show ?thesis using alike_waitFor [OF assms] by (simp add: alike_apfst)
next
  case (CallSetCommand c)
  then show ?thesis using alike_setCommand [OF assms] by simp
qed (use alike_others [OF assms] alike_fields [OF alike_others [OF assms]] in \<open>simp_all add: getCommand_def getStatus_def
    getMostRecentStampedExchange_def connectionState_def im_status_def Let_def\<close>)

lemma alike_calls: "alike g h \<Longrightarrow> rel_option (rel_prod (=) alike) (call_all lk calls g) (call_all lk' calls h)"
proof (induction calls arbitrary: g h)
  case (Cons call calls)
  show ?case
  proof (cases "call_gripper lk call g")
    case None
    then show ?thesis using alike_call [OF Cons.prems, of call] by (cases "call_gripper lk' call h") simp_all
  next
    case (Some rg)
    obtain r g1 where rg: "rg = (r, g1)" by fastforce
    obtain h1 where h1: "call_gripper lk' call h = Some (r, h1)" "alike g1 h1"
      using alike_call [OF Cons.prems, of call] Some rg by (cases "call_gripper lk' call h") auto
    show ?thesis using Some rg h1 Cons.IH [OF h1(2)]
      by (cases "call_all lk calls g1"; cases "call_all lk' calls h1") (simp_all add: alike_apfst rel_prod_sel)
  qed
qed simp

lemma alike_results:
  assumes "alike g h"
  shows "map_option fst (call_all lk calls g) = map_option fst (call_all lk' calls h)"
  using alike_calls [OF assms, of calls]
  by (cases "call_all lk calls g"; cases "call_all lk' calls h") (simp_all add: rel_prod_sel)

text \<open>The first reads, and with them the constructor.\<close>

lemma alike_initialRead: "l = lk \<Longrightarrow> alike g h \<Longrightarrow> rel_prod (=) alike (initialRead l n g) (initialRead lk' n h)"
proof (induction l n g arbitrary: h rule: initialRead.induct)
  case (1 l n g)
  obtain x d where x: "lk_readStatus lk (gs_client g) = (x, d)" by fastforce
  obtain d' where d': "lk_readStatus lk' (gs_client h) = (x, d')" "R d d'"
    using sim_lk_read [of "gs_client g" "gs_client h"] 1(3) x by (cases "lk_readStatus lk' (gs_client h)") (auto simp: alike_def)
  have a: "alike (g\<lparr>gs_client := d\<rparr>) (h\<lparr>gs_client := d'\<rparr>)" using 1(3) d'(2) by (simp add: alike_def)
  have s: "alike (say v m (g\<lparr>gs_client := d\<rparr>)) (say v m (h\<lparr>gs_client := d'\<rparr>))" for v m
    using 1(3) d'(2) by (simp add: alike_def say_def)
  show ?case
  proof (cases x)
    case (Inr st)
    then show ?thesis using x d' a 1(2) by (simp add: initialRead.simps [of lk n g] initialRead.simps [of lk' n h])
  next
    case (Inl e)
    show ?thesis
    proof (cases e)
      case UnknownException
      then show ?thesis using x d' a 1(2) Inl by (simp add: initialRead.simps [of lk n g] initialRead.simps [of lk' n h])
    next
      case (StdException what)
      show ?thesis
      proof (cases "kInitialReadAttempts \<le> n")
        case True
        then show ?thesis using x d' a 1(2) Inl StdException
          by (simp add: initialRead.simps [of lk n g] initialRead.simps [of lk' n h])
      next
        case False
        then show ?thesis using 1(1) [of x d e what, OF _ Inl StdException False 1(2) s] x d' 1(2) Inl StdException
          by (simp add: initialRead.simps [of lk n g] initialRead.simps [of lk' n h])
      qed
    qed
  qed
qed

lemma alike_makeGripper:
  assumes "R d e"
  shows "rel_sum (=) alike (makeGripper lk d period platform now sched) (makeGripper lk' e period platform now sched)"
proof (cases platform)
  case (Some mc)
  obtain mutex condition where mc: "mc = (mutex, condition)" by fastforce
  show ?thesis
  proof (cases "makeProcessImage mutex condition")
    case (Inr im)
    let ?g = "makeGripperState d im period now sched" and ?h = "makeGripperState e im period now sched"
    have a: "alike ?g ?h" using assms by (simp add: alike_def makeGripperState_def)
    obtain x g1 where x: "initialRead lk 1 ?g = (x, g1)" by fastforce
    obtain h1 where "initialRead lk' 1 ?h = (x, h1)" "alike g1 h1"
      using alike_initialRead [OF refl a, of 1] x by (cases "initialRead lk' 1 ?h") auto
    then show ?thesis using Some mc Inr x
      by (cases x) (simp_all add: makeGripper_def initializeImage_def gs_start_def alike_def)
  qed (use Some mc in \<open>simp add: makeGripper_def\<close>)
qed (simp add: makeGripper_def)

end

end
