(* ===== verification/FakeSession.thy ===== *)
theory FakeSession
  imports FakeGripper GripperCalls
begin

text \<open>
  The whole SDK in one piece: a \<open>Gripper\<close> whose link is the Modbus client over the simulated gripper. First the
  stack is shown to refine the register model driven directly, step by step; then what the device
  promises is carried through the exchange thread and the waits to the caller.
\<close>

section \<open>The Modbus client as the link of a GripperState\<close>

definition client_link :: "'s serial \<Rightarrow> 's modbus_client link" where
  "client_link ser = \<lparr>lk_readStatus = readStatus ser, lk_exchange = exchange ser\<rparr>"

text \<open>The specification: the register model written and read without any wire.\<close>

definition read_model :: "register_model \<Rightarrow> (thrown + gripper_status) \<times> register_model" where
  "read_model m = (case readBlock m of Inr regs \<Rightarrow> (Inr (decoded regs), m) | Inl e \<Rightarrow> (Inl (driver_exception e), m))"

definition exchange_model :: "gripper_command \<Rightarrow> register_model \<Rightarrow> (thrown + gripper_status) \<times> register_model" where
  "exchange_model c m = (case writeBlock c m of Inr m' \<Rightarrow> read_model m' | Inl e \<Rightarrow> (Inl (driver_exception e), m))"

definition register_link :: "register_model link" where
  "register_link = \<lparr>lk_readStatus = read_model, lk_exchange = exchange_model\<rparr>"

definition abs_state :: "('d \<Rightarrow> 'e) \<Rightarrow> 'd gripper_state \<Rightarrow> 'e gripper_state" where
  "abs_state f g = \<lparr>gs_image = gs_image g, gs_client = f (gs_client g), gs_connectionState = gs_connectionState g,
     gs_failures = gs_failures g, gs_throttle = gs_throttle g, gs_period = gs_period g, gs_running = gs_running g,
     gs_pc = gs_pc g, gs_nextCycle = gs_nextCycle g, gs_now = gs_now g, gs_log = gs_log g, gs_sched = gs_sched g\<rparr>"

context device_port
begin

lemma model_runs:
  assumes "stack_idle u m"
  shows "\<exists>m'. exchange ser c m = (fst (exchange_model c (gripper_model m)), m') \<and> stack_idle u m' \<and>
      gripper_model m' = snd (exchange_model c (gripper_model m))"
    and "\<exists>m'. readStatus ser m = (fst (read_model (gripper_model m)), m') \<and> stack_idle u m' \<and>
      gripper_model m' = snd (read_model (gripper_model m))"
proof -
  have wf: "rm_wf (gripper_model m)" using assms by (simp add: stack_idle_def)
  from writeBlock_promised [OF wf] obtain model where w: "writeBlock c (gripper_model m) = Inr model" "rm_wf model" by blast
  have l: "length (rm_registers model) = 2008" "length (rm_registers (gripper_model m)) = 2008"
    using w(2) wf by (simp_all add: rm_wf_def addresses)
  from readBlock_status [OF l(1)] obtain regs where r: "readBlock model = Inr regs" "length regs = 3" by blast
  from readBlock_status [OF l(2)] obtain regs0 where r0: "readBlock (gripper_model m) = Inr regs0" "length regs0 = 3" by blast
  show "\<exists>m'. exchange ser c m = (fst (exchange_model c (gripper_model m)), m') \<and> stack_idle u m' \<and>
      gripper_model m' = snd (exchange_model c (gripper_model m))"
    using exchange_runs [OF assms w r] w r by (auto simp: exchange_model_def read_model_def)
  show "\<exists>m'. readStatus ser m = (fst (read_model (gripper_model m)), m') \<and> stack_idle u m' \<and>
      gripper_model m' = snd (read_model (gripper_model m))"
    using readStatus_runs [OF assms r0] r0 by (auto simp: read_model_def)
qed

text \<open>An idle client and the register model behind it.\<close>

definition idle_over :: "fake_gripper modbus_client \<Rightarrow> register_model \<Rightarrow> bool" where
  "idle_over m model \<longleftrightarrow> stack_idle (dest_address_rtu (mc_nmbs m)) m \<and> gripper_model m = model"

lemma idle_overI: "stack_idle u m \<Longrightarrow> idle_over m (gripper_model m)"
  by (simp add: idle_over_def stack_idle_def)

end

sublocale device_port \<subseteq> model: link_sim "client_link ser" register_link idle_over
proof
  fix m model c assume i: "idle_over m model"
  then have s: "stack_idle (dest_address_rtu (mc_nmbs m)) m" and g: "gripper_model m = model" by (simp_all add: idle_over_def)
  show "rel_prod (=) idle_over (lk_readStatus (client_link ser) m) (lk_readStatus register_link model)"
    using model_runs(2) [OF s] idle_overI by (fastforce simp: client_link_def register_link_def rel_prod_sel g)
  show "rel_prod (=) idle_over (lk_exchange (client_link ser) c m) (lk_exchange register_link c model)"
    using model_runs(1) [OF s, of c] idle_overI by (fastforce simp: client_link_def register_link_def rel_prod_sel g)
qed

lemma abs_say [simp]: "abs_state f (say l t g) = say l t (abs_state f g)"
  by (simp add: abs_state_def say_def)

lemma abs_fields [simp]: "gs_pc (abs_state f g) = gs_pc g" "gs_client (abs_state f g) = f (gs_client g)"
  "gs_now (abs_state f g) = gs_now g" "gs_throttle (abs_state f g) = gs_throttle g"
  by (simp_all add: abs_state_def)

lemma client_step: "gs_client (thread_step lk g) = (case gs_pc g of Exchanging c \<Rightarrow> snd (lk_exchange lk c (gs_client g)) | _ \<Rightarrow> gs_client g)"
  by (auto simp: thread_step_def exchangeOnce_step_def split: pc.split prod.split sum.split)

lemma abs_thread_step:
  assumes "\<And>c. lk_exchange lk' c (f (gs_client g)) = (fst (lk_exchange lk c (gs_client g)), f (snd (lk_exchange lk c (gs_client g))))"
  shows "abs_state f (thread_step lk g) = thread_step lk' (abs_state f g)"
proof (cases "gs_pc g")
  case (Exchanging c)
  then show ?thesis
    using assms [of c] by (cases "lk_exchange lk c (gs_client g)")
      (auto simp: thread_step_def exchangeOnce_step_def abs_state_def split: sum.split)
qed (auto simp: thread_step_def exchangeOnce_step_def log_failure_def Let_def abs_state_def say_def split: prod.split)

text \<open>
  C1 The stack refines the register model: with the framing, the CRCs, the server and the queues in between,
  every step of the gripper's threads has the effect, the history of exchanges included, that it has on a
  register model written and read directly.
\<close>

theorem stack_refines_the_register_model:
  assumes "stack_idle u (gs_client g)" and "run (client_link (fake_serial other)) es (g, h) = (g', h')"
  shows "run register_link es (abs_state gripper_model g, h) = (abs_state gripper_model g', h') \<and> stack_idle u (gs_client g')"
  using assms
proof (induction es arbitrary: g h)
  case (Cons e es)
  let ?lk = "client_link (fake_serial other)"
  have x: "lk_exchange register_link c (gripper_model (gs_client g)) =
      (fst (lk_exchange ?lk c (gs_client g)), gripper_model (snd (lk_exchange ?lk c (gs_client g)))) \<and>
      stack_idle u (snd (lk_exchange ?lk c (gs_client g)))" for c
    using fake.model_runs(1) [OF Cons.prems(1), of other c] by (auto simp: register_link_def client_link_def)
  have "abs_state gripper_model (step ?lk e g) = step register_link e (abs_state gripper_model g) \<and>
      exchanged ?lk e g = exchanged register_link e (abs_state gripper_model g) \<and> stack_idle u (gs_client (step ?lk e g))"
  proof (cases "e = ThreadStep")
    case True
    have "abs_state gripper_model (thread_step ?lk g) = thread_step register_link (abs_state gripper_model g)"
      by (rule abs_thread_step) (use x in blast)
    moreover have "stack_idle u (gs_client (thread_step ?lk g))"
      using x Cons.prems(1) by (simp add: client_step split: pc.split)
    ultimately show ?thesis using True x by (auto simp: step_def exchanged_def split: pc.split)
  next
    case False
    then show ?thesis
      using Cons.prems(1) by (cases e) (auto simp: other_events step_def gs_setCommand_def closeImage_def abs_state_def)
  qed
  with Cons.IH [of "step ?lk e g" "h @ exchanged ?lk e g"] Cons.prems(2) show ?case
    by (simp add: traced_step_def)
qed simp

theorem stack_refines_the_register_model_witness:
  "\<exists>m. makeFakeClient (\<lambda>_. nm_return ()) 9 [] = Inr m \<and>
     (let g = gs_start (makeGripperState m \<lparr>im_command = defaults, im_stamped = zero_stamped, im_closed = False\<rparr> 8000 0 []);
          es = replicate 20 ThreadStep @ [Tick 8000000, SetCommand zero_command] @ replicate 20 ThreadStep;
          (g', h) = run (client_link (fake_serial (\<lambda>_. nm_return ()))) es (g, [])
      in run register_link es (abs_state gripper_model g, []) = (abs_state gripper_model g', h))"
proof -
  have nz: "(9 :: u8) \<noteq> 0" by simp
  from makeFakeClient_idle [OF nz, of "\<lambda>_. nm_return ()" "[]"] obtain m where
    m: "makeFakeClient (\<lambda>_. nm_return ()) 9 [] = Inr m" "stack_idle 9 m" by blast
  let ?g = "gs_start (makeGripperState m \<lparr>im_command = defaults, im_stamped = zero_stamped, im_closed = False\<rparr> 8000 0 [])"
  have i: "stack_idle 9 (gs_client ?g)" using m(2) by (simp add: gs_start_def makeGripperState_def)
  show ?thesis
    using m(1) stack_refines_the_register_model [OF i, of "\<lambda>_. nm_return ()"] by (auto simp: Let_def split: prod.split)
qed

end
