(* ===== verification/ClientCycle.thy ===== *)
theory ClientCycle
  imports FakeSession
begin

text \<open>
  The exchange thread over the Modbus client and any \<open>Serial\<close> at all: the blocks a caller is given keep the
  shape the C++ types fix, whatever bytes the port hands over.
\<close>

text \<open>A status as the client decodes it: sixteen bytes, of which three registers fill the first six.\<close>

definition received_status :: "gripper_status \<Rightarrow> bool" where
  "received_status st \<longleftrightarrow> wf_status st \<and> s_reservedTail st = replicate 10 0"

lemma received_zero [simp]: "received_status zero_status"
  by (simp add: received_status_def zero_status_def wf_status_def status_data_def kStatusBlockBytes_def kStatusDocumentedBytes_def)

lemma received_decoded:
  assumes "length registers = 3"
  shows "received_status (decoded registers)"
proof -
  let ?z = "status_data zero_status" and ?b = "bytesFromRegisters registers (status_data zero_status)"
  have z: "length ?z = 16" "drop 6 ?z = replicate 10 0"
    by (simp_all add: status_data_def zero_status_def kStatusBlockBytes_def kStatusDocumentedBytes_def)
  then have b: "length ?b = 16" by simp
  have "drop 6 ?b = drop 6 ?z"
    using z(1) assms by (intro nth_equalityI) (simp_all add: bytesFromRegisters_nth)
  then show ?thesis
    using b z by (simp add: received_status_def decoded_def status_of_def wf_status_def status_data_def kStatusBlockBytes_def)
qed

lemma get_regs_length: "get_regs n (s, w) = (Inr rs, s', w') \<Longrightarrow> length rs = n"
  by (induction n arbitrary: s w rs) (auto simp: nm_bind_Inr)

lemma read_res_length:
  fixes p :: "'w platform"
  assumes "recv_read_registers_res p q (s, w) = (Inr rs, s', w')"
  shows "length rs = unat q"
proof -
  obtain n :: u8 and s1 s2 and w1 w2 :: 'w where
    n: "uint n = uint q * 2" "get_regs (unat n div 2) (s1, w1) = (Inr rs, s2, w2)"
    using assms by (auto simp: recv_read_registers_res_def nm_bind_Inr split: if_splits)
  have "int (unat n) = int (unat q * 2)" using n(1) by simp
  then have "unat n = unat q * 2" by (simp only: of_nat_eq_iff)
  then show ?thesis using get_regs_length [OF n(2)] by simp
qed

lemma registers_length:
  "nmbs_read_write_registers p ra rq wa wq regs (s, w) = (Inr rs, s', w') \<Longrightarrow> length rs = unat rq"
  "nmbs_read_holding_registers p ra rq (s, w) = (Inr rs, s', w') \<Longrightarrow> length rs = unat rq"
  by (auto simp: nmbs_read_write_registers_def nmbs_read_holding_registers_def read_registers_def nm_bind_Inr
      dest: read_res_length split: if_splits)

lemma received_exchange: "exchange ser c m = (Inr st, m') \<Longrightarrow> received_status st"
  using exchange_Inr [of ser c m st m'] registers_length(1) kStatusRegisterCount_3(1) received_decoded by metis

lemma received_readStatus: "readStatus ser m = (Inr st, m') \<Longrightarrow> received_status st"
  using registers_length(2) [of "client_platform ser" kStatusAddress kStatusRegisterCount] kStatusRegisterCount_3(1)
  by (auto simp: readStatus_def transact_Inr received_decoded simp flip: decoded_def split: prod.splits sum.splits)

section \<open>The image and the thread keep it\<close>

fun held_ok :: "pc \<Rightarrow> bool" where
  "held_ok (Exchanging c) = wf_command c"
| "held_ok (StampingTime c st) = (wf_command c \<and> received_status st)"
| "held_ok (ResetFailures c st t) = (wf_command c \<and> received_status st)"
| "held_ok (TurnOperational c st t) = (wf_command c \<and> received_status st)"
| "held_ok (Publishing c st t r) = (wf_command c \<and> received_status st)"
| "held_ok _ = True"

definition blocks_ok :: "'d gripper_state \<Rightarrow> bool" where
  "blocks_ok g \<longleftrightarrow> wf_command (im_command (gs_image g)) \<and> wf_command (x_command (im_stamped (gs_image g))) \<and>
     received_status (x_status (im_stamped (gs_image g))) \<and> held_ok (gs_pc g)"

text \<open>A caller's command is a block of its type.\<close>

fun typed_event :: "gs_event \<Rightarrow> bool" where
  "typed_event (SetCommand c) = wf_command c"
| "typed_event e = True"

interpretation blocks: cycle_invariant "client_link ser" typed_event blocks_ok for ser :: "'s serial"
proof
  fix e and g :: "'s modbus_client gripper_state" assume a: "typed_event e" "blocks_ok g"
  show "blocks_ok (step (client_link ser) e g)"
  proof (cases "e = ThreadStep")
    case True
    show ?thesis
    proof (cases "gs_pc g")
      case (Exchanging c)
      then show ?thesis
        using a(2) True received_exchange [of ser c "gs_client g"]
        by (cases "exchange ser c (gs_client g)")
          (auto simp: blocks_ok_def step_def thread_step_def exchangeOnce_step_def client_link_def split: sum.split)
    qed (use a(2) True in \<open>auto simp: blocks_ok_def step_def thread_step_def exchangeOnce_step_def publish_def\<close>)
  next
    case False
    then show ?thesis
      using a by (cases e) (auto simp: blocks_ok_def step_def gs_setCommand_def im_setCommand_def closeImage_def im_close_def)
  qed
qed (auto simp: blocks_ok_def)

lemma wf_echoed [simp]: "wf_command (echoed_command st)"
  by (simp add: wf_command_def command_data_def echoed_command_def defaults_def zero_command_def Let_def
      kCommandBlockBytes_def kCommandDocumentedBytes_def)

lemma initialRead_received:
  "initialRead lk n g = (r, g') \<Longrightarrow> gs_sched g' = gs_sched g \<and> (\<forall>st. r = Inr st \<longrightarrow> (\<exists>d d'. lk_readStatus lk d = (Inr st, d')))"
proof (induction lk n g rule: initialRead.induct)
  case (1 lk attempt g)
  obtain x d where x: "lk_readStatus lk (gs_client g) = (x, d)" by fastforce
  note e = 1(2) [unfolded initialRead.simps [of lk attempt g] x prod.case]
  show ?case
  proof (cases x)
    case (Inr st)
    with e x show ?thesis by auto
  next
    case (Inl t)
    show ?thesis
    proof (cases t)
      case (StdException what)
      then show ?thesis using e Inl x 1(1) [of x d t what] by (auto split: if_splits)
    qed (use e Inl in auto)
  qed
qed

section \<open>Properties\<close>

text \<open>
  C34 Over any serial link, whatever bytes it hands over, and with any other threads, a status the caller reads is
  a block of sixteen bytes whose last ten are zero, and the command it reads is a block of sixteen bytes.
\<close>

theorem blocks_keep_their_shape:
  assumes "makeGripper (client_link ser) client period platform now sched = Inr g"
    and "\<forall>es \<in> set sched. \<forall>e \<in> set es. typed_event e"
    and "waitFor (client_link ser) p timeout g = (r, g')"
  shows "received_status (fst (getStatus (client_link ser) g')) \<and> wf_command (fst (getCommand (client_link ser) g')) \<and>
    (\<forall>x. r = Some x \<longrightarrow> received_status (x_status x) \<and> wf_command (x_command x))"
proof -
  obtain im g1 where g1: "initializeImage (client_link ser) (makeGripperState client im period now sched) = (Inr (), g1)"
    and g: "g = gs_start g1"
    using assms(1) by (auto simp: makeGripper_def split: option.splits prod.splits sum.splits)
  obtain st g2 where st: "initialRead (client_link ser) 1 (makeGripperState client im period now sched) = (Inr st, g2)"
    and g1': "g1 = g2\<lparr>gs_image := seed st (gs_now g2) (echoed_command st) (gs_image g2), gs_connectionState := Operational\<rparr>"
    using g1 by (auto simp: initializeImage_def split: prod.splits sum.splits)
  have r: "received_status st" "gs_sched g2 = sched"
    using initialRead_received [OF st] received_readStatus by (force simp: client_link_def, simp add: makeGripperState_def)
  from r(1) have "blocks_ok g" by (simp add: g g1' gs_start_def blocks_ok_def seed_def)
  moreover have "gs_sched g = sched" using r(2) by (simp add: g g1' gs_start_def)
  ultimately have "blocks.K g" using assms(2) by (simp add: blocks.K_def)
  then have k: "blocks.K g'" using blocks.kept_waitFor [of g ser p timeout] assms(3) by simp
  have "blocks_ok (others (client_link ser) g')" using blocks.kept_others [OF k] by (simp add: blocks.K_def)
  moreover have "blocks_ok g'" using k by (simp add: blocks.K_def)
  ultimately show ?thesis
    using waitFor_result [OF assms(3)] by (auto simp: getStatus_def getCommand_def im_status_def blocks_ok_def Let_def)
qed

end
