(* ===== verification/PosixSerial.thy ===== *)
theory PosixSerial
  imports Transport
begin

text \<open>
  The serial port on a POSIX system (\<open>src/detail/posix/serial_port.cpp\<close>). The system calls, the clock and
  the error messages are a record of functions on a state \<open>'o\<close> of the operating system. A loop that the
  system can keep going for ever is a partial function: \<open>None\<close> is not returning. Times are nanoseconds of
  the steady clock.
\<close>

section \<open>The system\<close>

datatype errno = EINTR | EAGAIN | EWOULDBLOCK | EIO | ENOENT | ENODEV | ENXIO | OtherError nat
datatype open_flag = O_RDWR | O_NOCTTY | O_NONBLOCK | O_CLOEXEC
datatype poll_flag = POLLIN | POLLOUT | POLLERR | POLLHUP | POLLNVAL
datatype line_request = TIOCEXCL | TIOCNXCL | TIOCMBIC_RTS_DTR

text \<open>Terminal attributes: the flags by name, and the two control characters in use.\<close>

datatype iflag = IGNBRK | BRKINT | IGNPAR | PARMRK | INPCK | ISTRIP | INLCR | IGNCR | ICRNL | IUCLC | IXON | IXANY | IXOFF | IMAXBEL
datatype oflag = OPOST | ONLCR | OtherOutput nat
datatype lflag = ISIG | ICANON | ECHO | ECHOE | ECHOK | ECHONL | NOFLSH | IEXTEN
datatype cflag = CSTOPB | CREAD | PARENB | PARODD | HUPCL | CLOCAL | CRTSCTS
datatype csize = CS5 | CS6 | CS7 | CS8
datatype speed = B1200 | B2400 | B4800 | B9600 | B19200 | B38400 | B57600 | B115200 | B230400 | B460800 | B500000 | B921600
  | B1000000

record termios =
  c_iflag :: "iflag set"
  c_oflag :: "oflag set"
  c_lflag :: "lflag set"
  c_cflag :: "cflag set"
  c_size :: csize
  c_vmin :: u8
  c_vtime :: u8
  c_ispeed :: "speed option"
  c_ospeed :: "speed option"

text \<open>A call fails with an \<open>errno\<close>; a poll gives how many descriptors are ready, and the events.\<close>

record 'o posix =
  sys_open :: "string \<Rightarrow> open_flag set \<Rightarrow> 'o \<Rightarrow> (errno + int) \<times> 'o"
  sys_close :: "int \<Rightarrow> 'o \<Rightarrow> 'o"
  sys_read :: "int \<Rightarrow> nat \<Rightarrow> 'o \<Rightarrow> (errno + u8 list) \<times> 'o"
  sys_write :: "int \<Rightarrow> u8 list \<Rightarrow> 'o \<Rightarrow> (errno + nat) \<times> 'o"
  sys_poll :: "int \<Rightarrow> poll_flag \<Rightarrow> int \<Rightarrow> 'o \<Rightarrow> (errno + int \<times> poll_flag set) \<times> 'o"
  sys_ioctl :: "int \<Rightarrow> line_request \<Rightarrow> 'o \<Rightarrow> 'o"
  sys_outq :: "int \<Rightarrow> 'o \<Rightarrow> nat option \<times> 'o"
  sys_tcdrain :: "int \<Rightarrow> 'o \<Rightarrow> (errno + unit) \<times> 'o"
  sys_tcgetattr :: "int \<Rightarrow> 'o \<Rightarrow> (errno + termios) \<times> 'o"
  sys_tcsetattr :: "int \<Rightarrow> termios \<Rightarrow> 'o \<Rightarrow> (errno + unit) \<times> 'o"
  sys_cfsetispeed :: "speed \<Rightarrow> termios \<Rightarrow> errno + termios"
  sys_cfsetospeed :: "speed \<Rightarrow> termios \<Rightarrow> errno + termios"
  sys_now :: "'o \<Rightarrow> int \<times> 'o"
  sys_sleep :: "int \<Rightarrow> 'o \<Rightarrow> 'o"
  sys_message :: "errno \<Rightarrow> string"

text \<open>\<open>cfmakeraw\<close> of the C library.\<close>

definition cfmakeraw :: "termios \<Rightarrow> termios" where
  "cfmakeraw tty = tty\<lparr>
     c_iflag := c_iflag tty - {IGNBRK, BRKINT, PARMRK, ISTRIP, INLCR, IGNCR, ICRNL, IXON},
     c_oflag := c_oflag tty - {OPOST},
     c_lflag := c_lflag tty - {ECHO, ECHONL, ICANON, ISIG, IEXTEN},
     c_cflag := c_cflag tty - {PARENB},
     c_size := CS8, c_vmin := 1, c_vtime := 0\<rparr>"

section \<open>Failures\<close>

definition kWireBitsPerByte :: nat where "kWireBitsPerByte = 10"

definition describe :: "'o posix \<Rightarrow> errno \<Rightarrow> string" where
  "describe ps error = sys_message ps error"

definition fail :: "'o posix \<Rightarrow> string \<Rightarrow> errno \<Rightarrow> thrown" where
  "fail ps context error = serial_io_exception (context @ '': '' @ describe ps error)"

definition failHungUp :: "string \<Rightarrow> thrown" where
  "failHungUp context = serial_io_exception (context @ '': the other end hung up'')"

definition quoted :: "string \<Rightarrow> string" where
  "quoted s = [CHR 0x27] @ s @ [CHR 0x27]"

section \<open>Configuring the line\<close>

definition baudConstant :: "u32 \<Rightarrow> speed option" where
  "baudConstant baudrate =
     (if baudrate = 1200 then Some B1200
      else if baudrate = 2400 then Some B2400
      else if baudrate = 4800 then Some B4800
      else if baudrate = 9600 then Some B9600
      else if baudrate = 19200 then Some B19200
      else if baudrate = 38400 then Some B38400
      else if baudrate = 57600 then Some B57600
      else if baudrate = 115200 then Some B115200
      else if baudrate = 230400 then Some B230400
      else if baudrate = 460800 then Some B460800
      else if baudrate = 500000 then Some B500000
      else if baudrate = 921600 then Some B921600
      else if baudrate = 1000000 then Some B1000000
      else None)"

text \<open>The attributes before the speeds are set.\<close>

definition raw_line :: "termios \<Rightarrow> termios" where
  "raw_line tty =
     (let t = cfmakeraw tty;
          t1 = t\<lparr>c_iflag := c_iflag t - {IXOFF, IXANY, INPCK} - {IUCLC}\<rparr>;
          t2 = t1\<lparr>c_cflag := c_cflag t1 - {CSTOPB} - {CRTSCTS} \<union> {CREAD, CLOCAL}\<rparr>
      in t2\<lparr>c_vmin := 0, c_vtime := 0\<rparr>)"

definition set_speeds :: "'o posix \<Rightarrow> speed \<Rightarrow> termios \<Rightarrow> errno + termios" where
  "set_speeds ps speed tty =
     (case sys_cfsetispeed ps speed tty of Inl e \<Rightarrow> Inl e | Inr t \<Rightarrow> sys_cfsetospeed ps speed t)"

definition configure :: "'o posix \<Rightarrow> int \<Rightarrow> u32 \<Rightarrow> 'o \<Rightarrow> (thrown + unit) \<times> 'o" where
  "configure ps fd baudrate w =
     (case baudConstant baudrate of
        None \<Rightarrow> (Inl (serial_io_exception (''unsupported baud rate '' @ decimal (unat baudrate))), w)
      | Some speed \<Rightarrow>
          (case sys_tcgetattr ps fd w of
             (Inl e, w1) \<Rightarrow> (Inl (fail ps ''reading the serial port attributes'' e), w1)
           | (Inr tty, w1) \<Rightarrow>
               (case set_speeds ps speed (raw_line tty) of
                  Inl e \<Rightarrow> (Inl (fail ps ''setting the baud rate'' e), w1)
                | Inr t \<Rightarrow>
                    (case sys_tcsetattr ps fd t w1 of
                       (Inl e, w2) \<Rightarrow> (Inl (fail ps ''configuring the serial port'' e), w2)
                     | (Inr _, w2) \<Rightarrow> (Inr (), w2)))))"

definition applyLineDefaults :: "'o posix \<Rightarrow> int \<Rightarrow> 'o \<Rightarrow> 'o" where
  "applyLineDefaults ps fd w = sys_ioctl ps fd TIOCMBIC_RTS_DTR (sys_ioctl ps fd TIOCEXCL w)"

section \<open>The port\<close>

record serial_port =
  sp_fd :: int
  sp_baudrate :: u32

definition new_serial_port :: serial_port where
  "new_serial_port = \<lparr>sp_fd = - 1, sp_baudrate = 0\<rparr>"

definition sp_open :: "'o posix \<Rightarrow> string \<Rightarrow> u32 \<Rightarrow> serial_port \<Rightarrow> 'o \<Rightarrow> (thrown + unit) \<times> serial_port \<times> 'o" where
  "sp_open ps port baudrate p w =
     (case sys_open ps port {O_RDWR, O_NOCTTY, O_NONBLOCK, O_CLOEXEC} w of
        (Inl error, w1) \<Rightarrow>
          (if error = ENOENT \<or> error = ENODEV \<or> error = ENXIO
           then (Inl (serial_io_exception (''no serial port named '' @ quoted port @ '' (is the device connected?)'')), p, w1)
           else (Inl (fail ps (''opening serial port '' @ quoted port) error), p, w1))
      | (Inr fd, w1) \<Rightarrow>
          (case configure ps fd baudrate w1 of
             (Inl e, w2) \<Rightarrow> (Inl e, p, sys_close ps fd w2)
           | (Inr _, w2) \<Rightarrow> (Inr (), p\<lparr>sp_fd := fd, sp_baudrate := baudrate\<rparr>, applyLineDefaults ps fd w2)))"

definition sp_close :: "'o posix \<Rightarrow> serial_port \<Rightarrow> 'o \<Rightarrow> serial_port \<times> 'o" where
  "sp_close ps p w =
     (if 0 \<le> sp_fd p then (p\<lparr>sp_fd := - 1\<rparr>, sys_close ps (sp_fd p) (sys_ioctl ps (sp_fd p) TIOCNXCL w)) else (p, w))"

section \<open>Waiting\<close>

datatype wait_result = Ready | Interrupted | TimedOut

definition ceil_ms :: "int \<Rightarrow> int" where
  "ceil_ms ns = - ((- ns) div 10 ^ 6)"

definition waitReady :: "'o posix \<Rightarrow> int \<Rightarrow> poll_flag \<Rightarrow> int \<Rightarrow> string \<Rightarrow> 'o \<Rightarrow> (thrown + wait_result) \<times> 'o" where
  "waitReady ps fd events remaining context w =
     (case sys_poll ps fd events (min (ceil_ms remaining) (2 ^ 31 - 1)) w of
        (Inl e, w1) \<Rightarrow> if e = EINTR then (Inr Interrupted, w1) else (Inl (fail ps context e), w1)
      | (Inr (ready, revents), w1) \<Rightarrow>
          if POLLERR \<in> revents \<or> POLLNVAL \<in> revents then (Inl (fail ps context EIO), w1)
          else if events \<notin> revents \<and> POLLHUP \<in> revents then (Inl (failHungUp context), w1)
          else if ready = 0 then (Inr TimedOut, w1)
          else (Inr Ready, w1))"

section \<open>Reading\<close>

text \<open>One turn of a loop: it throws, leaves the loop, or goes on with new locals.\<close>

datatype 'l turn = Throws thrown | Leaves | GoesOn 'l

definition wait_for_input :: "'o posix \<Rightarrow> int \<Rightarrow> int \<Rightarrow> u8 list \<Rightarrow> 'o \<Rightarrow> (u8 list \<times> bool) turn \<times> 'o" where
  "wait_for_input ps fd deadline received w =
     (let (now, w1) = sys_now ps w; remaining = deadline - now
      in if remaining \<le> 0 then (Leaves, w1)
         else (case waitReady ps fd POLLIN remaining ''waiting for serial input'' w1 of
                 (Inl e, w2) \<Rightarrow> (Throws e, w2)
               | (Inr r, w2) \<Rightarrow> if r = TimedOut then (Leaves, w2) else (GoesOn (received, r = Ready), w2)))"

definition read_turn :: "'o posix \<Rightarrow> int \<Rightarrow> nat \<Rightarrow> int \<Rightarrow> u8 list \<Rightarrow> bool \<Rightarrow> 'o \<Rightarrow> (u8 list \<times> bool) turn \<times> 'o" where
  "read_turn ps fd len deadline received polledReadable w =
     (case sys_read ps fd (len - length received) w of
        (Inr bytes, w1) \<Rightarrow>
          if bytes \<noteq> [] then (GoesOn (received @ bytes, polledReadable), w1)
          else if polledReadable then (Throws (failHungUp ''reading from the serial port''), w1)
          else wait_for_input ps fd deadline received w1
      | (Inl e, w1) \<Rightarrow>
          if e = EINTR then (GoesOn (received, polledReadable), w1)
          else if e \<noteq> EAGAIN \<and> e \<noteq> EWOULDBLOCK then (Throws (fail ps ''reading from the serial port'' e), w1)
          else wait_for_input ps fd deadline received w1)"

partial_function (option) read_loop ::
    "'o posix \<Rightarrow> int \<Rightarrow> nat \<Rightarrow> int \<Rightarrow> u8 list \<Rightarrow> bool \<Rightarrow> 'o \<Rightarrow> ((thrown + u8 list) \<times> 'o) option" where
  "read_loop ps fd len deadline received polledReadable w =
     (if len \<le> length received then Some (Inr received, w)
      else case read_turn ps fd len deadline received polledReadable w of
             (Throws e, w1) \<Rightarrow> Some (Inl e, w1)
           | (Leaves, w1) \<Rightarrow> Some (Inr received, w1)
           | (GoesOn (received1, polledReadable1), w1) \<Rightarrow> read_loop ps fd len deadline received1 polledReadable1 w1)"

definition sp_read :: "'o posix \<Rightarrow> serial_port \<Rightarrow> nat \<Rightarrow> int \<Rightarrow> 'o \<Rightarrow> ((thrown + u8 list) \<times> 'o) option" where
  "sp_read ps p len timeout w =
     (let (now, w1) = sys_now ps w in read_loop ps (sp_fd p) len (now + timeout * 10 ^ 6) [] False w1)"

section \<open>Writing\<close>

definition kNanosecondsMax :: int where "kNanosecondsMax = 2 ^ 63 - 1"

definition wait_for_room :: "'o posix \<Rightarrow> int \<Rightarrow> int option \<Rightarrow> nat \<Rightarrow> 'o \<Rightarrow> nat turn \<times> 'o" where
  "wait_for_room ps fd deadline sent w =
     (let (remaining, w1) =
            (case deadline of None \<Rightarrow> (kNanosecondsMax, w) | Some d \<Rightarrow> (case sys_now ps w of (now, w1) \<Rightarrow> (d - now, w1)))
      in if remaining \<le> 0 then (Leaves, w1)
         else (case waitReady ps fd POLLOUT remaining ''waiting to send on the serial port'' w1 of
                 (Inl e, w2) \<Rightarrow> (Throws e, w2)
               | (Inr r, w2) \<Rightarrow> if r = TimedOut then (Leaves, w2) else (GoesOn sent, w2)))"

definition write_turn :: "'o posix \<Rightarrow> int \<Rightarrow> u8 list \<Rightarrow> int option \<Rightarrow> nat \<Rightarrow> 'o \<Rightarrow> nat turn \<times> 'o" where
  "write_turn ps fd data deadline sent w =
     (case sys_write ps fd (drop sent data) w of
        (Inr n, w1) \<Rightarrow> if 0 < n then (GoesOn (sent + n), w1) else wait_for_room ps fd deadline sent w1
      | (Inl e, w1) \<Rightarrow>
          if e = EINTR then (GoesOn sent, w1)
          else if e \<noteq> EAGAIN \<and> e \<noteq> EWOULDBLOCK then (Throws (fail ps ''writing to the serial port'' e), w1)
          else wait_for_room ps fd deadline sent w1)"

partial_function (option) write_loop ::
    "'o posix \<Rightarrow> int \<Rightarrow> u8 list \<Rightarrow> int option \<Rightarrow> nat \<Rightarrow> 'o \<Rightarrow> ((thrown + nat) \<times> 'o) option" where
  "write_loop ps fd data deadline sent w =
     (if length data \<le> sent then Some (Inr sent, w)
      else case write_turn ps fd data deadline sent w of
             (Throws e, w1) \<Rightarrow> Some (Inl e, w1)
           | (Leaves, w1) \<Rightarrow> Some (Inr sent, w1)
           | (GoesOn sent1, w1) \<Rightarrow> write_loop ps fd data deadline sent1 w1)"

text \<open>A time-out of zero has no deadline.\<close>

definition sp_write :: "'o posix \<Rightarrow> serial_port \<Rightarrow> u8 list \<Rightarrow> int \<Rightarrow> 'o \<Rightarrow> ((thrown + nat) \<times> 'o) option" where
  "sp_write ps p data timeout w =
     (let (now, w1) = sys_now ps w
      in write_loop ps (sp_fd p) data (if timeout = 0 then None else Some (now + timeout * 10 ^ 6)) 0 w1)"

section \<open>Draining\<close>

definition past_deadline :: "'o posix \<Rightarrow> int option \<Rightarrow> 'o \<Rightarrow> bool \<times> 'o" where
  "past_deadline ps deadline w =
     (case deadline of None \<Rightarrow> (False, w) | Some d \<Rightarrow> (case sys_now ps w of (now, w1) \<Rightarrow> (d \<le> now, w1)))"

text \<open>A byte's time on the wire, in whole microseconds.\<close>

definition byte_time :: "serial_port \<Rightarrow> int" where
  "byte_time p = 10 ^ 6 * int kWireBitsPerByte div uint (sp_baudrate p) * 10 ^ 3"

text \<open>Whether the output queue emptied, or could not be read, in time.\<close>

partial_function (option) queue_loop :: "'o posix \<Rightarrow> serial_port \<Rightarrow> int option \<Rightarrow> 'o \<Rightarrow> (bool \<times> 'o) option" where
  "queue_loop ps p deadline w =
     (case sys_outq ps (sp_fd p) w of
        (None, w1) \<Rightarrow> Some (True, w1)
      | (Some queued, w1) \<Rightarrow>
          if queued = 0 then Some (True, w1)
          else (case past_deadline ps deadline w1 of
                  (late, w2) \<Rightarrow>
                    if late then Some (False, w2)
                    else queue_loop ps p deadline (sys_sleep ps (byte_time p * int queued) w2)))"

partial_function (option) tcdrain_loop :: "'o posix \<Rightarrow> serial_port \<Rightarrow> 'o \<Rightarrow> ((thrown + bool) \<times> 'o) option" where
  "tcdrain_loop ps p w =
     (case sys_tcdrain ps (sp_fd p) w of
        (Inr _, w1) \<Rightarrow> Some (Inr True, w1)
      | (Inl e, w1) \<Rightarrow> if e \<noteq> EINTR then Some (Inl (fail ps ''draining the serial port'' e), w1) else tcdrain_loop ps p w1)"

definition sp_drain :: "'o posix \<Rightarrow> serial_port \<Rightarrow> int \<Rightarrow> 'o \<Rightarrow> ((thrown + bool) \<times> 'o) option" where
  "sp_drain ps p timeout w =
     (let (now, w1) = sys_now ps w in
      case queue_loop ps p (if timeout = 0 then None else Some (now + timeout * 10 ^ 6)) w1 of
        None \<Rightarrow> None
      | Some (emptied, w2) \<Rightarrow> if emptied then tcdrain_loop ps p w2 else Some (Inr False, w2))"

end
