(* ===== verification/PosixReads.thy ===== *)
theory PosixReads
  imports PosixSerial
begin

text \<open>
  What the loops of the POSIX serial port guarantee on any system that keeps the documented contracts of
  \<open>read\<close>, \<open>write\<close> and \<open>poll\<close>, with a line whose bytes arrive in bursts as a system to run them on.
\<close>

section \<open>Contracts of the system calls\<close>

text \<open>All bytes ever taken out of the input queue: only \<open>read\<close> takes any, those it returns.\<close>

definition honest_input :: "'o posix \<Rightarrow> ('o \<Rightarrow> u8 list) \<Rightarrow> bool" where
  "honest_input ps taken \<longleftrightarrow>
     (\<forall>fd n w. case sys_read ps fd n w of
        (Inr bs, w') \<Rightarrow> length bs \<le> n \<and> taken w' = taken w @ bs | (Inl e, w') \<Rightarrow> taken w' = taken w) \<and>
     (\<forall>fd f ms w. taken (snd (sys_poll ps fd f ms w)) = taken w) \<and> (\<forall>w. taken (snd (sys_now ps w)) = taken w)"

text \<open>All bytes ever put into the output queue: only \<open>write\<close> puts any, a prefix of those it is given.\<close>

definition honest_output :: "'o posix \<Rightarrow> ('o \<Rightarrow> u8 list) \<Rightarrow> bool" where
  "honest_output ps given \<longleftrightarrow>
     (\<forall>fd bs w. case sys_write ps fd bs w of
        (Inr n, w') \<Rightarrow> n \<le> length bs \<and> given w' = given w @ take n bs | (Inl e, w') \<Rightarrow> given w' = given w) \<and>
     (\<forall>fd f ms w. given (snd (sys_poll ps fd f ms w)) = given w) \<and> (\<forall>w. given (snd (sys_now ps w)) = given w) \<and>
     (\<forall>fd w. given (snd (sys_outq ps fd w)) = given w \<and> given (snd (sys_tcdrain ps fd w)) = given w) \<and>
     (\<forall>t w. given (sys_sleep ps t w) = given w)"

text \<open>
  Signals still to come: each interrupted call uses one up. The line itself answers a \<open>read\<close> without data with
  zero bytes, as a terminal does when both \<open>VMIN\<close> and \<open>VTIME\<close> are zero.
\<close>

definition finitely_interrupted :: "'o posix \<Rightarrow> ('o \<Rightarrow> nat) \<Rightarrow> bool" where
  "finitely_interrupted ps signals \<longleftrightarrow>
     (\<forall>fd n w. case sys_read ps fd n w of
        (Inr bs, w') \<Rightarrow> signals w' \<le> signals w
      | (Inl e, w') \<Rightarrow> e \<noteq> EAGAIN \<and> e \<noteq> EWOULDBLOCK \<and> (e = EINTR \<longrightarrow> signals w' < signals w)) \<and>
     (\<forall>fd f ms w. case sys_poll ps fd f ms w of
        (Inr _, w') \<Rightarrow> signals w' \<le> signals w | (Inl e, w') \<Rightarrow> e = EINTR \<longrightarrow> signals w' < signals w) \<and>
     (\<forall>w. signals (snd (sys_now ps w)) \<le> signals w)"

section \<open>Reading\<close>

lemma honest_calls:
  assumes "honest_input ps taken"
  shows "sys_read ps fd n w = (Inr bs, w') \<Longrightarrow> length bs \<le> n \<and> taken w' = taken w @ bs"
    and "sys_read ps fd n w = (Inl e, w') \<Longrightarrow> taken w' = taken w"
    and "sys_poll ps fd f ms w = (x, w') \<Longrightarrow> taken w' = taken w" and "sys_now ps w = (now, w') \<Longrightarrow> taken w' = taken w"
proof -
  note h = assms [unfolded honest_input_def]
  show "sys_read ps fd n w = (Inr bs, w') \<Longrightarrow> length bs \<le> n \<and> taken w' = taken w @ bs"
    "sys_read ps fd n w = (Inl e, w') \<Longrightarrow> taken w' = taken w"
    using spec [OF spec [OF spec [OF conjunct1 [OF h], of fd], of n], of w] by simp_all
  show "sys_poll ps fd f ms w = (x, w') \<Longrightarrow> taken w' = taken w" "sys_now ps w = (now, w') \<Longrightarrow> taken w' = taken w"
    using conjunct2 [OF h] by (metis snd_conv)+
qed

lemma waitReady_keeps: "honest_input ps taken \<Longrightarrow> waitReady ps fd f remaining context w = (x, w') \<Longrightarrow> taken w' = taken w"
  by (auto simp: waitReady_def dest: honest_calls(3) split: prod.splits sum.splits if_splits)

lemma wait_for_input_keeps:
  assumes "honest_input ps taken" and "wait_for_input ps fd deadline received w = (x, w')"
  shows "taken w' = taken w \<and> (\<forall>r b. x = GoesOn (r, b) \<longrightarrow> r = received)"
  using assms honest_calls(4) [OF assms(1)] waitReady_keeps [OF assms(1)]
  by (auto simp: wait_for_input_def split: prod.splits sum.splits if_splits)

lemma read_turn_result:
  assumes "honest_input ps taken" and "read_turn ps fd len deadline received polled w = (x, w')" and "length received < len"
  shows "case x of GoesOn (r, b) \<Rightarrow> (\<exists>bs. r = received @ bs \<and> taken w' = taken w @ bs \<and> length r \<le> len) | _ \<Rightarrow> taken w' = taken w"
proof -
  obtain y w1 where y: "sys_read ps fd (len - length received) w = (y, w1)" by fastforce
  show ?thesis
  proof (cases y)
    case (Inr bs)
    then have "length bs \<le> len - length received \<and> taken w1 = taken w @ bs" using honest_calls(1) [OF assms(1)] y by blast
    then show ?thesis
      using assms(2,3) y Inr wait_for_input_keeps [OF assms(1), of fd deadline received w1 x w']
      by (auto simp: read_turn_def split: turn.splits if_splits)
  next
    case (Inl e)
    then have "taken w1 = taken w" using honest_calls(2) [OF assms(1)] y by blast
    then show ?thesis
      using assms(2,3) y Inl wait_for_input_keeps [OF assms(1), of fd deadline received w1 x w']
      by (auto simp: read_turn_def split: turn.splits if_splits)
  qed
qed

lemma read_loop_result:
  assumes "honest_input ps taken" and "read_loop ps fd len deadline received polled w = Some (r, w')" and "length received \<le> len"
  shows "\<exists>bs. taken w' = taken w @ bs \<and> (\<forall>got. r = Inr got \<longrightarrow> got = received @ bs \<and> length got \<le> len)"
proof -
  have "read_loop ps fd len deadline received polled w = Some y \<Longrightarrow> honest_input ps taken \<longrightarrow> length received \<le> len \<longrightarrow>
      (\<exists>bs. taken (snd y) = taken w @ bs \<and> (\<forall>got. fst y = Inr got \<longrightarrow> got = received @ bs \<and> length got \<le> len))" for y
  proof (induction rule: read_loop.raw_induct [rotated, consumes 1, case_names step])
    case (step loop ps fd len deadline received polled w y)
    show ?case
    proof (intro impI)
      assume h: "honest_input ps taken" "length received \<le> len"
      show "\<exists>bs. taken (snd y) = taken w @ bs \<and> (\<forall>got. fst y = Inr got \<longrightarrow> got = received @ bs \<and> length got \<le> len)"
      proof (cases "len \<le> length received")
        case True
        then show ?thesis using step(2) h(2) by auto
      next
        case False
        then have l: "length received < len" by simp
        obtain x w1 where x: "read_turn ps fd len deadline received polled w = (x, w1)" by fastforce
        note t = read_turn_result [OF h(1) x l]
        show ?thesis
        proof (cases x)
          case (GoesOn rb)
          obtain r b where rb: "rb = (r, b)" by fastforce
          from t GoesOn rb obtain bs where bs: "r = received @ bs" "taken w1 = taken w @ bs" "length r \<le> len" by auto
          have "loop ps fd len deadline r b w1 = Some y" using step(2) x l GoesOn rb by simp
          from step(1) [OF this] h(1) bs(3) obtain more where
            "taken (snd y) = taken w1 @ more" "\<forall>got. fst y = Inr got \<longrightarrow> got = r @ more \<and> length got \<le> len" by blast
          then show ?thesis using bs by (intro exI [of _ "bs @ more"]) simp
        qed (use step(2) x l t h(2) in auto)
      qed
    qed
  qed
  from this [OF assms(2)] assms(1,3) show ?thesis by simp
qed

section \<open>Writing\<close>

lemma honest_output_calls:
  assumes "honest_output ps given"
  shows "sys_write ps fd bs w = (Inr n, w') \<Longrightarrow> n \<le> length bs \<and> given w' = given w @ take n bs"
    and "sys_write ps fd bs w = (Inl e, w') \<Longrightarrow> given w' = given w"
    and "sys_poll ps fd f ms w = (x, w') \<Longrightarrow> given w' = given w" and "sys_now ps w = (now, w') \<Longrightarrow> given w' = given w"
    and "sys_outq ps fd w = (q, w') \<Longrightarrow> given w' = given w" and "sys_tcdrain ps fd w = (d, w') \<Longrightarrow> given w' = given w"
    and "given (sys_sleep ps t w) = given w"
proof -
  note h = assms [unfolded honest_output_def]
  show "sys_write ps fd bs w = (Inr n, w') \<Longrightarrow> n \<le> length bs \<and> given w' = given w @ take n bs"
    "sys_write ps fd bs w = (Inl e, w') \<Longrightarrow> given w' = given w"
    using spec [OF spec [OF spec [OF conjunct1 [OF h], of fd], of bs], of w] by simp_all
  show "sys_poll ps fd f ms w = (x, w') \<Longrightarrow> given w' = given w" "sys_now ps w = (now, w') \<Longrightarrow> given w' = given w"
    "sys_outq ps fd w = (q, w') \<Longrightarrow> given w' = given w" "sys_tcdrain ps fd w = (d, w') \<Longrightarrow> given w' = given w"
    "given (sys_sleep ps t w) = given w"
    using conjunct2 [OF h] by (metis snd_conv)+
qed

lemma waitReady_output: "honest_output ps given \<Longrightarrow> waitReady ps fd f remaining context w = (x, w') \<Longrightarrow> given w' = given w"
  by (auto simp: waitReady_def dest: honest_output_calls(3) split: prod.splits sum.splits if_splits)

lemma wait_for_room_keeps:
  assumes "honest_output ps given" and "wait_for_room ps fd deadline sent w = (x, w')"
  shows "given w' = given w \<and> (\<forall>n. x = GoesOn n \<longrightarrow> n = sent)"
  using assms honest_output_calls(4) [OF assms(1)] waitReady_output [OF assms(1)]
  by (cases deadline) (auto simp: wait_for_room_def split: prod.splits sum.splits if_splits)

lemma write_turn_result:
  assumes "honest_output ps given" and "write_turn ps fd data deadline sent w = (x, w')" and "sent < length data"
  shows "case x of GoesOn n \<Rightarrow> given w' = given w @ take (n - sent) (drop sent data) \<and> sent \<le> n \<and> n \<le> length data
    | _ \<Rightarrow> given w' = given w"
proof -
  obtain y w1 where y: "sys_write ps fd (drop sent data) w = (y, w1)" by fastforce
  have waits: ?thesis if "wait_for_room ps fd deadline sent w1 = (x, w')" and "given w1 = given w"
    using wait_for_room_keeps [OF assms(1) that(1)] that(2) assms(3) by (cases x) simp_all
  show ?thesis
  proof (cases y)
    case (Inr n)
    then have n: "n \<le> length (drop sent data)" "given w1 = given w @ take n (drop sent data)"
      using honest_output_calls(1) [OF assms(1)] y by blast+
    show ?thesis
    proof (cases "0 < n")
      case True
      then have "x = GoesOn (sent + n)" "w' = w1" using assms(2) y Inr by (simp_all add: write_turn_def)
      then show ?thesis using n assms(3) by simp
    next
      case False
      then show ?thesis using waits n assms(2) y Inr by (simp add: write_turn_def)
    qed
  next
    case (Inl e)
    then have e: "given w1 = given w" using honest_output_calls(2) [OF assms(1)] y by blast
    show ?thesis
    proof (cases "e = EINTR")
      case True
      then have "x = GoesOn sent" "w' = w1" using assms(2) y Inl by (simp_all add: write_turn_def)
      then show ?thesis using e assms(3) by simp
    next
      case False
      show ?thesis
      proof (cases "e = EAGAIN \<or> e = EWOULDBLOCK")
        case True
        then have "wait_for_room ps fd deadline sent w1 = (x, w')" using assms(2) y Inl by (auto simp: write_turn_def)
        then show ?thesis using waits e by blast
      next
        case other: False
        then have "x = Throws (fail ps ''writing to the serial port'' e)" "w' = w1"
          using assms(2) y Inl False by (simp_all add: write_turn_def)
        then show ?thesis using e by simp
      qed
    qed
  qed
qed

lemma write_loop_result:
  assumes "honest_output ps given" and "write_loop ps fd data deadline sent w = Some (r, w')" and "sent \<le> length data"
  shows "\<exists>n \<ge> sent. n \<le> length data \<and> given w' = given w @ take (n - sent) (drop sent data) \<and> (\<forall>m. r = Inr m \<longrightarrow> m = n)"
proof -
  have "write_loop ps fd data deadline sent w = Some y \<Longrightarrow> honest_output ps given \<longrightarrow> sent \<le> length data \<longrightarrow>
      (\<exists>n \<ge> sent. n \<le> length data \<and> given (snd y) = given w @ take (n - sent) (drop sent data) \<and>
        (\<forall>m. fst y = Inr m \<longrightarrow> m = n))" for y
  proof (induction rule: write_loop.raw_induct [rotated, consumes 1, case_names step])
    case (step loop ps fd data deadline sent w y)
    show ?case
    proof (intro impI)
      assume h: "honest_output ps given" "sent \<le> length data"
      show "\<exists>n \<ge> sent. n \<le> length data \<and> given (snd y) = given w @ take (n - sent) (drop sent data) \<and>
          (\<forall>m. fst y = Inr m \<longrightarrow> m = n)"
      proof (cases "length data \<le> sent")
        case True
        then have "y = (Inr sent, w)" "sent = length data" using step(2) h(2) by simp_all
        then show ?thesis by (intro exI [of _ sent]) simp
      next
        case False
        then have l: "sent < length data" by simp
        obtain x w1 where x: "write_turn ps fd data deadline sent w = (x, w1)" by fastforce
        note t = write_turn_result [OF h(1) x l]
        show ?thesis
        proof (cases x)
          case (GoesOn k)
          then have k: "given w1 = given w @ take (k - sent) (drop sent data)" "sent \<le> k" "k \<le> length data" using t by auto
          have "loop ps fd data deadline k w1 = Some y" using step(2) x l GoesOn by simp
          from step(1) [OF this] h(1) k(3) obtain n where n: "k \<le> n" "n \<le> length data"
            "given (snd y) = given w1 @ take (n - k) (drop k data)" "\<forall>m. fst y = Inr m \<longrightarrow> m = n" by auto
          have "take (k - sent) (drop sent data) @ take (n - k) (drop k data) = take (n - sent) (drop sent data)"
            using k(2) n(1) take_add [of "k - sent" "n - k" "drop sent data"] by simp
          then show ?thesis using k n by (intro exI [of _ n]) simp
        next
          case (Throws e)
          then have "y = (Inl e, w1)" "given w1 = given w" using step(2) x l t by simp_all
          then show ?thesis using h(2) by (intro exI [of _ sent]) simp
        next
          case Leaves
          then have "y = (Inr sent, w1)" "given w1 = given w" using step(2) x l t by simp_all
          then show ?thesis using h(2) by (intro exI [of _ sent]) simp
        qed
      qed
    qed
  qed
  from this [OF assms(2)] assms(1,3) show ?thesis by simp
qed

section \<open>Returning\<close>

lemma interrupted_calls:
  assumes "finitely_interrupted ps signals"
  shows "sys_read ps fd n w = (Inr bs, w') \<Longrightarrow> signals w' \<le> signals w"
    and "sys_read ps fd n w = (Inl e, w') \<Longrightarrow> e \<noteq> EAGAIN \<and> e \<noteq> EWOULDBLOCK \<and> (e = EINTR \<longrightarrow> signals w' < signals w)"
    and "sys_poll ps fd f ms w = (Inr v, w') \<Longrightarrow> signals w' \<le> signals w"
    and "sys_poll ps fd f ms w = (Inl EINTR, w') \<Longrightarrow> signals w' < signals w"
    and "sys_now ps w = (now, w') \<Longrightarrow> signals w' \<le> signals w"
proof -
  note h = assms [unfolded finitely_interrupted_def]
  show "sys_read ps fd n w = (Inr bs, w') \<Longrightarrow> signals w' \<le> signals w"
    "sys_read ps fd n w = (Inl e, w') \<Longrightarrow> e \<noteq> EAGAIN \<and> e \<noteq> EWOULDBLOCK \<and> (e = EINTR \<longrightarrow> signals w' < signals w)"
    using spec [OF spec [OF spec [OF conjunct1 [OF h], of fd], of n], of w] by simp_all
  show "sys_poll ps fd f ms w = (Inr v, w') \<Longrightarrow> signals w' \<le> signals w"
    "sys_poll ps fd f ms w = (Inl EINTR, w') \<Longrightarrow> signals w' < signals w"
    using spec [OF spec [OF spec [OF spec [OF conjunct1 [OF conjunct2 [OF h]], of fd], of f], of ms], of w] by simp_all
  show "sys_now ps w = (now, w') \<Longrightarrow> signals w' \<le> signals w" using conjunct2 [OF conjunct2 [OF h]] by (metis snd_conv)
qed

lemma waitReady_signals:
  assumes "finitely_interrupted ps signals" and "waitReady ps fd f remaining context w = (Inr x, w')"
  shows "signals w' \<le> signals w \<and> (x = Interrupted \<longrightarrow> signals w' < signals w)"
proof -
  obtain y w1 where y: "sys_poll ps fd f (min (ceil_ms remaining) (2 ^ 31 - 1)) w = (y, w1)" by fastforce
  show ?thesis
  proof (cases y)
    case (Inl e)
    then show ?thesis using assms(2) y interrupted_calls(4) [OF assms(1)] by (fastforce simp: waitReady_def split: if_splits)
  next
    case (Inr v)
    then show ?thesis using assms(2) y interrupted_calls(3) [OF assms(1)] by (auto simp: waitReady_def split: prod.splits if_splits)
  qed
qed

text \<open>Each turn that goes on takes bytes, uses up a signal, or has learnt that the port is readable.\<close>

definition turns_left :: "('o \<Rightarrow> nat) \<Rightarrow> nat \<Rightarrow> u8 list \<Rightarrow> bool \<Rightarrow> 'o \<Rightarrow> nat" where
  "turns_left signals len received polled w = (len - length received) + 2 * signals w + (if polled then 0 else 1)"

lemma wait_for_input_signals:
  assumes "finitely_interrupted ps signals" and "wait_for_input ps fd deadline received w = (GoesOn (r, b), w')"
  shows "r = received \<and> signals w' \<le> signals w \<and> (b \<or> signals w' < signals w)"
proof -
  obtain now w1 where now: "sys_now ps w = (now, w1)" by fastforce
  obtain x w2 where x: "waitReady ps fd POLLIN (deadline - now) ''waiting for serial input'' w1 = (x, w2)" by fastforce
  obtain y where y: "x = Inr y" "y \<noteq> TimedOut" "r = received" "b = (y = Ready)" "w' = w2"
    using assms(2) now x by (auto simp: wait_for_input_def split: if_splits sum.splits)
  show ?thesis
    using y interrupted_calls(5) [OF assms(1) now] waitReady_signals [OF assms(1) x [unfolded y(1)]] by (cases y) auto
qed

lemma read_turn_decreases:
  assumes "finitely_interrupted ps signals" and "read_turn ps fd len deadline received polled w = (GoesOn (r, b), w')"
    and "length received < len"
  shows "turns_left signals len r b w' < turns_left signals len received polled w"
proof -
  obtain y w1 where y: "sys_read ps fd (len - length received) w = (y, w1)" by fastforce
  show ?thesis
  proof (cases y)
    case (Inr bs)
    have s: "signals w1 \<le> signals w" using interrupted_calls(1) [OF assms(1)] y Inr by blast
    show ?thesis
    proof (cases "bs = []")
      case True
      then show ?thesis
        using assms(2) y Inr s wait_for_input_signals [OF assms(1), of fd deadline received w1 r b w']
        by (auto simp: read_turn_def turns_left_def split: if_splits)
    next
      case False
      then have r: "r = received @ bs" "b = polled" "w' = w1" using assms(2) y Inr by (auto simp: read_turn_def)
      have "len - length (received @ bs) < len - length received" using False assms(3) by (intro diff_less_mono2) auto
      then show ?thesis using s unfolding r turns_left_def by linarith
    qed
  next
    case (Inl e)
    then show ?thesis
      using assms(2) y interrupted_calls(2) [OF assms(1), of fd "len - length received" w e w1]
      by (auto simp: read_turn_def turns_left_def split: if_splits)
  qed
qed

lemma read_loop_returns:
  assumes "finitely_interrupted ps signals"
  shows "\<exists>y. read_loop ps fd len deadline received polled w = Some y"
proof (induction "turns_left signals len received polled w" arbitrary: received polled w rule: less_induct)
  case less
  show ?case
  proof (cases "len \<le> length received")
    case True
    then show ?thesis by (simp add: read_loop.simps)
  next
    case False
    obtain x w1 where x: "read_turn ps fd len deadline received polled w = (x, w1)" by fastforce
    show ?thesis
    proof (cases x)
      case (GoesOn rb)
      obtain r b where rb: "rb = (r, b)" by fastforce
      have "turns_left signals len r b w1 < turns_left signals len received polled w"
        using read_turn_decreases [OF assms] x GoesOn rb False by simp
      from less(1) [OF this] show ?thesis using x GoesOn rb False by (simp add: read_loop.simps [of ps fd len deadline received])
    qed (use x False in \<open>auto simp: read_loop.simps\<close>)
  qed
qed

section \<open>A line whose bytes arrive in bursts\<close>

record line =
  ln_now :: int
  ln_due :: "(int \<times> u8 list) list"
  ln_queue :: "u8 list"
  ln_taken :: "u8 list"
  ln_given :: "u8 list"

definition arrive :: "line \<Rightarrow> line" where
  "arrive l = l\<lparr>ln_queue := ln_queue l @ concat (map snd (takeWhile (\<lambda>b. fst b \<le> ln_now l) (ln_due l))),
     ln_due := dropWhile (\<lambda>b. fst b \<le> ln_now l) (ln_due l)\<rparr>"

definition line_read :: "int \<Rightarrow> nat \<Rightarrow> line \<Rightarrow> (errno + u8 list) \<times> line" where
  "line_read fd n l = (let l1 = arrive l; bs = take n (ln_queue l1)
     in (Inr bs, l1\<lparr>ln_queue := drop n (ln_queue l1), ln_taken := ln_taken l1 @ bs\<rparr>))"

definition line_poll :: "int \<Rightarrow> poll_flag \<Rightarrow> int \<Rightarrow> line \<Rightarrow> (errno + int \<times> poll_flag set) \<times> line" where
  "line_poll fd f ms l =
     (if f \<noteq> POLLIN then (Inr (1, {f}), l)
      else if ln_queue (arrive l) \<noteq> [] then (Inr (1, {POLLIN}), arrive l)
      else case ln_due (arrive l) of
             (t, b) # _ \<Rightarrow>
               if t \<le> ln_now l + ms * 10 ^ 6 then (Inr (1, {POLLIN}), (arrive l)\<lparr>ln_now := t\<rparr>)
               else (Inr (0, {}), (arrive l)\<lparr>ln_now := ln_now l + ms * 10 ^ 6\<rparr>)
           | [] \<Rightarrow> (Inr (0, {}), (arrive l)\<lparr>ln_now := ln_now l + ms * 10 ^ 6\<rparr>))"

definition cooked :: termios where
  "cooked = \<lparr>c_iflag = {ICRNL, IXON}, c_oflag = {OPOST}, c_lflag = {ISIG, ICANON, ECHO}, c_cflag = {CREAD, CRTSCTS},
     c_size = CS7, c_vmin = 1, c_vtime = 0, c_ispeed = None, c_ospeed = None\<rparr>"

definition line_system :: "line posix" where
  "line_system = \<lparr>sys_open = (\<lambda>port flags l. (Inr 3, l)), sys_close = (\<lambda>fd l. l), sys_read = line_read,
     sys_write = (\<lambda>fd bs l. (Inr (length bs), l\<lparr>ln_given := ln_given l @ bs\<rparr>)), sys_poll = line_poll,
     sys_ioctl = (\<lambda>fd r l. l), sys_outq = (\<lambda>fd l. (Some 0, l)), sys_tcdrain = (\<lambda>fd l. (Inr (), l)),
     sys_tcgetattr = (\<lambda>fd l. (Inr cooked, l)), sys_tcsetattr = (\<lambda>fd tty l. (Inr (), l)),
     sys_cfsetispeed = (\<lambda>s tty. Inr (tty\<lparr>c_ispeed := Some s\<rparr>)), sys_cfsetospeed = (\<lambda>s tty. Inr (tty\<lparr>c_ospeed := Some s\<rparr>)),
     sys_now = (\<lambda>l. (ln_now l, l)), sys_sleep = (\<lambda>t l. l\<lparr>ln_now := ln_now l + t\<rparr>), sys_message = (\<lambda>e. ''error'')\<rparr>"

lemma line_honest: "honest_input line_system ln_taken" "honest_output line_system ln_given"
    "finitely_interrupted line_system (\<lambda>_. 0)"
  by (auto simp: honest_input_def honest_output_def finitely_interrupted_def line_system_def line_read_def line_poll_def arrive_def
      Let_def split: list.split)

definition burst_line :: "(int \<times> u8 list) list \<Rightarrow> line" where
  "burst_line due = \<lparr>ln_now = 0, ln_due = due, ln_queue = [], ln_taken = [], ln_given = []\<rparr>"

section \<open>Properties\<close>

text \<open>
  C5 No byte is lost, made up or reordered by a read that returns, on any system that keeps the contract of the
  calls and however often they are interrupted: it returns exactly the bytes it took, and no more than asked.
\<close>

theorem read_returns_what_it_took:
  assumes "honest_input ps taken" and "sp_read ps p len timeout w = Some (Inr bytes, w')"
  shows "taken w' = taken w @ bytes \<and> length bytes \<le> len"
proof -
  obtain now w1 where now: "sys_now ps w = (now, w1)" by fastforce
  then have "read_loop ps (sp_fd p) len (now + timeout * 10 ^ 6) [] False w1 = Some (Inr bytes, w')"
    using assms(2) by (simp add: sp_read_def)
  from read_loop_result [OF assms(1) this] honest_calls(4) [OF assms(1) now] show ?thesis by auto
qed

theorem read_returns_what_it_took_witness:
  "sp_read line_system new_serial_port 2 50 (burst_line [(5, [7, 8, 9])]) = Some (Inr [7, 8],
     \<lparr>ln_now = 5, ln_due = [], ln_queue = [9], ln_taken = [7, 8], ln_given = []\<rparr>) \<and> length [7 :: u8, 8] \<le> 2"
proof -
  have r: "sp_read line_system new_serial_port 2 50 (burst_line [(5, [7, 8, 9])]) = Some (Inr [7, 8],
      \<lparr>ln_now = 5, ln_due = [], ln_queue = [9], ln_taken = [7, 8], ln_given = []\<rparr>)"
    by (simp add: sp_read_def read_loop.simps read_turn_def wait_for_input_def waitReady_def line_system_def line_read_def
        line_poll_def arrive_def burst_line_def new_serial_port_def ceil_ms_def Let_def)
  with read_returns_what_it_took [OF line_honest(1) r] show ?thesis by simp
qed

text \<open>
  A read always returns, by a result or an exception, on a terminal set up as \<open>configure\<close> sets it and with
  finitely many signals to come: every turn of its loop takes bytes, uses up a signal, or is the last but one.
\<close>

theorem read_always_returns:
  assumes "finitely_interrupted ps signals"
  shows "\<exists>r w'. sp_read ps p len timeout w = Some (r, w')"
  using read_loop_returns [OF assms] by (simp add: sp_read_def split: prod.split)

theorem read_always_returns_witness: "\<exists>r w'. sp_read line_system new_serial_port 100 50 (burst_line [(5, [7, 8, 9])]) = Some (r, w')"
  by (rule read_always_returns [OF line_honest(3)])

text \<open>
  What a read makes of an answer that is not there yet: when the first burst to arrive completes it, that is
  returned, but when more of it is still to come the read reports that the other end hung up, and the
  bytes already taken are lost.
\<close>

theorem read_of_a_late_answer:
  assumes "a \<noteq> []" and "0 < t1" and "t1 \<le> timeout * 10 ^ 6" and "t1 < t2" and "timeout < 2 ^ 31" and "0 < len"
  shows "\<exists>l. sp_read line_system p len timeout (burst_line [(t1, a), (t2, b)]) =
      Some (if len \<le> length a then Inr (take len a) else Inl (failHungUp ''reading from the serial port''), l) \<and>
    ln_taken l = take len a"
proof -
  have "0 < timeout" using assms(2,3) by simp
  then have ms: "ceil_ms (timeout * 10 ^ 6) = timeout" "min timeout (2 ^ 31 - 1) = timeout"
    using assms(5) by (simp_all add: ceil_ms_def flip: mult_minus_left)
  obtain x as where a: "a = x # as" using assms(1) by (cases a) auto
  have t: "take len a \<noteq> []" using assms(1,6) by simp
  show ?thesis
    using assms ms t \<open>0 < timeout\<close>
    by (auto simp: sp_read_def read_loop.simps read_turn_def wait_for_input_def waitReady_def line_system_def line_read_def
        line_poll_def arrive_def burst_line_def Let_def failHungUp_def)
qed

text \<open>An answer of six bytes in two pieces, two milliseconds apart.\<close>

theorem read_of_a_late_answer_witness:
  "\<exists>l. sp_read line_system new_serial_port 6 50 (burst_line [(3000000, [1, 2, 3, 4]), (5000000, [5, 6])]) =
     Some (Inl (serial_io_exception ''reading from the serial port: the other end hung up''), l) \<and> ln_taken l = [1, 2, 3, 4]"
  using read_of_a_late_answer [of "[1, 2, 3, 4]" 3000000 50 5000000 6 new_serial_port "[5, 6]"] by (simp add: failHungUp_def)

end
