(* ===== verification/DefaultSerial.thy ===== *)
theory DefaultSerial
  imports PosixReads
begin

text \<open>
  The built-in \<open>Serial\<close> (\<open>src/detail/default_serial.cpp\<close>) over the POSIX port, with the FTDI latency timer it
  sets through the file system, which is a record of functions on the same state of the system.
\<close>

section \<open>State\<close>

record serial_config =
  sc_port :: string
  sc_baudrate :: u32
  sc_timeout :: int
  sc_latencyTimerMs :: int

definition default_serial_config :: "string \<Rightarrow> serial_config" where
  "default_serial_config port = \<lparr>sc_port = port, sc_baudrate = 115200, sc_timeout = 500, sc_latencyTimerMs = 1\<rparr>"

record 'o files =
  fs_canonical :: "string \<Rightarrow> 'o \<Rightarrow> string option"
  fs_exists :: "string \<Rightarrow> 'o \<Rightarrow> bool"
  fs_read_int :: "string \<Rightarrow> 'o \<Rightarrow> int option"
  fs_write :: "string \<Rightarrow> string \<Rightarrow> 'o \<Rightarrow> bool option \<times> 'o"

record 'o default_serial =
  ds_port :: "serial_port option"
  ds_config :: serial_config
  ds_log :: log
  ds_os :: 'o

definition makeDefaultSerial :: "serial_config \<Rightarrow> log \<Rightarrow> 'o \<Rightarrow> 'o default_serial" where
  "makeDefaultSerial config l w = \<lparr>ds_port = None, ds_config = config, ds_log = l, ds_os = w\<rparr>"

definition ds_say :: "log_level \<Rightarrow> string \<Rightarrow> 'o default_serial \<Rightarrow> 'o default_serial" where
  "ds_say level message s = s\<lparr>ds_log := log_line level message (ds_log s)\<rparr>"

section \<open>The latency timer\<close>

definition filename :: "string \<Rightarrow> string" where
  "filename path = rev (takeWhile (\<lambda>c. c \<noteq> CHR ''/'') (rev path))"

definition latencyTimerPath :: "'o files \<Rightarrow> string \<Rightarrow> string \<Rightarrow> 'o \<Rightarrow> string" where
  "latencyTimerPath fs port sysfsDevices w =
     (case fs_canonical fs port w of
        None \<Rightarrow> ''''
      | Some device \<Rightarrow>
          let attribute = sysfsDevices @ ''/'' @ filename device @ ''/latency_timer''
          in if fs_exists fs attribute w then attribute else '''')"

definition decimal_int :: "int \<Rightarrow> string" where
  "decimal_int i = (if i < 0 then ''-'' @ decimal (nat (- i)) else decimal (nat i))"

text \<open>Whether the timer now has the value: it is written only when it does not already.\<close>

definition applyLatencyTimer :: "'o files \<Rightarrow> string \<Rightarrow> 'o default_serial \<Rightarrow> bool \<times> 'o default_serial" where
  "applyLatencyTimer fs path s =
     (let wanted = sc_latencyTimerMs (ds_config s) in
      if fs_read_int fs path (ds_os s) = Some wanted then (True, s)
      else case fs_write fs path (decimal_int wanted) (ds_os s) of
             (None, w) \<Rightarrow> (False, s\<lparr>ds_os := w\<rparr>)
           | (Some good, w) \<Rightarrow> (good, s\<lparr>ds_os := w\<rparr>))"

definition set_latency :: "'o files \<Rightarrow> 'o default_serial \<Rightarrow> 'o default_serial" where
  "set_latency fs s =
     (let ms = sc_latencyTimerMs (ds_config s); port = sc_port (ds_config s) in
      if 0 < ms then
        let timerPath = latencyTimerPath fs port ''/sys/bus/usb-serial/devices'' (ds_os s) in
        if timerPath = ''''
        then ds_say LevelDebug (port @ '' is not an FTDI adapter; no latency_timer to set.'') s
        else case applyLatencyTimer fs timerPath s of
               (True, s1) \<Rightarrow>
                 ds_say LevelInfo (''FTDI latency_timer set to '' @ decimal_int ms @ '' ms on '' @ port @ ''.'') s1
             | (False, s1) \<Rightarrow>
                 ds_say LevelWarn (''Could not set FTDI latency_timer to '' @ decimal_int ms @ '' ms on '' @ port @
                   ''. Modbus cycle latency may be ~3x higher than expected (the kernel default '' @
                   ''is 16 ms). Either run with permissions to write '' @
                   ''/sys/bus/usb-serial/devices/<dev>/latency_timer, or ship a udev rule that '' @
                   ''sets it at plug time.'') s1
      else s)"

section \<open>Operations\<close>

definition ds_open :: "'o posix \<Rightarrow> 'o files \<Rightarrow> 'o default_serial \<Rightarrow> (thrown + unit) \<times> 'o default_serial" where
  "ds_open ps fs s =
     (let config = ds_config s in
      if ds_port s \<noteq> None
      then (Inr (), ds_say LevelDebug (''open() called on '' @ sc_port config @ '' but the port is already open; ignoring.'') s)
      else if sc_port config = ''''
      then (Inl (serial_io_exception ''Cannot open serial port: port path is empty''), s)
      else
        let s1 = ds_say LevelDebug (''opening serial port '' @ quoted (sc_port config) @ '' at '' @
                   decimal (unat (sc_baudrate config)) @ '' baud'') s
        in case sp_open ps (sc_port config) (sc_baudrate config) new_serial_port (ds_os s1) of
             (Inl e, p, w) \<Rightarrow> (Inl e, s1\<lparr>ds_os := snd (sp_close ps p w)\<rparr>)
           | (Inr _, p, w) \<Rightarrow> (Inr (), set_latency fs (s1\<lparr>ds_os := w, ds_port := Some p\<rparr>)))"

definition ds_isOpen :: "'o default_serial \<Rightarrow> bool" where
  "ds_isOpen s \<longleftrightarrow> ds_port s \<noteq> None"

definition ds_close :: "'o posix \<Rightarrow> 'o default_serial \<Rightarrow> 'o default_serial" where
  "ds_close ps s =
     (case ds_port s of None \<Rightarrow> s | Some p \<Rightarrow> s\<lparr>ds_port := None, ds_os := snd (sp_close ps p (ds_os s))\<rparr>)"

definition ds_read :: "'o posix \<Rightarrow> nat \<Rightarrow> int \<Rightarrow> 'o default_serial \<Rightarrow> ((thrown + u8 list) \<times> 'o default_serial) option" where
  "ds_read ps n timeout s =
     (case ds_port s of
        None \<Rightarrow> Some (Inl (serial_io_exception ''read called on closed port''), s)
      | Some p \<Rightarrow> map_option (\<lambda>(r, w). (r, s\<lparr>ds_os := w\<rparr>)) (sp_read ps p n timeout (ds_os s)))"

definition ds_write :: "'o posix \<Rightarrow> u8 list \<Rightarrow> 'o default_serial \<Rightarrow> ((thrown + unit) \<times> 'o default_serial) option" where
  "ds_write ps data s =
     (case ds_port s of
        None \<Rightarrow> Some (Inl (serial_io_exception ''write called on closed port''), s)
      | Some p \<Rightarrow>
          (case sp_write ps p data (sc_timeout (ds_config s)) (ds_os s) of
             None \<Rightarrow> None
           | Some (Inl e, w) \<Rightarrow> Some (Inl e, s\<lparr>ds_os := w\<rparr>)
           | Some (Inr written, w) \<Rightarrow>
               if written < length data
               then Some (Inl (serial_io_exception (''write timeout: wrote '' @ decimal written @ '' of '' @
                      decimal (length data) @ '' bytes'')), s\<lparr>ds_os := w\<rparr>)
               else (case sp_drain ps p (sc_timeout (ds_config s)) w of
                       None \<Rightarrow> None
                     | Some (Inl e, w1) \<Rightarrow> Some (Inl e, s\<lparr>ds_os := w1\<rparr>)
                     | Some (Inr drained, w1) \<Rightarrow>
                         Some (if drained then Inr () else
                           Inl (serial_io_exception ''write timeout: the bytes written did not drain''), s\<lparr>ds_os := w1\<rparr>))))"

definition ds_getTimeout :: "'o default_serial \<Rightarrow> int" where
  "ds_getTimeout s = sc_timeout (ds_config s)"

text \<open>As a \<open>Serial\<close>; on a system that never lets a call return, the result is no value in particular.\<close>

definition posix_serial :: "'o posix \<Rightarrow> 'o files \<Rightarrow> 'o default_serial serial" where
  "posix_serial ps fs = \<lparr>ser_open = ds_open ps fs, ser_isOpen = ds_isOpen, ser_close = ds_close ps,
     ser_read = (\<lambda>n t s. the (ds_read ps n t s)), ser_write = (\<lambda>bs s. the (ds_write ps bs s)),
     ser_getTimeout = ds_getTimeout\<rparr>"

section \<open>What the calls of the system keep\<close>

text \<open>A fact about the system that no call on an open descriptor changes.\<close>

definition unchanged :: "'o posix \<Rightarrow> ('o \<Rightarrow> 'a) \<Rightarrow> bool" where
  "unchanged ps g \<longleftrightarrow>
     (\<forall>fd w. g (snd (sys_outq ps fd w)) = g w \<and> g (snd (sys_tcdrain ps fd w)) = g w) \<and>
     (\<forall>w. g (snd (sys_now ps w)) = g w) \<and> (\<forall>t w. g (sys_sleep ps t w) = g w)"

definition unchanged_by_io :: "'o posix \<Rightarrow> ('o \<Rightarrow> 'a) \<Rightarrow> bool" where
  "unchanged_by_io ps g \<longleftrightarrow> unchanged ps g \<and> (\<forall>fd n w. g (snd (sys_read ps fd n w)) = g w) \<and>
     (\<forall>fd bs w. g (snd (sys_write ps fd bs w)) = g w) \<and> (\<forall>fd f ms w. g (snd (sys_poll ps fd f ms w)) = g w)"

lemma unchanged_calls:
  assumes "unchanged ps g"
  shows "sys_outq ps fd w = (x, w') \<Longrightarrow> g w' = g w" and "sys_tcdrain ps fd w = (y, w') \<Longrightarrow> g w' = g w"
    and "sys_now ps w = (z, w') \<Longrightarrow> g w' = g w" and "g (sys_sleep ps t w) = g w"
  using assms unfolding unchanged_def by (metis snd_conv)+

lemma past_deadline_keeps: "unchanged ps g \<Longrightarrow> past_deadline ps deadline w = (b, w') \<Longrightarrow> g w' = g w"
  by (auto simp: past_deadline_def dest: unchanged_calls(3) split: option.splits prod.splits)

lemma queue_loop_keeps:
  assumes "unchanged ps g" and "queue_loop ps p deadline w = Some (b, w')"
  shows "g w' = g w"
proof -
  have "queue_loop ps p deadline w = Some y \<Longrightarrow> unchanged ps g \<longrightarrow> g (snd y) = g w" for y
  proof (induction rule: queue_loop.raw_induct [rotated, consumes 1, case_names step])
    case (step loop ps p deadline w y)
    obtain q w1 where q: "sys_outq ps (sp_fd p) w = (q, w1)" by fastforce
    obtain late w2 where late: "past_deadline ps deadline w1 = (late, w2)" by fastforce
    show ?case
    proof
      assume u: "unchanged ps g"
      have w: "g w1 = g w" "g w2 = g w1" using unchanged_calls(1) [OF u q] past_deadline_keeps [OF u late] by auto
      show "g (snd y) = g w"
      proof (cases "q = None \<or> q = Some 0 \<or> late")
        case True
        then have "snd y = w1 \<or> snd y = w2" using step(2) q late by (cases q) (auto split: if_splits)
        then show ?thesis using w by auto
      next
        case False
        then obtain n where n: "q = Some n" "n \<noteq> 0" by (cases q) auto
        have "loop ps p deadline (sys_sleep ps (byte_time p * int n) w2) = Some y" using step(2) q late n False by simp
        from step(1) [OF this] u w unchanged_calls(4) [OF u] show ?thesis by simp
      qed
    qed
  qed
  from this [OF assms(2)] assms(1) show ?thesis by simp
qed

lemma tcdrain_loop_keeps:
  assumes "unchanged ps g" and "tcdrain_loop ps p w = Some (b, w')"
  shows "g w' = g w"
proof -
  have "tcdrain_loop ps p w = Some y \<Longrightarrow> unchanged ps g \<longrightarrow> g (snd y) = g w" for y
  proof (induction rule: tcdrain_loop.raw_induct [rotated, consumes 1, case_names step])
    case (step loop ps p w y)
    obtain q w1 where q: "sys_tcdrain ps (sp_fd p) w = (q, w1)" by fastforce
    show ?case
    proof
      assume u: "unchanged ps g"
      show "g (snd y) = g w"
      proof (cases "q = Inl EINTR")
        case True
        then have "loop ps p w1 = Some y" using step(2) q by simp
        from step(1) [OF this] u unchanged_calls(2) [OF u q] show ?thesis by simp
      next
        case False
        then have "snd y = w1" using step(2) q by (auto split: sum.splits if_splits)
        then show ?thesis using unchanged_calls(2) [OF u q] by simp
      qed
    qed
  qed
  from this [OF assms(2)] assms(1) show ?thesis by simp
qed

lemma sp_drain_keeps:
  assumes "unchanged ps g" and "sp_drain ps p timeout w = Some (r, w')"
  shows "g w' = g w"
  using assms queue_loop_keeps [OF assms(1)] tcdrain_loop_keeps [OF assms(1)] unchanged_calls(3) [OF assms(1)]
  by (auto simp: sp_drain_def split: prod.splits option.splits if_splits)

lemma output_unchanged: "honest_output ps given \<Longrightarrow> unchanged ps given"
  by (simp add: honest_output_def unchanged_def)

lemma io_calls:
  assumes "unchanged_by_io ps g"
  shows "unchanged ps g" and "sys_read ps fd n w = (x, w') \<Longrightarrow> g w' = g w"
    and "sys_write ps fd bs w = (y, w') \<Longrightarrow> g w' = g w" and "sys_poll ps fd f ms w = (z, w') \<Longrightarrow> g w' = g w"
  using assms unfolding unchanged_by_io_def by (blast, (metis snd_conv)+)

lemma wait_keeps:
  assumes "unchanged_by_io ps g"
  shows "waitReady ps fd f remaining context w = (x, w') \<Longrightarrow> g w' = g w"
  using io_calls(4) [OF assms] by (auto simp: waitReady_def split: prod.splits sum.splits if_splits)

lemma waits_keep:
  assumes "unchanged_by_io ps g"
  shows "wait_for_input ps fd d received w = (x, w') \<Longrightarrow> g w' = g w" and "wait_for_room ps fd dl sent w = (y, w') \<Longrightarrow> g w' = g w"
  using wait_keeps [OF assms] unchanged_calls(3) [OF io_calls(1) [OF assms]]
  by (auto simp: wait_for_input_def wait_for_room_def split: prod.splits sum.splits if_splits option.splits)

lemma read_turn_keeps:
  assumes "unchanged_by_io ps g" and "read_turn ps fd len d received polled w = (x, w')"
  shows "g w' = g w"
proof -
  obtain y w1 where y: "sys_read ps fd (len - length received) w = (y, w1)" by fastforce
  then have "w' = w1 \<or> (\<exists>x. wait_for_input ps fd d received w1 = (x, w'))"
    using assms(2) by (cases y) (auto simp: read_turn_def split: if_splits)
  then show ?thesis using io_calls(2) [OF assms(1) y] waits_keep(1) [OF assms(1)] by fastforce
qed

lemma write_turn_keeps:
  assumes "unchanged_by_io ps g" and "write_turn ps fd data d sent w = (x, w')"
  shows "g w' = g w"
proof -
  obtain y w1 where y: "sys_write ps fd (drop sent data) w = (y, w1)" by fastforce
  have "g w1 = g w" by (rule io_calls(3) [OF assms(1) y])
  moreover have "g (snd (wait_for_room ps fd d sent w1)) = g w1" using waits_keep(2) [OF assms(1)] by (metis prod.collapse)
  ultimately have "g (snd (write_turn ps fd data d sent w)) = g w" by (cases y) (simp_all add: write_turn_def y)
  then show ?thesis using assms(2) by simp
qed

lemma read_loop_keeps:
  assumes "unchanged_by_io ps g" and "read_loop ps fd len d received polled w = Some (r, w')"
  shows "g w' = g w"
proof -
  have "read_loop ps fd len d received polled w = Some y \<Longrightarrow> unchanged_by_io ps g \<longrightarrow> g (snd y) = g w" for y
  proof (induction rule: read_loop.raw_induct [rotated, consumes 1, case_names step])
    case (step loop ps fd len d received polled w y)
    obtain x w1 where x: "read_turn ps fd len d received polled w = (x, w1)" by fastforce
    show ?case
    proof
      assume u: "unchanged_by_io ps g"
      show "g (snd y) = g w"
      proof (cases "\<exists>rb. x = GoesOn rb \<and> \<not> len \<le> length received")
        case True
        then obtain a b where "x = GoesOn (a, b)" "\<not> len \<le> length received" by auto
        then have "loop ps fd len d a b w1 = Some y" using step(2) x by simp
        from step(1) [OF this] u read_turn_keeps [OF u x] show ?thesis by simp
      next
        case False
        then have "snd y = w \<or> snd y = w1" using step(2) x by (cases x) (auto split: if_splits)
        then show ?thesis using read_turn_keeps [OF u x] by auto
      qed
    qed
  qed
  from this [OF assms(2)] assms(1) show ?thesis by simp
qed

lemma write_loop_keeps:
  assumes "unchanged_by_io ps g" and "write_loop ps fd data d sent w = Some (r, w')"
  shows "g w' = g w"
proof -
  have "write_loop ps fd data d sent w = Some y \<Longrightarrow> unchanged_by_io ps g \<longrightarrow> g (snd y) = g w" for y
  proof (induction rule: write_loop.raw_induct [rotated, consumes 1, case_names step])
    case (step loop ps fd data d sent w y)
    obtain x w1 where x: "write_turn ps fd data d sent w = (x, w1)" by fastforce
    show ?case
    proof
      assume u: "unchanged_by_io ps g"
      show "g (snd y) = g w"
      proof (cases "\<exists>n. x = GoesOn n \<and> \<not> length data \<le> sent")
        case True
        then obtain n where "x = GoesOn n" "\<not> length data \<le> sent" by auto
        then have "loop ps fd data d n w1 = Some y" using step(2) x by simp
        from step(1) [OF this] u write_turn_keeps [OF u x] show ?thesis by simp
      next
        case False
        then have "snd y = w \<or> snd y = w1" using step(2) x by (cases x) (auto split: if_splits)
        then show ?thesis using write_turn_keeps [OF u x] by auto
      qed
    qed
  qed
  from this [OF assms(2)] assms(1) show ?thesis by simp
qed

section \<open>The descriptors of the process\<close>

text \<open>What the system calls do to the set of open descriptors.\<close>

definition tracks :: "'o posix \<Rightarrow> 'o files \<Rightarrow> ('o \<Rightarrow> int set) \<Rightarrow> bool" where
  "tracks ps fs fds \<longleftrightarrow> unchanged_by_io ps fds \<and>
     (\<forall>port flags w. case sys_open ps port flags w of
        (Inr fd, w') \<Rightarrow> 0 \<le> fd \<and> fd \<notin> fds w \<and> fds w' = insert fd (fds w) | (Inl e, w') \<Rightarrow> fds w' = fds w) \<and>
     (\<forall>fd w. fds (sys_close ps fd w) = fds w - {fd}) \<and> (\<forall>fd r w. fds (sys_ioctl ps fd r w) = fds w) \<and>
     (\<forall>fd w. fds (snd (sys_tcgetattr ps fd w)) = fds w) \<and> (\<forall>fd t w. fds (snd (sys_tcsetattr ps fd t w)) = fds w) \<and>
     (\<forall>path txt w. fds (snd (fs_write fs path txt w)) = fds w)"

text \<open>The port holds exactly one descriptor while open, and none while closed.\<close>

definition holds_one :: "('o \<Rightarrow> int set) \<Rightarrow> int set \<Rightarrow> 'o default_serial \<Rightarrow> bool" where
  "holds_one fds others s \<longleftrightarrow> (case ds_port s of None \<Rightarrow> fds (ds_os s) = others
     | Some p \<Rightarrow> 0 \<le> sp_fd p \<and> sp_fd p \<notin> others \<and> fds (ds_os s) = insert (sp_fd p) others)"

lemma tracked_calls:
  assumes "tracks ps fs fds"
  shows "unchanged_by_io ps fds" and "sys_open ps port flags w = (Inr fd, w') \<Longrightarrow> 0 \<le> fd \<and> fd \<notin> fds w \<and> fds w' = insert fd (fds w)"
    and "sys_open ps port flags w = (Inl e, w') \<Longrightarrow> fds w' = fds w" and "fds (sys_close ps fd w) = fds w - {fd}"
    and "fds (sys_ioctl ps fd r w) = fds w" and "sys_tcgetattr ps fd w = (a, w') \<Longrightarrow> fds w' = fds w"
    and "sys_tcsetattr ps fd t w = (b, w') \<Longrightarrow> fds w' = fds w" and "fs_write fs path txt w = (c, w') \<Longrightarrow> fds w' = fds w"
proof -
  note h = assms [unfolded tracks_def]
  show "unchanged_by_io ps fds" using h by blast
  show "sys_open ps port flags w = (Inr fd, w') \<Longrightarrow> 0 \<le> fd \<and> fd \<notin> fds w \<and> fds w' = insert fd (fds w)"
    "sys_open ps port flags w = (Inl e, w') \<Longrightarrow> fds w' = fds w"
    using spec [OF spec [OF spec [OF conjunct1 [OF conjunct2 [OF h]], of port], of flags], of w] by simp_all
  show "fds (sys_close ps fd w) = fds w - {fd}" "fds (sys_ioctl ps fd r w) = fds w"
    using conjunct2 [OF conjunct2 [OF h]] by simp_all
  show "sys_tcgetattr ps fd w = (a, w') \<Longrightarrow> fds w' = fds w" "sys_tcsetattr ps fd t w = (b, w') \<Longrightarrow> fds w' = fds w"
    "fs_write fs path txt w = (c, w') \<Longrightarrow> fds w' = fds w"
    using conjunct2 [OF conjunct2 [OF h]] by (metis snd_conv)+
qed

lemma configure_keeps: "tracks ps fs fds \<Longrightarrow> configure ps fd baudrate w = (x, w') \<Longrightarrow> fds w' = fds w"
  by (auto simp: configure_def dest: tracked_calls(6,7) split: option.splits prod.splits sum.splits)

lemma applyLatencyTimer_keeps: "tracks ps fs fds \<Longrightarrow> applyLatencyTimer fs path s = (b, s') \<Longrightarrow>
    ds_port s' = ds_port s \<and> fds (ds_os s') = fds (ds_os s)"
  by (auto simp: applyLatencyTimer_def Let_def dest: tracked_calls(8) split: if_splits prod.splits option.splits)

lemma set_latency_keeps: "tracks ps fs fds \<Longrightarrow> ds_port (set_latency fs s) = ds_port s \<and> fds (ds_os (set_latency fs s)) = fds (ds_os s)"
proof -
  assume t: "tracks ps fs fds"
  obtain b s1 where b: "applyLatencyTimer fs (latencyTimerPath fs (sc_port (ds_config s)) ''/sys/bus/usb-serial/devices'' (ds_os s)) s = (b, s1)"
    by fastforce
  show ?thesis using applyLatencyTimer_keeps [OF t b] by (cases b) (simp_all add: set_latency_def ds_say_def b Let_def)
qed

lemma sp_open_tracked:
  assumes "tracks ps fs fds" and "sp_open ps port baudrate p w = (r, p', w')"
  shows "case r of Inl e \<Rightarrow> p' = p \<and> fds w' = fds w
    | Inr _ \<Rightarrow> 0 \<le> sp_fd p' \<and> sp_fd p' \<notin> fds w \<and> fds w' = insert (sp_fd p') (fds w)"
proof -
  obtain x w1 where x: "sys_open ps port {O_RDWR, O_NOCTTY, O_NONBLOCK, O_CLOEXEC} w = (x, w1)" by fastforce
  show ?thesis
  proof (cases x)
    case (Inl e)
    then show ?thesis using assms(2) x tracked_calls(3) [OF assms(1)] by (auto simp: sp_open_def split: if_splits)
  next
    case (Inr fd)
    obtain y w2 where y: "configure ps fd baudrate w1 = (y, w2)" by fastforce
    show ?thesis
      using assms(2) x Inr y tracked_calls(2) [OF assms(1) x [unfolded Inr]] configure_keeps [OF assms(1) y]
        tracked_calls(4,5) [OF assms(1)]
      by (cases y) (auto simp: sp_open_def applyLineDefaults_def)
  qed
qed

datatype ds_call = OpenPort | ClosePort | ReadPort nat int | WritePort "u8 list"

text \<open>Calls made one after the other, whether they succeed or throw.\<close>

fun ds_run :: "'o posix \<Rightarrow> 'o files \<Rightarrow> ds_call list \<Rightarrow> 'o default_serial \<Rightarrow> 'o default_serial option" where
  "ds_run ps fs [] s = Some s"
| "ds_run ps fs (OpenPort # cs) s = ds_run ps fs cs (snd (ds_open ps fs s))"
| "ds_run ps fs (ClosePort # cs) s = ds_run ps fs cs (ds_close ps s)"
| "ds_run ps fs (ReadPort n t # cs) s = (case ds_read ps n t s of None \<Rightarrow> None | Some (r, s1) \<Rightarrow> ds_run ps fs cs s1)"
| "ds_run ps fs (WritePort bs # cs) s = (case ds_write ps bs s of None \<Rightarrow> None | Some (r, s1) \<Rightarrow> ds_run ps fs cs s1)"

lemma open_holds:
  assumes "tracks ps fs fds" and "holds_one fds others s"
  shows "holds_one fds others (snd (ds_open ps fs s))"
proof (cases "ds_port s = None \<and> sc_port (ds_config s) \<noteq> []")
  case True
  obtain r p w where r: "sp_open ps (sc_port (ds_config s)) (sc_baudrate (ds_config s)) new_serial_port (ds_os s) = (r, p, w)"
    by (metis prod.exhaust)
  show ?thesis
    using True assms(2) r sp_open_tracked [OF assms(1) r] set_latency_keeps [OF assms(1)]
    by (cases r) (auto simp: ds_open_def holds_one_def ds_say_def sp_close_def new_serial_port_def Let_def)
next
  case False
  then show ?thesis using assms(2) by (auto simp: ds_open_def holds_one_def ds_say_def Let_def)
qed

lemma close_holds: "tracks ps fs fds \<Longrightarrow> holds_one fds others s \<Longrightarrow>
    holds_one fds others (ds_close ps s) \<and> ds_port (ds_close ps s) = None"
  using tracked_calls(4,5) [of ps fs fds]
  by (auto simp: ds_close_def holds_one_def sp_close_def split: option.splits)

lemma io_holds:
  assumes "tracks ps fs fds" and "holds_one fds others s"
  shows "ds_read ps n t s = Some (r, s') \<Longrightarrow> holds_one fds others s'" and "ds_write ps bs s = Some (q, s') \<Longrightarrow> holds_one fds others s'"
proof -
  note io = tracked_calls(1) [OF assms(1)]
  note now = unchanged_calls(3) [OF io_calls(1) [OF io]]
  show "holds_one fds others s'" if "ds_read ps n t s = Some (r, s')"
    using that assms(2) read_loop_keeps [OF io] now
    by (auto simp: ds_read_def sp_read_def holds_one_def split: option.splits prod.splits)
  have w: "fds w' = fds w" if "sp_write ps p data timeout w = Some (x, w')" for p data timeout w x w'
    using that write_loop_keeps [OF io] now by (auto simp: sp_write_def split: prod.splits)
  have "ds_port s' = ds_port s \<and> fds (ds_os s') = fds (ds_os s)" if "ds_write ps bs s = Some (q, s')"
    using that w sp_drain_keeps [OF io_calls(1) [OF io]]
    by (auto simp: ds_write_def split: option.splits prod.splits sum.splits if_splits)
  then show "holds_one fds others s'" if "ds_write ps bs s = Some (q, s')"
    using that assms(2) by (auto simp: holds_one_def split: option.splits)
qed

section \<open>Properties\<close>

text \<open>
  The bytes that have left the queue for the line, \<open>sent\<close>, among those ever put into it: a successful \<open>tcdrain\<close> returns
  once they are all of them, as its documentation says.
\<close>

definition drains :: "'o posix \<Rightarrow> ('o \<Rightarrow> u8 list) \<Rightarrow> ('o \<Rightarrow> u8 list) \<Rightarrow> bool" where
  "drains ps given sent \<longleftrightarrow> (\<forall>fd w. case sys_tcdrain ps fd w of (Inr _, w') \<Rightarrow> sent w' = given w' | _ \<Rightarrow> True)"

lemma queue_emptied:
  assumes "unchanged ps g" and "queue_loop ps p deadline w = Some (True, w')"
  shows "\<exists>w1 q. sys_outq ps (sp_fd p) w1 = (q, w') \<and> (q = None \<or> q = Some 0) \<and> g w1 = g w"
proof -
  have "queue_loop ps p deadline w = Some y \<Longrightarrow> unchanged ps g \<and> fst y \<longrightarrow>
      (\<exists>w1 q. sys_outq ps (sp_fd p) w1 = (q, snd y) \<and> (q = None \<or> q = Some 0) \<and> g w1 = g w)" for y
  proof (induction rule: queue_loop.raw_induct [rotated, consumes 1, case_names step])
    case (step loop ps p deadline w y)
    obtain q w1 where q: "sys_outq ps (sp_fd p) w = (q, w1)" by fastforce
    obtain late w2 where late: "past_deadline ps deadline w1 = (late, w2)" by fastforce
    show ?case
    proof
      assume u: "unchanged ps g \<and> fst y"
      show "\<exists>w1 q. sys_outq ps (sp_fd p) w1 = (q, snd y) \<and> (q = None \<or> q = Some 0) \<and> g w1 = g w"
      proof (cases "q = None \<or> q = Some 0")
        case True
        then have "snd y = w1" using step(2) q by (cases q) auto
        then show ?thesis using q True by blast
      next
        case False
        then obtain n where n: "q = Some n" "n \<noteq> 0" by (cases q) auto
        then have "\<not> late" using step(2) q late u by (cases late) auto
        then have "loop ps p deadline (sys_sleep ps (byte_time p * int n) w2) = Some y" using step(2) q late n by simp
        from step(1) [OF this] u obtain w3 q' where "sys_outq ps (sp_fd p) w3 = (q', snd y)" "q' = None \<or> q' = Some 0"
          "g w3 = g (sys_sleep ps (byte_time p * int n) w2)" by blast
        moreover have "g (sys_sleep ps (byte_time p * int n) w2) = g w"
          using u unchanged_calls(1) [OF _ q] past_deadline_keeps [OF _ late] unchanged_calls(4) by metis
        ultimately show ?thesis by metis
      qed
    qed
  qed
  from this [OF assms(2)] assms(1) show ?thesis by simp
qed

lemma tcdrain_succeeds: "tcdrain_loop ps p w = Some (Inr b, w') \<Longrightarrow> \<exists>w1. sys_tcdrain ps (sp_fd p) w1 = (Inr (), w')"
proof -
  have "tcdrain_loop ps p w = Some y \<Longrightarrow> \<not> isl (fst y) \<longrightarrow> (\<exists>w1. sys_tcdrain ps (sp_fd p) w1 = (Inr (), snd y))" for y
  proof (induction rule: tcdrain_loop.raw_induct [rotated, consumes 1, case_names step])
    case (step loop ps p w y)
    obtain q w1 where q: "sys_tcdrain ps (sp_fd p) w = (q, w1)" by fastforce
    show ?case
    proof (cases q)
      case (Inl e)
      then show ?thesis using step q by (cases "e = EINTR") auto
    next
      case (Inr u)
      then show ?thesis using step(2) q by auto
    qed
  qed
  then show "tcdrain_loop ps p w = Some (Inr b, w') \<Longrightarrow> \<exists>w1. sys_tcdrain ps (sp_fd p) w1 = (Inr (), w')" by fastforce
qed

text \<open>
  C25 A write that succeeds has put every byte into the port, once and in order, and has waited for them to leave: with all
  of them given, a look at the output queue found it empty or could not be made, the drain after it succeeded, and when
  the write returns nothing that was ever given has not left. A short write or a queue that does not drain is always an
  exception.
\<close>

theorem successful_write_is_complete:
  assumes "honest_output ps given" and "drains ps given sent" and "ds_write ps data s = Some (Inr (), s')"
  shows "given (ds_os s') = given (ds_os s) @ data \<and> sent (ds_os s') = given (ds_os s) @ data \<and>
    (\<exists>p w1 q w2. ds_port s = Some p \<and> sys_outq ps (sp_fd p) w1 = (q, w2) \<and> (q = None \<or> q = Some 0) \<and>
      given w1 = given (ds_os s) @ data \<and> tcdrain_loop ps p w2 = Some (Inr True, ds_os s'))"
proof -
  note quiet = output_unchanged [OF assms(1)]
  obtain p where p: "ds_port s = Some p" using assms(3) by (auto simp: ds_write_def split: option.splits)
  obtain n w where w: "sp_write ps p data (sc_timeout (ds_config s)) (ds_os s) = Some (Inr n, w)" "length data \<le> n"
    and d: "sp_drain ps p (sc_timeout (ds_config s)) w = Some (Inr True, ds_os s')"
    using assms(3) p by (auto simp: ds_write_def split: option.splits prod.splits sum.splits if_splits)
  obtain now w1 where now: "sys_now ps (ds_os s) = (now, w1)" by fastforce
  obtain deadline where "write_loop ps (sp_fd p) data deadline 0 w1 = Some (Inr n, w)"
    using w(1) now by (auto simp: sp_write_def)
  from write_loop_result [OF assms(1) this] w(2) have "given w = given w1 @ data" by auto
  then have put: "given w = given (ds_os s) @ data" using honest_output_calls(4) [OF assms(1) now] by simp
  obtain now2 w2 where now2: "sys_now ps w = (now2, w2)" by fastforce
  obtain w3 where q: "queue_loop ps p (if sc_timeout (ds_config s) = 0 then None
        else Some (now2 + sc_timeout (ds_config s) * 10 ^ 6)) w2 = Some (True, w3)"
    and t: "tcdrain_loop ps p w3 = Some (Inr True, ds_os s')"
    using d now2 by (auto simp: sp_drain_def Let_def split: option.splits prod.splits if_splits)
  have "given w2 = given (ds_os s) @ data" using put unchanged_calls(3) [OF quiet now2] by simp
  with queue_emptied [OF quiet q] t p have look: "\<exists>p w1 q w2. ds_port s = Some p \<and> sys_outq ps (sp_fd p) w1 = (q, w2) \<and>
      (q = None \<or> q = Some 0) \<and> given w1 = given (ds_os s) @ data \<and> tcdrain_loop ps p w2 = Some (Inr True, ds_os s')"
    by metis
  obtain w4 where "sys_tcdrain ps (sp_fd p) w4 = (Inr (), ds_os s')" using tcdrain_succeeds [OF t] by blast
  then have "sent (ds_os s') = given (ds_os s')"
    using spec [OF spec [OF assms(2) [unfolded drains_def], of "sp_fd p"], of w4] by simp
  then show ?thesis using put look sp_drain_keeps [OF quiet d] by simp
qed

text \<open>A line with a queue that empties while the writer sleeps: the bytes queued and those that have left.\<close>

definition queue_system :: "(u8 list \<times> u8 list) posix" where
  "queue_system = (let leave = (\<lambda>(queue, left). ([], left @ queue)) in \<lparr>sys_open = (\<lambda>port flags w. (Inr 3, w)),
     sys_close = (\<lambda>fd w. w), sys_read = (\<lambda>fd n w. (Inr [], w)),
     sys_write = (\<lambda>fd bs (queue, left). (Inr (min 2 (length bs)), queue @ take 2 bs, left)),
     sys_poll = (\<lambda>fd f ms w. (Inr (1, {f}), w)), sys_ioctl = (\<lambda>fd r w. w), sys_outq = (\<lambda>fd w. (Some (length (fst w)), w)),
     sys_tcdrain = (\<lambda>fd w. (Inr (), leave w)), sys_tcgetattr = (\<lambda>fd w. (Inr cooked, w)), sys_tcsetattr = (\<lambda>fd tty w. (Inr (), w)),
     sys_cfsetispeed = (\<lambda>s tty. Inr tty), sys_cfsetospeed = (\<lambda>s tty. Inr tty), sys_now = (\<lambda>w. (0, w)),
     sys_sleep = (\<lambda>t. leave), sys_message = (\<lambda>e. ''error'')\<rparr>)"

theorem successful_write_is_complete_witness:
  "\<exists>s'. ds_write queue_system [1, 2, 3] ((makeDefaultSerial (default_serial_config ''/dev/ttyUSB0'') []
      ([9], [8]))\<lparr>ds_port := Some new_serial_port\<rparr>) = Some (Inr (), s') \<and> ds_os s' = ([], [8, 9, 1, 2, 3])"
proof -
  let ?s = "(makeDefaultSerial (default_serial_config ''/dev/ttyUSB0'') [] ([9 :: u8], [8 :: u8]))\<lparr>ds_port := Some new_serial_port\<rparr>"
  have honest: "honest_output queue_system (\<lambda>(queue, left). left @ queue)" "drains queue_system (\<lambda>(queue, left). left @ queue) snd"
    by (auto simp: honest_output_def drains_def queue_system_def Let_def min_def)
  have w: "ds_write queue_system [1, 2, 3] ?s = Some (Inr (), ?s\<lparr>ds_os := ([], [8, 9, 1, 2, 3])\<rparr>)"
    by (simp add: ds_write_def sp_write_def write_loop.simps write_turn_def sp_drain_def queue_loop.simps tcdrain_loop.simps
        queue_system_def makeDefaultSerial_def default_serial_config_def past_deadline_def Let_def)
  from successful_write_is_complete [OF honest w] show ?thesis using w by simp
qed

text \<open>
  The port never leaks a descriptor nor closes one that is not its own: after any sequence of calls, failed
  ones included, it holds exactly one descriptor while open and none while closed, on top of those the
  process had.
\<close>

theorem descriptors_never_leak:
  assumes "tracks ps fs fds" and "ds_run ps fs calls (makeDefaultSerial config l w) = Some s"
  shows "holds_one fds (fds w) s \<and> fds (ds_os (ds_close ps s)) = fds w"
proof -
  have "holds_one fds (fds w) s" if "holds_one fds (fds w) s0" "ds_run ps fs calls s0 = Some s" for s0
    using that
  proof (induction calls arbitrary: s0)
    case (Cons c cs)
    then show ?case
      using open_holds [OF assms(1) Cons.prems(1)] close_holds [OF assms(1) Cons.prems(1)] io_holds [OF assms(1) Cons.prems(1)]
      by (cases c; auto split: option.splits prod.splits; blast)
  qed simp
  moreover have "holds_one fds (fds w) (makeDefaultSerial config l w)" by (simp add: holds_one_def makeDefaultSerial_def)
  ultimately have "holds_one fds (fds w) s" using assms(2) by blast
  with close_holds [OF assms(1) this] show ?thesis by (auto simp: holds_one_def)
qed

text \<open>A system that only counts descriptors.\<close>

definition descriptor_system :: "int set posix" where
  "descriptor_system = \<lparr>sys_open = (\<lambda>port flags w. if 3 \<in> w then (Inl EIO, w) else (Inr 3, insert 3 w)),
     sys_close = (\<lambda>fd w. w - {fd}), sys_read = (\<lambda>fd n w. (Inr [], w)), sys_write = (\<lambda>fd bs w. (Inr (length bs), w)),
     sys_poll = (\<lambda>fd f ms w. (Inr (0, {}), w)), sys_ioctl = (\<lambda>fd r w. w), sys_outq = (\<lambda>fd w. (None, w)),
     sys_tcdrain = (\<lambda>fd w. (Inr (), w)), sys_tcgetattr = (\<lambda>fd w. (Inr cooked, w)), sys_tcsetattr = (\<lambda>fd tty w. (Inr (), w)),
     sys_cfsetispeed = (\<lambda>s tty. Inr tty), sys_cfsetospeed = (\<lambda>s tty. Inr tty), sys_now = (\<lambda>w. (0, w)),
     sys_sleep = (\<lambda>t w. w), sys_message = (\<lambda>e. ''error'')\<rparr>"

definition no_files :: "'o files" where
  "no_files = \<lparr>fs_canonical = (\<lambda>p w. None), fs_exists = (\<lambda>p w. False), fs_read_int = (\<lambda>p w. None), fs_write = (\<lambda>p t w. (None, w))\<rparr>"

theorem descriptors_never_leak_witness:
  "\<exists>s. ds_run descriptor_system no_files [OpenPort, OpenPort, ReadPort 8 0, WritePort [1], ClosePort, OpenPort]
      (makeDefaultSerial (default_serial_config ''/dev/ttyUSB0'') [] {0, 1, 2}) = Some s \<and>
    ds_isOpen s \<and> ds_os (ds_close descriptor_system s) = {0, 1, 2}"
proof -
  have t: "tracks descriptor_system no_files (\<lambda>w. w)"
    by (simp add: tracks_def unchanged_by_io_def unchanged_def descriptor_system_def no_files_def)
  obtain s where s: "ds_run descriptor_system no_files [OpenPort, OpenPort, ReadPort 8 0, WritePort [1], ClosePort, OpenPort]
      (makeDefaultSerial (default_serial_config ''/dev/ttyUSB0'') [] {0, 1, 2}) = Some s" "ds_isOpen s"
    by (simp add: ds_open_def ds_close_def ds_read_def ds_write_def sp_open_def sp_close_def sp_read_def sp_write_def sp_drain_def
        read_loop.simps write_loop.simps queue_loop.simps tcdrain_loop.simps read_turn_def write_turn_def wait_for_input_def
        configure_def set_speeds_def baudConstant_def applyLineDefaults_def set_latency_def latencyTimerPath_def
        descriptor_system_def no_files_def makeDefaultSerial_def default_serial_config_def new_serial_port_def ds_say_def
        ds_isOpen_def Let_def)
  with descriptors_never_leak [OF t s(1)] show ?thesis by blast
qed


end
