(* ===== verification/Connection.thy ===== *)
theory Connection
  imports Frequency ClientCycle DefaultSerial
begin

text \<open>
  How a gripper is connected to: the configuration (\<open>gripper/connection_config.hpp\<close>), the constructors from it
  over the built-in serial port (\<open>src/default_serial_factory.cpp\<close>) and the factory of the simulated gripper
  (\<open>src/fake/gripper_factory.cpp\<close>). What
  the simulated device promises is carried through the exchange thread and the waits to the caller.
\<close>

section \<open>Configuration\<close>

definition kDefaultModbusSlaveAddress :: u8 where "kDefaultModbusSlaveAddress = 0x09"

record connection_config =
  cc_serial :: serial_config
  modbusSlaveAddress :: u8
  connectionFrequency :: double

definition default_connection_config :: "string \<Rightarrow> connection_config" where
  "default_connection_config port = \<lparr>cc_serial = default_serial_config port,
     modbusSlaveAddress = kDefaultModbusSlaveAddress, connectionFrequency = Fin 100\<rparr>"

section \<open>The built-in serial port\<close>

definition toHex :: "u8 \<Rightarrow> string" where
  "toHex v = (let digits = ''0123456789ABCDEF''
     in ''0x'' @ [digits ! unat (drop_bit 4 v AND 0x0F), digits ! unat (v AND 0x0F)])"

definition makeSerial :: "connection_config \<Rightarrow> 'o \<Rightarrow> log \<Rightarrow> 'o default_serial" where
  "makeSerial config w l =
     makeDefaultSerial (cc_serial config)
       (log_line LevelInfo (''connecting to a gripper on '' @ sc_port (cc_serial config) @ '' at '' @
          decimal (unat (sc_baudrate (cc_serial config))) @ '' bps, Modbus slave address '' @
          toHex (modbusSlaveAddress config)) l) w"

text \<open>The arguments of the delegated constructor are evaluated from left to right here.\<close>

definition connectGripper :: "'o posix \<Rightarrow> 'o files \<Rightarrow> connection_config \<Rightarrow> 'o \<Rightarrow> int \<Rightarrow> gs_event list list \<Rightarrow> log \<Rightarrow>
    (thrown + 'o default_serial modbus_client gripper_state) option" where
  "connectGripper ps fs config w now sched l =
     (let serial = makeSerial config w l in
      case exchangePeriodFromFrequency (connectionFrequency config) of
        None \<Rightarrow> None
      | Some (Inl e) \<Rightarrow> Some (Inl e)
      | Some (Inr period) \<Rightarrow>
          Some (case makeModbusClient (posix_serial ps fs) serial (modbusSlaveAddress config) l of
             Inl e \<Rightarrow> Inl e
           | Inr client \<Rightarrow> makeGripper (client_link (posix_serial ps fs)) client period (Some (True, True)) now sched))"

definition connectClient :: "'o posix \<Rightarrow> 'o files \<Rightarrow> connection_config \<Rightarrow> 'o \<Rightarrow> log \<Rightarrow> thrown + 'o default_serial modbus_client" where
  "connectClient ps fs config w l =
     makeModbusClient (posix_serial ps fs) (makeSerial config w l) (modbusSlaveAddress config) l"

section \<open>The simulated gripper\<close>

text \<open>Free-running means the highest frequency, as no wire paces the exchanges.\<close>

definition fake_frequency :: "double \<Rightarrow> log \<Rightarrow> thrown + double \<times> log" where
  "fake_frequency requested l =
     (case clampFrequency requested of
        Inl e \<Rightarrow> Inl e
      | Inr supported \<Rightarrow>
          let frequency = if d_eq supported (Fin 0) then kMaxFrequency else supported;
              l' = (if d_less (Fin 0) requested \<and> \<not> d_eq frequency requested
                    then log_line LevelWarn (''requested exchange frequency '' @ double_to_string requested @
                      '' Hz is outside the fake gripper's '' @ double_to_string kMinFrequency @ '' to '' @
                      double_to_string kMaxFrequency @ '' Hz range; using '' @ double_to_string frequency @ '' Hz'') l
                    else l)
          in Inr (frequency, l'))"

text \<open>The hosted platform gives a mutex and a condition variable.\<close>

definition makeFakeGripper :: "other_codes \<Rightarrow> connection_config \<Rightarrow> int \<Rightarrow> gs_event list list \<Rightarrow> log \<Rightarrow>
    (thrown + fake_gripper modbus_client gripper_state) option" where
  "makeFakeGripper other config now sched l =
     (case fake_frequency (connectionFrequency config) l of
        Inl e \<Rightarrow> Some (Inl e)
      | Inr (frequency, l') \<Rightarrow>
          (case makeFakeSerial (modbusSlaveAddress config) l' of
             Inl e \<Rightarrow> Some (Inl e)
           | Inr serial \<Rightarrow>
               (case exchangePeriodFromFrequency frequency of
                  None \<Rightarrow> None
                | Some (Inl e) \<Rightarrow> Some (Inl e)
                | Some (Inr period) \<Rightarrow>
                    Some (case makeModbusClient (fake_serial other) serial (modbusSlaveAddress config) l' of
                       Inl e \<Rightarrow> Inl e
                     | Inr client \<Rightarrow>
                         makeGripper (client_link (fake_serial other)) client period (Some (True, True)) now sched))))"

section \<open>A link that keeps the promise\<close>

definition device_ok :: "u8 \<Rightarrow> fake_gripper modbus_client \<Rightarrow> bool" where
  "device_ok u m \<longleftrightarrow> stack_idle u m \<and> faultStatus (rm_status (gripper_model m)) = 0"

lemma device_exchange:
  assumes "device_ok u m"
  shows "\<exists>st m'. exchange (fake_serial other) c m = (Inr st, m') \<and> device_ok u m' \<and> promised_status c 0 st"
proof -
  obtain st m' where x: "exchange (fake_serial other) c m = (Inr st, m')" "stack_idle u m'" "promised_status c 0 st"
      "same_documented st (rm_status (gripper_model m'))"
    using exchange_promised [of u m other c] assms by (auto simp: device_ok_def)
  then have "faultStatus (rm_status (gripper_model m')) = 0"
    by (simp add: same_documented_iff promised_status_def Let_def split: if_splits)
  with x show ?thesis by (auto simp: device_ok_def)
qed

text \<open>The exchange thread over such a link: no failure, and every status held or published is promised.\<close>

fun no_failure :: "pc \<Rightarrow> bool" where
  "no_failure (CountFailure e) = False"
| "no_failure (TurnFaulted e) = False"
| "no_failure (LoggingFault e) = False"
| "no_failure (LoggingFailure e) = False"
| "no_failure LoggingRecovery = False"
| "no_failure (Publishing c st t r) = (\<not> r)"
| "no_failure _ = True"

definition promising :: "u8 \<Rightarrow> fake_gripper modbus_client gripper_state \<Rightarrow> bool" where
  "promising u g \<longleftrightarrow> device_ok u (gs_client g) \<and> gs_failures g = 0 \<and> gs_connectionState g = Operational \<and>
     no_failure (gs_pc g) \<and> (\<forall>c st. in_flight (gs_pc g) = Some (c, st) \<longrightarrow> promised_status c 0 st) \<and>
     (let x = im_stamped (gs_image g) in 0 < exchangeCount x \<longrightarrow> promised_status (x_command x) 0 (x_status x))"

interpretation device: writable_invariant "client_link (fake_serial other)" "\<lambda>_. True" "promising u"
  for other and u :: u8
proof
  fix e g assume p: "promising u g"
  show "promising u (step (client_link (fake_serial other)) e g)"
  proof (cases "e = ThreadStep")
    case True
    show ?thesis
    proof (cases "gs_pc g")
      case (Exchanging c)
      then show ?thesis
        using p True device_exchange [of u "gs_client g" other c]
        by (auto simp: promising_def step_def thread_step_def exchangeOnce_step_def client_link_def)
    next
      case (Publishing c st t r)
      then show ?thesis
        using p True by (auto simp: promising_def step_def thread_step_def exchangeOnce_step_def publish_def)
    qed (use p True in \<open>auto simp: promising_def step_def thread_step_def exchangeOnce_step_def\<close>)
  next
    case False
    then show ?thesis
      using p by (cases e) (auto simp: promising_def step_def gs_setCommand_def im_setCommand_def closeImage_def im_close_def)
  qed
qed (auto simp: promising_def gs_setCommand_def im_setCommand_def)

lemma device_K [simp]: "device.K u g \<longleftrightarrow> promising u g"
  by (simp add: device.K_def)

section \<open>The factory\<close>

lemma fake_frequency_supported:
  assumes "d_le (Fin 0) hz"
  shows "\<exists>frequency l' period. fake_frequency hz l = Inr (frequency, l') \<and>
    exchangePeriodFromFrequency frequency = Some (Inr period) \<and> 0 \<le> period"
proof -
  obtain m where m: "kMinFrequency = Fin m" "1 / 20 \<le> m" "1 / 10 - 2 / 2 ^ 53 \<le> m" "m \<le> 1"
    by (rule kMinFrequency_obtain)
  have "\<exists>f. clampFrequency hz = Inr (Fin f) \<and> (f = 0 \<or> m \<le> f \<and> f \<le> 1000)"
    using assms clampFrequency_positive [of hz m] folded_range [of m hz] m
    by (cases "d_less (Fin 0) hz") (auto simp: clampFrequency_def d_le_def d_eq_def)
  then obtain f where f: "clampFrequency hz = Inr (Fin f)" "f = 0 \<or> m \<le> f \<and> f \<le> 1000" by blast
  define f' where "f' = (if f = 0 then 1000 else f)"
  have f': "m \<le> f'" "f' \<le> 1000" using f(2) m(4) by (auto simp: f'_def)
  have "\<exists>l'. fake_frequency hz l = Inr (Fin f', l')"
    using f(1) by (auto simp: fake_frequency_def f'_def d_eq_def kMaxFrequency_def Let_def)
  moreover have "clampFrequency (Fin f') = Inr (Fin f')"
    using clampFrequency_positive [of "Fin f'" m] f' m by (simp add: folded_def)
  then have "exchangePeriodFromFrequency (Fin f') = Some (Inr (away (nearest (1000000 / f'))))"
    using period_of_supported [of f'] f' m by (simp add: exchangePeriodFromFrequency_def d_eq_def del: d_div.simps lround.simps)
  moreover have "0 \<le> away (nearest (1000000 / f'))" using period_of_supported [of f'] f' m by linarith
  ultimately show ?thesis by blast
qed

lemma fake_client_split: "makeFakeClient other u l = Inr m \<Longrightarrow>
    \<exists>serial. makeFakeSerial u l = Inr serial \<and> makeModbusClient (fake_serial other) serial u l = Inr m"
  by (auto simp: makeFakeClient_def split: sum.splits)

lemma fake_gripper_made:
  assumes "modbusSlaveAddress config \<noteq> 0" and "d_le (Fin 0) (connectionFrequency config)"
  shows "\<exists>g. makeFakeGripper other config now sched l = Some (Inr g) \<and> promising (modbusSlaveAddress config) g"
proof -
  let ?u = "modbusSlaveAddress config" and ?lk = "client_link (fake_serial other)"
  obtain frequency l' period where f: "fake_frequency (connectionFrequency config) l = Inr (frequency, l')"
      "exchangePeriodFromFrequency frequency = Some (Inr period)" "0 \<le> period"
    using fake_frequency_supported [OF assms(2)] by blast
  obtain m where m: "makeFakeClient other ?u l' = Inr m" "stack_idle ?u m" "faultStatus (rm_status (gripper_model m)) = 0"
    using makeFakeClient_idle [OF assms(1)] by blast
  obtain serial where serial: "makeFakeSerial ?u l' = Inr serial" "makeModbusClient (fake_serial other) serial ?u l' = Inr m"
    using fake_client_split [OF m(1)] by blast
  have "length (rm_registers (gripper_model m)) = 2008" using m(2) by (simp add: stack_idle_def rm_wf_def addresses)
  from readBlock_status [OF this] obtain st m' where r: "readStatus (fake_serial other) m = (Inr st, m')" "stack_idle ?u m'"
      "gripper_model m' = gripper_model m"
    using fake.model_runs(2) [OF m(2), of other] by (auto simp: read_model_def)
  have "\<exists>g. makeGripper ?lk m period (Some (True, True)) now sched = Inr g \<and> promising ?u g"
    using r m(3)
    by (simp add: makeGripper_def makeProcessImage_def initializeImage_def makeGripperState_def initialRead.simps
        client_link_def gs_start_def promising_def device_ok_def seed_def Let_def)
  then show ?thesis using f serial by (auto simp: makeFakeGripper_def)
qed

section \<open>What a caller sees\<close>

text \<open>One command after the other, each waited for.\<close>

fun set_and_wait_all :: "'d link \<Rightarrow> (gripper_command \<times> int) list \<Rightarrow> 'd gripper_state \<Rightarrow>
    stamped_exchange option list \<times> 'd gripper_state" where
  "set_and_wait_all lk [] g = ([], g)"
| "set_and_wait_all lk ((c, timeout) # rest) g =
     (let (r, g1) = setCommandAndWaitForExchange lk c timeout g; (rs, g2) = set_and_wait_all lk rest g1 in (r # rs, g2))"

lemma promised_eq: "command_eq c c' \<Longrightarrow> promised_status c f st \<longleftrightarrow> promised_status c' f st"
proof -
  assume "command_eq c c'"
  then have "action c = action c' \<and> positionRequest c = positionRequest c'"
    by (simp add: command_eq_def command_data_def kCommandBlockBytes_def take_Cons')
  then show ?thesis by (simp add: promised_status_def)
qed

lemma one_promise:
  assumes "promising u g" and "setCommandAndWaitForExchange (client_link (fake_serial other)) c timeout g = (r, g')"
  shows "promising u g' \<and> (\<forall>x. r = Some x \<longrightarrow> promised_status c 0 (x_status x))"
proof -
  let ?lk = "client_link (fake_serial other)"
  have g': "promising u g'" using device.kept_set_and_wait [of u g other c timeout] assms by simp
  obtain n g2 where w: "waitForExchangeAfter ?lk n (\<lambda>x. command_eq (x_command x) c) timeout g2 = (r, g')"
    using assms(2) by (auto simp: setCommandAndWaitForExchange_def Let_def split: prod.splits)
  show ?thesis
    using g' waitForExchangeAfter_result [OF w] promised_eq by (auto simp: promising_def Let_def split: option.splits)
qed

lemma all_promises:
  "promising u g \<Longrightarrow> set_and_wait_all (client_link (fake_serial other)) cs g = (rs, g') \<Longrightarrow> promising u g' \<and>
    list_all2 (\<lambda>(c, timeout) r. \<forall>x. r = Some x \<longrightarrow> promised_status c 0 (x_status x)) cs rs"
proof (induction cs arbitrary: g rs)
  case (Cons ct cs)
  obtain c t where ct: "ct = (c, t)" by fastforce
  obtain r g1 where a: "setCommandAndWaitForExchange (client_link (fake_serial other)) c t g = (r, g1)" by fastforce
  obtain rs1 where b: "set_and_wait_all (client_link (fake_serial other)) cs g1 = (rs1, g')" "rs = r # rs1"
    using Cons.prems(2) by (auto simp: ct a split: prod.splits)
  show ?case using one_promise [OF Cons.prems(1) a] Cons.IH [OF _ b(1)] by (simp add: ct b(2))
qed simp

text \<open>
  C18 A gripper made by the factory of the simulated one, at any frequency and address the configuration may name,
  is connected, stays connected whatever other threads do, and answers each command a caller waits for with the
  status the device promises for that command.
\<close>

theorem simulated_gripper_keeps_its_promises:
  assumes "modbusSlaveAddress config \<noteq> 0" and "d_le (Fin 0) (connectionFrequency config)"
  shows "\<exists>g. makeFakeGripper other config now sched l = Some (Inr g) \<and> gs_connectionState g = Operational \<and>
    (\<forall>cs rs g'. set_and_wait_all (client_link (fake_serial other)) cs g = (rs, g') \<longrightarrow>
      gs_connectionState g' = Operational \<and>
      list_all2 (\<lambda>(c, timeout) r. \<forall>x. r = Some x \<longrightarrow> promised_status c 0 (x_status x)) cs rs)"
proof -
  obtain g where g: "makeFakeGripper other config now sched l = Some (Inr g)" "promising (modbusSlaveAddress config) g"
    using fake_gripper_made [OF assms] by blast
  then have "gs_connectionState g = Operational" by (simp add: promising_def)
  moreover have "gs_connectionState g' = Operational \<and>
      list_all2 (\<lambda>(c, timeout) r. \<forall>x. r = Some x \<longrightarrow> promised_status c 0 (x_status x)) cs rs"
    if "set_and_wait_all (client_link (fake_serial other)) cs g = (rs, g')" for cs rs g'
    using all_promises [OF g(2) that] by (simp add: promising_def)
  ultimately show ?thesis using g(1) by blast
qed

theorem simulated_gripper_keeps_its_promises_witness:
  "\<exists>g. makeFakeGripper (\<lambda>_. nm_return ()) (default_connection_config ''/dev/null'') 0 [[], replicate 30 ThreadStep] [] =
     Some (Inr g) \<and> gs_connectionState g = Operational"
  using simulated_gripper_keeps_its_promises [of "default_connection_config ''/dev/null''" "\<lambda>_. nm_return ()" 0
      "[[], replicate 30 ThreadStep]" "[]"]
  by (auto simp: default_connection_config_def kDefaultModbusSlaveAddress_def d_le_def)

text \<open>A gripper over the simulated port, asked for its next exchange.\<close>

theorem blocks_keep_their_shape_witness:
  "\<exists>client period g r g'. makeGripper (client_link (fake_serial (\<lambda>_. nm_return ()))) client period (Some (True, True)) 0
       [[], replicate 30 ThreadStep] = Inr g \<and>
     waitFor (client_link (fake_serial (\<lambda>_. nm_return ()))) (\<lambda>_. True) 1000 g = (r, g') \<and>
     received_status (fst (getStatus (client_link (fake_serial (\<lambda>_. nm_return ()))) g'))"
proof -
  let ?other = "\<lambda>_. nm_return ()" and ?sched = "[[], replicate 30 ThreadStep]"
  let ?lk = "client_link (fake_serial ?other)"
  obtain g where "makeFakeGripper ?other (default_connection_config ''/dev/null'') 0 ?sched [] = Some (Inr g)"
    using fake_gripper_made [of "default_connection_config ''/dev/null''" ?other 0 ?sched "[]"]
    by (auto simp: default_connection_config_def kDefaultModbusSlaveAddress_def d_le_def)
  then obtain client period where g: "makeGripper ?lk client period (Some (True, True)) 0 ?sched = Inr g"
    by (auto simp: makeFakeGripper_def split: sum.splits prod.splits option.splits)
  obtain r g' where w: "waitFor ?lk (\<lambda>_. True) 1000 g = (r, g')" by fastforce
  have "\<forall>es \<in> set ?sched. \<forall>e \<in> set es. typed_event e" by simp
  from blocks_keep_their_shape [OF g this w] g w show ?thesis by blast
qed

end
