(* ===== verification/CycleProgress.thy ===== *)
theory CycleProgress
  imports ExchangeCycle
begin

text \<open>
  That the exchange thread gets on: with a link that answers, every period brings a new exchange into the image,
  whatever the other threads do short of stopping it, as long as the thread is given its steps.
\<close>

definition answers :: "'d link \<Rightarrow> bool" where
  "answers lk \<longleftrightarrow> (\<forall>c d. \<not> isl (fst (lk_exchange lk c d)))"

definition thread_steps :: "gs_event list \<Rightarrow> nat" where
  "thread_steps es = length (filter (\<lambda>e. e = ThreadStep) es)"

lemma thread_steps_simps [simp]: "thread_steps [] = 0"
  "thread_steps (e # es) = (if e = ThreadStep then 1 else 0) + thread_steps es"
  "thread_steps (es @ fs) = thread_steps es + thread_steps fs"
  by (simp_all add: thread_steps_def)

abbreviation count_of :: "'d gripper_state \<Rightarrow> nat" where
  "count_of g \<equiv> exchangeCount (im_stamped (gs_image g))"

text \<open>The steps of the thread until it publishes, when no sleep is left to sleep.\<close>

fun distance :: "pc \<Rightarrow> nat" where
  "distance (Publishing c st t r) = 1"
| "distance (TurnOperational c st t) = 2"
| "distance (ResetFailures c st t) = 3"
| "distance (StampingTime c st) = 4"
| "distance (Exchanging c) = 5"
| "distance CopyCommand = 6"
| "distance CheckRunning = 7"
| "distance FirstCycle = 8"
| "distance Sleeping = 8"
| "distance Pacing = 9"
| "distance LoggingRecovery = 10"
| "distance (LoggingFailure e) = 10"
| "distance (LoggingFault e) = 11"
| "distance (TurnFaulted e) = 12"
| "distance (CountFailure e) = 13"
| "distance NotStarted = 0"
| "distance Ended = 0"

text \<open>The thread is alive, and its next cycle at most a period away.\<close>

definition alive :: "'d gripper_state \<Rightarrow> bool" where
  "alive g \<longleftrightarrow> gs_running g \<and> gs_pc g \<notin> {NotStarted, Ended} \<and> 0 \<le> gs_period g \<and>
     (gs_pc g = FirstCycle \<or> gs_nextCycle g \<le> gs_now g + gs_period g \<and>
       (gs_pc g \<noteq> Sleeping \<longrightarrow> gs_nextCycle g \<le> gs_now g))"

lemma alive_start: "0 \<le> gs_period g \<Longrightarrow> alive (gs_start g)"
  by (simp add: alive_def gs_start_def)

lemma alive_step:
  assumes "alive g" and "e \<noteq> StopRunning"
  shows "alive (step lk e g)"
proof (cases "e = ThreadStep")
  case True
  then show ?thesis
    using assms(1) by (cases "gs_pc g")
      (auto simp: alive_def step_def thread_step_def exchangeOnce_step_def max_def split: sum.split prod.split)
next
  case False
  then show ?thesis
    using assms by (cases e) (auto simp: alive_def step_def gs_setCommand_def closeImage_def)
qed

lemma alive_fold: "alive g \<Longrightarrow> StopRunning \<notin> set es \<Longrightarrow> alive (fold (step lk) es g)"
  by (induction es arbitrary: g) (auto simp: alive_step)

lemma period_fold: "gs_period (fold (step lk) es g) = gs_period g"
proof (induction es arbitrary: g)
  case (Cons e es)
  have "gs_period (step lk e g) = gs_period g"
  proof (cases "e = ThreadStep")
    case True
    then show ?thesis
      by (cases "gs_pc g") (auto simp: step_def thread_step_def exchangeOnce_step_def split: sum.split prod.split)
  qed (simp add: other_events)
  with Cons show ?case by simp
qed simp

text \<open>A sleep that is over.\<close>

definition ripe :: "'d gripper_state \<Rightarrow> bool" where
  "ripe g \<longleftrightarrow> gs_pc g \<noteq> Sleeping \<or> gs_nextCycle g \<le> gs_now g"

lemma thread_gets_on:
  assumes "answers lk" and "alive g"
  shows "count_of (thread_step lk g) = count_of g + 1 \<or>
    count_of (thread_step lk g) = count_of g \<and>
     (gs_pc g = Sleeping \<and> \<not> ripe g \<and> gs_pc (thread_step lk g) = Sleeping \<or>
      distance (gs_pc (thread_step lk g)) < distance (gs_pc g))"
proof (cases "gs_pc g")
  case (Exchanging c)
  moreover obtain st d where "lk_exchange lk c (gs_client g) = (Inr st, d)"
    using assms(1) by (metis answers_def isl_def old.sum.exhaust prod.collapse)
  ultimately show ?thesis by (simp add: thread_step_def exchangeOnce_step_def)
qed (use assms in \<open>auto simp: alive_def ripe_def thread_step_def exchangeOnce_step_def publish_def\<close>)

lemma count_mono: "count_of g \<le> count_of (fold (step lk) es g)"
proof (induction es arbitrary: g)
  case (Cons e es)
  have "count_of g \<le> count_of (step lk e g)"
  proof (cases "e = ThreadStep")
    case True
    then show ?thesis
      by (cases "gs_pc g") (auto simp: step_def thread_step_def exchangeOnce_step_def publish_def split: sum.split prod.split)
  qed (simp add: other_events)
  with Cons [of "step lk e g"] show ?case by simp
qed simp

text \<open>The other threads neither move it nor hold it up.\<close>

lemma others_do_not_hinder:
  assumes "e \<noteq> ThreadStep"
  shows "gs_pc (step lk e g) = gs_pc g \<and> count_of (step lk e g) = count_of g \<and> (ripe g \<longrightarrow> ripe (step lk e g))"
  using assms by (auto simp: other_events ripe_def)
    (auto simp: step_def gs_setCommand_def closeImage_def split: gs_event.splits)

text \<open>Five steps bring the thread to its sleep or past it.\<close>

lemma reaches_the_sleep:
  assumes "answers lk" and "alive g" and "StopRunning \<notin> set es" and "distance (gs_pc g) \<le> 8 + thread_steps es"
  shows "count_of g < count_of (fold (step lk) es g) \<or> distance (gs_pc (fold (step lk) es g)) \<le> 8"
  using assms(2-4)
proof (induction es arbitrary: g)
  case (Cons e es)
  let ?g = "step lk e g"
  have a: "alive ?g" by (rule alive_step) (use Cons.prems in auto)
  show ?case
  proof (cases "e = ThreadStep")
    case False
    then show ?thesis using Cons.IH [OF a] Cons.prems others_do_not_hinder [of e lk g] by simp
  next
    case True
    then consider "count_of ?g = count_of g + 1" | "count_of ?g = count_of g" "distance (gs_pc ?g) \<le> 8 + thread_steps es"
      using thread_gets_on [OF assms(1) Cons.prems(1)] Cons.prems(3) by (force simp: step_def)
    then show ?thesis
    proof cases
      case 1
      then show ?thesis using count_mono [of ?g lk es] by simp
    next
      case 2
      then show ?thesis using Cons.IH [OF a] Cons.prems(2) by simp
    qed
  qed
qed simp

lemma publishes_when_ripe:
  assumes "answers lk" and "alive g" and "StopRunning \<notin> set es" and "ripe g" and "distance (gs_pc g) \<le> 8"
    and "distance (gs_pc g) \<le> thread_steps es"
  shows "count_of g < count_of (fold (step lk) es g)"
  using assms(2-6)
proof (induction es arbitrary: g)
  case Nil
  then have "distance (gs_pc g) = 0" by simp
  then show ?case using Nil(1) by (cases "gs_pc g") (auto simp: alive_def)
next
  case (Cons e es)
  let ?g = "step lk e g"
  have a: "alive ?g" by (rule alive_step) (use Cons.prems in auto)
  show ?case
  proof (cases "e = ThreadStep")
    case False
    then show ?thesis using Cons.IH [OF a] Cons.prems others_do_not_hinder [of e lk g] by simp
  next
    case True
    then consider "count_of ?g = count_of g + 1" | "count_of ?g = count_of g" "distance (gs_pc ?g) < distance (gs_pc g)"
      using thread_gets_on [OF assms(1) Cons.prems(1)] Cons.prems(3) by (auto simp: step_def)
    then show ?thesis
    proof cases
      case 1
      then show ?thesis using count_mono [of ?g lk es] by simp
    next
      case 2
      then have "gs_pc ?g \<noteq> Sleeping" using Cons.prems(4) by auto
      then have "ripe ?g" by (simp add: ripe_def)
      then show ?thesis using Cons.IH [OF a] Cons.prems 2 True by simp
    qed
  qed
qed

section \<open>Properties\<close>

text \<open>
  C23 A started thread whose link answers brings at least one new exchange into the image each time a period
  passes, whatever other threads set, close or wait for meanwhile: five of its steps before the period
  ends and eight after are enough, from wherever it was.
\<close>

theorem every_period_brings_an_exchange:
  assumes "answers lk" and "0 \<le> gs_period g" and "StopRunning \<notin> set (es0 @ es1 @ es2)"
    and "5 \<le> thread_steps es1" and "gs_period g \<le> int t" and "8 \<le> thread_steps es2"
  shows "count_of (fold (step lk) es0 (gs_start g)) < count_of (fold (step lk) (es0 @ es1 @ Tick t # es2) (gs_start g))"
proof -
  let ?g0 = "fold (step lk) es0 (gs_start g)"
  let ?g1 = "fold (step lk) es1 ?g0"
  let ?g2 = "step lk (Tick t) ?g1"
  have a: "alive ?g0" "alive ?g1" "alive ?g2"
    using assms(2,3) by (simp_all add: alive_fold alive_step alive_start)
  have "distance (gs_pc ?g0) \<le> 13" by (cases "gs_pc ?g0") simp_all
  then have "count_of ?g0 < count_of ?g1 \<or> distance (gs_pc ?g1) \<le> 8"
    using reaches_the_sleep [OF assms(1) a(1), of es1] assms(3,4) by simp
  moreover have "count_of ?g1 \<le> count_of (fold (step lk) (Tick t # es2) ?g1)" by (rule count_mono)
  moreover have "count_of ?g1 < count_of (fold (step lk) es2 ?g2)" if "distance (gs_pc ?g1) \<le> 8"
  proof -
    have period: "gs_period ?g1 = gs_period g" by (simp add: period_fold gs_start_def)
    have "ripe ?g2" using a(2) assms(5) period by (auto simp: ripe_def alive_def step_def)
    moreover have "gs_pc ?g2 = gs_pc ?g1" "count_of ?g2 = count_of ?g1" by (simp_all add: step_def)
    ultimately show ?thesis
      using publishes_when_ripe [OF assms(1) a(3), of es2] assms(3,6) that by simp
  qed
  moreover have "count_of ?g0 \<le> count_of ?g1" by (rule count_mono)
  ultimately show ?thesis by auto
qed

text \<open>A link whose gripper always answers.\<close>

definition steady_link :: "unit link" where
  "steady_link = \<lparr>lk_readStatus = (\<lambda>d. (Inr zero_status, d)), lk_exchange = (\<lambda>c d. (Inr zero_status, d))\<rparr>"

theorem every_period_brings_an_exchange_witness:
  "let g = makeGripperState () \<lparr>im_command = defaults, im_stamped = zero_stamped, im_closed = False\<rparr> 8000 0 [];
       es = replicate 20 ThreadStep @ Tick 8000000 # replicate 8 ThreadStep
   in count_of (gs_start g) = 0 \<and> 0 < count_of (fold (step steady_link) es (gs_start g))"
proof -
  let ?g = "makeGripperState () \<lparr>im_command = defaults, im_stamped = zero_stamped, im_closed = False\<rparr> 8000 0 []"
  have "answers steady_link" by (simp add: answers_def steady_link_def)
  moreover have "thread_steps (replicate n ThreadStep) = n" for n by (induction n) simp_all
  ultimately show ?thesis
    using every_period_brings_an_exchange [where lk = steady_link and g = ?g and ?es0.0 = "[]" and ?es1.0 = "replicate 20 ThreadStep"
        and t = 8000000 and ?es2.0 = "replicate 8 ThreadStep"]
    by (simp add: makeGripperState_def gs_start_def zero_stamped_def Let_def)
qed

end
