(* ===== verification/ToString.thy ===== *)
theory ToString
  imports Gripper
begin

text \<open>
  The renderings of the command and status blocks as one line of text, and the names of the
  enumerations (\<open>grippers/sdk_cpp/src/to_string.cpp\<close>,
  \<open>grippers/sdk_cpp/include/Robotiq/gripper/to_string.hpp\<close>).

  A \<open>std::string\<close> being built is the string returned. The overloads of \<open>toString\<close> carry the name
  of the type they render. An enumerator without a name renders as \<open>Unrecognized\<close>; only the two
  fault enumerations can hold one. The second part reads such a line back: the line is a list of
  name=value fields, and the documented bits of the block it was made from are all in it.
\<close>

section \<open>Names\<close>

fun toString_ConnectionState :: "connection_state \<Rightarrow> string" where
  "toString_ConnectionState Disconnected = ''Disconnected''"
| "toString_ConnectionState Connecting = ''Connecting''"
| "toString_ConnectionState Operational = ''Operational''"
| "toString_ConnectionState Faulted = ''Faulted''"

fun toString_ActivationResult :: "activation_result \<Rightarrow> string" where
  "toString_ActivationResult Activated = ''Activated''"
| "toString_ActivationResult AlreadyActive = ''AlreadyActive''"
| "toString_ActivationResult FaultLatched = ''FaultLatched''"
| "toString_ActivationResult ActivationTimeout = ''Timeout''"

fun toString_ActivationState :: "ActivationState \<Rightarrow> string" where
  "toString_ActivationState AS_Reset = ''Reset''"
| "toString_ActivationState InProgress = ''InProgress''"
| "toString_ActivationState AS_Reserved = ''Reserved''"
| "toString_ActivationState Complete = ''Complete''"

fun toString_ObjectDetection :: "ObjectDetection \<Rightarrow> string" where
  "toString_ObjectDetection Moving = ''Moving''"
| "toString_ObjectDetection DetectedWhileOpening = ''DetectedWhileOpening''"
| "toString_ObjectDetection DetectedWhileClosing = ''DetectedWhileClosing''"
| "toString_ObjectDetection AtRequestedPosition = ''AtRequestedPosition''"

fun toString_GripperFault :: "GripperFault \<Rightarrow> string" where
  "toString_GripperFault GF_None = ''None''"
| "toString_GripperFault BrakeProblem = ''BrakeProblem''"
| "toString_GripperFault BlockedAtStart = ''BlockedAtStart''"
| "toString_GripperFault ActionDelayed = ''ActionDelayed''"
| "toString_GripperFault ActivationRequired = ''ActivationRequired''"
| "toString_GripperFault OverTemperature = ''OverTemperature''"
| "toString_GripperFault NoCommunication = ''NoCommunication''"
| "toString_GripperFault UnderVoltage = ''UnderVoltage''"
| "toString_GripperFault AutomaticReleaseInProgress = ''AutomaticReleaseInProgress''"
| "toString_GripperFault InternalFault = ''InternalFault''"
| "toString_GripperFault ActivationFault = ''ActivationFault''"
| "toString_GripperFault GF_Overcurrent = ''Overcurrent''"
| "toString_GripperFault AutomaticReleaseComplete = ''AutomaticReleaseComplete''"
| "toString_GripperFault (GF_Unnamed v) = ''Unrecognized''"

fun toString_ControllerFault :: "ControllerFault \<Rightarrow> string" where
  "toString_ControllerFault CF_None = ''None''"
| "toString_ControllerFault Supply24VNotDetected = ''Supply24VNotDetected''"
| "toString_ControllerFault NoDeviceDetected = ''NoDeviceDetected''"
| "toString_ControllerFault CommunicationNotReady = ''CommunicationNotReady''"
| "toString_ControllerFault EmergencyStop = ''EmergencyStop''"
| "toString_ControllerFault CF_Overcurrent = ''Overcurrent''"
| "toString_ControllerFault (CF_Unnamed v) = ''Unrecognized''"

fun toString_FaultSeverity :: "FaultSeverity \<Rightarrow> string" where
  "toString_FaultSeverity NoSeverity = ''None''"
| "toString_FaultSeverity Warning = ''Warning''"
| "toString_FaultSeverity Minor = ''Minor''"
| "toString_FaultSeverity Major = ''Major''"

text \<open>The cast of a controller fault to its code.\<close>

fun controller_fault_code :: "ControllerFault \<Rightarrow> u8" where
  "controller_fault_code CF_None = 0x00"
| "controller_fault_code Supply24VNotDetected = 0x04"
| "controller_fault_code NoDeviceDetected = 0x05"
| "controller_fault_code CommunicationNotReady = 0x09"
| "controller_fault_code EmergencyStop = 0x0C"
| "controller_fault_code CF_Overcurrent = 0x0E"
| "controller_fault_code (CF_Unnamed v) = v"

section \<open>Lines\<close>

definition appendField :: "string \<Rightarrow> string \<Rightarrow> string \<Rightarrow> string" where
  "appendField out name value = (if out \<noteq> '''' then out @ '' '' else out) @ name @ ''='' @ value"

definition appendBit :: "string \<Rightarrow> string \<Rightarrow> bool \<Rightarrow> string" where
  "appendBit out name on = appendField out name (if on then ''1'' else ''0'')"

definition appendByte :: "string \<Rightarrow> string \<Rightarrow> u8 \<Rightarrow> string" where
  "appendByte out name value = appendField out name (decimal (unat value))"

text \<open>The template's argument is its name and its code.\<close>

definition appendEnum :: "string \<Rightarrow> string \<Rightarrow> string \<times> u8 \<Rightarrow> string" where
  "appendEnum out name value = (case value of (enumerator, code) \<Rightarrow>
     appendField out name
       (enumerator @ ''(0x'' @ [''0123456789ABCDEF'' ! unat (code AND 0x0F)] @ '')''))"

definition command_toString :: "gripper_command \<Rightarrow> string" where
  "command_toString c =
     (let out = '''';
          out = appendBit out ''rACT'' (nb_get (action c) Activate);
          out = appendBit out ''rGTO'' (nb_get (action c) GoTo);
          out = appendBit out ''rATR'' (nb_get (action c) AutoRelease);
          out = appendBit out ''rARD'' (nb_get (action c) AutoReleaseOpenDirection);
          out = appendByte out ''rPR'' (positionRequest c);
          out = appendByte out ''rSP'' (speed c)
      in appendByte out ''rFR'' (force c))"

definition flags_toString :: "u8 \<Rightarrow> string" where
  "flags_toString flags =
     (let out = '''';
          out = appendBit out ''gACT'' (activated flags);
          out = appendBit out ''gGTO'' (goToEnabled flags);
          sta = activationState flags;
          out = appendEnum out ''gSTA'' (toString_ActivationState sta, activation_code sta);
          obj = objectDetection flags
      in appendEnum out ''gOBJ'' (toString_ObjectDetection obj, object_code obj))"

definition fault_toString :: "u8 \<Rightarrow> string" where
  "fault_toString fault =
     (let out = '''';
          g = gripperFault fault;
          out = appendEnum out ''gFLT'' (toString_GripperFault g, gripper_fault_code g);
          k = controllerFault fault
      in appendEnum out ''kFLT'' (toString_ControllerFault k, controller_fault_code k))"

definition status_toString :: "gripper_status \<Rightarrow> string" where
  "status_toString s =
     (let out = flags_toString (gripperStatus s);
          out = out @ '' '';
          out = out @ fault_toString (faultStatus s);
          out = appendByte out ''gPR'' (positionRequestEcho s);
          out = appendByte out ''gPO'' (position s)
      in appendByte out ''gCU'' (current s))"

section \<open>Reading a line back\<close>

text \<open>A line is split at its spaces, and each word at its first equals sign.\<close>

definition name_and_value :: "string \<Rightarrow> string \<times> string" where
  "name_and_value w = (takeWhile (\<lambda>c. c \<noteq> CHR ''='') w, drop 1 (dropWhile (\<lambda>c. c \<noteq> CHR ''='') w))"

definition fields :: "string \<Rightarrow> (string \<times> string) list" where
  "fields line = map name_and_value (split_on CHR '' '' line)"

definition bit_read :: "string \<Rightarrow> nat \<Rightarrow> u8" where
  "bit_read v n = (if v = ''1'' then 2 ^ n else 0)"

definition byte_read :: "string \<Rightarrow> u8" where
  "byte_read v = word_of_nat (number_read v)"

text \<open>The hexadecimal digit before the closing parenthesis.\<close>

definition digit_read :: "char \<Rightarrow> nat" where
  "digit_read c = (let n = of_char c in if n < 58 then n - 48 else n - 55)"

definition code_read :: "string \<Rightarrow> u8" where
  "code_read v = word_of_nat (digit_read (last (butlast v)))"

definition field_read :: "string \<Rightarrow> string \<Rightarrow> string" where
  "field_read line name = (case map_of (fields line) name of Some v \<Rightarrow> v | None \<Rightarrow> '''')"

definition status_read :: "string \<Rightarrow> u8 list" where
  "status_read line =
     [bit_read (field_read line ''gACT'') 0 OR bit_read (field_read line ''gGTO'') 3 OR
        push_bit 4 (code_read (field_read line ''gSTA'')) OR push_bit 6 (code_read (field_read line ''gOBJ'')),
      code_read (field_read line ''gFLT'') OR push_bit 4 (code_read (field_read line ''kFLT'')),
      byte_read (field_read line ''gPR''), byte_read (field_read line ''gPO''),
      byte_read (field_read line ''gCU'')]"

definition command_read :: "string \<Rightarrow> u8 list" where
  "command_read line =
     [bit_read (field_read line ''rACT'') 0 OR bit_read (field_read line ''rGTO'') 3 OR
        bit_read (field_read line ''rATR'') 4 OR bit_read (field_read line ''rARD'') 5,
      byte_read (field_read line ''rPR''), byte_read (field_read line ''rSP''),
      byte_read (field_read line ''rFR'')]"

section \<open>The fields of a line\<close>

lemma fields_append: "fields (a @ CHR '' '' # b) = fields a @ fields b"
  by (simp add: fields_def split_on_append)

lemma fields_one:
  assumes "CHR '' '' \<notin> set name" and "CHR '' '' \<notin> set value" and "CHR ''='' \<notin> set name"
  shows "fields (name @ CHR ''='' # value) = [(name, value)]"
proof -
  have no_equals: "c \<noteq> CHR ''=''" if "c \<in> set name" for c using that assms(3) by blast
  have "takeWhile (\<lambda>c. c \<noteq> CHR ''='') (name @ CHR ''='' # value) = name"
    "dropWhile (\<lambda>c. c \<noteq> CHR ''='') (name @ CHR ''='' # value) = CHR ''='' # value"
    using no_equals by (simp_all add: takeWhile_append2 dropWhile_append2)
  then show ?thesis using assms(1,2) by (simp add: fields_def name_and_value_def split_on_one)
qed

text \<open>A name of the fields below, and a value without a space.\<close>

definition plain :: "string \<Rightarrow> bool" where
  "plain w \<longleftrightarrow> CHR '' '' \<notin> set w"

definition plain_name :: "string \<Rightarrow> bool" where
  "plain_name w \<longleftrightarrow> CHR '' '' \<notin> set w \<and> CHR ''='' \<notin> set w"

lemma appendField_not_empty: "appendField out name value \<noteq> ''''"
  by (simp add: appendField_def)

lemma fields_appendField:
  "plain_name name \<Longrightarrow> plain value \<Longrightarrow>
   fields (appendField out name value) = (if out = '''' then [] else fields out) @ [(name, value)]"
  by (simp add: appendField_def plain_def plain_name_def fields_one fields_append)

definition bit_text :: "bool \<Rightarrow> string" where
  "bit_text on = (if on then ''1'' else ''0'')"

definition enum_text :: "string \<times> u8 \<Rightarrow> string" where
  "enum_text value = fst value @ ''(0x'' @ [''0123456789ABCDEF'' ! unat (snd value AND 0x0F)] @ '')''"

lemma plain_bit_text: "plain (bit_text on)"
  by (simp add: plain_def bit_text_def)

lemma appendBit_field: "appendBit out name on = appendField out name (bit_text on)"
  by (simp add: appendBit_def bit_text_def)

lemma appendEnum_field: "appendEnum out name value = appendField out name (enum_text value)"
  by (simp add: appendEnum_def enum_text_def split: prod.splits)

lemma nibble_bound: "unat ((v :: u8) AND 0x0F) < 16"
proof -
  have "v AND 0x0F = take_bit 4 v" by (simp add: take_bit_eq_mask mask_eq_exp_minus_1)
  then have "v AND 0x0F = v mod 16" by (simp add: take_bit_eq_mod)
  then show ?thesis by (simp add: unat_mod_distrib)
qed

lemma hex_digits: "n < 16 \<Longrightarrow> ''0123456789ABCDEF'' ! n \<noteq> CHR '' '' \<and> digit_read (''0123456789ABCDEF'' ! n) = n"
proof -
  have "\<forall>n \<in> set [0..<16]. ''0123456789ABCDEF'' ! n \<noteq> CHR '' '' \<and> digit_read (''0123456789ABCDEF'' ! n) = n"
    by code_simp
  then show "n < 16 \<Longrightarrow> ?thesis" by simp
qed

lemma plain_enum_text: "plain (fst value) \<Longrightarrow> plain (enum_text value)"
  using hex_digits [OF nibble_bound [of "snd value"]] by (auto simp: plain_def enum_text_def)

lemma code_read_enum_text: "code_read (enum_text value) = snd value AND 0x0F"
  using hex_digits [OF nibble_bound [of "snd value"]]
  by (simp add: code_read_def enum_text_def butlast_append)

lemma plain_decimal: "plain (decimal n)"
  using decimal_digits [of "CHR '' ''" n] by (auto simp: plain_def)

lemma byte_read_decimal: "byte_read (decimal (unat v)) = v"
  by (simp add: byte_read_def number_read_decimal)

lemma bit_read_bit_text: "bit_read (bit_text on) n = (if on then 2 ^ n else 0)"
  by (simp add: bit_read_def bit_text_def)

lemma plain_names:
  shows "plain (toString_ActivationState st)" and "plain (toString_ObjectDetection od)"
    and "plain (toString_GripperFault g)" and "plain (toString_ControllerFault k)"
proof -
  show "plain (toString_ActivationState st)" by (cases st) (simp_all add: plain_def)
  show "plain (toString_ObjectDetection od)" by (cases od) (simp_all add: plain_def)
  show "plain (toString_GripperFault g)" by (cases g) (simp_all add: plain_def)
  show "plain (toString_ControllerFault k)" by (cases k) (simp_all add: plain_def)
qed

section \<open>The lines of the blocks\<close>

lemma fields_command:
  "fields (command_toString c) =
     [(''rACT'', bit_text (nb_get (action c) Activate)), (''rGTO'', bit_text (nb_get (action c) GoTo)),
      (''rATR'', bit_text (nb_get (action c) AutoRelease)),
      (''rARD'', bit_text (nb_get (action c) AutoReleaseOpenDirection)),
      (''rPR'', decimal (unat (positionRequest c))), (''rSP'', decimal (unat (speed c))),
      (''rFR'', decimal (unat (force c)))]"
  by (simp add: command_toString_def Let_def appendBit_field appendByte_def fields_appendField
      appendField_not_empty plain_bit_text plain_decimal plain_name_def)

lemma fields_flags:
  "fields (flags_toString b) =
     [(''gACT'', bit_text (activated b)), (''gGTO'', bit_text (goToEnabled b)),
      (''gSTA'', enum_text (toString_ActivationState (activationState b), activation_code (activationState b))),
      (''gOBJ'', enum_text (toString_ObjectDetection (objectDetection b), object_code (objectDetection b)))]"
  by (simp add: flags_toString_def Let_def appendBit_field appendEnum_field fields_appendField
      appendField_not_empty plain_bit_text plain_enum_text plain_names plain_name_def)

lemma fields_fault:
  "fields (fault_toString b) =
     [(''gFLT'', enum_text (toString_GripperFault (gripperFault b), gripper_fault_code (gripperFault b))),
      (''kFLT'', enum_text (toString_ControllerFault (controllerFault b), controller_fault_code (controllerFault b)))]"
  by (simp add: fault_toString_def Let_def appendEnum_field fields_appendField
      appendField_not_empty plain_enum_text plain_names plain_name_def)

lemma fields_status:
  "fields (status_toString s) = fields (flags_toString (gripperStatus s)) @ fields (fault_toString (faultStatus s)) @
     [(''gPR'', decimal (unat (positionRequestEcho s))), (''gPO'', decimal (unat (position s))),
      (''gCU'', decimal (unat (current s)))]"
  by (simp add: status_toString_def Let_def appendByte_def fields_appendField fields_append
      plain_decimal plain_name_def appendField_not_empty)

lemma controller_fault_code_of: "controller_fault_code (controller_fault_of v) = v"
  by (auto simp: controller_fault_of_def controller_fault_codes_def)

lemma code_fits: "activation_code st AND 0x0F = activation_code st" "object_code od AND 0x0F = object_code od"
  by (cases st; simp) (cases od; simp)

lemma and_single: "(b :: u8) AND 2 ^ n = (if bit b n then 2 ^ n else 0)"
  by (rule bit_word_eqI) (auto simp: bit_simps)

lemma action_rebuilt:
  "(if nb_get b Activate then 2 ^ 0 else 0) OR (if nb_get b GoTo then 2 ^ 3 else 0) OR
     (if nb_get b AutoRelease then 2 ^ 4 else 0) OR (if nb_get b AutoReleaseOpenDirection then 2 ^ 5 else 0) =
   b AND 0x39"
  unfolding nb_get_bit bit_index.simps and_single [symmetric] by (simp flip: bit.conj_disj_distrib)

lemma flags_rebuilt:
  "(if activated b then 2 ^ 0 else 0) OR (if goToEnabled b then 2 ^ 3 else 0) OR
     push_bit 4 (activation_code (activationState b)) OR push_bit 6 (object_code (objectDetection b)) =
   b AND 0xF9"
proof -
  have bits: "(if activated b then 2 ^ 0 else 0) = b AND 0x01" "(if goToEnabled b then 2 ^ 3 else 0) = b AND 0x08"
    using and_single [of b 0] and_single [of b 3]
    by (simp_all add: activated_def goToEnabled_def register_map split: if_splits)
  show ?thesis
    unfolding bits activation_field object_field register_map
    by (simp flip: bit.conj_disj_distrib)
qed

lemma faults_rebuilt:
  "(gripper_fault_code (gripperFault b) AND 0x0F) OR push_bit 4 (controller_fault_code (controllerFault b) AND 0x0F) = b"
proof -
  have nibbles: "(0x0F :: u8) = mask 4" "(0xF0 :: u8) = push_bit 4 (mask 4)" by (simp_all add: mask_eq_exp_minus_1)
  show ?thesis
    unfolding gripperFault_def controllerFault_def controller_fault_code_of gripper_fault_code_of register_map nibbles
    by (rule bit_word_eqI) (auto simp: bit_simps)
qed

text \<open>
  C31 The rendered lines can be read back: splitting the line of a command or of a status at its spaces and
  equals signs gives every documented bit and byte of the block again, unnamed fault codes included, and only
  the reserved bits and bytes are lost.
\<close>

theorem rendered_lines_read_back:
  "command_read (command_toString c) = [action c AND 0x39, positionRequest c, speed c, force c] \<and>
   status_read (status_toString s) =
     [gripperStatus s AND 0xF9, faultStatus s, positionRequestEcho s, position s, current s]"
proof
  show "command_read (command_toString c) = [action c AND 0x39, positionRequest c, speed c, force c]"
    using action_rebuilt [of "action c"]
    by (simp add: command_read_def field_read_def fields_command bit_read_bit_text byte_read_decimal)
  show "status_read (status_toString s) =
      [gripperStatus s AND 0xF9, faultStatus s, positionRequestEcho s, position s, current s]"
    using flags_rebuilt [of "gripperStatus s"] faults_rebuilt [of "faultStatus s"]
    by (simp add: status_read_def field_read_def fields_status fields_flags fields_fault bit_read_bit_text
        byte_read_decimal code_read_enum_text code_fits)
qed

end
