(* ===== verification/StdPlatform.thy ===== *)
theory StdPlatform
  imports ProcessImage
begin

text \<open>
  The default platform of the SDK (\<open>grippers/sdk_cpp/src/hosted/std_platform.cpp\<close>): its mutex and its
  condition variable at work under the process image (\<open>src/process_image.cpp\<close>), at the grain of
  single accesses to the shared state, and its sleeps over a clock.

  Threads are numbers, each at a place in the code it is running. One step is the code between two
  accesses another thread can see: \<open>std::mutex\<close> and \<open>std::atomic\<close> operations are one step each, and
  \<open>condition_variable_any::wait_until\<close> is a step that unlocks and falls asleep at once, a wake (by a
  notification, by the deadline, or for no reason) and the step that locks again. The generation
  is a 64-bit counter; it is a natural number here and does not reach its width.
\<close>

section \<open>Threads in the process image\<close>

datatype edit = Publish gripper_command gripper_status int | Close

fun apply_edit :: "edit \<Rightarrow> process_image \<Rightarrow> process_image" where
  "apply_edit (Publish c st t) im = publish c st t im"
| "apply_edit Close im = im_close im"

text \<open>The count and the deadline are \<open>sync\<close>'s; the generation is \<open>waitUntil\<close>'s local variable.\<close>

datatype place = Outside
  | Testing nat int
  | LoadingGeneration nat int
  | Checking nat int nat
  | FallingAsleep nat int nat
  | Asleep nat int nat
  | Woken nat int nat
  | Returned stamped_exchange
  | Editing edit
  | Bumping
  | Notifying

record std_waits =
  sw_image :: process_image
  sw_owner :: "nat option"
  sw_generation :: nat
  sw_now :: int
  sw_place :: "nat \<Rightarrow> place"

definition goes_to :: "nat \<Rightarrow> place \<Rightarrow> std_waits \<Rightarrow> std_waits" where
  "goes_to t p s = s\<lparr>sw_place := (sw_place s)(t := p)\<rparr>"

text \<open>\<open>StdMutex\<close>: a thread that finds it taken waits, here by not moving.\<close>

definition std_lock :: "nat \<Rightarrow> place \<Rightarrow> std_waits \<Rightarrow> std_waits" where
  "std_lock t p s = (if sw_owner s = None then goes_to t p (s\<lparr>sw_owner := Some t\<rparr>) else s)"

definition std_unlock :: "std_waits \<Rightarrow> std_waits" where
  "std_unlock s = s\<lparr>sw_owner := None\<rparr>"

text \<open>\<open>StdConditionVariable::waitUntil\<close>, entered and left with the mutex held.\<close>

definition std_waitUntil :: "nat \<Rightarrow> std_waits \<Rightarrow> std_waits" where
  "std_waitUntil t s =
     (case sw_place s t of
        LoadingGeneration n d \<Rightarrow> goes_to t (Checking n d (sw_generation s)) s
      | Checking n d g \<Rightarrow>
          if sw_generation s = g \<and> sw_now s < d then goes_to t (FallingAsleep n d g) s
          else goes_to t (Testing n d) s
      | FallingAsleep n d g \<Rightarrow> goes_to t (Asleep n d g) (std_unlock s)
      | Woken n d g \<Rightarrow> std_lock t (Checking n d g) s
      | _ \<Rightarrow> s)"

fun woken :: "place \<Rightarrow> place" where
  "woken (Asleep n d g) = Woken n d g"
| "woken p = p"

definition std_notifyAll :: "nat \<Rightarrow> std_waits \<Rightarrow> std_waits" where
  "std_notifyAll t s =
     (case sw_place s t of
        Bumping \<Rightarrow> goes_to t Notifying (s\<lparr>sw_generation := sw_generation s + 1\<rparr>)
      | Notifying \<Rightarrow> goes_to t Outside (s\<lparr>sw_place := \<lambda>u. woken (sw_place s u)\<rparr>)
      | _ \<Rightarrow> s)"

text \<open>\<open>ProcessImage::sync\<close>, and the locked part of \<open>publish\<close> and \<open>close\<close>.\<close>

definition sync_turn :: "nat \<Rightarrow> std_waits \<Rightarrow> std_waits" where
  "sync_turn t s =
     (case sw_place s t of
        Testing n d \<Rightarrow>
          if sync_waits n d (sw_now s) (sw_image s) then goes_to t (LoadingGeneration n d) s
          else goes_to t (Returned (im_stamped (sw_image s))) (std_unlock s)
      | _ \<Rightarrow> s)"

definition edit_turn :: "nat \<Rightarrow> std_waits \<Rightarrow> std_waits" where
  "edit_turn t s =
     (case sw_place s t of
        Editing e \<Rightarrow> goes_to t Bumping (std_unlock (s\<lparr>sw_image := apply_edit e (sw_image s)\<rparr>))
      | _ \<Rightarrow> s)"

definition turn_of :: "nat \<Rightarrow> std_waits \<Rightarrow> std_waits" where
  "turn_of t s =
     (case sw_place s t of
        Testing n d \<Rightarrow> sync_turn t s
      | Editing e \<Rightarrow> edit_turn t s
      | Bumping \<Rightarrow> std_notifyAll t s
      | Notifying \<Rightarrow> std_notifyAll t s
      | _ \<Rightarrow> std_waitUntil t s)"

text \<open>
  What can happen: a thread that is outside calls \<open>sync\<close>, \<open>publish\<close> or \<open>close\<close>, a thread runs one
  step, a sleeping thread wakes without a notification, the command is replaced, time passes.
\<close>

datatype waits_event = CallSync nat nat int | CallEdit nat edit | Turn nat | Wake nat
  | ReplaceCommand gripper_command | Pass nat

fun calling :: "place \<Rightarrow> bool" where
  "calling Outside = True"
| "calling (Returned x) = True"
| "calling p = False"

fun waits_step :: "waits_event \<Rightarrow> std_waits \<Rightarrow> std_waits" where
  "waits_step (CallSync t n d) s = (if calling (sw_place s t) then std_lock t (Testing n d) s else s)"
| "waits_step (CallEdit t e) s = (if calling (sw_place s t) then std_lock t (Editing e) s else s)"
| "waits_step (Turn t) s = turn_of t s"
| "waits_step (Wake t) s = goes_to t (woken (sw_place s t)) s"
| "waits_step (ReplaceCommand c) s =
     (if sw_owner s = None then s\<lparr>sw_image := im_setCommand c (sw_image s)\<rparr> else s)"
| "waits_step (Pass k) s = s\<lparr>sw_now := sw_now s + int k\<rparr>"

definition waits_run :: "waits_event list \<Rightarrow> std_waits \<Rightarrow> std_waits" where
  "waits_run es s = foldl (\<lambda>s e. waits_step e s) s es"

definition std_start :: "process_image \<Rightarrow> int \<Rightarrow> std_waits" where
  "std_start im now = \<lparr>sw_image = im, sw_owner = None, sw_generation = 0, sw_now = now, sw_place = \<lambda>_. Outside\<rparr>"

section \<open>Sleeping\<close>

text \<open>
  The clock and the sleeps of the system, on its state. The high-resolution timer of Windows is
  null elsewhere and on its older kernels; arming it takes hundreds of nanoseconds, negative for a
  relative time, and both arming and waiting can fail.
\<close>

record 'o std_clock =
  steady_now :: "'o \<Rightarrow> int \<times> 'o"
  sleep_for :: "int \<Rightarrow> 'o \<Rightarrow> 'o"
  has_timer :: bool
  set_timer :: "int \<Rightarrow> 'o \<Rightarrow> bool \<times> 'o"
  wait_timer :: "'o \<Rightarrow> bool \<times> 'o"

definition timer_turn :: "'o std_clock \<Rightarrow> int \<Rightarrow> 'o \<Rightarrow> bool option \<times> 'o" where
  "timer_turn ck timePoint w =
     (let (now, w1) = steady_now ck w; remaining = timePoint - now
      in if remaining \<le> 0 then (Some True, w1)
         else let (armed, w2) = set_timer ck (- (remaining div 100) - 1) w1
              in if \<not> armed then (Some False, w2)
                 else let (signalled, w3) = wait_timer ck w2
                      in if \<not> signalled then (Some False, w3) else (None, w3))"

partial_function (option) timer_loop :: "'o std_clock \<Rightarrow> int \<Rightarrow> 'o \<Rightarrow> (bool \<times> 'o) option" where
  "timer_loop ck timePoint w =
     (case timer_turn ck timePoint w of
        (Some r, w1) \<Rightarrow> Some (r, w1)
      | (None, w1) \<Rightarrow> timer_loop ck timePoint w1)"

definition timer_sleepUntil :: "'o std_clock \<Rightarrow> int \<Rightarrow> 'o \<Rightarrow> (bool \<times> 'o) option" where
  "timer_sleepUntil ck timePoint w = (if \<not> has_timer ck then Some (False, w) else timer_loop ck timePoint w)"

partial_function (option) sleep_loop :: "'o std_clock \<Rightarrow> int \<Rightarrow> 'o \<Rightarrow> 'o option" where
  "sleep_loop ck timePoint w =
     (case steady_now ck w of (now, w1) \<Rightarrow>
        if 0 < timePoint - now then sleep_loop ck timePoint (sleep_for ck (timePoint - now) w1) else Some w1)"

definition std_sleepUntil :: "'o std_clock \<Rightarrow> int \<Rightarrow> 'o \<Rightarrow> 'o option" where
  "std_sleepUntil ck timePoint w =
     (case timer_sleepUntil ck timePoint w of
        None \<Rightarrow> None
      | Some (slept, w1) \<Rightarrow> if slept then Some w1 else sleep_loop ck timePoint w1)"

definition std_sleepFor :: "'o std_clock \<Rightarrow> int \<Rightarrow> 'o \<Rightarrow> 'o option" where
  "std_sleepFor ck ms w = (case steady_now ck w of (now, w1) \<Rightarrow> std_sleepUntil ck (now + ms * 10 ^ 6) w1)"

section \<open>Threads\<close>

text \<open>A \<open>StdThread\<close> is whether it is joinable; \<open>wait\<close> is the wait for its end. The destructor joins.\<close>

definition std_spawn :: "('w \<Rightarrow> 'w) \<Rightarrow> 'w \<Rightarrow> bool \<times> 'w" where
  "std_spawn begins w = (True, begins w)"

definition std_thread_join :: "('w \<Rightarrow> 'w) \<Rightarrow> bool \<times> 'w \<Rightarrow> bool \<times> 'w" where
  "std_thread_join wait = (\<lambda>(joinable, w). if joinable then (False, wait w) else (joinable, w))"

definition std_thread_destroy :: "('w \<Rightarrow> 'w) \<Rightarrow> bool \<times> 'w \<Rightarrow> bool \<times> 'w" where
  "std_thread_destroy wait = std_thread_join wait"

text \<open>A thread is waited for once, whether it is joined or only destroyed.\<close>

lemma std_thread_waited_once:
  "std_thread_destroy wait (std_thread_join wait t) = std_thread_destroy wait t"
  "snd (std_thread_destroy wait (std_spawn begins w)) = wait (begins w)"
  by (cases t) (simp_all add: std_thread_destroy_def std_thread_join_def std_spawn_def)

section \<open>One thread publishes, the others wait\<close>

text \<open>
  The exchange thread is the only one that publishes. With the generation counting its publications,
  a waiter that loaded generation \<open>g\<close> waits for more than the \<open>g\<close>-th.
\<close>

fun exchange_thread :: "nat \<Rightarrow> waits_event \<Rightarrow> bool" where
  "exchange_thread p (CallSync t n d) = (t \<noteq> p)"
| "exchange_thread p (CallEdit t e) = (t = p \<and> e \<noteq> Close)"
| "exchange_thread p _ = True"

abbreviation sw_count :: "std_waits \<Rightarrow> nat" where
  "sw_count s \<equiv> exchangeCount (im_stamped (sw_image s))"

fun publisher_ok :: "place \<Rightarrow> bool" where
  "publisher_ok Outside = True"
| "publisher_ok (Editing e) = (e \<noteq> Close)"
| "publisher_ok Bumping = True"
| "publisher_ok Notifying = True"
| "publisher_ok _ = False"

fun waiter_ok :: "nat \<Rightarrow> nat \<Rightarrow> bool \<Rightarrow> place \<Rightarrow> bool" where
  "waiter_ok c0 c notified (LoadingGeneration n d) = (c \<le> n)"
| "waiter_ok c0 c notified (Checking n d g) = (c0 + g \<le> n)"
| "waiter_ok c0 c notified (FallingAsleep n d g) = (c0 + g \<le> n \<and> c \<le> c0 + g + 1)"
| "waiter_ok c0 c notified (Asleep n d g) = (c0 + g \<le> n \<and> (notified \<or> c \<le> c0 + g + 1))"
| "waiter_ok c0 c notified (Woken n d g) = (c0 + g \<le> n)"
| "waiter_ok c0 c notified (Editing e) = False"
| "waiter_ok c0 c notified Bumping = False"
| "waiter_ok c0 c notified Notifying = False"
| "waiter_ok c0 c notified _ = True"

fun holds_mutex :: "place \<Rightarrow> bool" where
  "holds_mutex (Testing n d) = True"
| "holds_mutex (LoadingGeneration n d) = True"
| "holds_mutex (Checking n d g) = True"
| "holds_mutex (FallingAsleep n d g) = True"
| "holds_mutex (Editing e) = True"
| "holds_mutex _ = False"

abbreviation notification_due :: "nat \<Rightarrow> std_waits \<Rightarrow> bool" where
  "notification_due p s \<equiv> sw_place s p \<in> {Bumping, Notifying}"

definition locked_well :: "std_waits \<Rightarrow> bool" where
  "locked_well s \<longleftrightarrow> (\<forall>t. holds_mutex (sw_place s t) \<longleftrightarrow> sw_owner s = Some t)"

definition waits_inv :: "nat \<Rightarrow> nat \<Rightarrow> std_waits \<Rightarrow> bool" where
  "waits_inv p c0 s \<longleftrightarrow> locked_well s \<and> publisher_ok (sw_place s p) \<and>
     sw_count s = c0 + sw_generation s + (if sw_place s p = Bumping then 1 else 0) \<and>
     (\<forall>t. t \<noteq> p \<longrightarrow> waiter_ok c0 (sw_count s) (notification_due p s) (sw_place s t))"

lemmas waits_defs = turn_of_def std_waitUntil_def std_notifyAll_def sync_turn_def edit_turn_def std_lock_def
  std_unlock_def goes_to_def

lemma holds_mutex_woken [simp]: "holds_mutex (woken q) = holds_mutex q"
  by (cases q) auto

lemma woken_not [simp]: "woken q \<noteq> Asleep n d g"
  by (cases q) auto

lemma locked_well_turn: "locked_well s \<Longrightarrow> locked_well (turn_of t s)"
proof -
  assume l: "locked_well s"
  then have other: "holds_mutex (sw_place s u) \<longleftrightarrow> sw_owner s = Some u" for u by (simp add: locked_well_def)
  show "locked_well (turn_of t s)"
    using other [of t] other by (cases "sw_place s t") (auto simp: waits_defs locked_well_def)
qed

lemma locked_well_step: "locked_well s \<Longrightarrow> locked_well (waits_step e s)"
proof (cases e)
  case (Turn t)
  then show "locked_well s \<Longrightarrow> ?thesis" by (simp add: locked_well_turn)
next
  case (CallSync t n d)
  then show "locked_well s \<Longrightarrow> ?thesis" by (cases "sw_place s t") (auto simp: waits_defs locked_well_def)
next
  case (CallEdit t e)
  then show "locked_well s \<Longrightarrow> ?thesis" by (cases "sw_place s t") (auto simp: waits_defs locked_well_def)
qed (auto simp: waits_defs locked_well_def)

lemma waiter_ok_woken: "waiter_ok c0 c b q \<Longrightarrow> waiter_ok c0 c b' (woken q)"
  by (cases q) auto

text \<open>A publication finds no other thread with the mutex.\<close>

lemma waiter_ok_published:
  "waiter_ok c0 c b q \<Longrightarrow> \<not> holds_mutex q \<Longrightarrow> waiter_ok c0 (Suc c) True q"
  by (cases q) auto

lemma waiter_ok_due: "waiter_ok c0 c True q \<Longrightarrow> \<not> b \<Longrightarrow> \<forall>n d g. q \<noteq> Asleep n d g \<Longrightarrow> waiter_ok c0 c b q"
  by (cases q) auto

lemma publisher_turn:
  assumes "waits_inv p c0 s"
  shows "waits_inv p c0 (turn_of p s)"
proof -
  note i = assms [unfolded waits_inv_def]
  have l: "locked_well (turn_of p s)" using i by (simp add: locked_well_turn)
  have w: "waiter_ok c0 (sw_count s) (notification_due p s) (sw_place s t)" if "t \<noteq> p" for t
    using i that by blast
  show ?thesis
  proof (cases "sw_place s p")
    case (Editing e)
    then obtain c st at where e: "e = Publish c st at" using i by (cases e) auto
    have free: "\<not> holds_mutex (sw_place s t)" if "t \<noteq> p" for t
    proof -
      have "sw_owner s = Some p" using i Editing unfolding locked_well_def by force
      then show ?thesis using i that unfolding locked_well_def by auto
    qed
    then show ?thesis
      using i l e Editing waiter_ok_published [OF w free] by (auto simp: waits_inv_def waits_defs publish_def)
  next
    case Bumping
    then show ?thesis using i l w by (auto simp: waits_inv_def waits_defs)
  next
    case Notifying
    then show ?thesis using i l waiter_ok_woken [OF w] by (auto simp: waits_inv_def waits_defs)
  next
    case Outside
    then show ?thesis using i by (auto simp: turn_of_def std_waitUntil_def waits_inv_def)
  qed (use i in auto)
qed

lemma waiter_turn:
  assumes "waits_inv p c0 s" and "t \<noteq> p"
  shows "waits_inv p c0 (turn_of t s)"
proof -
  note i = assms(1) [unfolded waits_inv_def]
  have l: "locked_well (turn_of t s)" using i by (simp add: locked_well_turn)
  have w: "waiter_ok c0 (sw_count s) (notification_due p s) (sw_place s t)" using i assms(2) by blast
  have same: "sw_image (turn_of t s) = sw_image s \<and> sw_generation (turn_of t s) = sw_generation s \<and>
      (\<forall>u. u \<noteq> t \<longrightarrow> sw_place (turn_of t s) u = sw_place s u)"
    using w by (cases "sw_place s t") (auto simp: waits_defs)
  have "waiter_ok c0 (sw_count s) (notification_due p s) (sw_place (turn_of t s) t)"
    using w i by (cases "sw_place s t") (auto simp: waits_defs sync_waits_def split: if_splits)
  then show ?thesis using i l same assms(2) by (auto simp: waits_inv_def)
qed

lemma waits_inv_step:
  assumes "waits_inv p c0 s" and "exchange_thread p e"
  shows "waits_inv p c0 (waits_step e s)"
proof (cases e)
  case (Turn t)
  then show ?thesis using assms publisher_turn [of p c0 s] waiter_turn [of p c0 s t] by (cases "t = p") auto
next
  case (CallSync t n d)
  then show ?thesis
    using assms locked_well_step [of s e]
    by (cases "calling (sw_place s t)") (auto simp: waits_defs waits_inv_def)
next
  case (CallEdit t ed)
  then show ?thesis
    using assms locked_well_step [of s e]
    by (cases "sw_place s t") (auto simp: waits_defs waits_inv_def)
next
  case (Wake t)
  have "publisher_ok q \<Longrightarrow> woken q = q" for q by (cases q) auto
  then show ?thesis
    using assms locked_well_step [of s e] Wake
    by (cases "t = p") (auto simp: goes_to_def waits_inv_def waiter_ok_woken)
next
  case (ReplaceCommand c)
  then show ?thesis
    using assms locked_well_step [of s e] by (auto simp: waits_inv_def im_setCommand_def)
next
  case (Pass k)
  then show ?thesis
    using assms locked_well_step [of s e] by (auto simp: waits_inv_def)
qed

lemma waits_inv_run:
  "waits_inv p c0 s \<Longrightarrow> \<forall>e \<in> set es. exchange_thread p e \<Longrightarrow> waits_inv p c0 (waits_run es s)"
  by (induction es arbitrary: s) (auto simp: waits_run_def waits_inv_step)

lemma waits_inv_start: "waits_inv p (exchangeCount (im_stamped im)) (std_start im now)"
  by (simp add: waits_inv_def std_start_def locked_well_def)


text \<open>
  A clock that runs: readings never go back, a sleep takes some time, and so does a timer that is waited for;
  either may end before the time asked for.
\<close>

definition clock_runs :: "'o std_clock \<Rightarrow> ('o \<Rightarrow> int) \<Rightarrow> bool" where
  "clock_runs ck tm \<longleftrightarrow>
     (\<forall>w. fst (steady_now ck w) = tm w \<and> tm w \<le> tm (snd (steady_now ck w))) \<and>
     (\<forall>r w. tm w \<le> tm (snd (set_timer ck r w))) \<and>
     (\<forall>w. tm w < tm (snd (wait_timer ck w))) \<and>
     (\<forall>r w. 0 < r \<longrightarrow> tm w < tm (sleep_for ck r w))"

lemma clock_reading:
  "clock_runs ck tm \<Longrightarrow> steady_now ck w = (now, w1) \<Longrightarrow> now = tm w \<and> tm w \<le> tm w1"
  unfolding clock_runs_def by (metis fst_conv snd_conv)

lemma sleep_loop_ends:
  assumes ck: "clock_runs ck tm"
  shows "\<exists>w'. sleep_loop ck tp w = Some w' \<and> tp \<le> tm w'"
proof (induction "nat (tp - tm w)" arbitrary: w rule: less_induct)
  case less
  obtain now w1 where r: "steady_now ck w = (now, w1)" by fastforce
  note t = clock_reading [OF ck r]
  show ?case
  proof (cases "0 < tp - now")
    case True
    then have "tm w1 < tm (sleep_for ck (tp - now) w1)" using ck by (auto simp: clock_runs_def)
    then have "nat (tp - tm (sleep_for ck (tp - now) w1)) < nat (tp - tm w)" using True t by linarith
    then show ?thesis using less True r by (simp add: sleep_loop.simps [of ck tp w])
  next
    case False
    then show ?thesis using r t by (simp add: sleep_loop.simps [of ck tp w])
  qed
qed

lemma timer_turn_time:
  assumes ck: "clock_runs ck tm" and "timer_turn ck tp w = (r, w1)"
  shows "(r = Some True \<longrightarrow> tp \<le> tm w1) \<and> (r = None \<longrightarrow> tm w < tp \<and> tm w < tm w1)"
proof -
  obtain now w2 where n: "steady_now ck w = (now, w2)" by fastforce
  obtain a w3 where s: "set_timer ck (- ((tp - now) div 100) - 1) w2 = (a, w3)" by fastforce
  obtain b w4 where t: "wait_timer ck w3 = (b, w4)" by fastforce
  have "tm w2 \<le> tm w3" "tm w3 < tm w4" using ck s t unfolding clock_runs_def by (metis snd_conv)+
  then show ?thesis
    using assms(2) n s t clock_reading [OF ck n] by (auto simp: timer_turn_def Let_def split: if_splits)
qed

lemma timer_loop_ends:
  assumes ck: "clock_runs ck tm"
  shows "\<exists>r w'. timer_loop ck tp w = Some (r, w') \<and> (r \<longrightarrow> tp \<le> tm w')"
proof (induction "nat (tp - tm w)" arbitrary: w rule: less_induct)
  case less
  obtain r w1 where t: "timer_turn ck tp w = (r, w1)" by fastforce
  note time = timer_turn_time [OF ck t]
  show ?case
  proof (cases r)
    case None
    then have "nat (tp - tm w1) < nat (tp - tm w)" using time by linarith
    then show ?thesis using less None t by (simp add: timer_loop.simps [of ck tp w])
  next
    case (Some b)
    then show ?thesis using t time by (cases b) (auto simp: timer_loop.simps [of ck tp w])
  qed
qed

section \<open>What the default platform keeps\<close>

text \<open>
  C17 A thread asleep in \<open>sync\<close> is at most one exchange late: under every interleaving of its waiters with the
  exchange thread, spurious wakes included, when no notification is on its way the image has counted at most one
  exchange past the count waited for.
\<close>

theorem waiter_at_most_one_exchange_late:
  assumes "\<forall>e \<in> set es. exchange_thread p e" and "s = waits_run es (std_start im now)"
    and "sw_place s t = Asleep n d g" and "sw_place s p \<notin> {Bumping, Notifying}"
  shows "exchangeCount (im_stamped (sw_image s)) \<le> n + 1"
proof -
  have i: "waits_inv p (exchangeCount (im_stamped im)) s"
    using waits_inv_run [OF waits_inv_start assms(1)] assms(2) by simp
  then have "t \<noteq> p" using assms(3) by (auto simp: waits_inv_def)
  then have "waiter_ok (exchangeCount (im_stamped im)) (sw_count s) (notification_due p s) (Asleep n d g)"
    using i assms(3) unfolding waits_inv_def by (metis (no_types, lifting))
  then show ?thesis using assms(4) by simp
qed

text \<open>
  C38 The one exchange can be missed although nothing woke the waiter by accident: a waiter put to sleep between
  the two halves of a notification is woken by it, finds its generation current, and falls asleep again
  beside the next notification, with the exchange it waits for in the image and its deadline ahead.
\<close>

theorem notification_can_be_missed:
  assumes "t \<noteq> p" and "now < d" and "\<not> im_closed im"
  shows "\<exists>es. (\<forall>e \<in> set es. exchange_thread p e \<and> (\<forall>u. e \<noteq> Wake u)) \<and>
    (let s = waits_run es (std_start im now) in
       sw_place s t = Asleep (exchangeCount (im_stamped im) + 1) d 1 \<and> sw_place s p = Outside \<and> sw_now s < d \<and>
       \<not> sync_waits (exchangeCount (im_stamped im) + 1) d (sw_now s) (sw_image s))"
proof -
  let ?n = "exchangeCount (im_stamped im) + 1" and ?e = "Publish zero_command zero_status now"
  let ?es = "[CallEdit p ?e, Turn p, Turn p, CallSync t ?n d, Turn t, Turn t, Turn t, Turn t, Turn p,
     CallEdit p ?e, Turn p, Turn t, Turn t, Turn p, Turn p, Turn t]"
  have "\<forall>e \<in> set ?es. exchange_thread p e \<and> (\<forall>u. e \<noteq> Wake u)" using assms(1) by auto
  moreover have "let s = waits_run ?es (std_start im now) in
      sw_place s t = Asleep ?n d 1 \<and> sw_place s p = Outside \<and> sw_now s < d \<and> \<not> sync_waits ?n d (sw_now s) (sw_image s)"
    using assms by (simp add: waits_run_def std_start_def waits_defs Let_def sync_waits_def publish_def)
  ultimately show ?thesis by blast
qed

text \<open>
  The default platform's \<open>sleepUntil\<close> returns, and only once the steady clock has reached the time asked for,
  however early the system's sleeps and its timer end and whenever the timer fails.
\<close>

theorem sleep_ends_after_its_time:
  assumes ck: "clock_runs ck tm"
  shows "\<exists>w'. std_sleepUntil ck timePoint w = Some w' \<and> timePoint \<le> tm w'"
proof -
  have "\<exists>r w1. timer_sleepUntil ck timePoint w = Some (r, w1) \<and> (r \<longrightarrow> timePoint \<le> tm w1)"
    using timer_loop_ends [OF ck, of timePoint w] by (cases "has_timer ck") (auto simp: timer_sleepUntil_def)
  then obtain r w1 where t: "timer_sleepUntil ck timePoint w = Some (r, w1)" "r \<longrightarrow> timePoint \<le> tm w1"
    by blast
  then show ?thesis using sleep_loop_ends [OF ck, of timePoint w1] by (auto simp: std_sleepUntil_def)
qed

section \<open>Witnesses\<close>

theorem waiter_at_most_one_exchange_late_witness:
  "let es = [CallSync 1 0 5, Turn 1, Turn 1, Turn 1, Turn 1];
       s = waits_run es (std_start \<lparr>im_command = zero_command, im_stamped = zero_stamped, im_closed = False\<rparr> 0)
   in sw_place s 1 = Asleep 0 5 0 \<and> exchangeCount (im_stamped (sw_image s)) \<le> 1"
  using waiter_at_most_one_exchange_late [of "[CallSync 1 0 5, Turn 1, Turn 1, Turn 1, Turn 1]" 0 _
      "\<lparr>im_command = zero_command, im_stamped = zero_stamped, im_closed = False\<rparr>" 0 1 0 5 0, OF _ refl]
  by (simp add: waits_run_def std_start_def waits_defs Let_def sync_waits_def zero_stamped_def)

theorem notification_can_be_missed_witness:
  "let im = \<lparr>im_command = zero_command, im_stamped = zero_stamped, im_closed = False\<rparr> in
   \<exists>es. \<forall>u. Wake u \<notin> set es \<and>
     (let s = waits_run es (std_start im 0) in sw_place s 1 = Asleep 1 5 1 \<and> sw_place s 0 = Outside)"
  using notification_can_be_missed [of 1 0 0 5 "\<lparr>im_command = zero_command, im_stamped = zero_stamped, im_closed = False\<rparr>"]
  by (auto simp: Let_def zero_stamped_def)

theorem sleep_ends_after_its_time_witness:
  "\<exists>w'. std_sleepUntil \<lparr>steady_now = \<lambda>w. (w, w), sleep_for = \<lambda>r w. w + 1, has_timer = True,
     set_timer = \<lambda>r w. (w < 90, w), wait_timer = \<lambda>w. (True, w + 7)\<rparr> 100 3 = Some w' \<and> 100 \<le> (w' :: int)"
  using sleep_ends_after_its_time [of "\<lparr>steady_now = \<lambda>w. (w, w), sleep_for = \<lambda>r w. w + 1, has_timer = True,
     set_timer = \<lambda>r w. (w < 90, w), wait_timer = \<lambda>w. (True, w + 7)\<rparr>" "\<lambda>w. w" 100 3]
  by (simp add: clock_runs_def)

end
