(* ===== verification/ThreadX.thy ===== *)
theory ThreadX
  imports StdPlatform
begin

text \<open>
  The platform for the ThreadX kernel (\<open>grippers/sdk_cpp/ports/threadx/threadx_platform.hpp\<close> and
  \<open>threadx_ticks.hpp\<close>): the tick arithmetic, the creation of its objects, its sleeps and joins, and its
  condition variable, which is a semaphore and a count of waiters, at work under the process image.

  The kernel is not part of the repository: its semaphore is a record of functions on the kernel's
  state, what the port relies on are the laws of \<open>semaphore_laws\<close>, and its status codes are
  arguments. The tick rate is an argument too; \<open>TX_WAIT_FOREVER\<close> has the kernel's value, which the
  repository's stand-in header repeats.
\<close>

section \<open>Ticks\<close>

definition TX_WAIT_FOREVER :: int where
  "TX_WAIT_FOREVER = 0xFFFFFFFF"

definition kNsPerSecond :: int where
  "kNsPerSecond = 1000000000"

definition kMaxTicks :: int where
  "kMaxTicks = TX_WAIT_FOREVER - 1"

definition kMaxNs :: "int \<Rightarrow> int" where
  "kMaxNs perSecond = kMaxTicks * kNsPerSecond div perSecond"

definition blockingTicks :: "int \<Rightarrow> int \<Rightarrow> u32" where
  "blockingTicks perSecond duration =
     (if duration \<le> 0 then 0
      else let ns = min duration (kMaxNs perSecond)
           in word_of_int ((ns * perSecond + kNsPerSecond - 1) div kNsPerSecond))"

text \<open>What the two sleeps hand to \<open>tx_thread_sleep\<close>, if they call it.\<close>

definition tx_sleepUntil :: "int \<Rightarrow> int \<Rightarrow> int \<Rightarrow> u32 option" where
  "tx_sleepUntil perSecond now timePoint =
     (let ticks = blockingTicks perSecond (timePoint - now) in if ticks \<noteq> 0 then Some ticks else None)"

definition tx_sleepFor :: "int \<Rightarrow> int \<Rightarrow> u32 option" where
  "tx_sleepFor perSecond ms =
     (let ticks = blockingTicks perSecond (ms * 10 ^ 6) in if ticks \<noteq> 0 then Some ticks else None)"

section \<open>Objects\<close>

definition makeThreadXMutex :: "nat \<Rightarrow> thrown + unit" where
  "makeThreadXMutex status =
     (if status \<noteq> 0 then Inl (driver_exception ''tx_mutex_create failed (is the ThreadX kernel running?)'') else Inr ())"

definition makeThreadXConditionVariable :: "nat \<Rightarrow> thrown + unit" where
  "makeThreadXConditionVariable status =
     (if status \<noteq> 0 then Inl (driver_exception ''tx_semaphore_create failed (is the ThreadX kernel running?)'') else Inr ())"

definition makeThreadXThread :: "nat \<Rightarrow> thrown + unit" where
  "makeThreadXThread status =
     (if status \<noteq> 0
      then Inl (driver_exception (''tx_thread_create failed with status '' @ decimal status @
             '' (is the ThreadX kernel running, and the priority in range?)''))
      else Inr ())"

text \<open>\<open>join\<close> polls the thread's state, one tick apart, until it has ended by itself or by force.\<close>

datatype tx_state = TX_READY | TX_COMPLETED | TX_TERMINATED

partial_function (option) tx_join :: "('k \<Rightarrow> tx_state) \<Rightarrow> ('k \<Rightarrow> 'k) \<Rightarrow> 'k \<Rightarrow> 'k option" where
  "tx_join info sleep_one k =
     (if info k = TX_COMPLETED \<or> info k = TX_TERMINATED then Some k else tx_join info sleep_one (sleep_one k))"

text \<open>
  The thread object: \<open>join\<close> remembers that it returned; the destructor terminates a thread that was not joined and deletes it.
  The kernel refuses to delete a thread that has not ended.
\<close>

definition tx_thread_join :: "('k \<Rightarrow> tx_state) \<Rightarrow> ('k \<Rightarrow> 'k) \<Rightarrow> bool \<times> 'k \<Rightarrow> (bool \<times> 'k) option" where
  "tx_thread_join info sleep_one = (\<lambda>(joined, k). map_option (\<lambda>k'. (True, k')) (tx_join info sleep_one k))"

definition tx_thread_destroy :: "('k \<Rightarrow> 'k) \<Rightarrow> ('k \<Rightarrow> 'k) \<Rightarrow> bool \<times> 'k \<Rightarrow> 'k" where
  "tx_thread_destroy terminate delete = (\<lambda>(joined, k). delete (if joined then k else terminate k))"

lemma tx_join_ended: "tx_join info sleep_one k = Some k' \<Longrightarrow> info k' = TX_COMPLETED \<or> info k' = TX_TERMINATED"
proof (induction rule: tx_join.raw_induct [rotated, consumes 1, case_names step])
  case (step rec k k')
  then show ?case by (auto split: if_splits)
qed

lemma tx_thread_deleted_ended:
  assumes "\<And>k. info (terminate k) = TX_COMPLETED \<or> info (terminate k) = TX_TERMINATED"
    and "joined \<Longrightarrow> \<exists>k0. tx_thread_join info sleep_one (False, k0) = Some (True, k)"
  shows "\<exists>k'. tx_thread_destroy terminate delete (joined, k) = delete k' \<and> (info k' = TX_COMPLETED \<or> info k' = TX_TERMINATED)"
proof (cases joined)
  case True
  then obtain k0 where "tx_join info sleep_one k0 = Some k" using assms(2) by (auto simp: tx_thread_join_def)
  from tx_join_ended [OF this] True show ?thesis by (auto simp: tx_thread_destroy_def)
next
  case False
  then show ?thesis using assms(1) [of k] by (auto simp: tx_thread_destroy_def)
qed

section \<open>The condition variable\<close>

text \<open>
  A call to get the semaphore may have to wait: \<open>tx_get t\<close> is thread \<open>t\<close> making the call, \<open>tx_granted t\<close> says
  that its call holds a token, \<open>tx_leave t\<close> is its return, with the token or, timed out, without one.
\<close>

record 'k tx_semaphore =
  tx_get :: "nat \<Rightarrow> 'k \<Rightarrow> 'k"
  tx_granted :: "nat \<Rightarrow> 'k \<Rightarrow> bool"
  tx_leave :: "nat \<Rightarrow> 'k \<Rightarrow> 'k"
  tx_put :: "'k \<Rightarrow> 'k"

datatype tx_place = XOutside
  | XTesting nat int
  | XRegistering nat int
  | XUnlocking nat int
  | XGetting nat int
  | XBlocked nat int
  | XDeregistering nat int
  | XRelocking nat int
  | XReturned stamped_exchange
  | XEditing edit
  | XCounting
  | XPutting nat

record 'k tx_waits =
  tw_image :: process_image
  tw_owner :: "nat option"
  tw_waiters :: nat
  tw_kernel :: 'k
  tw_now :: int
  tw_place :: "nat \<Rightarrow> tx_place"

definition tx_goes_to :: "nat \<Rightarrow> tx_place \<Rightarrow> 'k tx_waits \<Rightarrow> 'k tx_waits" where
  "tx_goes_to t p s = s\<lparr>tw_place := (tw_place s)(t := p)\<rparr>"

definition tx_lock :: "nat \<Rightarrow> tx_place \<Rightarrow> 'k tx_waits \<Rightarrow> 'k tx_waits" where
  "tx_lock t p s = (if tw_owner s = None then tx_goes_to t p (s\<lparr>tw_owner := Some t\<rparr>) else s)"

definition tx_unlock :: "'k tx_waits \<Rightarrow> 'k tx_waits" where
  "tx_unlock s = s\<lparr>tw_owner := None\<rparr>"

text \<open>With no ticks left the call does not wait.\<close>

definition tx_waitUntil :: "'k tx_semaphore \<Rightarrow> int \<Rightarrow> nat \<Rightarrow> 'k tx_waits \<Rightarrow> 'k tx_waits" where
  "tx_waitUntil sem perSecond t s =
     (case tw_place s t of
        XRegistering n d \<Rightarrow> tx_goes_to t (XUnlocking n d) (s\<lparr>tw_waiters := tw_waiters s + 1\<rparr>)
      | XUnlocking n d \<Rightarrow> tx_goes_to t (XGetting n d) (tx_unlock s)
      | XGetting n d \<Rightarrow>
          let ticks = blockingTicks perSecond (d - tw_now s); k = tx_get sem t (tw_kernel s)
          in if ticks = 0 then tx_goes_to t (XDeregistering n d) (s\<lparr>tw_kernel := tx_leave sem t k\<rparr>)
             else tx_goes_to t (XBlocked n d) (s\<lparr>tw_kernel := k\<rparr>)
      | XBlocked n d \<Rightarrow>
          if tx_granted sem t (tw_kernel s)
          then tx_goes_to t (XDeregistering n d) (s\<lparr>tw_kernel := tx_leave sem t (tw_kernel s)\<rparr>) else s
      | XDeregistering n d \<Rightarrow> tx_goes_to t (XRelocking n d) (s\<lparr>tw_waiters := tw_waiters s - 1\<rparr>)
      | XRelocking n d \<Rightarrow> tx_lock t (XTesting n d) s
      | _ \<Rightarrow> s)"

definition tx_notifyAll :: "'k tx_semaphore \<Rightarrow> nat \<Rightarrow> 'k tx_waits \<Rightarrow> 'k tx_waits" where
  "tx_notifyAll sem t s =
     (case tw_place s t of
        XCounting \<Rightarrow> tx_goes_to t (XPutting (tw_waiters s)) s
      | XPutting pending \<Rightarrow>
          if 0 < pending then tx_goes_to t (XPutting (pending - 1)) (s\<lparr>tw_kernel := tx_put sem (tw_kernel s)\<rparr>)
          else tx_goes_to t XOutside s
      | _ \<Rightarrow> s)"

definition tx_image_turn :: "nat \<Rightarrow> 'k tx_waits \<Rightarrow> 'k tx_waits" where
  "tx_image_turn t s =
     (case tw_place s t of
        XTesting n d \<Rightarrow>
          if sync_waits n d (tw_now s) (tw_image s) then tx_goes_to t (XRegistering n d) s
          else tx_goes_to t (XReturned (im_stamped (tw_image s))) (tx_unlock s)
      | XEditing e \<Rightarrow> tx_goes_to t XCounting (tx_unlock (s\<lparr>tw_image := apply_edit e (tw_image s)\<rparr>))
      | _ \<Rightarrow> s)"

definition tx_turn :: "'k tx_semaphore \<Rightarrow> int \<Rightarrow> nat \<Rightarrow> 'k tx_waits \<Rightarrow> 'k tx_waits" where
  "tx_turn sem perSecond t s =
     (case tw_place s t of
        XTesting n d \<Rightarrow> tx_image_turn t s
      | XEditing e \<Rightarrow> tx_image_turn t s
      | XCounting \<Rightarrow> tx_notifyAll sem t s
      | XPutting pending \<Rightarrow> tx_notifyAll sem t s
      | _ \<Rightarrow> tx_waitUntil sem perSecond t s)"

datatype tx_event = XCallSync nat nat int | XCallEdit nat edit | XTurn nat | XTimeout nat | XPass nat

fun tx_calling :: "tx_place \<Rightarrow> bool" where
  "tx_calling XOutside = True"
| "tx_calling (XReturned x) = True"
| "tx_calling p = False"

text \<open>A blocked call times out at any time: ticks are the kernel's.\<close>

fun tx_step :: "'k tx_semaphore \<Rightarrow> int \<Rightarrow> tx_event \<Rightarrow> 'k tx_waits \<Rightarrow> 'k tx_waits" where
  "tx_step sem hz (XCallSync t n d) s = (if tx_calling (tw_place s t) then tx_lock t (XTesting n d) s else s)"
| "tx_step sem hz (XCallEdit t e) s = (if tx_calling (tw_place s t) then tx_lock t (XEditing e) s else s)"
| "tx_step sem hz (XTurn t) s = tx_turn sem hz t s"
| "tx_step sem hz (XTimeout t) s =
     (case tw_place s t of
        XBlocked n d \<Rightarrow> tx_goes_to t (XDeregistering n d) (s\<lparr>tw_kernel := tx_leave sem t (tw_kernel s)\<rparr>)
      | _ \<Rightarrow> s)"
| "tx_step sem hz (XPass k) s = s\<lparr>tw_now := tw_now s + int k\<rparr>"

definition tx_run :: "'k tx_semaphore \<Rightarrow> int \<Rightarrow> tx_event list \<Rightarrow> 'k tx_waits \<Rightarrow> 'k tx_waits" where
  "tx_run sem hz es s = foldl (\<lambda>s e. tx_step sem hz e s) s es"

definition tx_start :: "'k \<Rightarrow> process_image \<Rightarrow> int \<Rightarrow> 'k tx_waits" where
  "tx_start k im now = \<lparr>tw_image = im, tw_owner = None, tw_waiters = 0, tw_kernel = k, tw_now = now,
     tw_place = \<lambda>_. XOutside\<rparr>"

text \<open>
  The documented semaphore: a token put goes to the thread that has waited longest, or stays; a call takes a
  token that stays, or waits. \<open>free\<close> counts the tokens that stay and \<open>queue\<close> lists the waiting threads.
\<close>

definition semaphore_laws :: "'k tx_semaphore \<Rightarrow> ('k \<Rightarrow> nat) \<Rightarrow> ('k \<Rightarrow> nat list) \<Rightarrow> bool" where
  "semaphore_laws sem free queue \<longleftrightarrow>
     (\<forall>t k. free (tx_get sem t k) = free k - 1 \<and>
        queue (tx_get sem t k) = (if free k = 0 then queue k @ [t] else queue k) \<and>
        (\<forall>u. tx_granted sem u (tx_get sem t k) = (if u = t then 0 < free k else tx_granted sem u k))) \<and>
     (\<forall>k. free (tx_put sem k) = (if queue k = [] then free k + 1 else free k) \<and>
        queue (tx_put sem k) = tl (queue k) \<and>
        (\<forall>u. tx_granted sem u (tx_put sem k) = (tx_granted sem u k \<or> queue k \<noteq> [] \<and> u = hd (queue k)))) \<and>
     (\<forall>t k. free (tx_leave sem t k) = free k \<and> queue (tx_leave sem t k) = removeAll t (queue k) \<and>
        (\<forall>u. tx_granted sem u (tx_leave sem t k) = (u \<noteq> t \<and> tx_granted sem u k)))"

text \<open>One that keeps them: free tokens, waiting threads, threads holding a token.\<close>

definition fifo_semaphore :: "(nat \<times> nat list \<times> nat list) tx_semaphore" where
  "fifo_semaphore =
     \<lparr>tx_get = \<lambda>t (f, q, h). if 0 < f then (f - 1, q, t # h) else (0, q @ [t], removeAll t h),
      tx_granted = \<lambda>t (f, q, h). t \<in> set h,
      tx_leave = \<lambda>t (f, q, h). (f, removeAll t q, removeAll t h),
      tx_put = \<lambda>(f, q, h). case q of [] \<Rightarrow> (f + 1, [], h) | t # ts \<Rightarrow> (f, ts, t # h)\<rparr>"

lemma fifo_semaphore_laws: "semaphore_laws fifo_semaphore fst (\<lambda>(f, q, h). q)"
  by (auto simp: semaphore_laws_def fifo_semaphore_def split: list.splits)

section \<open>Tick arithmetic\<close>

lemmas tick_constants = kMaxTicks_def TX_WAIT_FOREVER_def kNsPerSecond_def

lemma kMaxNs_bounds:
  assumes "1 \<le> perSecond" and "perSecond \<le> kNsPerSecond"
  shows "1 \<le> kMaxNs perSecond" and "kMaxNs perSecond * perSecond \<le> kMaxTicks * kNsPerSecond"
proof -
  have "kMaxTicks * kNsPerSecond div perSecond \<ge> kMaxTicks * kNsPerSecond div kNsPerSecond"
    using assms by (intro zdiv_mono2) (simp_all add: tick_constants)
  then show "1 \<le> kMaxNs perSecond" by (simp add: kMaxNs_def tick_constants)
  have "(kMaxTicks * kNsPerSecond) div perSecond * perSecond \<le> kMaxTicks * kNsPerSecond"
    using div_mult_mod_eq [of "kMaxTicks * kNsPerSecond" perSecond] pos_mod_sign [of perSecond "kMaxTicks * kNsPerSecond"]
      assms(1) by linarith
  then show "kMaxNs perSecond * perSecond \<le> kMaxTicks * kNsPerSecond" by (simp add: kMaxNs_def)
qed

lemma ceiling_bounds:
  assumes "0 < a" and "0 < (b :: int)"
  shows "1 \<le> (a + b - 1) div b" and "a \<le> (a + b - 1) div b * b" and "((a + b - 1) div b - 1) * b < a"
proof -
  let ?q = "(a + b - 1) div b"
  have e: "?q * b = a + b - 1 - (a + b - 1) mod b" using div_mult_mod_eq [of "a + b - 1" b] by linarith
  have m: "0 \<le> (a + b - 1) mod b" "(a + b - 1) mod b < b" using assms(2) by simp_all
  show "a \<le> ?q * b" using e m by linarith
  have "(?q - 1) * b = ?q * b - b" by (simp add: left_diff_distrib)
  then show "(?q - 1) * b < a" using e m by linarith
  have "b div b \<le> ?q" using assms by (intro zdiv_mono1) auto
  then show "1 \<le> ?q" using assms by simp
qed

lemma ticks_bound:
  assumes "1 \<le> perSecond" and "perSecond \<le> kNsPerSecond" and "0 < duration"
  defines "a \<equiv> min duration (kMaxNs perSecond) * perSecond"
  shows "0 < a" and "a \<le> kMaxTicks * kNsPerSecond"
    and "uint (blockingTicks perSecond duration) = (a + kNsPerSecond - 1) div kNsPerSecond"
    and "(a + kNsPerSecond - 1) div kNsPerSecond \<le> kMaxTicks"
proof -
  note k = kMaxNs_bounds [OF assms(1,2)]
  show pos: "0 < a" using assms k(1) by (simp add: a_def)
  have "a \<le> kMaxNs perSecond * perSecond" unfolding a_def using assms(1) by (intro mult_right_mono) auto
  then show le: "a \<le> kMaxTicks * kNsPerSecond" using k(2) by linarith
  let ?q = "(a + kNsPerSecond - 1) div kNsPerSecond"
  have b: "1 \<le> ?q" "(?q - 1) * kNsPerSecond < a"
    using ceiling_bounds [OF pos, of kNsPerSecond] by (simp_all add: kNsPerSecond_def)
  then have "(?q - 1) * kNsPerSecond < kMaxTicks * kNsPerSecond" using le by linarith
  then have "?q - 1 < kMaxTicks" by (simp add: kNsPerSecond_def)
  then show q: "?q \<le> kMaxTicks" by simp
  have "?q < 2 ^ 32" using q by (simp add: tick_constants)
  then have "uint (word_of_int ?q :: u32) = ?q" using b(1) by (simp add: unsigned_of_int take_bit_int_eq_self)
  then show "uint (blockingTicks perSecond duration) = ?q"
    using assms(3) by (simp add: blockingTicks_def Let_def a_def)
qed

section \<open>One waiter\<close>

text \<open>The image is what the waiter of \<open>n\<close> waits for.\<close>

definition image_ready :: "nat \<Rightarrow> process_image \<Rightarrow> bool" where
  "image_ready n im \<longleftrightarrow> n < exchangeCount (im_stamped im) \<or> im_closed im"

fun tx_holds_mutex :: "tx_place \<Rightarrow> bool" where
  "tx_holds_mutex (XTesting n d) = True"
| "tx_holds_mutex (XRegistering n d) = True"
| "tx_holds_mutex (XUnlocking n d) = True"
| "tx_holds_mutex (XEditing e) = True"
| "tx_holds_mutex _ = False"

fun tx_registered :: "tx_place \<Rightarrow> bool" where
  "tx_registered (XUnlocking n d) = True"
| "tx_registered (XGetting n d) = True"
| "tx_registered (XBlocked n d) = True"
| "tx_registered (XDeregistering n d) = True"
| "tx_registered _ = False"

fun tx_notifying :: "tx_place \<Rightarrow> bool" where
  "tx_notifying XCounting = True"
| "tx_notifying (XPutting pending) = (0 < pending)"
| "tx_notifying _ = False"

fun tx_edits :: "tx_place \<Rightarrow> bool" where
  "tx_edits XOutside = True"
| "tx_edits (XEditing e) = True"
| "tx_edits XCounting = True"
| "tx_edits (XPutting pending) = True"
| "tx_edits _ = False"

text \<open>Where the one waiter \<open>t\<close> is, what it can rely on; \<open>due\<close> says that another thread is about to put a token.\<close>

fun sole_waiter_ok :: "bool \<Rightarrow> process_image \<Rightarrow> nat \<Rightarrow> nat list \<Rightarrow> bool \<Rightarrow> nat \<Rightarrow> tx_place \<Rightarrow> bool" where
  "sole_waiter_ok due im f q granted t (XRegistering n d) = (\<not> image_ready n im \<and> q = [])"
| "sole_waiter_ok due im f q granted t (XUnlocking n d) = (\<not> image_ready n im \<and> q = [])"
| "sole_waiter_ok due im f q granted t (XGetting n d) = (q = [] \<and> (image_ready n im \<longrightarrow> 0 < f \<or> due))"
| "sole_waiter_ok due im f q granted t (XBlocked n d) =
     (q = (if granted then [] else [t]) \<and> (image_ready n im \<longrightarrow> granted \<or> due))"
| "sole_waiter_ok due im f q granted t (XEditing e) = False"
| "sole_waiter_ok due im f q granted t XCounting = False"
| "sole_waiter_ok due im f q granted t (XPutting pending) = False"
| "sole_waiter_ok due im f q granted t _ = (q = [])"

definition tx_locked_well :: "'k tx_waits \<Rightarrow> bool" where
  "tx_locked_well s \<longleftrightarrow> (\<forall>u. tx_holds_mutex (tw_place s u) \<longleftrightarrow> tw_owner s = Some u)"

definition tx_due :: "nat \<Rightarrow> 'k tx_waits \<Rightarrow> bool" where
  "tx_due t s \<longleftrightarrow> (\<exists>u. u \<noteq> t \<and> tx_notifying (tw_place s u))"

definition sole_waiter_inv ::
    "'k tx_semaphore \<Rightarrow> ('k \<Rightarrow> nat) \<Rightarrow> ('k \<Rightarrow> nat list) \<Rightarrow> nat \<Rightarrow> 'k tx_waits \<Rightarrow> bool" where
  "sole_waiter_inv sem free queue t s \<longleftrightarrow> tx_locked_well s \<and>
     (\<forall>u. u \<noteq> t \<longrightarrow> tx_edits (tw_place s u)) \<and>
     tw_waiters s = (if tx_registered (tw_place s t) then 1 else 0) \<and>
     sole_waiter_ok (tx_due t s) (tw_image s) (free (tw_kernel s)) (queue (tw_kernel s))
       (tx_granted sem t (tw_kernel s)) t (tw_place s t)"

lemmas tx_defs = tx_turn_def tx_waitUntil_def tx_notifyAll_def tx_image_turn_def tx_lock_def tx_unlock_def
  tx_goes_to_def

lemma tx_locked_well_step: "tx_locked_well s \<Longrightarrow> tx_locked_well (tx_step sem hz e s)"
proof (cases e)
  case (XTurn t)
  assume l: "tx_locked_well s"
  then have other: "tx_holds_mutex (tw_place s u) \<longleftrightarrow> tw_owner s = Some u" for u by (simp add: tx_locked_well_def)
  show ?thesis
    using other [of t] other XTurn
    by (cases "tw_place s t") (auto simp: tx_defs tx_locked_well_def Let_def)
next
  case (XCallSync t n d)
  then show "tx_locked_well s \<Longrightarrow> ?thesis" by (cases "tw_place s t") (auto simp: tx_defs tx_locked_well_def)
next
  case (XCallEdit t e)
  then show "tx_locked_well s \<Longrightarrow> ?thesis" by (cases "tw_place s t") (auto simp: tx_defs tx_locked_well_def)
next
  case (XTimeout t)
  assume l: "tx_locked_well s"
  then have other: "tx_holds_mutex (tw_place s u) \<longleftrightarrow> tw_owner s = Some u" for u by (simp add: tx_locked_well_def)
  show ?thesis using other [of t] other XTimeout by (cases "tw_place s t") (auto simp: tx_defs tx_locked_well_def)
next
  case (XPass k)
  then show "tx_locked_well s \<Longrightarrow> ?thesis" by (simp add: tx_locked_well_def)
qed


fun sole_waiter :: "nat \<Rightarrow> tx_event \<Rightarrow> bool" where
  "sole_waiter t (XCallSync u n d) = (u = t)"
| "sole_waiter t (XCallEdit u e) = (u \<noteq> t)"
| "sole_waiter t _ = True"

lemma sole_waiter_due:
  "sole_waiter_ok due im f q g t p \<Longrightarrow> (due \<Longrightarrow> due') \<Longrightarrow> sole_waiter_ok due' im f q g t p"
  by (cases p) auto

lemma sole_waiter_unregistered:
  "sole_waiter_ok due im f q g t p \<Longrightarrow> \<not> tx_registered p \<Longrightarrow> sole_waiter_ok due' im f q g t p"
  by (cases p) auto

lemma sole_waiter_edited:
  "sole_waiter_ok due im f q g t p \<Longrightarrow> \<not> tx_holds_mutex p \<Longrightarrow> sole_waiter_ok True im' f q g t p"
  by (cases p) auto

lemma semaphore_put:
  assumes "semaphore_laws sem free queue"
  shows "free (tx_put sem k) = (if queue k = [] then free k + 1 else free k)"
    and "queue (tx_put sem k) = tl (queue k)"
    and "tx_granted sem u (tx_put sem k) = (tx_granted sem u k \<or> queue k \<noteq> [] \<and> u = hd (queue k))"
  using assms by (auto simp: semaphore_laws_def)

lemma semaphore_get:
  assumes "semaphore_laws sem free queue"
  shows "free (tx_get sem u k) = free k - 1"
    and "queue (tx_get sem u k) = (if free k = 0 then queue k @ [u] else queue k)"
    and "tx_granted sem v (tx_get sem u k) = (if v = u then 0 < free k else tx_granted sem v k)"
  using assms by (auto simp: semaphore_laws_def)

lemma semaphore_leave:
  assumes "semaphore_laws sem free queue"
  shows "free (tx_leave sem u k) = free k" and "queue (tx_leave sem u k) = removeAll u (queue k)"
    and "tx_granted sem v (tx_leave sem u k) = (v \<noteq> u \<and> tx_granted sem v k)"
  using assms by (auto simp: semaphore_laws_def)

text \<open>A token put reaches the waiter, wherever it is.\<close>

lemma sole_waiter_put:
  assumes "semaphore_laws sem free queue"
    and "sole_waiter_ok due im (free k) (queue k) (tx_granted sem t k) t p"
  shows "sole_waiter_ok due' im (free (tx_put sem k)) (queue (tx_put sem k)) (tx_granted sem t (tx_put sem k)) t p"
  using assms(2) by (cases p) (auto simp: semaphore_put [OF assms(1)] split: if_splits)

lemma tx_due_others:
  "(\<And>u. u \<noteq> t \<Longrightarrow> tw_place s' u = tw_place s u) \<Longrightarrow> tx_due t s' = tx_due t s"
  by (auto simp: tx_due_def)

lemma sole_waiter_own_turn:
  assumes laws: "semaphore_laws sem free queue" and i: "sole_waiter_inv sem free queue t s"
    and e: "e = XTurn t \<or> e = XTimeout t"
  shows "sole_waiter_inv sem free queue t (tx_step sem hz e s)"
proof -
  note inv = i [unfolded sole_waiter_inv_def]
  have l: "tx_locked_well (tx_step sem hz e s)" using inv tx_locked_well_step by blast
  have others: "tw_place (tx_step sem hz e s) u = tw_place s u" if "u \<noteq> t" for u
    using that e by (cases "tw_place s t") (auto simp: tx_defs Let_def)
  then have due: "tx_due t (tx_step sem hz e s) = tx_due t s" by (rule tx_due_others)
  note laws_of = semaphore_get [OF laws] semaphore_leave [OF laws]
  have "tw_waiters (tx_step sem hz e s) = (if tx_registered (tw_place (tx_step sem hz e s) t) then 1 else 0) \<and>
      sole_waiter_ok (tx_due t s) (tw_image (tx_step sem hz e s)) (free (tw_kernel (tx_step sem hz e s)))
        (queue (tw_kernel (tx_step sem hz e s))) (tx_granted sem t (tw_kernel (tx_step sem hz e s))) t
        (tw_place (tx_step sem hz e s) t)"
    using inv e
    by (cases "tw_place s t") (auto simp: tx_defs Let_def laws_of sync_waits_def image_ready_def split: if_splits)
  then show ?thesis using inv l others due by (simp add: sole_waiter_inv_def)
qed

lemma notifying_elsewhere:
  "u \<noteq> t \<Longrightarrow> tx_notifying (tw_place s u) \<Longrightarrow> tx_due t s"
  by (auto simp: tx_due_def)

lemma tx_due_kept:
  assumes "tx_due t s" and "\<And>v. v \<noteq> u \<Longrightarrow> tw_place s' v = tw_place s v"
    and "tx_notifying (tw_place s u) \<Longrightarrow> tx_notifying (tw_place s' u)"
  shows "tx_due t s'"
  using assms unfolding tx_due_def by metis

lemma sole_waiter_other_turn:
  assumes laws: "semaphore_laws sem free queue" and i: "sole_waiter_inv sem free queue t s" and u: "u \<noteq> t"
  shows "sole_waiter_inv sem free queue t (tx_turn sem hz u s)"
proof -
  note inv = i [unfolded sole_waiter_inv_def]
  have l: "tx_locked_well (tx_turn sem hz u s)" using inv tx_locked_well_step [of s sem hz "XTurn u"] by simp
  have edits: "tx_edits (tw_place s u)" using inv u by blast
  show ?thesis
  proof (cases "tw_place s u")
    case (XEditing e)
    have "tw_owner s = Some u" using inv XEditing unfolding tx_locked_well_def by force
    then have "\<not> tx_holds_mutex (tw_place s t)" using inv u unfolding tx_locked_well_def by auto
    moreover have "tx_due t (tx_turn sem hz u s)"
      by (rule notifying_elsewhere [OF u]) (simp add: tx_defs XEditing)
    ultimately show ?thesis
      using inv l u XEditing sole_waiter_edited by (auto simp: sole_waiter_inv_def tx_defs)
  next
    case XCounting
    have "sole_waiter_ok (tx_due t (tx_turn sem hz u s)) (tw_image s) (free (tw_kernel s)) (queue (tw_kernel s))
        (tx_granted sem t (tw_kernel s)) t (tw_place s t)"
    proof (cases "tx_registered (tw_place s t)")
      case True
      then have "tx_due t (tx_turn sem hz u s)"
        using inv by (intro notifying_elsewhere [OF u]) (simp add: tx_defs XCounting)
      then show ?thesis using inv sole_waiter_due by blast
    next
      case False
      then show ?thesis using inv sole_waiter_unregistered by blast
    qed
    then show ?thesis using inv l u XCounting by (auto simp: sole_waiter_inv_def tx_defs)
  next
    case (XPutting pending)
    show ?thesis
    proof (cases "0 < pending")
      case True
      then show ?thesis
        using inv l u XPutting sole_waiter_put [OF laws, of "tx_due t s" "tw_image s" "tw_kernel s" t "tw_place s t"]
        by (auto simp: sole_waiter_inv_def tx_defs)
    next
      case False
      have "tx_due t s \<Longrightarrow> tx_due t (tx_turn sem hz u s)"
        by (erule tx_due_kept [where u = u]) (use XPutting False in \<open>auto simp: tx_defs\<close>)
      then show ?thesis
        using inv l u XPutting False sole_waiter_due by (fastforce simp: sole_waiter_inv_def tx_defs)
    qed
  next
    case XOutside
    then show ?thesis using i by (simp add: tx_turn_def tx_waitUntil_def)
  qed (use edits in auto)
qed


lemma sole_waiter_step:
  assumes laws: "semaphore_laws sem free queue" and i: "sole_waiter_inv sem free queue t s" and e: "sole_waiter t e"
  shows "sole_waiter_inv sem free queue t (tx_step sem hz e s)"
proof -
  note inv = i [unfolded sole_waiter_inv_def]
  have l: "tx_locked_well (tx_step sem hz e s)" using inv tx_locked_well_step by blast
  show ?thesis
  proof (cases e)
    case (XTurn u)
    then show ?thesis
      using sole_waiter_own_turn [OF laws i, of e hz] sole_waiter_other_turn [OF laws i, of u hz] by (cases "u = t") auto
  next
    case (XTimeout u)
    show ?thesis
    proof (cases "u = t")
      case False
      then have "tx_edits (tw_place s u)" using inv by blast
      then show ?thesis using i XTimeout by (cases "tw_place s u") auto
    qed (use sole_waiter_own_turn [OF laws i, of e hz] XTimeout in simp)
  next
    case (XCallSync u n d)
    have "tx_due t (tx_step sem hz e s) = tx_due t s"
      by (rule tx_due_others) (use XCallSync e in \<open>auto simp: tx_defs\<close>)
    then show ?thesis
      using inv l XCallSync e by (cases "tw_place s t") (auto simp: sole_waiter_inv_def tx_defs)
  next
    case (XCallEdit u ed)
    have kept: "tx_due t s \<Longrightarrow> tx_due t (tx_step sem hz e s)"
      by (erule tx_due_kept [where u = u]) (use XCallEdit e in \<open>cases "tw_place s u"; auto simp: tx_defs\<close>)+
    show ?thesis
      using inv l XCallEdit e sole_waiter_due [OF _ kept]
      by (cases "tw_place s u") (auto simp: sole_waiter_inv_def tx_defs)
  next
    case (XPass k)
    then show ?thesis using inv l by (simp add: sole_waiter_inv_def tx_due_def)
  qed
qed

lemma sole_waiter_run:
  assumes "semaphore_laws sem free queue"
  shows "sole_waiter_inv sem free queue t s \<Longrightarrow> \<forall>e \<in> set es. sole_waiter t e \<Longrightarrow>
    sole_waiter_inv sem free queue t (tx_run sem hz es s)"
  by (induction es arbitrary: s) (auto simp: tx_run_def sole_waiter_step [OF assms])

lemma sole_waiter_start: "queue k = [] \<Longrightarrow> sole_waiter_inv sem free queue t (tx_start k im now)"
  by (simp add: sole_waiter_inv_def tx_start_def tx_locked_well_def)

lemma blockingTicks_positive:
  assumes "1 \<le> perSecond" and "perSecond \<le> kNsPerSecond" and "0 < duration"
  shows "blockingTicks perSecond duration \<noteq> 0"
proof -
  have "1 \<le> uint (blockingTicks perSecond duration)"
    using ticks_bound(1,3) [OF assms] ceiling_bounds(1) [of _ kNsPerSecond] by (simp add: kNsPerSecond_def)
  then show ?thesis by auto
qed

section \<open>What the port keeps\<close>

text \<open>
  C40 A finite wait is never shortened, made endless or overflowed: the ticks of any positive duration are at least
  one, less than the kernel's forever, last at least as long as the duration or as the longest wait there is,
  less than one tick longer than the duration, and no product on the way leaves 64 bits.
\<close>

theorem ticks_cover_the_duration:
  assumes "1 \<le> perSecond" and "perSecond \<le> kNsPerSecond" and "0 < duration"
  shows "let ticks = uint (blockingTicks perSecond duration) in 1 \<le> ticks \<and> ticks < TX_WAIT_FOREVER \<and>
    min duration (kMaxNs perSecond) * perSecond \<le> ticks * kNsPerSecond \<and>
    (ticks - 1) * kNsPerSecond < duration * perSecond \<and> kMaxTicks * kNsPerSecond < 2 ^ 63 \<and>
    min duration (kMaxNs perSecond) * perSecond + kNsPerSecond - 1 < 2 ^ 63"
proof -
  let ?ticks = "uint (blockingTicks perSecond duration)"
  note b = ticks_bound [OF assms(1-3)]
  note c = ceiling_bounds [OF b(1), of kNsPerSecond]
  have lower: "1 \<le> ?ticks" "min duration (kMaxNs perSecond) * perSecond \<le> ?ticks * kNsPerSecond"
    using c b(3) by (simp_all add: kNsPerSecond_def)
  have upper: "?ticks < TX_WAIT_FOREVER" using b(3,4) by (simp add: kMaxTicks_def)
  have "(?ticks - 1) * kNsPerSecond < min duration (kMaxNs perSecond) * perSecond"
    using c b(3) by (simp add: kNsPerSecond_def)
  also have "\<dots> \<le> duration * perSecond" using assms(1) by (intro mult_right_mono) auto
  finally have tight: "(?ticks - 1) * kNsPerSecond < duration * perSecond" .
  have "kMaxTicks * kNsPerSecond < 2 ^ 63" by (simp add: tick_constants)
  moreover have "min duration (kMaxNs perSecond) * perSecond + kNsPerSecond - 1 < 2 ^ 63"
    using b(2) by (simp add: tick_constants)
  ultimately show ?thesis using lower upper tight unfolding Let_def by blast
qed

text \<open>
  C16 A single waiter never sleeps through a publication: on a semaphore that keeps its laws, with any number of
  threads publishing, closing and timing out in any order, when the waiter is blocked without a token and the
  image is what it waits for, a notification is still on its way.
\<close>

theorem sole_waiter_is_notified:
  assumes "semaphore_laws sem free queue" and "queue k = []" and "\<forall>e \<in> set es. sole_waiter t e"
    and "s = tx_run sem perSecond es (tx_start k im now)"
    and "tw_place s t = XBlocked n d" and "\<not> tx_granted sem t (tw_kernel s)" and "image_ready n (tw_image s)"
  shows "\<exists>u. u \<noteq> t \<and> tx_notifying (tw_place s u)"
proof -
  have "sole_waiter_inv sem free queue t s"
    using sole_waiter_run [OF assms(1) sole_waiter_start [where ?queue = queue and ?k = k, OF assms(2)] assms(3)] assms(4) by blast
  then show ?thesis using assms(5-7) by (simp add: sole_waiter_inv_def tx_due_def)
qed

text \<open>
  C39 With two waiters a notification can be lost, although every waiter registers with the mutex held: one
  that is woken for a count it does not wait for registers again and takes the other's token before the
  other has asked for it. The other then blocks with its exchange in the image and nobody about to notify.
\<close>

theorem notification_can_be_stolen:
  assumes laws: "semaphore_laws sem free queue" and k: "free k = 0" "queue k = []"
    and hz: "1 \<le> perSecond" "perSecond \<le> kNsPerSecond" and d: "now < d"
    and "p \<noteq> t" "p \<noteq> u" "t \<noteq> u" and "\<not> im_closed im"
  shows "\<exists>es. let s = tx_run sem perSecond es (tx_start k im now); n = exchangeCount (im_stamped im) in
    tw_place s u = XBlocked n d \<and> \<not> tx_granted sem u (tw_kernel s) \<and> image_ready n (tw_image s) \<and>
    (\<forall>v. \<not> tx_notifying (tw_place s v)) \<and> tw_now s < d"
proof -
  let ?n = "exchangeCount (im_stamped im)" and ?e = "Publish zero_command zero_status now"
  let ?wait = "\<lambda>v. [XTurn v, XTurn v, XTurn v]"
  let ?es = "[XCallSync t (?n + 1) d] @ ?wait t @ [XTurn t, XCallSync u ?n d] @ ?wait u @
     [XCallEdit p ?e, XTurn p, XTurn p, XTurn p, XTurn p, XTurn p, XTurn t, XTurn t, XTurn t] @ ?wait t @ [XTurn t, XTurn u]"
  have ticks: "blockingTicks perSecond (d - now) \<noteq> 0" using blockingTicks_positive [OF hz] d by simp
  note laws_of = semaphore_get [OF laws] semaphore_leave [OF laws] semaphore_put [OF laws]
  have "let s = tx_run sem perSecond ?es (tx_start k im now) in
    tw_place s u = XBlocked ?n d \<and> \<not> tx_granted sem u (tw_kernel s) \<and> image_ready ?n (tw_image s) \<and>
    (\<forall>v. \<not> tx_notifying (tw_place s v)) \<and> tw_now s < d"
    using assms(7-10) ticks k d
    by (simp add: tx_run_def tx_start_def tx_defs Let_def sync_waits_def publish_def laws_of image_ready_def)
  then show ?thesis unfolding Let_def by blast
qed


section \<open>Witnesses\<close>

abbreviation blank_image :: process_image where
  "blank_image \<equiv> \<lparr>im_command = zero_command, im_stamped = zero_stamped, im_closed = False\<rparr>"

theorem ticks_cover_the_duration_witness:
  "1 \<le> uint (blockingTicks 100 15000000) \<and> 15000000 * 100 \<le> uint (blockingTicks 100 15000000) * kNsPerSecond \<and>
   blockingTicks 100 15000000 = 2"
  using ticks_cover_the_duration [of 100 15000000]
  by (simp add: Let_def tick_constants kMaxNs_def blockingTicks_def)

theorem sole_waiter_is_notified_witness:
  "let s = tx_run fifo_semaphore 100 [XCallSync 1 0 50000000, XTurn 1, XTurn 1, XTurn 1, XTurn 1,
       XCallEdit 0 Close, XTurn 0] (tx_start (0, [], []) blank_image 0)
   in tw_place s 1 = XBlocked 0 50000000 \<and> im_closed (tw_image s) \<and> (\<exists>u. u \<noteq> 1 \<and> tx_notifying (tw_place s u))"
  using sole_waiter_is_notified [OF fifo_semaphore_laws, of "(0, [], [])" "[XCallSync 1 0 50000000, XTurn 1, XTurn 1,
       XTurn 1, XTurn 1, XCallEdit 0 Close, XTurn 0]" 1 _ 100 blank_image 0 0 50000000, OF _ _ refl]
  by (simp add: tx_run_def tx_start_def tx_defs Let_def sync_waits_def zero_stamped_def im_close_def image_ready_def
      fifo_semaphore_def blockingTicks_def tick_constants kMaxNs_def)

theorem notification_can_be_stolen_witness:
  "\<exists>es. let s = tx_run fifo_semaphore 100 es (tx_start (0, [], []) blank_image 0) in
     tw_place s 2 = XBlocked 0 50000000 \<and> (\<forall>v. \<not> tx_notifying (tw_place s v))"
  using notification_can_be_stolen [OF fifo_semaphore_laws, of "(0, [], [])" 100 0 50000000 0 1 2 blank_image]
  by (auto simp: kNsPerSecond_def zero_stamped_def Let_def)

end
