(* ===== verification/KernelObjects.thy ===== *)
theory KernelObjects
  imports ThreadX
begin

text \<open>
  The kernel objects of a gripper on ThreadX: the mutex and the semaphore of its process image and the task of its exchange
  thread, from the constructors of \<open>ports/threadx/threadx_platform.hpp\<close> in the order in which \<open>src/process_image.cpp\<close>,
  \<open>src/gripper_state.cpp\<close> and \<open>src/gripper.cpp\<close> call them, through everything a failed one unwinds, to the destructors.
\<close>

section \<open>The kernel\<close>

text \<open>An object is what the kernel keeps of a control block, which is known by its address.\<close>

datatype tx_object = MutexAt nat | SemaphoreAt nat | ThreadAt nat

record 'k tx_kernel =
  txk_mutex_create :: "nat \<Rightarrow> 'k \<Rightarrow> nat \<times> 'k"
  txk_mutex_delete :: "nat \<Rightarrow> 'k \<Rightarrow> 'k"
  txk_semaphore_create :: "nat \<Rightarrow> 'k \<Rightarrow> nat \<times> 'k"
  txk_semaphore_delete :: "nat \<Rightarrow> 'k \<Rightarrow> 'k"
  txk_thread_create :: "nat \<Rightarrow> 'k \<Rightarrow> nat \<times> 'k"
  txk_thread_terminate :: "nat \<Rightarrow> 'k \<Rightarrow> 'k"
  txk_thread_delete :: "nat \<Rightarrow> 'k \<Rightarrow> 'k"
  txk_thread_state :: "nat \<Rightarrow> 'k \<Rightarrow> tx_state"
  txk_thread_sleep :: "nat \<Rightarrow> 'k \<Rightarrow> 'k"

text \<open>The control blocks are members of the objects; so they have addresses of their own.\<close>

record tx_blocks =
  mutex_block :: nat
  semaphore_block :: nat
  thread_block :: nat

section \<open>Constructors and destructors\<close>

definition destroyThreadXMutex :: "'k tx_kernel \<Rightarrow> tx_blocks \<Rightarrow> 'k \<Rightarrow> 'k" where
  "destroyThreadXMutex K b = txk_mutex_delete K (mutex_block b)"

definition destroyThreadXConditionVariable :: "'k tx_kernel \<Rightarrow> tx_blocks \<Rightarrow> 'k \<Rightarrow> 'k" where
  "destroyThreadXConditionVariable K b = txk_semaphore_delete K (semaphore_block b)"

lemmas destroys = destroyThreadXMutex_def destroyThreadXConditionVariable_def

text \<open>\<open>ProcessImage\<close>: the mutex, then the condition variable; a failed second unwinds the first.\<close>

definition tx_makeProcessImage :: "'k tx_kernel \<Rightarrow> tx_blocks \<Rightarrow> 'k \<Rightarrow> (thrown + unit) \<times> 'k" where
  "tx_makeProcessImage K b k =
     (let (status, k1) = txk_mutex_create K (mutex_block b) k in
      case makeThreadXMutex status of
        Inl e \<Rightarrow> (Inl e, k1)
      | Inr _ \<Rightarrow>
          (let (status', k2) = txk_semaphore_create K (semaphore_block b) k1 in
           case makeThreadXConditionVariable status' of
             Inl e \<Rightarrow> (Inl e, destroyThreadXMutex K b k2)
           | Inr _ \<Rightarrow> (Inr (), k2)))"

text \<open>Members go in the reverse order.\<close>

definition tx_destroyProcessImage :: "'k tx_kernel \<Rightarrow> tx_blocks \<Rightarrow> 'k \<Rightarrow> 'k" where
  "tx_destroyProcessImage K b k = destroyThreadXMutex K b (destroyThreadXConditionVariable K b k)"

definition tx_spawn :: "'k tx_kernel \<Rightarrow> tx_blocks \<Rightarrow> 'k \<Rightarrow> (thrown + unit) \<times> 'k" where
  "tx_spawn K b k = (let (status, k1) = txk_thread_create K (thread_block b) k in (makeThreadXThread status, k1))"

text \<open>
  \<open>Gripper\<close>: the image, the initial reads \<open>initialize\<close>, which may throw, and the thread. \<open>stop\<close> in the destructor of a
  \<open>GripperState\<close> without a thread closes the image, which is \<open>close\<close>, and has nothing to join.
\<close>

definition tx_makeGripper ::
    "'k tx_kernel \<Rightarrow> tx_blocks \<Rightarrow> ('k \<Rightarrow> (thrown + unit) \<times> 'k) \<Rightarrow> ('k \<Rightarrow> 'k) \<Rightarrow> 'k \<Rightarrow> (thrown + unit) \<times> 'k" where
  "tx_makeGripper K b initialize close k =
     (case tx_makeProcessImage K b k of
        (Inl e, k1) \<Rightarrow> (Inl e, k1)
      | (Inr _, k1) \<Rightarrow>
          (case initialize k1 of
             (Inl e, k2) \<Rightarrow> (Inl e, tx_destroyProcessImage K b (close k2))
           | (Inr _, k2) \<Rightarrow>
               (case tx_spawn K b k2 of
                  (Inl e, k3) \<Rightarrow> (Inl e, tx_destroyProcessImage K b (close k3))
                | (Inr _, k3) \<Rightarrow> (Inr (), k3))))"

text \<open>\<open>~GripperState\<close>: \<open>stop\<close> closes the image, joins the thread and deletes it. No result: the join does not return.\<close>

definition tx_destroyGripper :: "'k tx_kernel \<Rightarrow> tx_blocks \<Rightarrow> ('k \<Rightarrow> 'k) \<Rightarrow> 'k \<Rightarrow> 'k option" where
  "tx_destroyGripper K b close k =
     map_option (\<lambda>t. tx_destroyProcessImage K b
         (tx_thread_destroy (txk_thread_terminate K (thread_block b)) (txk_thread_delete K (thread_block b)) t))
       (tx_thread_join (txk_thread_state K (thread_block b)) (txk_thread_sleep K 1) (False, close k))"

section \<open>What the kernel keeps\<close>

definition tx_ended :: "tx_state \<Rightarrow> bool" where
  "tx_ended state \<longleftrightarrow> state = TX_COMPLETED \<or> state = TX_TERMINATED"

text \<open>
  What ThreadX documents: a create either succeeds with a control block that was not in use or changes nothing; a delete
  takes the object away, a thread only once it has ended; a sleep keeps all objects. \<open>live\<close> reads them from the state.
\<close>

definition kernel_objects :: "'k tx_kernel \<Rightarrow> ('k \<Rightarrow> tx_object set) \<Rightarrow> bool" where
  "kernel_objects K live \<longleftrightarrow>
     (\<forall>(create, at) \<in> {(txk_mutex_create K, MutexAt), (txk_semaphore_create K, SemaphoreAt), (txk_thread_create K, ThreadAt)}.
        \<forall>a k. case create a k of (status, k') \<Rightarrow>
          if status = 0 then at a \<notin> live k \<and> live k' = insert (at a) (live k) else live k' = live k) \<and>
     (\<forall>a k. live (txk_mutex_delete K a k) = live k - {MutexAt a}) \<and>
     (\<forall>a k. live (txk_semaphore_delete K a k) = live k - {SemaphoreAt a}) \<and>
     (\<forall>a k. live (txk_thread_delete K a k) = (if tx_ended (txk_thread_state K a k) then live k - {ThreadAt a} else live k)) \<and>
     (\<forall>n k. live (txk_thread_sleep K n k) = live k)"

lemma kernel_creates:
  assumes "kernel_objects K live"
  shows "txk_mutex_create K a k = (status, k') \<Longrightarrow>
      if status = 0 then MutexAt a \<notin> live k \<and> live k' = insert (MutexAt a) (live k) else live k' = live k"
    and "txk_semaphore_create K a k = (status, k') \<Longrightarrow>
      if status = 0 then SemaphoreAt a \<notin> live k \<and> live k' = insert (SemaphoreAt a) (live k) else live k' = live k"
    and "txk_thread_create K a k = (status, k') \<Longrightarrow>
      if status = 0 then ThreadAt a \<notin> live k \<and> live k' = insert (ThreadAt a) (live k) else live k' = live k"
proof -
  have c: "\<forall>(create, at) \<in> {(txk_mutex_create K, MutexAt), (txk_semaphore_create K, SemaphoreAt), (txk_thread_create K, ThreadAt)}.
      \<forall>a k. case create a k of (status, k') \<Rightarrow>
        if status = 0 then at a \<notin> live k \<and> live k' = insert (at a) (live k) else live k' = live k"
    using assms unfolding kernel_objects_def by (rule conjunct1)
  have one: "if status = 0 then at a \<notin> live k \<and> live k' = insert (at a) (live k) else live k' = live k"
    if "(create, at) \<in> {(txk_mutex_create K, MutexAt), (txk_semaphore_create K, SemaphoreAt), (txk_thread_create K, ThreadAt)}"
      and "create a k = (status, k')" for create at a k status k'
    using bspec [OF c that(1), unfolded prod.case, rule_format, of a k] that(2) by simp
  show "txk_mutex_create K a k = (status, k') \<Longrightarrow>
      if status = 0 then MutexAt a \<notin> live k \<and> live k' = insert (MutexAt a) (live k) else live k' = live k"
    by (rule one [of "txk_mutex_create K" MutexAt]) simp_all
  show "txk_semaphore_create K a k = (status, k') \<Longrightarrow>
      if status = 0 then SemaphoreAt a \<notin> live k \<and> live k' = insert (SemaphoreAt a) (live k) else live k' = live k"
    by (rule one [of "txk_semaphore_create K" SemaphoreAt]) simp_all
  show "txk_thread_create K a k = (status, k') \<Longrightarrow>
      if status = 0 then ThreadAt a \<notin> live k \<and> live k' = insert (ThreadAt a) (live k) else live k' = live k"
    by (rule one [of "txk_thread_create K" ThreadAt]) simp_all
qed

lemma kernel_deletes:
  assumes "kernel_objects K live"
  shows "live (txk_mutex_delete K a k) = live k - {MutexAt a}"
    and "live (txk_semaphore_delete K a k) = live k - {SemaphoreAt a}"
    and "live (txk_thread_delete K a k) = (if tx_ended (txk_thread_state K a k) then live k - {ThreadAt a} else live k)"
    and "live (txk_thread_sleep K n k) = live k"
  using assms by (auto simp: kernel_objects_def)

definition image_objects :: "tx_blocks \<Rightarrow> tx_object set" where
  "image_objects b = {MutexAt (mutex_block b), SemaphoreAt (semaphore_block b)}"

definition gripper_objects :: "tx_blocks \<Rightarrow> tx_object set" where
  "gripper_objects b = insert (ThreadAt (thread_block b)) (image_objects b)"

lemma image_made:
  assumes "kernel_objects K live" and "tx_makeProcessImage K b k = (r, k')"
  shows "case r of Inl e \<Rightarrow> live k' = live k | Inr _ \<Rightarrow> image_objects b \<inter> live k = {} \<and> live k' = image_objects b \<union> live k"
proof -
  obtain status k1 where m: "txk_mutex_create K (mutex_block b) k = (status, k1)" by fastforce
  obtain status' k2 where s: "txk_semaphore_create K (semaphore_block b) k1 = (status', k2)" by fastforce
  show ?thesis
    using assms(2) m s kernel_creates(1) [OF assms(1) m] kernel_creates(2) [OF assms(1) s] kernel_deletes(1) [OF assms(1)]
    by (auto simp: tx_makeProcessImage_def destroys makeThreadXMutex_def makeThreadXConditionVariable_def image_objects_def Let_def
        split: if_splits)
qed

lemma image_destroyed: "kernel_objects K live \<Longrightarrow> live (tx_destroyProcessImage K b k) = live k - image_objects b"
  by (auto simp: tx_destroyProcessImage_def destroys kernel_deletes image_objects_def)

lemma gripper_made:
  assumes laws: "kernel_objects K live" and "\<And>k r k'. initialize k = (r, k') \<Longrightarrow> live k' = live k" and "\<And>k. live (close k) = live k"
    and made: "tx_makeGripper K b initialize close k = (r, k')"
  shows "case r of Inl e \<Rightarrow> live k' = live k | Inr _ \<Rightarrow> gripper_objects b \<inter> live k = {} \<and> live k' = gripper_objects b \<union> live k"
proof -
  obtain r1 k1 where i: "tx_makeProcessImage K b k = (r1, k1)" by fastforce
  obtain r2 k2 where n: "initialize k1 = (r2, k2)" by fastforce
  obtain status k3 where t: "txk_thread_create K (thread_block b) k2 = (status, k3)" by fastforce
  show ?thesis
    using made i n t image_made [OF laws i] assms(2) [OF n] assms(3) kernel_creates(3) [OF laws t]
    by (cases r1; cases r2)
      (auto simp: tx_makeGripper_def tx_spawn_def makeThreadXThread_def image_destroyed [OF laws] gripper_objects_def Let_def
        split: if_splits)
qed

section \<open>The join\<close>

lemma tx_join_live:
  "tx_join info sleep k = Some k' \<Longrightarrow> (\<forall>k. live (sleep k) = live k) \<longrightarrow> live k' = live k"
proof (induction rule: tx_join.raw_induct [rotated, consumes 1, case_names step])
  case (step rec info sleep k k')
  then show ?case by (auto split: if_splits)
qed

lemma tx_join_returns: "tx_ended (info ((sleep ^^ n) k)) \<Longrightarrow> \<exists>k'. tx_join info sleep k = Some k'"
proof (induction n arbitrary: k)
  case 0
  then show ?case by (subst tx_join.simps) (auto simp: tx_ended_def)
next
  case (Suc n)
  then have "tx_ended (info ((sleep ^^ n) (sleep k)))" by (simp add: funpow_swap1)
  from Suc.IH [OF this] show ?case by (subst tx_join.simps) auto
qed

lemma gripper_destroyed:
  assumes laws: "kernel_objects K live" and close: "live (close k) = live k"
    and ends: "tx_ended (txk_thread_state K (thread_block b) ((txk_thread_sleep K 1 ^^ n) (close k)))"
  shows "\<exists>k'. tx_destroyGripper K b close k = Some k' \<and> live k' = live k - gripper_objects b"
proof -
  let ?state = "txk_thread_state K (thread_block b)" and ?sleep = "txk_thread_sleep K 1"
  obtain k1 where join: "tx_join ?state ?sleep (close k) = Some k1" using tx_join_returns [where info = ?state and sleep = ?sleep and k = "close k" and n = n] ends by blast
  have kept: "live k1 = live k" using tx_join_live [where live = live, OF join] kernel_deletes(4) [OF laws] close by simp
  have ended: "tx_ended (?state k1)" using tx_join_ended [OF join] by (simp add: tx_ended_def)
  show ?thesis
    using join kept ended
    by (auto simp: tx_destroyGripper_def tx_thread_join_def tx_thread_destroy_def image_destroyed [OF laws]
        kernel_deletes(3) [OF laws] gripper_objects_def)
qed

section \<open>Property\<close>

text \<open>
  C36 On ThreadX a gripper returns the kernel's objects: whichever constructor fails, the mutex, the semaphore and the task it
  had made are deleted; a gripper that is made has exactly these three more; and its destructor returns, when the task
  ends some ticks after the image is closed, with these three deleted and no other, the task after it has ended, as the
  kernel asks. The initial reads and the closing create and delete nothing.
\<close>

theorem kernel_objects_are_returned:
  assumes "kernel_objects K live"
    and "\<And>k r k'. initialize k = (r, k') \<Longrightarrow> live k' = live k" and "\<And>k. live (close k) = live k"
    and "tx_makeGripper K b initialize close k = (r, k1)"
  shows "case r of
      Inl e \<Rightarrow> live k1 = live k
    | Inr _ \<Rightarrow> gripper_objects b \<inter> live k = {} \<and> live k1 = gripper_objects b \<union> live k \<and>
        (\<forall>k2 n. tx_ended (txk_thread_state K (thread_block b) ((txk_thread_sleep K 1 ^^ n) (close k2))) \<longrightarrow>
          (\<exists>k3. tx_destroyGripper K b close k2 = Some k3 \<and> live k3 = live k2 - gripper_objects b))"
proof (cases r)
  case (Inl e)
  then show ?thesis using gripper_made [OF assms] by simp
next
  case (Inr u)
  have "\<exists>k3. tx_destroyGripper K b close k2 = Some k3 \<and> live k3 = live k2 - gripper_objects b"
    if "tx_ended (txk_thread_state K (thread_block b) ((txk_thread_sleep K 1 ^^ n) (close k2)))" for k2 n
    using gripper_destroyed [OF assms(1), of close k2 b n] assms(3) that by blast
  then show ?thesis using gripper_made [OF assms] Inr by simp
qed

section \<open>Witness\<close>

text \<open>A kernel with its objects and the ticks its task still runs; it has memory for a number of objects.\<close>

definition small_create :: "nat \<Rightarrow> tx_object \<Rightarrow> tx_object list \<times> nat \<Rightarrow> nat \<times> tx_object list \<times> nat" where
  "small_create room x k = (if x \<in> set (fst k) \<or> room \<le> length (fst k) then (1, k) else (0, x # fst k, snd k))"

definition small_delete :: "tx_object \<Rightarrow> tx_object list \<times> nat \<Rightarrow> tx_object list \<times> nat" where
  "small_delete x k = (removeAll x (fst k), snd k)"

definition small_kernel :: "nat \<Rightarrow> (tx_object list \<times> nat) tx_kernel" where
  "small_kernel room = \<lparr>
     txk_mutex_create = \<lambda>a. small_create room (MutexAt a), txk_mutex_delete = \<lambda>a. small_delete (MutexAt a),
     txk_semaphore_create = \<lambda>a. small_create room (SemaphoreAt a), txk_semaphore_delete = \<lambda>a. small_delete (SemaphoreAt a),
     txk_thread_create = \<lambda>a. small_create room (ThreadAt a), txk_thread_terminate = \<lambda>a k. (fst k, 0),
     txk_thread_delete = \<lambda>a k. if snd k = 0 then small_delete (ThreadAt a) k else k,
     txk_thread_state = \<lambda>a k. if snd k = 0 then TX_COMPLETED else TX_READY,
     txk_thread_sleep = \<lambda>n k. (fst k, snd k - n)\<rparr>"

definition small_blocks :: tx_blocks where
  "small_blocks = \<lparr>mutex_block = 16, semaphore_block = 32, thread_block = 48\<rparr>"

lemma small_kernel_objects: "kernel_objects (small_kernel room) (\<lambda>k. set (fst k))"
  by (auto simp: kernel_objects_def small_kernel_def small_create_def small_delete_def tx_ended_def)

theorem kernel_objects_are_returned_witness:
  "(\<exists>e k1. tx_makeGripper (small_kernel 3) small_blocks (\<lambda>k. (Inr (), k)) (\<lambda>k. k) ([MutexAt 8], 5) = (Inl e, k1) \<and>
      set (fst k1) = {MutexAt 8}) \<and>
   (\<exists>k1 k3. tx_makeGripper (small_kernel 4) small_blocks (\<lambda>k. (Inr (), k)) (\<lambda>k. k) ([MutexAt 8], 5) = (Inr (), k1) \<and>
      length (fst k1) = 4 \<and> tx_destroyGripper (small_kernel 4) small_blocks (\<lambda>k. k) k1 = Some k3 \<and> set (fst k3) = {MutexAt 8})"
proof -
  let ?make = "\<lambda>room. tx_makeGripper (small_kernel room) small_blocks (\<lambda>k. (Inr (), k)) (\<lambda>k. k) ([MutexAt 8], 5)"
  note returned = kernel_objects_are_returned [OF small_kernel_objects, where initialize = "\<lambda>k. (Inr (), k)" and close = "\<lambda>k. k"]
  note defs = destroys tx_makeGripper_def tx_makeProcessImage_def tx_spawn_def small_kernel_def small_create_def small_blocks_def
    makeThreadXMutex_def makeThreadXConditionVariable_def makeThreadXThread_def
  obtain e k1 where f: "?make 3 = (Inl e, k1)" by (simp add: defs)
  have "\<exists>k1. ?make 4 = (Inr (), k1) \<and> k1 = ([ThreadAt 48, SemaphoreAt 32, MutexAt 16, MutexAt 8], 5)" by (simp add: defs)
  then obtain k2 where m: "?make 4 = (Inr (), k2)" "k2 = ([ThreadAt 48, SemaphoreAt 32, MutexAt 16, MutexAt 8], 5)" by blast
  have "tx_ended (txk_thread_state (small_kernel 4) (thread_block small_blocks) ((txk_thread_sleep (small_kernel 4) 1 ^^ 5) k2))"
    by (simp add: m(2) small_kernel_def tx_ended_def numeral_eq_Suc)
  moreover have "\<forall>k2 n. tx_ended (txk_thread_state (small_kernel 4) (thread_block small_blocks)
      ((txk_thread_sleep (small_kernel 4) 1 ^^ n) k2)) \<longrightarrow> (\<exists>k3. tx_destroyGripper (small_kernel 4) small_blocks (\<lambda>k. k) k2 = Some k3 \<and>
        set (fst k3) = set (fst k2) - gripper_objects small_blocks)"
    using returned [OF _ _ m(1)] by simp
  ultimately obtain k3 where
    "tx_destroyGripper (small_kernel 4) small_blocks (\<lambda>k. k) k2 = Some k3" "set (fst k3) = set (fst k2) - gripper_objects small_blocks"
    by blast
  moreover have "set (fst k2) - gripper_objects small_blocks = {MutexAt 8}"
    by (auto simp: m(2) gripper_objects_def image_objects_def small_blocks_def)
  moreover have "set (fst k1) = {MutexAt 8}" using returned [OF _ _ f] by simp
  ultimately show ?thesis using f m
    by (intro conjI exI [of _ e] exI [of _ k1] exI [of _ k2] exI [of _ k3]) simp_all
qed

end
