(* ===== verification/Win32Serial.thy ===== *)
theory Win32Serial
  imports Transport
begin

text \<open>
  The serial port on Windows (\<open>grippers/sdk_cpp/src/detail/win32/serial_port.cpp\<close>). The system calls are a
  record of functions on a state \<open>'o\<close> of the system, a failed one giving what \<open>GetLastError\<close> then says; the
  driver does the waiting, by the time-outs last set on the handle, which the port remembers so as not to set
  them again. Time-outs are milliseconds.
\<close>

section \<open>The system\<close>

datatype dtr_rts = CONTROL_DISABLE | CONTROL_ENABLE | CONTROL_HANDSHAKE | CONTROL_TOGGLE
datatype parity = NOPARITY | ODDPARITY | EVENPARITY | MARKPARITY | SPACEPARITY
datatype stop_bits = ONESTOPBIT | ONE5STOPBITS | TWOSTOPBITS






section \<open>The name and the line\<close>








section \<open>The port\<close>










section \<open>A session with the port\<close>





section \<open>The handle and its time-outs\<close>









section \<open>Witness\<close>








end
