(* ===== verification/GripperEvents.thy ===== *)
theory GripperEvents
  imports Connection Units ToString
begin

text \<open>
  What the example programs share (\<open>grippers/sdk_cpp/examples/gripper_events.cpp\<close>): connecting with a
  checklist on failure, activating with fault recovery, and a move that waits for its outcome. It is the
  composition of the SDK's parts as its documentation teaches it: units, waits and renderings around a
  gripper that other threads share. The logger is the list of its lines; a reference parameter that is
  written is returned. Results without a value are behaviour the language leaves undefined.
\<close>

section \<open>The helpers\<close>

definition withStatus :: "'d link \<Rightarrow> string \<Rightarrow> 'd gripper_state \<Rightarrow> string \<times> 'd gripper_state" where
  "withStatus lk message g =
     (let (st, g1) = getStatus lk g; (state, g2) = connectionState lk g1
      in (message @ ''; link='' @ toString_ConnectionState state @ '' '' @ status_toString st, g2))"

definition log_status ::
    "'d link \<Rightarrow> log_level \<Rightarrow> string \<Rightarrow> log \<times> 'd gripper_state \<Rightarrow> log \<times> 'd gripper_state" where
  "log_status lk level message = (\<lambda>(l, g). let (text, g1) = withStatus lk message g in (log_line level text l, g1))"

text \<open>What is printed on the standard error when the constructor throws.\<close>

definition newline :: string where
  "newline = [char_of (10 :: nat)]"

definition checklist :: "connection_config \<Rightarrow> string \<Rightarrow> string" where
  "checklist config what =
     ''Error: '' @ what @ newline @ newline @ ''Could not open a gripper on '' @ [char_of (39 :: nat)] @
     sc_port (cc_serial config) @ [char_of (39 :: nat)] @ ''. Check that:'' @ newline @
     ''  - the gripper is connected and powered;'' @ newline @
     ''  - the port name is correct (Linux /dev/ttyUSB0, macOS /dev/tty.usbserial-*, Windows COM3);'' @ newline @
     ''  - you have permission to use it (Linux: join the '' @ [char_of (39 :: nat)] @ ''dialout'' @
     [char_of (39 :: nat)] @ '' group).'' @ newline"

text \<open>An exception that is not a \<open>std::exception\<close> goes through.\<close>

definition connect_or_explain :: "connection_config \<Rightarrow> thrown + 'a \<Rightarrow> (thrown + 'a option) \<times> string" where
  "connect_or_explain config made =
     (case made of
        Inr g \<Rightarrow> (Inr (Some g), '''')
      | Inl (StdException what) \<Rightarrow> (Inr None, checklist config what)
      | Inl UnknownException \<Rightarrow> (Inl UnknownException, ''''))"

definition kActivationTimeoutMs :: int where
  "kActivationTimeoutMs = 15000"

definition activateOrRecover :: "'d link \<Rightarrow> log \<times> 'd gripper_state \<Rightarrow> (bool \<times> log \<times> 'd gripper_state) option" where
  "activateOrRecover lk = (\<lambda>(l, g).
     (case activate lk kActivationTimeoutMs g of
        None \<Rightarrow> None
      | Some (first, g1) \<Rightarrow>
          (case (if first = FaultLatched
                 then map_option (\<lambda>r. (r, log_line LevelWarn ''fault latched; recovering (the fingers will move)'' l))
                        (recoverFromFault lk kActivationTimeoutMs g1)
                 else Some ((first, g1), l)) of
             None \<Rightarrow> None
           | Some ((activation, g2), l2) \<Rightarrow>
               if activation \<noteq> Activated \<and> activation \<noteq> AlreadyActive
               then Some (False, log_status lk LevelError ''activation failed or timed out'' (l2, g2))
               else Some (True, log_status lk LevelInfo ''activated'' (l2, g2)))))"

text \<open>\<open>moveTo\<close> once the exchange has carried the command, and once the motion has settled.\<close>

definition report_settled ::
    "'d link \<Rightarrow> device_profile \<Rightarrow> stamped_exchange \<Rightarrow> log \<times> 'd gripper_state \<Rightarrow> (bool \<times> log \<times> 'd gripper_state) option" where
  "report_settled lk profile settled lg =
     (case openingFromRegister (position (x_status settled)) profile of
        None \<Rightarrow> Some (False, log_status lk LevelError ''the settled position has no opening in this profile'' lg)
      | Some opening \<Rightarrow>
          (case lround (d_mul opening (Fin 1000)) of
             None \<Rightarrow> None
           | Some mm \<Rightarrow> Some (True, log_status lk LevelInfo (''settled at '' @ decimal_int mm @ '' mm'') lg)))"

definition await_settled ::
    "'d link \<Rightarrow> device_profile \<Rightarrow> log \<times> 'd gripper_state \<Rightarrow> (bool \<times> log \<times> 'd gripper_state) option" where
  "await_settled lk profile = (\<lambda>(l, g).
     (let (moving, g1) = waitForObjectDetection lk Moving 200 g;
          l1 = (if moving = None
                then log_line LevelDebug ''no motion seen within 200 ms; it may already be done'' l else l);
          (settled, g2) = waitForMotionEnd lk 5000 g1
      in case settled of
           None \<Rightarrow> Some (False, log_status lk LevelError ''the motion never settled'' (l1, g2))
         | Some x \<Rightarrow> report_settled lk profile x (l1, g2)))"

definition moveTo :: "'d link \<Rightarrow> device_profile \<Rightarrow> double \<Rightarrow> gripper_command \<times> log \<times> 'd gripper_state \<Rightarrow>
    (bool \<times> gripper_command \<times> log \<times> 'd gripper_state) option" where
  "moveTo lk profile openingMetres = (\<lambda>(c, l, g).
     (case openingToRegister openingMetres profile of
        None \<Rightarrow> None
      | Some None \<Rightarrow> Some (False, c, log_line LevelError ''the requested opening has no register value'' l, g)
      | Some (Some p) \<Rightarrow>
          let c1 = c\<lparr>positionRequest := p, action := nb_put GoTo True (action c)\<rparr>;
              l1 = log_line LevelDebug (''sending: '' @ command_toString c1) l;
              (carried, g1) = setCommandAndWaitForExchange lk c1 1000 g
          in case carried of
               None \<Rightarrow> Some (False, c1, log_status lk LevelError ''no exchange carried the command'' (l1, g1))
             | Some _ \<Rightarrow> map_option (\<lambda>(done, l2, g2). (done, c1, l2, g2)) (await_settled lk profile (l1, g1))))"

section \<open>What a finished move means\<close>

lemma set_and_wait_carried:
  assumes "setCommandAndWaitForExchange lk c timeout g = (Some x, g')"
  shows "command_eq (x_command x) c \<and> exchangeCount (im_stamped (gs_image g)) < exchangeCount x \<and>
    x = im_stamped (gs_image g')"
proof -
  let ?g1 = "others lk g"
  have "waitForExchangeAfter lk (exchangeCount (im_stamped (gs_image ?g1))) (\<lambda>x. command_eq (x_command x) c) timeout
      (setCommand lk c ?g1) = (Some x, g')"
    using assms by (simp add: setCommandAndWaitForExchange_def getMostRecentStampedExchange_def Let_def)
  from waitForExchangeAfter_result [OF this] show ?thesis
    using since_others [of g lk] by (auto simp: since_def image_le_def)
qed

lemma log_status_leads: "log_status lk level message (l, g) = (l', g') \<Longrightarrow> leads_to lk g g'"
  using leads(1) [OF leads(1) [OF leads_refl], of lk g]
  by (auto simp: log_status_def withStatus_def getStatus_def connectionState_def Let_def)

lemma report_settled_done:
  assumes "report_settled lk profile y (l, g) = Some (True, l', g')"
  shows "openingFromRegister (position (x_status y)) profile \<noteq> None" and "leads_to lk g g'"
  using assms log_status_leads by (auto simp: report_settled_def split: option.splits)

text \<open>The exchange at the end of a motion is the one the image held in some state passed through.\<close>

definition settled_at :: "'d link \<Rightarrow> device_profile \<Rightarrow> 'd gripper_state \<Rightarrow> 'd gripper_state \<Rightarrow> bool" where
  "settled_at lk profile g h \<longleftrightarrow> leads_to lk g h \<and>
     (let y = im_stamped (gs_image h)
      in exchangeCount (im_stamped (gs_image g)) < exchangeCount y \<and> objectDetection (gripperStatus (x_status y)) \<noteq> Moving \<and>
         openingFromRegister (position (x_status y)) profile \<noteq> None)"

lemma await_settled_done:
  assumes "await_settled lk profile (l, g) = Some (True, l', g')"
  shows "\<exists>h. settled_at lk profile g h \<and> leads_to lk h g'"
proof -
  obtain moving g1 where m: "waitForObjectDetection lk Moving 200 g = (moving, g1)" by fastforce
  obtain settled g2 where s: "waitForMotionEnd lk 5000 g1 = (settled, g2)" by fastforce
  obtain y l1 where y: "settled = Some y" "report_settled lk profile y (l1, g2) = Some (True, l', g')"
    using assms m s by (cases settled) (auto simp: await_settled_def Let_def)
  have l: "leads_to lk g g1" "leads_to lk g1 g2"
    using waitFor_leads m s by (auto simp: waitForObjectDetection_def waitForMotionEnd_def)
  have "y = im_stamped (gs_image g2)" "exchangeCount (im_stamped (gs_image g1)) < exchangeCount y"
      "objectDetection (gripperStatus (x_status y)) \<noteq> Moving"
    using waitFor_result [of lk _ 5000 g1 settled g2] s y(1) by (auto simp: waitForMotionEnd_def)
  then have "settled_at lk profile g g2"
    using leads_counts [OF l(1)] leads_trans [OF l(2,1)] report_settled_done(1) [OF y(2)] by (simp add: settled_at_def Let_def)
  with report_settled_done(2) [OF y(2)] show ?thesis by blast
qed

text \<open>The exchange that carried a command, likewise.\<close>

definition carried_at :: "'d link \<Rightarrow> gripper_command \<Rightarrow> 'd gripper_state \<Rightarrow> 'd gripper_state \<Rightarrow> bool" where
  "carried_at lk c g h \<longleftrightarrow> leads_to lk g h \<and> command_eq (x_command (im_stamped (gs_image h))) c \<and>
     exchangeCount (im_stamped (gs_image g)) < exchangeCount (im_stamped (gs_image h))"

lemma set_and_wait_carried_at: "setCommandAndWaitForExchange lk c timeout g = (Some x, g') \<Longrightarrow> carried_at lk c g g'"
  using set_and_wait_carried [of lk c timeout g x g'] set_and_wait_leads [of lk c timeout g "Some x" g']
  by (auto simp: carried_at_def)

lemma moveTo_done:
  assumes "moveTo lk profile openingMetres (c, l, g) = Some (True, c', l', g')"
  shows "\<exists>p g1 g2. openingToRegister openingMetres profile = Some (Some p) \<and>
    c' = c\<lparr>positionRequest := p, action := nb_put GoTo True (action c)\<rparr> \<and>
    carried_at lk c' g g1 \<and> settled_at lk profile g1 g2 \<and> leads_to lk g2 g'"
proof -
  obtain p where p: "openingToRegister openingMetres profile = Some (Some p)"
    using assms by (auto simp: moveTo_def split: option.splits)
  let ?c = "c\<lparr>positionRequest := p, action := nb_put GoTo True (action c)\<rparr>"
  obtain carried g1 where s: "setCommandAndWaitForExchange lk ?c 1000 g = (carried, g1)" by fastforce
  obtain x l1 where x: "carried = Some x" "c' = ?c" "await_settled lk profile (l1, g1) = Some (True, l', g')"
    using assms p s by (auto simp: moveTo_def Let_def split: option.splits)
  have "carried_at lk c' g g1" using set_and_wait_carried_at s x(1,2) by blast
  with await_settled_done [OF x(3)] p x(2) show ?thesis by blast
qed

text \<open>
  C19 A move reported as done was done: the opening asked for has a register; the call passed through a state whose
  image held a new exchange that wrote the command with it, with the move enabled and the caller's other fields; and
  after that through one whose image held a yet newer exchange that reported the fingers at rest, at a position
  with an opening in the profile, whatever other threads did.
\<close>

theorem finished_move_was_carried_and_settled:
  assumes "moveTo lk profile openingMetres (c, l, g) = Some (True, c', l', g')"
  shows "\<exists>p g1 g2. openingToRegister openingMetres profile = Some (Some p) \<and>
    c' = c\<lparr>positionRequest := p, action := nb_put GoTo True (action c)\<rparr> \<and>
    carried_at lk c' g g1 \<and> settled_at lk profile g1 g2 \<and> leads_to lk g2 g'"
  by (rule moveTo_done [OF assms])

section \<open>Witness\<close>

text \<open>
  A gripper that reports a motion for some exchanges and then rests, under a thread that exchanges whenever a caller
  waits; and a profile whose conversions are exact.
\<close>

definition resting_status :: gripper_status where
  "resting_status = setObjectDetection AtRequestedPosition zero_status"

definition moving_gripper :: "(thrown + gripper_status) list gripper_state" where
  "moving_gripper = (about_to_run (replicate 13 (Inr zero_status) @ replicate 13 (Inr resting_status)))
     \<lparr>gs_sched := replicate 22 (replicate 8 ThreadStep)\<rparr>"

definition whole_metre :: device_profile where
  "whole_metre = \<lparr>minSpeed = Fin 0, maxSpeed = Fin 1, minOpening = Fin 0, maxOpening = Fin 1,
     openPosition = 0, closedPosition = 255\<rparr>"

lemma round64_whole: "n \<le> 1000 \<Longrightarrow> round64 (of_nat n) = Fin (of_nat n)"
proof -
  assume n: "n \<le> 1000"
  then have "(of_nat n :: rat) \<le> 1000" by simp
  also have "(1000 :: rat) \<le> 2 ^ 10" by simp
  also have "(2 :: rat) ^ 10 \<le> 2 ^ 1023" by (rule power_increasing) simp_all
  finally show ?thesis using n nearest_of_nat [of n] round64_small [of "of_nat n"] by simp
qed

lemmas round64_witness = round64_whole [of 0, simplified] round64_whole [of 1, simplified]
  round64_whole [of 255, simplified] round64_whole [of 1000, simplified]

lemma floors: "\<lfloor>1 / 2 :: rat\<rfloor> = 0" "\<lfloor>2001 / 2 :: rat\<rfloor> = 1000"
  by (simp_all add: floor_eq_iff)

lemma whole_metre_open:
  "openingToRegister (Fin 1) whole_metre = Some (Some 0)" "openingFromRegister 0 whole_metre = Some (Fin 1)"
  "lround (d_mul (Fin 1) (Fin 1000)) = Some 1000"
  using floors by (simp_all add: openingToRegister_def openingFromRegister_def whole_metre_def openingRange_def
      registerPositionRange_def from_byte_def d_sub_def d_le_def d_eq_def d_clamp_def roundedRegister_def away_def
      round64_witness Let_def)

abbreviation witness_command :: gripper_command where
  "witness_command \<equiv> defaults\<lparr>positionRequest := 0, action := nb_put GoTo True (action defaults)\<rparr>"

lemma move_witness_run:
  "fst (setCommandAndWaitForExchange scripted_link witness_command 1000 moving_gripper) \<noteq> None"
  "map_option (\<lambda>y. position (x_status y)) (fst (waitForMotionEnd scripted_link 5000
     (snd (waitForObjectDetection scripted_link Moving 200
       (snd (setCommandAndWaitForExchange scripted_link witness_command 1000 moving_gripper)))))) = Some 0"
  by code_simp+

theorem finished_move_was_carried_and_settled_witness:
  "\<exists>l' g'. moveTo scripted_link whole_metre (Fin 1) (defaults, [], moving_gripper) =
      Some (True, witness_command, l', g') \<and> 2 \<le> exchangeCount (im_stamped (gs_image g'))"
proof -
  obtain x g1 where s: "setCommandAndWaitForExchange scripted_link witness_command 1000 moving_gripper = (Some x, g1)"
    using move_witness_run(1) by (cases "setCommandAndWaitForExchange scripted_link witness_command 1000 moving_gripper") auto
  obtain m g2 where m: "waitForObjectDetection scripted_link Moving 200 g1 = (m, g2)" by fastforce
  obtain y g3 where y: "waitForMotionEnd scripted_link 5000 g2 = (Some y, g3)" "position (x_status y) = 0"
    using move_witness_run(2) s m by (cases "waitForMotionEnd scripted_link 5000 g2") auto
  have "\<exists>l' g'. moveTo scripted_link whole_metre (Fin 1) (defaults, [], moving_gripper) = Some (True, witness_command, l', g')"
    using s m y whole_metre_open
    by (cases "m = None") (auto simp: moveTo_def await_settled_def report_settled_def log_status_def Let_def split: prod.split)
  then obtain l' g' where r: "moveTo scripted_link whole_metre (Fin 1) (defaults, [], moving_gripper) =
      Some (True, witness_command, l', g')" by blast
  from finished_move_was_carried_and_settled [OF r] have "2 \<le> exchangeCount (im_stamped (gs_image g'))"
    using leads_counts by (fastforce simp: carried_at_def settled_at_def Let_def)
  with r show ?thesis by blast
qed

end
