(* ===== verification/ExchangeLog.thy ===== *)
theory ExchangeLog
  imports GripperEvents
begin

text \<open>
  The logging example (\<open>grippers/sdk_cpp/examples/exchange_log.cpp\<close>): a recorder thread that writes a row of
  comma-separated values for each exchange, in step with the exchange cycle. The stream is a record of two
  functions on its state, so a write can fail; what \<open>operator<<\<close> is given is one piece, a string. The recorder
  runs beside the exchange thread and the callers, which its waits' schedule holds; how often its loop finds
  the stop flag unset is an argument.
\<close>

section \<open>Columns\<close>

definition kCycleTimeoutMs :: int where "kCycleTimeoutMs = 500"

definition kMetadataColumns :: string where "kMetadataColumns = ''time_s,exchange_count''"
definition kCommandColumns :: string where "kCommandColumns = ''rACT,rGTO,rATR,rARD,rPR,rSP,rFR''"
definition kStatusColumns :: string where "kStatusColumns = ''gACT,gGTO,gSTA,gOBJ,gFLT,kFLT,gPR,gPO,gCU''"

definition writeHeader :: "string list" where
  "writeHeader = [kMetadataColumns, '','', kCommandColumns, '','', kStatusColumns, newline]"

text \<open>A \<open>double\<close> with \<open>std::fixed\<close> and four decimals.\<close>

definition fixed_four :: "double \<Rightarrow> string" where
  "fixed_four = fixed_point 4"

text \<open>\<open>duration<double>\<close> of nanoseconds.\<close>

definition seconds_of :: "int \<Rightarrow> double" where
  "seconds_of ns = d_div (round64 (of_int ns)) (Fin (10 ^ 9))"

definition bool_out :: "bool \<Rightarrow> string" where
  "bool_out b = (if b then ''1'' else ''0'')"

definition byte_out :: "u8 \<Rightarrow> string" where
  "byte_out b = decimal (unat b)"

definition writeMetadata :: "int \<Rightarrow> stamped_exchange \<Rightarrow> string list" where
  "writeMetadata start x = [fixed_four (seconds_of (timestamp x - start)), '','', decimal (exchangeCount x)]"

definition writeCommand_csv :: "gripper_command \<Rightarrow> string list" where
  "writeCommand_csv c =
     [bool_out (nb_get (action c) Activate), '','', bool_out (nb_get (action c) GoTo), '','',
      bool_out (nb_get (action c) AutoRelease), '','', bool_out (nb_get (action c) AutoReleaseOpenDirection), '','',
      byte_out (positionRequest c), '','', byte_out (speed c), '','', byte_out (force c)]"

definition writeStatus_csv :: "gripper_status \<Rightarrow> string list" where
  "writeStatus_csv s =
     (let flags = gripperStatus s in
      [bool_out (activated flags), '','', bool_out (goToEnabled flags), '','',
       byte_out (activation_code (activationState flags)), '','', byte_out (object_code (objectDetection flags)), '','',
       byte_out (gripper_fault_code (gripperFault (faultStatus s))), '','',
       byte_out (controller_fault_code (controllerFault (faultStatus s))), '','',
       byte_out (positionRequestEcho s), '','', byte_out (position s), '','', byte_out (current s)])"

definition writeRow :: "int \<Rightarrow> stamped_exchange \<Rightarrow> string list" where
  "writeRow start x =
     writeMetadata start x @ ['',''] @ writeCommand_csv (x_command x) @ ['',''] @ writeStatus_csv (x_status x) @ [newline]"

section \<open>The recorder\<close>

record 'f ostream =
  os_put :: "string \<Rightarrow> 'f \<Rightarrow> 'f"
  os_good :: "'f \<Rightarrow> bool"

definition os_puts :: "'f ostream \<Rightarrow> string list \<Rightarrow> 'f \<Rightarrow> 'f" where
  "os_puts os pieces f = fold (os_put os) pieces f"

record 'f recorder =
  rc_csv :: 'f
  rc_log :: log
  rc_writeFailed :: bool
  rc_rows :: nat
  rc_skipped :: nat

text \<open>One turn of the loop, on the local \<open>written\<close>; the first component says whether the loop goes on.\<close>

definition recorder_turn :: "'d link \<Rightarrow> 'f ostream \<Rightarrow> int \<Rightarrow> nat \<times> 'f recorder \<times> 'd gripper_state \<Rightarrow>
    bool \<times> nat \<times> 'f recorder \<times> 'd gripper_state" where
  "recorder_turn lk os start = (\<lambda>(written, r, g).
     (case waitForExchangeCount lk (written + 1) kCycleTimeoutMs g of
        (None, g1) \<Rightarrow> (True, written, r, g1)
      | (Some x, g1) \<Rightarrow>
          let count = exchangeCount x;
              r1 = (if count \<noteq> written + 1
                    then r\<lparr>rc_skipped := rc_skipped r + (count - written - 1),
                           rc_log := log_line LevelWarn (''fell behind: exchanges '' @ decimal (written + 1) @ '' to '' @
                             decimal (count - 1) @ '' not logged'') (rc_log r)\<rparr>
                    else r);
              r2 = r1\<lparr>rc_csv := os_puts os (writeRow start x) (rc_csv r1)\<rparr>
          in if \<not> os_good os (rc_csv r2)
             then (False, count, r2\<lparr>rc_writeFailed := True,
                     rc_log := log_line LevelError (''writing the CSV file failed after '' @ decimal (rc_rows r2) @ '' rows'')
                       (rc_log r2)\<rparr>, g1)
             else (True, count, r2\<lparr>rc_rows := rc_rows r2 + 1\<rparr>, g1)))"

fun recorder_loop :: "'d link \<Rightarrow> 'f ostream \<Rightarrow> int \<Rightarrow> nat \<Rightarrow> nat \<times> 'f recorder \<times> 'd gripper_state \<Rightarrow>
    nat \<times> 'f recorder \<times> 'd gripper_state" where
  "recorder_loop lk os start 0 s = s"
| "recorder_loop lk os start (Suc k) s =
     (case recorder_turn lk os start s of (goes_on, s') \<Rightarrow> if goes_on then recorder_loop lk os start k s' else s')"

definition recorder_run :: "'d link \<Rightarrow> 'f ostream \<Rightarrow> nat \<Rightarrow> 'f \<Rightarrow> log \<Rightarrow> 'd gripper_state \<Rightarrow>
    nat \<times> 'f recorder \<times> 'd gripper_state" where
  "recorder_run lk os turns csv l g =
     (let (first, g1) = getMostRecentStampedExchange lk g;
          r = \<lparr>rc_csv = os_puts os writeHeader csv, rc_log = l, rc_writeFailed = False, rc_rows = 0, rc_skipped = 0\<rparr>
      in recorder_loop lk os (timestamp first) turns (exchangeCount first, r, g1))"

definition setSpeed :: "double \<Rightarrow> gripper_command \<times> log \<Rightarrow> (bool \<times> gripper_command \<times> log) option" where
  "setSpeed metresPerSecond = (\<lambda>(c, l).
     (case speedToRegister metresPerSecond k2F85 of
        None \<Rightarrow> None
      | Some None \<Rightarrow> Some (False, c, log_line LevelError ''the requested speed has no register value'' l)
      | Some (Some v) \<Rightarrow> Some (True, c\<lparr>speed := v\<rparr>, l)))"

section \<open>Rows\<close>

lemma os_puts_append: "os_puts os (a @ b) f = os_puts os b (os_puts os a f)"
  by (simp add: os_puts_def)

text \<open>A row is its fields, with commas between them and the end of the line.\<close>

fun joined :: "string list \<Rightarrow> string" where
  "joined [] = ''''"
| "joined [w] = w"
| "joined (w # ws) = w @ '','' @ joined ws"

definition no_comma :: "string \<Rightarrow> bool" where
  "no_comma w \<longleftrightarrow> CHR '','' \<notin> set w"

lemma split_joined: "ws \<noteq> [] \<Longrightarrow> list_all no_comma ws \<Longrightarrow> split_on CHR '','' (joined ws) = ws"
  by (induction ws rule: joined.induct) (auto simp: split_on_append split_on_one no_comma_def)

lemma no_comma_decimal [simp]: "no_comma (decimal n)"
  using decimal_digits [of "CHR '',''" n] by (auto simp: no_comma_def)

lemma no_comma_values [simp]: "no_comma (bool_out b)" "no_comma (byte_out v)" "no_comma (fixed_four x)"
proof -
  show "no_comma (bool_out b)" by (simp add: bool_out_def no_comma_def)
  show "no_comma (byte_out v)" by (simp add: byte_out_def)
  have "no_comma (a @ b) \<longleftrightarrow> no_comma a \<and> no_comma b" for a b by (simp add: no_comma_def)
  moreover have "no_comma (replicate n CHR ''0'')" for n by (simp add: no_comma_def)
  moreover have "no_comma ''-''" "no_comma ''''" "no_comma ''.''" by (simp_all add: no_comma_def)
  ultimately show "no_comma (fixed_four x)"
    using no_comma_decimal by (cases x) (simp_all add: fixed_four_def padded_def Let_def no_comma_def)
qed

definition row_values :: "int \<Rightarrow> stamped_exchange \<Rightarrow> string list" where
  "row_values start x =
     (let c = x_command x; s = x_status x in
      [fixed_four (seconds_of (timestamp x - start)), decimal (exchangeCount x),
       bool_out (nb_get (action c) Activate), bool_out (nb_get (action c) GoTo),
       bool_out (nb_get (action c) AutoRelease), bool_out (nb_get (action c) AutoReleaseOpenDirection),
       byte_out (positionRequest c), byte_out (speed c), byte_out (force c),
       bool_out (activated (gripperStatus s)), bool_out (goToEnabled (gripperStatus s)),
       byte_out (activation_code (activationState (gripperStatus s))),
       byte_out (object_code (objectDetection (gripperStatus s))),
       byte_out (gripper_fault_code (gripperFault (faultStatus s))),
       byte_out (controller_fault_code (controllerFault (faultStatus s))),
       byte_out (positionRequestEcho s), byte_out (position s), byte_out (current s)])"

lemma row_text: "concat (writeRow start x) = joined (row_values start x) @ newline"
  by (simp add: writeRow_def writeMetadata_def writeCommand_csv_def writeStatus_csv_def row_values_def Let_def)

lemma row_split: "split_on CHR '','' (butlast (concat (writeRow start x))) = row_values start x"
  using split_joined [of "row_values start x"]
  by (simp add: row_text newline_def butlast_append row_values_def Let_def)

lemma header_columns: "length (split_on CHR '','' (butlast (concat writeHeader))) = 18"
  by (simp add: writeHeader_def kMetadataColumns_def kCommandColumns_def kStatusColumns_def newline_def)

text \<open>What a reader of the file makes of a row.\<close>

definition row_command :: "string list \<Rightarrow> u8 list" where
  "row_command v =
     [bit_read (v ! 2) 0 OR bit_read (v ! 3) 3 OR bit_read (v ! 4) 4 OR bit_read (v ! 5) 5,
      byte_read (v ! 6), byte_read (v ! 7), byte_read (v ! 8)]"

definition row_status :: "string list \<Rightarrow> u8 list" where
  "row_status v =
     [bit_read (v ! 9) 0 OR bit_read (v ! 10) 3 OR push_bit 4 (byte_read (v ! 11)) OR push_bit 6 (byte_read (v ! 12)),
      (byte_read (v ! 13) AND 0x0F) OR push_bit 4 (byte_read (v ! 14) AND 0x0F),
      byte_read (v ! 15), byte_read (v ! 16), byte_read (v ! 17)]"

lemma bit_read_out: "bit_read (bool_out b) n = (if b then 2 ^ n else 0)"
  by (simp add: bit_read_def bool_out_def)

lemma byte_read_out: "byte_read (byte_out v) = v"
  by (simp add: byte_out_def byte_read_decimal)

section \<open>The loop\<close>

lemma recorder_turn_result:
  assumes "recorder_turn lk os start (n, r, g) = (goes_on, n', r', g')" and "\<not> rc_writeFailed r"
  shows "\<exists>xs. length xs \<le> 1 \<and> rc_csv r' = os_puts os (concat (map (writeRow start) xs)) (rc_csv r) \<and>
    (\<forall>x \<in> set xs. n < exchangeCount x) \<and> n' = (if xs = [] then n else exchangeCount (last xs)) \<and>
    rc_skipped r' + length xs + n = rc_skipped r + n' \<and>
    rc_rows r' + (if rc_writeFailed r' then 1 else 0) = rc_rows r + length xs \<and> (goes_on \<longleftrightarrow> \<not> rc_writeFailed r') \<and>
    n' \<le> max n (exchangeCount (im_stamped (gs_image g'))) \<and> since (gs_image g) (gs_now g) g'"
proof -
  obtain y g1 where y: "waitForExchangeCount lk (n + 1) kCycleTimeoutMs g = (y, g1)" by fastforce
  have s: "since (gs_image g) (gs_now g) g1" by (rule since_wait_count [OF y])
  show ?thesis
  proof (cases y)
    case None
    then show ?thesis using assms y s by (intro exI [of _ "[]"]) (auto simp: recorder_turn_def os_puts_def)
  next
    case (Some x)
    then have x: "x = im_stamped (gs_image g1)" "n + 1 \<le> exchangeCount x" using wait_count_result [OF y] by auto
    let ?csv = "os_puts os (writeRow start x) (rc_csv r)"
    have "n' = exchangeCount x \<and> g' = g1 \<and> rc_csv r' = ?csv \<and>
        rc_skipped r' = rc_skipped r + (exchangeCount x - n - 1) \<and>
        rc_rows r' + (if rc_writeFailed r' then 1 else 0) = rc_rows r + 1 \<and> (goes_on \<longleftrightarrow> \<not> rc_writeFailed r')"
      using assms y Some x(2) by (auto simp: recorder_turn_def Let_def split: if_splits)
    then show ?thesis using x s by (intro exI [of _ "[x]"]) auto
  qed
qed

lemma recorder_loop_result:
  assumes "recorder_loop lk os start k (n, r, g) = (n', r', g')" and "\<not> rc_writeFailed r"
  shows "\<exists>xs. rc_csv r' = os_puts os (concat (map (writeRow start) xs)) (rc_csv r) \<and>
    sorted_wrt (<) (n # map exchangeCount xs) \<and> n' = last (n # map exchangeCount xs) \<and>
    rc_skipped r' + length xs + n = rc_skipped r + n' \<and>
    rc_rows r' + (if rc_writeFailed r' then 1 else 0) = rc_rows r + length xs \<and>
    n' \<le> max n (exchangeCount (im_stamped (gs_image g'))) \<and> since (gs_image g) (gs_now g) g'"
  using assms
proof (induction k arbitrary: n r g)
  case 0
  then show ?case by (intro exI [of _ "[]"]) (simp add: os_puts_def)
next
  case (Suc k)
  obtain b n1 r1 g1 where t: "recorder_turn lk os start (n, r, g) = (b, n1, r1, g1)" using prod_cases4 by blast
  obtain ys where ys: "length ys \<le> 1" "rc_csv r1 = os_puts os (concat (map (writeRow start) ys)) (rc_csv r)"
      "\<forall>x \<in> set ys. n < exchangeCount x" "n1 = (if ys = [] then n else exchangeCount (last ys))"
      "rc_skipped r1 + length ys + n = rc_skipped r + n1"
      "rc_rows r1 + (if rc_writeFailed r1 then 1 else 0) = rc_rows r + length ys" "b \<longleftrightarrow> \<not> rc_writeFailed r1"
      "n1 \<le> max n (exchangeCount (im_stamped (gs_image g1)))" "since (gs_image g) (gs_now g) g1"
    using recorder_turn_result [OF t Suc.prems(2)] by blast
  have one: "ys = [] \<or> (\<exists>y. ys = [y])" using ys(1) by (cases ys) auto
  show ?case
  proof (cases b)
    case False
    then have "n' = n1 \<and> r' = r1 \<and> g' = g1" using Suc.prems(1) t by simp
    then show ?thesis using ys one by (intro exI [of _ ys]) auto
  next
    case True
    then have "recorder_loop lk os start k (n1, r1, g1) = (n', r', g')" using Suc.prems(1) t by simp
    from Suc.IH [OF this] True ys(7) obtain xs where xs:
        "rc_csv r' = os_puts os (concat (map (writeRow start) xs)) (rc_csv r1)"
        "sorted_wrt (<) (n1 # map exchangeCount xs)" "n' = last (n1 # map exchangeCount xs)"
        "rc_skipped r' + length xs + n1 = rc_skipped r1 + n'"
        "rc_rows r' + (if rc_writeFailed r' then 1 else 0) = rc_rows r1 + length xs"
        "n' \<le> max n1 (exchangeCount (im_stamped (gs_image g')))"
        "since (gs_image g1) (gs_now g1) g'"
      by auto
    have later: "since (gs_image g) (gs_now g) g'"
      using ys(9) xs(7) by (auto simp: since_def intro: image_le_trans)
    have "exchangeCount (im_stamped (gs_image g1)) \<le> exchangeCount (im_stamped (gs_image g'))"
      using xs(7) by (simp add: since_def image_le_def)
    then have m: "n1 \<le> max n (exchangeCount (im_stamped (gs_image g')))" using ys(8) by linarith
    note m = m later
    show ?thesis
      using one
    proof
      assume "ys = []"
      then show ?thesis using ys xs True m by (intro exI [of _ xs]) (auto simp: os_puts_def)
    next
      assume "\<exists>y. ys = [y]"
      then obtain y where "ys = [y]" by blast
      then show ?thesis using ys xs True m by (intro exI [of _ "y # xs"]) (auto simp: os_puts_append)
    qed
  qed
qed

section \<open>What the file holds\<close>

text \<open>
  C20 Every exchange of a recording is accounted for: the stream was given the header and then one row for each of a
  list of exchanges with strictly rising counts, and the rows reported, with the one of a failed write, and the
  exchanges reported as skipped add up to the exchanges counted since the recording began, whatever other threads do,
  however often the recorder falls behind and whenever the stream fails.
\<close>

theorem recorded_rows_account_for_every_exchange:
  "let (first, g1) = getMostRecentStampedExchange lk g; (n, r, g') = recorder_run lk os turns csv l g in
   \<exists>xs. rc_csv r = os_puts os (writeHeader @ concat (map (writeRow (timestamp first)) xs)) csv \<and>
     sorted_wrt (<) (exchangeCount first # map exchangeCount xs) \<and>
     n = last (exchangeCount first # map exchangeCount xs) \<and>
     length xs = rc_rows r + (if rc_writeFailed r then 1 else 0) \<and>
     length xs + rc_skipped r = n - exchangeCount first \<and> n \<le> exchangeCount (im_stamped (gs_image g'))"
proof -
  obtain first g1 where f: "getMostRecentStampedExchange lk g = (first, g1)" by fastforce
  then have first: "first = im_stamped (gs_image g1)" by (auto simp: getMostRecentStampedExchange_def Let_def)
  let ?r = "\<lparr>rc_csv = os_puts os writeHeader csv, rc_log = l, rc_writeFailed = False, rc_rows = 0, rc_skipped = 0\<rparr>"
  obtain n r g' where run: "recorder_run lk os turns csv l g = (n, r, g')" using prod_cases3 by blast
  then have "recorder_loop lk os (timestamp first) turns (exchangeCount first, ?r, g1) = (n, r, g')"
    using f by (simp add: recorder_run_def)
  from recorder_loop_result [OF this] obtain xs where xs:
      "rc_csv r = os_puts os (concat (map (writeRow (timestamp first)) xs)) (os_puts os writeHeader csv)"
      "sorted_wrt (<) (exchangeCount first # map exchangeCount xs)"
      "n = last (exchangeCount first # map exchangeCount xs)" "rc_skipped r + length xs + exchangeCount first = n"
      "rc_rows r + (if rc_writeFailed r then 1 else 0) = length xs"
      "n \<le> max (exchangeCount first) (exchangeCount (im_stamped (gs_image g')))" "since (gs_image g1) (gs_now g1) g'"
    by auto
  have "exchangeCount first \<le> exchangeCount (im_stamped (gs_image g'))"
    using xs(7) first by (simp add: since_def image_le_def)
  then have "\<exists>xs. rc_csv r = os_puts os (writeHeader @ concat (map (writeRow (timestamp first)) xs)) csv \<and>
     sorted_wrt (<) (exchangeCount first # map exchangeCount xs) \<and>
     n = last (exchangeCount first # map exchangeCount xs) \<and>
     length xs = rc_rows r + (if rc_writeFailed r then 1 else 0) \<and>
     length xs + rc_skipped r = n - exchangeCount first \<and> n \<le> exchangeCount (im_stamped (gs_image g'))"
    by (intro exI [of _ xs]) (use xs in \<open>auto simp: os_puts_append\<close>)
  then show ?thesis using f run by simp
qed

text \<open>
  C32 A row of the file can be read back: split at its commas it has a value for each column of the header, and
  its count, every documented bit and byte of the command and every one of the status are in it.
\<close>

theorem csv_row_reads_back:
  "let v = split_on CHR '','' (butlast (concat (writeRow start x))) in
   length v = length (split_on CHR '','' (butlast (concat writeHeader))) \<and>
   number_read (v ! 1) = exchangeCount x \<and>
   row_command v = [action (x_command x) AND 0x39, positionRequest (x_command x), speed (x_command x), force (x_command x)] \<and>
   row_status v = [gripperStatus (x_status x) AND 0xF9, faultStatus (x_status x), positionRequestEcho (x_status x),
     position (x_status x), current (x_status x)]"
proof -
  let ?v = "row_values start x"
  have "row_command ?v = [action (x_command x) AND 0x39, positionRequest (x_command x), speed (x_command x), force (x_command x)]"
    using action_rebuilt [of "action (x_command x)"]
    by (simp add: row_command_def row_values_def Let_def bit_read_out byte_read_out)
  moreover have "row_status ?v = [gripperStatus (x_status x) AND 0xF9, faultStatus (x_status x),
      positionRequestEcho (x_status x), position (x_status x), current (x_status x)]"
    using flags_rebuilt [of "gripperStatus (x_status x)"] faults_rebuilt [of "faultStatus (x_status x)"]
    by (simp add: row_status_def row_values_def Let_def bit_read_out byte_read_out)
  moreover have "length ?v = 18" "number_read (?v ! 1) = exchangeCount x" by (simp_all add: row_values_def Let_def)
  ultimately show ?thesis unfolding row_split header_columns by (simp add: Let_def)
qed

end
