(* ===== verification/Snippets.thy ===== *)
theory Snippets
  imports GripperEvents
begin

text \<open>
  The fragments of the manual (\<open>grippers/sdk_cpp/examples/snippets.cpp\<close>) and the first program it teaches
  (\<open>examples/quick_start.cpp\<close>): how the documentation composes the public interface. A fragment is a function of
  the gripper it is given; an empty \<open>if\<close> body is the value of its condition. \<open>None\<close> in an option around a
  result is behaviour the language leaves undefined; the left side of a sum is an exception.
\<close>

section \<open>Values\<close>

definition configureConnection :: connection_config where
  "configureConnection = (default_connection_config ''/dev/ttyUSB0'')
     \<lparr>cc_serial := \<lparr>sc_port = ''/dev/ttyUSB0'', sc_baudrate = 115200, sc_timeout = 500, sc_latencyTimerMs = 1\<rparr>,
      modbusSlaveAddress := 0x09, connectionFrequency := Fin 100\<rparr>"

definition commandActionBits :: gripper_command where
  "commandActionBits =
     (let c = defaults;
          c = c\<lparr>action := nb_put Activate True (action c)\<rparr>;
          c = c\<lparr>action := nb_put GoTo True (action c)\<rparr>;
          c = c\<lparr>action := nb_put AutoRelease False (action c)\<rparr>;
          c = c\<lparr>action := nb_put AutoReleaseOpenDirection True (action c)\<rparr>;
          c = c\<lparr>positionRequest := 100\<rparr>;
          c = c\<lparr>speed := 255\<rparr>
      in c\<lparr>force := 255\<rparr>)"

definition actionRequestBits :: gripper_command where
  "actionRequestBits =
     (let c = defaults\<lparr>action := nb_put GoTo True (action defaults)\<rparr>
      in c\<lparr>action := nb_put AutoRelease False (action c)\<rparr>)"

record status_fields =
  sf_gOBJ :: ObjectDetection
  sf_gSTA :: ActivationState
  sf_gGTO :: bool
  sf_gACT :: bool
  sf_kFLT :: ControllerFault
  sf_gFLT :: GripperFault
  sf_gPR :: u8
  sf_gPO :: u8
  sf_gCU :: u8

definition statusGripperStatusFields :: "'d link \<Rightarrow> 'd gripper_state \<Rightarrow> status_fields \<times> 'd gripper_state" where
  "statusGripperStatusFields lk g =
     (let (st, g1) = getStatus lk g
      in (\<lparr>sf_gOBJ = objectDetection (gripperStatus st), sf_gSTA = activationState (gripperStatus st),
           sf_gGTO = goToEnabled (gripperStatus st), sf_gACT = activated (gripperStatus st),
           sf_kFLT = controllerFault (faultStatus st), sf_gFLT = gripperFault (faultStatus st),
           sf_gPR = positionRequestEcho st, sf_gPO = position st, sf_gCU = current st\<rparr>, g1))"

definition objectDetectionCheck :: "'d link \<Rightarrow> 'd gripper_state \<Rightarrow> bool \<times> 'd gripper_state" where
  "objectDetectionCheck lk g =
     (let (st, g1) = getStatus lk g in (objectDetection (gripperStatus st) = Moving, g1))"

text \<open>The value returned, and whether the motion has settled.\<close>

definition gripperStatusFlags :: "'d link \<Rightarrow> 'd gripper_state \<Rightarrow> bool \<times> bool \<times> 'd gripper_state" where
  "gripperStatusFlags lk g =
     (let (st, g1) = getStatus lk g
      in (activated (gripperStatus st) \<and> goToEnabled (gripperStatus st),
          activationState (gripperStatus st) = Complete \<and> objectDetection (gripperStatus st) \<noteq> Moving, g1))"

definition motionSettledExample :: "'d link \<Rightarrow> 'd gripper_state \<Rightarrow> bool \<times> 'd gripper_state" where
  "motionSettledExample lk g =
     (let (st, g1) = getStatus lk g in (objectDetection (gripperStatus st) \<noteq> Moving, g1))"

definition statusToString :: "'d link \<Rightarrow> 'd gripper_state \<Rightarrow> string \<times> 'd gripper_state" where
  "statusToString lk g = (let (st, g1) = getStatus lk g in (status_toString st, g1))"

text \<open>\<open>value()\<close> of an empty optional throws.\<close>

definition bad_optional_access :: thrown where
  "bad_optional_access = StdException ''bad optional access''"

definition value_of :: "'a option \<Rightarrow> thrown + 'a" where
  "value_of v = (case v of None \<Rightarrow> Inl bad_optional_access | Some x \<Rightarrow> Inr x)"

definition normalizedPosition :: "'d link \<Rightarrow> log \<Rightarrow> 'd gripper_state \<Rightarrow> (thrown + double \<times> 'd gripper_state) option" where
  "normalizedPosition lk l g =
     map_option (\<lambda>r. case value_of r of
         Inl e \<Rightarrow> Inl e
       | Inr p \<Rightarrow> let c = defaults\<lparr>positionRequest := p\<rparr>; (st, g1) = getStatus lk g
                  in Inr (normalizedFromRegister (position st), g1))
       (fst (normalizedToRegister (Fin (3 / 4)) l))"

text \<open>0.150 m/s and 0.040 m as literals of type \<open>double\<close>.\<close>

definition siUnitCommand :: "(thrown + gripper_command) option" where
  "siUnitCommand =
     (case (speedToRegister (thousandths 150) k2F85, effortToRegister (Fin (1 / 2)), openingToRegister (thousandths 40) k2F85) of
        (Some s, Some e, Some p) \<Rightarrow>
          Some (case value_of s of Inl x \<Rightarrow> Inl x
                | Inr s \<Rightarrow> (case value_of e of Inl x \<Rightarrow> Inl x
                           | Inr e \<Rightarrow> (case value_of p of Inl x \<Rightarrow> Inl x
                                      | Inr p \<Rightarrow> Inr (defaults\<lparr>speed := s, force := e, positionRequest := p\<rparr>))))
      | _ \<Rightarrow> None)"

definition siUnitConversion :: "'d link \<Rightarrow> 'd gripper_state \<Rightarrow> (thrown + double \<times> 'd gripper_state) option" where
  "siUnitConversion lk g =
     map_option (\<lambda>made. case made of
         Inl e \<Rightarrow> Inl e
       | Inr c \<Rightarrow> let (st, g1) = getStatus lk g
                  in (case value_of (openingFromRegister (position st) k2F85) of
                        Inl e \<Rightarrow> Inl e | Inr x \<Rightarrow> Inr (x, g1)))
       siUnitCommand"

section \<open>A custom logger\<close>

fun level_rank :: "log_level \<Rightarrow> nat" where
  "level_rank LevelDebug = 0"
| "level_rank LevelInfo = 1"
| "level_rank LevelWarn = 2"
| "level_rank LevelError = 3"

text \<open>What \<open>UartLogger::log\<close> hands to the driver, write by write.\<close>

definition uart_log :: "log_level \<Rightarrow> string \<Rightarrow> string list" where
  "uart_log level message =
     (if level_rank LevelWarn \<le> level_rank level then [''!! ''] else []) @ [message]"

section \<open>Activation and recovery\<close>

definition activateOnly :: "'d link \<Rightarrow> 'd gripper_state \<Rightarrow> (activation_result \<times> 'd gripper_state) option" where
  "activateOnly lk g = activate lk kActivationTimeoutMs g"

definition recoverFromFaultOnly :: "'d link \<Rightarrow> 'd gripper_state \<Rightarrow> (activation_result \<times> 'd gripper_state) option" where
  "recoverFromFaultOnly lk g = recoverFromFault lk kActivationTimeoutMs g"

definition faultSeverityCheck :: "'d link \<Rightarrow> 'd gripper_state \<Rightarrow> (activation_result option \<times> 'd gripper_state) option" where
  "faultSeverityCheck lk g =
     (let (st, g1) = getStatus lk g
      in if severity (gripperFault (faultStatus st)) = Major
         then map_option (\<lambda>(r, g2). (Some r, g2)) (recoverFromFault lk kActivationTimeoutMs g1)
         else Some (None, g1))"

definition makeFakeGripperUsage :: "other_codes \<Rightarrow> int \<Rightarrow> gs_event list list \<Rightarrow> log \<Rightarrow>
    (thrown + activation_result \<times> fake_gripper modbus_client gripper_state) option" where
  "makeFakeGripperUsage other now sched l =
     (case makeFakeGripper other (default_connection_config '''') now sched l of
        None \<Rightarrow> None
      | Some (Inl e) \<Rightarrow> Some (Inl e)
      | Some (Inr g) \<Rightarrow> map_option Inr (activate (client_link (fake_serial other)) kActivationTimeoutMs g))"

section \<open>Waits\<close>

text \<open>
  The loop of \<open>waitForMotionEndByHand\<close>: a turn for each exchange that comes within a second. What the other threads
  do is used up by the turns, so it ends here; a schedule is a finite part of an execution.
\<close>

lemma waitForExchange_sched:
  assumes "waitForExchange lk timeout g = (Some x, g')"
  shows "length (gs_sched g') < length (gs_sched g)"
proof (cases "gs_sched g = []")
  case True
  then have "waitForExchangeCount lk (exchangeCount (im_stamped (gs_image g)) + 1) timeout g = (Some x, g')"
    using assms by (simp add: waitForExchange_def getMostRecentStampedExchange_def)
  from wait_count_idle [OF this True] show ?thesis by simp
next
  case False
  obtain n where "waitForExchangeCount lk n timeout (others lk g) = (Some x, g')"
    using assms by (auto simp: waitForExchange_def getMostRecentStampedExchange_def Let_def)
  then have "length (gs_sched g') \<le> length (gs_sched (others lk g)) - 1"
    using wait_count_sched [of lk n timeout "others lk g"] by simp
  then show ?thesis using False by (cases "gs_sched g") (auto simp: others_def)
qed

function waitForMotionEndByHand :: "'d link \<Rightarrow> 'd gripper_state \<Rightarrow> bool \<times> 'd gripper_state" where
  "waitForMotionEndByHand lk g =
     (case waitForExchange lk 1000 g of
        (None, g1) \<Rightarrow> (False, g1)
      | (Some x, g1) \<Rightarrow>
          if objectDetection (gripperStatus (x_status x)) \<noteq> Moving then (True, g1) else waitForMotionEndByHand lk g1)"
  by pat_completeness auto
termination
  by (relation "measure (\<lambda>(lk, g). length (gs_sched g))") (auto dest: waitForExchange_sched [OF sym])

declare waitForMotionEndByHand.simps [simp del]

definition waitForMotionToComplete ::
    "'d link \<Rightarrow> gripper_command \<Rightarrow> 'd gripper_state \<Rightarrow> string list \<times> stamped_exchange option \<times> 'd gripper_state" where
  "waitForMotionToComplete lk c g =
     (let (carried, g1) = setCommandAndWaitForExchange lk c 1000 g; (stopped, g2) = waitForMotionEnd lk 5000 g1
      in ((if carried = None then [''no exchange carried the command within 1 s'' @ newline] else []) @
          (if stopped = None then [''the fingers were still moving after 5 s'' @ newline] else []), stopped, g2))"

definition waitForHalfwayClosed :: "'d link \<Rightarrow> 'd gripper_state \<Rightarrow> stamped_exchange option \<times> 'd gripper_state" where
  "waitForHalfwayClosed lk = waitFor lk (\<lambda>x. 128 \<le> position (x_status x)) 10000"

section \<open>An autorelease before a move\<close>





section \<open>The first program\<close>

definition quick_start_command :: gripper_command where
  "quick_start_command = defaults\<lparr>action := nb_put GoTo True (action defaults), positionRequest := 100, speed := 255, force := 255\<rparr>"

text \<open>From the activation to the printed position; the results of the activation and of the waits are not looked at.\<close>

definition quick_start_body :: "'d link \<Rightarrow> 'd gripper_state \<Rightarrow> (string \<times> 'd gripper_state) option" where
  "quick_start_body lk g =
     (case activate lk kActivationTimeoutMs g of
        None \<Rightarrow> None
      | Some (_, g1) \<Rightarrow>
          let g2 = setCommand lk quick_start_command g1;
              (_, g3) = waitForObjectDetection lk Moving 200 g2;
              (_, g4) = waitForMotionEnd lk 5000 g3;
              (st, g5) = getStatus lk g4
          in Some (''Current position : '' @ decimal (unat (position st)) @ newline, g5))"


section \<open>What the fragments do\<close>

lemma waitForExchange_result:
  assumes "waitForExchange lk timeout g = (r, g')"
  shows "since (gs_image g) (gs_now g) g'"
    and "r = Some x \<Longrightarrow> x = im_stamped (gs_image g') \<and> exchangeCount (im_stamped (gs_image g)) < exchangeCount x"
proof -
  let ?g = "others lk g"
  have w: "waitForExchangeCount lk (exchangeCount (im_stamped (gs_image ?g)) + 1) timeout ?g = (r, g')"
    using assms by (simp add: waitForExchange_def getMostRecentStampedExchange_def Let_def)
  have o: "since (gs_image g) (gs_now g) ?g" by (rule since_others)
  then show "since (gs_image g) (gs_now g) g'"
    using since_wait_count [OF w] by (auto simp: since_def intro: image_le_trans)
  show "r = Some x \<Longrightarrow> x = im_stamped (gs_image g') \<and> exchangeCount (im_stamped (gs_image g)) < exchangeCount x"
    using wait_count_result [OF w] o by (auto simp: since_def image_le_def)
qed

lemma by_hand_result:
  "waitForMotionEndByHand lk g = (r, g') \<Longrightarrow> since (gs_image g) (gs_now g) g' \<and>
    (r \<longrightarrow> exchangeCount (im_stamped (gs_image g)) < exchangeCount (im_stamped (gs_image g')) \<and>
      objectDetection (gripperStatus (x_status (im_stamped (gs_image g')))) \<noteq> Moving)"
proof (induction lk g arbitrary: r g' rule: waitForMotionEndByHand.induct)
  case (1 lk g)
  obtain e g1 where e: "waitForExchange lk 1000 g = (e, g1)" by fastforce
  note w = waitForExchange_result [OF e]
  show ?case
  proof (cases e)
    case None
    then show ?thesis using "1.prems" e w(1) by (simp add: waitForMotionEndByHand.simps [of lk g])
  next
    case (Some x)
    show ?thesis
    proof (cases "objectDetection (gripperStatus (x_status x)) = Moving")
      case False
      then show ?thesis
        using "1.prems" e w(1) w(2) [OF Some] Some by (auto simp: waitForMotionEndByHand.simps [of lk g])
    next
      case True
      then have r: "waitForMotionEndByHand lk g1 = (r, g')"
        using "1.prems" e Some by (simp add: waitForMotionEndByHand.simps [of lk g])
      from "1.IH" [OF e [symmetric] Some _ r] True w show ?thesis
        by (auto simp: since_def image_le_def intro: image_le_trans)
    qed
  qed
qed

text \<open>
  The wait of the manual's example and \<open>waitForMotionEnd\<close> promise the same of an exchange that ends them; the time of
  the first is only bounded by the exchanges that report a motion.
\<close>

lemma by_hand_is_sound:
  assumes "waitForMotionEndByHand lk g = (True, g')"
  shows "exchangeCount (im_stamped (gs_image g)) < exchangeCount (im_stamped (gs_image g')) \<and>
    objectDetection (gripperStatus (x_status (im_stamped (gs_image g')))) \<noteq> Moving"
  using by_hand_result [OF assms] by simp


section \<open>Witness\<close>


end
