(* ===== verification/CommandLine.thy ===== *)
theory CommandLine
  imports Units "HOL-Library.Multiset"
begin

text \<open>
  The arguments of the example programs (\<open>grippers/sdk_cpp/examples/move_gripper.cpp\<close> and
  \<open>examples/exchange_rate_probe.cpp\<close>): the number scanners of the standard library that they rest on, with
  64-bit \<open>long\<close>, their range checks, and the options of the probe.
\<close>

section \<open>Scanners of the standard library\<close>

definition space_char :: "char \<Rightarrow> bool" where
  "space_char c \<longleftrightarrow> c = CHR '' '' \<or> 9 \<le> (of_char c :: nat) \<and> (of_char c :: nat) \<le> 13"

definition digit_char :: "char \<Rightarrow> bool" where
  "digit_char c \<longleftrightarrow> 48 \<le> (of_char c :: nat) \<and> (of_char c :: nat) \<le> 57"

text \<open>Blanks and a sign: whether it is a minus, and the rest.\<close>

definition scan_sign :: "string \<Rightarrow> bool \<times> string" where
  "scan_sign s =
     (case s of [] \<Rightarrow> (False, []) | c # cs \<Rightarrow> if c = CHR ''-'' then (True, cs) else if c = CHR ''+'' then (False, cs) else (False, s))"

text \<open>\<open>strtol\<close> and \<open>strtoul\<close> to base ten: sign, magnitude, and where the scan ended; \<open>None\<close> when no number is there.\<close>

definition scan_integer :: "string \<Rightarrow> (bool \<times> nat \<times> string) option" where
  "scan_integer text =
     (let (neg, s) = scan_sign (dropWhile space_char text); ds = takeWhile digit_char s
      in if ds = [] then None else Some (neg, number_read ds, dropWhile digit_char s))"

text \<open>A value out of range of \<open>long\<close> is its nearest bound; \<open>strtoul\<close> negates in 64 bits, and \<open>stoul\<close> throws on a magnitude beyond them.\<close>

definition strtol_value :: "bool \<Rightarrow> nat \<Rightarrow> int" where
  "strtol_value neg n = max (- (2 ^ 63)) (min (2 ^ 63 - 1) (if neg then - int n else int n))"

datatype stoul_error = InvalidArgument | OutOfRange

definition stoul :: "string \<Rightarrow> stoul_error + u64" where
  "stoul text =
     (case scan_integer text of
        None \<Rightarrow> Inl InvalidArgument
      | Some (neg, n, rest) \<Rightarrow>
          if 2 ^ 64 \<le> n then Inl OutOfRange else Inr (if neg then - word_of_nat n else word_of_nat n))"

text \<open>
  \<open>strtod\<close>: decimal and hexadecimal numbers with an optional exponent, infinities and NaNs. \<open>scan_mantissa\<close> reads digits
  with at most one point: their value as one number, how many are behind the point, and the rest.
\<close>

definition hex_char :: "char \<Rightarrow> bool" where
  "hex_char c \<longleftrightarrow> digit_char c \<or> 65 \<le> (of_char c :: nat) \<and> (of_char c :: nat) \<le> 70 \<or> 97 \<le> (of_char c :: nat) \<and> (of_char c :: nat) \<le> 102"

definition hex_digit :: "char \<Rightarrow> nat" where
  "hex_digit c = (if digit_char c then of_char c - 48 else if (of_char c :: nat) \<le> 70 then of_char c - 55 else of_char c - 87)"

definition scan_mantissa :: "nat \<Rightarrow> (char \<Rightarrow> bool) \<Rightarrow> string \<Rightarrow> (nat \<times> nat \<times> string) option" where
  "scan_mantissa base is_digit s =
     (let whole = takeWhile is_digit s; s1 = dropWhile is_digit s;
          (fraction, rest) = (case s1 of CHR ''.'' # s2 \<Rightarrow> (takeWhile is_digit s2, dropWhile is_digit s2) | _ \<Rightarrow> ([], s1))
      in if whole = [] \<and> fraction = [] then None
         else Some (foldl (\<lambda>n c. base * n + hex_digit c) 0 (whole @ fraction), length fraction, rest))"

definition lower_char :: "char \<Rightarrow> char" where
  "lower_char c = (if 65 \<le> (of_char c :: nat) \<and> (of_char c :: nat) \<le> 90 then char_of ((of_char c :: nat) + 32) else c)"

text \<open>The exponent counts only with a digit behind its letter.\<close>

definition scan_exponent :: "char \<Rightarrow> string \<Rightarrow> int \<times> string" where
  "scan_exponent letter s =
     (case s of
        [] \<Rightarrow> (0, [])
      | c # cs \<Rightarrow>
          (let (neg, s1) = scan_sign cs; ds = takeWhile digit_char s1
           in if lower_char c = letter \<and> ds \<noteq> []
              then (if neg then - int (number_read ds) else int (number_read ds), dropWhile digit_char s1)
              else (0, s)))"

definition name_at :: "string \<Rightarrow> string \<Rightarrow> bool" where
  "name_at name s \<longleftrightarrow> map lower_char (take (length name) s) = name"

definition nan_rest :: "string \<Rightarrow> string" where
  "nan_rest s =
     (case s of
        CHR ''('' # s1 \<Rightarrow>
          (case dropWhile (\<lambda>c. digit_char c \<or> c = CHR ''_'' \<or> 97 \<le> (of_char (lower_char c) :: nat) \<and> (of_char (lower_char c) :: nat) \<le> 122) s1 of
             CHR '')'' # s2 \<Rightarrow> s2 | _ \<Rightarrow> s)
      | _ \<Rightarrow> s)"

definition scan_unsigned :: "string \<Rightarrow> (double \<times> string) option" where
  "scan_unsigned s =
     (if name_at ''infinity'' s then Some (Infinity False, drop 8 s)
      else if name_at ''inf'' s then Some (Infinity False, drop 3 s)
      else if name_at ''nan'' s then Some (NaN False, nan_rest (drop 3 s))
      else case (if name_at ''0x'' s then scan_mantissa 16 hex_char (drop 2 s) else None) of
             Some (m, k, s1) \<Rightarrow>
               (let (e, rest) = scan_exponent CHR ''p'' s1 in Some (round64 (of_nat m * 2 powi (e - 4 * int k)), rest))
           | None \<Rightarrow>
               (case scan_mantissa 10 digit_char s of
                  None \<Rightarrow> None
                | Some (m, k, s1) \<Rightarrow>
                    (let (e, rest) = scan_exponent CHR ''e'' s1 in Some (round64 (of_nat m * 10 powi (e - int k)), rest))))"

definition strtod :: "string \<Rightarrow> (double \<times> string) option" where
  "strtod text =
     (let (neg, s) = scan_sign (dropWhile space_char text)
      in map_option (\<lambda>(v, rest). (if neg then d_neg v else v, rest)) (scan_unsigned s))"

section \<open>The baud rate of \<open>move_gripper\<close>\<close>

definition kMinBaudrate :: u64 where "kMinBaudrate = 1"
definition kMaxBaudrate :: u64 where "kMaxBaudrate = 1000000"

text \<open>\<open>None\<close> is the message \<open>Invalid baudrate\<close>: any exception ends there.\<close>

definition baudrate_argument :: "string \<Rightarrow> u32 option" where
  "baudrate_argument text =
     (case stoul text of
        Inl _ \<Rightarrow> None
      | Inr parsed \<Rightarrow> if parsed < kMinBaudrate \<or> kMaxBaudrate < parsed then None else Some (ucast parsed))"

section \<open>The options of \<open>exchange_rate_probe\<close>\<close>

definition parseLong :: "string \<Rightarrow> int \<Rightarrow> int \<Rightarrow> int option" where
  "parseLong text lo hi =
     (case scan_integer text of
        None \<Rightarrow> None
      | Some (neg, n, rest) \<Rightarrow>
          let v = strtol_value neg n in if rest \<noteq> [] \<or> v < lo \<or> hi < v then None else Some v)"

definition parseDouble :: "string \<Rightarrow> double \<Rightarrow> double \<Rightarrow> double option" where
  "parseDouble text lo hi =
     (case strtod text of
        None \<Rightarrow> None
      | Some (v, rest) \<Rightarrow> if rest \<noteq> [] \<or> \<not> (d_le lo v \<and> d_le v hi) then None else Some v)"

record options =
  opt_port :: "string option"
  opt_hz :: double
  opt_seconds :: int
  opt_baudrate :: int

definition default_options :: options where
  "default_options = \<lparr>opt_port = None, opt_hz = Fin 100, opt_seconds = 5, opt_baudrate = 115200\<rparr>"

text \<open>One turn of the loop: \<open>ok\<close> and the options; an output parameter is only written on success.\<close>

definition option_turn :: "string \<Rightarrow> string \<Rightarrow> options \<Rightarrow> bool \<times> options" where
  "option_turn name v o' =
     (if name = ''--port'' then (True, o'\<lparr>opt_port := Some v\<rparr>)
      else if name = ''--hz'' then
        (case parseDouble v (round64 (1 / 10)) (Fin 1000) of None \<Rightarrow> (False, o') | Some x \<Rightarrow> (True, o'\<lparr>opt_hz := x\<rparr>))
      else if name = ''--seconds'' then
        (case parseLong v 1 3600 of None \<Rightarrow> (False, o') | Some x \<Rightarrow> (True, o'\<lparr>opt_seconds := x\<rparr>))
      else if name = ''--baudrate'' then
        (case parseLong v 1200 3000000 of None \<Rightarrow> (False, o') | Some x \<Rightarrow> (True, o'\<lparr>opt_baudrate := x\<rparr>))
      else (False, o'))"

text \<open>The loop over the arguments behind the program's name.\<close>

fun option_loop :: "string list \<Rightarrow> bool \<times> options \<Rightarrow> bool \<times> options" where
  "option_loop (name # v # args) (ok, o') = (if ok then option_loop args (option_turn name v o') else (ok, o'))"
| "option_loop _ s = s"

definition probe_usage :: "string \<Rightarrow> string" where
  "probe_usage prog = ''usage: '' @ prog @ '' --port <port> [--hz 100] [--seconds 5] [--baudrate 115200]'' @ [CHR 0x0A]"

text \<open>The options, and what is printed on the standard error.\<close>

definition parseOptions :: "string list \<Rightarrow> options \<times> string" where
  "parseOptions argv =
     (let (ok, o') = option_loop (tl argv) (odd (length argv), default_options)
      in if \<not> ok \<or> opt_port o' = None then (o'\<lparr>opt_port := None\<rparr>, probe_usage (hd argv)) else (o', ''''))"


section \<open>The baud rate\<close>

lemma decimal_scan:
  "dropWhile space_char (decimal n) = decimal n" "takeWhile digit_char (decimal n) = decimal n"
  "dropWhile digit_char (decimal n) = []" "scan_sign (decimal n) = (False, decimal n)"
proof -
  have digits: "\<forall>c \<in> set (decimal n). digit_char c \<and> \<not> space_char c \<and> c \<noteq> CHR ''-'' \<and> c \<noteq> CHR ''+''"
    using decimal_digits [of _ n] by (fastforce simp: digit_char_def space_char_def)
  obtain c cs where d: "decimal n = c # cs" by (cases "decimal n") (auto simp: decimal.simps [of n] split: if_splits)
  show "dropWhile space_char (decimal n) = decimal n" "scan_sign (decimal n) = (False, decimal n)"
    using digits by (simp_all add: d scan_sign_def)
  show "takeWhile digit_char (decimal n) = decimal n" "dropWhile digit_char (decimal n) = []"
    using digits by (simp_all add: takeWhile_eq_all_conv dropWhile_eq_Nil_conv)
qed

lemma scan_decimal: "scan_integer (decimal n) = Some (False, n, [])"
proof -
  have "decimal n \<noteq> []" by (simp add: decimal.simps [of n])
  then show ?thesis by (simp add: scan_integer_def decimal_scan)
qed

lemma baudrate_in_range: "baudrate_argument text = Some b \<Longrightarrow> 1 \<le> unat b \<and> unat b \<le> 1000000"
proof -
  assume "baudrate_argument text = Some b"
  then obtain v :: u64 where v: "\<not> v < 1" "\<not> 1000000 < v" "b = ucast v"
    by (auto simp: baudrate_argument_def kMinBaudrate_def kMaxBaudrate_def split: sum.splits if_splits)
  then have "unat v \<le> 1000000" "1 \<le> unat v" by (simp_all add: word_less_nat_alt not_less)
  moreover from this(1) have "unat b = unat v" by (simp add: v(3) unsigned_ucast_eq take_bit_nat_eq_self)
  ultimately show ?thesis by simp
qed

lemma baudrate_of_decimal:
  "baudrate_argument (decimal n) = (if 1 \<le> n \<and> n \<le> 1000000 then Some (word_of_nat n) else None)"
proof (cases "n < 2 ^ 64")
  case True
  have u: "unat (word_of_nat n :: u64) = n" using True by (simp add: unsigned_of_nat take_bit_nat_eq_self)
  have "\<not> 2 ^ 64 \<le> n" using True by simp
  then have "baudrate_argument (decimal n) =
      (if (word_of_nat n :: u64) < 1 \<or> 1000000 < (word_of_nat n :: u64) then None else Some (ucast (word_of_nat n :: u64)))"
    by (simp add: baudrate_argument_def stoul_def scan_decimal kMinBaudrate_def kMaxBaudrate_def)
  moreover have "(ucast (word_of_nat n :: u64) :: u32) = word_of_nat n"
    by (rule bit_word_eqI) (auto simp: bit_simps)
  ultimately show ?thesis using u by (simp add: word_less_nat_alt)
next
  case False
  then have "2 ^ 64 \<le> n" by simp
  then show ?thesis by (simp add: baudrate_argument_def stoul_def scan_decimal)
qed

text \<open>A negative text can be accepted: its magnitude is negated in 64 bits and can come out in the range.\<close>

lemma negative_baudrate_accepted: "baudrate_argument (''-'' @ decimal (2 ^ 64 - 9600)) = Some 9600"
proof -
  have "scan_integer (''-'' @ decimal n) = Some (True, n, [])" for n
  proof -
    have "decimal n \<noteq> []" by (simp add: decimal.simps [of n])
    then show ?thesis by (simp add: scan_integer_def decimal_scan scan_sign_def space_char_def)
  qed
  moreover have "\<not> (2 :: nat) ^ 64 \<le> 2 ^ 64 - 9600" by simp
  moreover have "- (word_of_nat (2 ^ 64 - 9600) :: u64) = 9600" by (simp add: of_nat_diff)
  ultimately show ?thesis
    by (simp only: baudrate_argument_def stoul_def option.case prod.case if_False if_True sum.case kMinBaudrate_def kMaxBaudrate_def) simp
qed

section \<open>The options\<close>

text \<open>A turn on the options collected so far, or on none once an argument was rejected.\<close>

definition apply_option :: "string \<times> string \<Rightarrow> options option \<Rightarrow> options option" where
  "apply_option p s = (case s of None \<Rightarrow> None | Some o' \<Rightarrow> (case option_turn (fst p) (snd p) o' of (ok, o'') \<Rightarrow> if ok then Some o'' else None))"

definition arguments_of :: "(string \<times> string) list \<Rightarrow> string list" where
  "arguments_of ps = concat (map (\<lambda>(name, v). [name, v]) ps)"

lemma fold_rejected: "fold apply_option ps None = None"
  by (induction ps) (simp_all add: apply_option_def)

lemma option_loop_rejected: "option_loop args (False, o') = (False, o')"
  by (induction args "(False, o')" rule: option_loop.induct) auto

lemma option_loop_fold:
  "option_loop (arguments_of ps) (True, o') = (ok, o'') \<Longrightarrow> fold apply_option ps (Some o') = (if ok then Some o'' else None)"
proof (induction ps arbitrary: o')
  case (Cons p ps)
  obtain name v where p: "p = (name, v)" by fastforce
  obtain ok1 o1 where t: "option_turn name v o' = (ok1, o1)" by fastforce
  have l: "option_loop (arguments_of ps) (ok1, o1) = (ok, o'')" using Cons.prems t by (simp add: arguments_of_def p)
  show ?case
  proof (cases ok1)
    case True
    then have "apply_option p (Some o') = Some o1" using t by (simp add: p apply_option_def)
    then show ?thesis using Cons.IH [of o1] l True by simp
  next
    case False
    then have "\<not> ok" using l option_loop_rejected by simp
    moreover have "apply_option p (Some o') = None" using False t by (simp add: p apply_option_def)
    ultimately show ?thesis by (simp add: fold_rejected)
  qed
qed (simp add: arguments_of_def)

lemma option_turns_commute:
  assumes "fst p \<noteq> fst q"
  shows "apply_option p (apply_option q s) = apply_option q (apply_option p s)"
proof (cases s)
  case (Some o')
  then show ?thesis using assms
    by (cases p; cases q)
      (auto simp: apply_option_def option_turn_def split: option.splits)
qed (simp add: apply_option_def)

definition in_range :: "options \<Rightarrow> bool" where
  "in_range o' \<longleftrightarrow> d_le (round64 (1 / 10)) (opt_hz o') \<and> d_le (opt_hz o') (Fin 1000) \<and>
     1 \<le> opt_seconds o' \<and> opt_seconds o' \<le> 3600 \<and> 1200 \<le> opt_baudrate o' \<and> opt_baudrate o' \<le> 3000000"

lemma parsed_in_range:
  "parseLong t lo hi = Some v \<Longrightarrow> lo \<le> v \<and> v \<le> hi" "parseDouble t a b = Some x \<Longrightarrow> d_le a x \<and> d_le x b"
  by (auto simp: parseLong_def parseDouble_def Let_def split: option.splits if_splits)

lemma option_turn_in_range: "option_turn name v o' = (ok, o'') \<Longrightarrow> in_range o' \<Longrightarrow> in_range o''"
  by (auto simp: option_turn_def in_range_def split: if_splits option.splits dest: parsed_in_range)

lemma option_loop_in_range: "option_loop args s = (ok, o'') \<Longrightarrow> in_range (snd s) \<Longrightarrow> in_range o''"
proof (induction args s rule: option_loop.induct)
  case (1 name v args ok' o')
  obtain ok1 o1 where t: "option_turn name v o' = (ok1, o1)" by fastforce
  show ?case
  proof (cases ok')
    case True
    then show ?thesis using 1 t option_turn_in_range [OF t] by simp
  next
    case False
    then show ?thesis using 1 by simp
  qed
qed auto

lemma default_in_range: "in_range default_options"
proof -
  have "nearest (1 / 10) \<le> 1" using nearest_range [of "1 / 10" 1] by simp
  then have "d_le (round64 (1 / 10)) (Fin 100)"
    using round64_le [of "1 / 10"] by (auto simp: d_le_def)
  then show ?thesis by (simp add: in_range_def default_options_def d_le_def d_eq_def)
qed

text \<open>
  The probe reads its options in any order and within their ranges: two command lines with the same pairs, no name
  twice, are both rejected, with the usage, or both accepted with the same options; and the rate, the seconds and the
  baud rate that are accepted are finite numbers within their bounds.
\<close>

theorem options_in_any_order:
  assumes "mset ps = mset qs" and "distinct (map fst ps)"
    and "parseOptions (prog # arguments_of ps) = (o1, e1)" and "parseOptions (prog # arguments_of qs) = (o2, e2)"
  shows "e1 = e2 \<and> opt_port o1 = opt_port o2 \<and>
    (opt_port o1 \<noteq> None \<longrightarrow> e1 = '''' \<and> o1 = o2 \<and> is_finite (opt_hz o1) \<and> in_range o1)"
proof -
  have "even (length (arguments_of rs))" for rs by (induction rs) (auto simp: arguments_of_def)
  then have parse: "parseOptions (prog # arguments_of rs) =
      (if \<not> k \<or> opt_port r = None then (r\<lparr>opt_port := None\<rparr>, probe_usage prog) else (r, ''''))"
    if "option_loop (arguments_of rs) (True, default_options) = (k, r)" for rs k r
    using that by (simp add: parseOptions_def)
  have "fold apply_option ps = fold apply_option qs"
  proof (rule fold_multiset_equiv [OF _ assms(1)])
    fix x y
    assume "x \<in> set ps" "y \<in> set ps"
    then have "x = y \<or> fst x \<noteq> fst y" using assms(2) by (auto simp: distinct_map inj_on_def)
    then show "apply_option x \<circ> apply_option y = apply_option y \<circ> apply_option x"
    proof
      assume "fst x \<noteq> fst y"
      then show ?thesis using option_turns_commute [of x y] by (simp add: fun_eq_iff)
    qed simp
  qed
  moreover obtain k1 r1 where l1: "option_loop (arguments_of ps) (True, default_options) = (k1, r1)" by fastforce
  moreover obtain k2 r2 where l2: "option_loop (arguments_of qs) (True, default_options) = (k2, r2)" by fastforce
  ultimately have same: "(if k1 then Some r1 else None) = (if k2 then Some r2 else None)"
    using option_loop_fold by metis
  have range: "in_range r1" using option_loop_in_range [OF l1] default_in_range by simp
  have "d_le (round64 (1 / 10)) (opt_hz r1) \<and> d_le (opt_hz r1) (Fin 1000)" using range by (simp add: in_range_def)
  then have "is_finite (opt_hz r1)"
    using round64_le [of "1 / 10"] by (cases "opt_hz r1") (auto simp: d_le_def d_eq_def)
  moreover have o: "(o1, e1) = (if \<not> k1 \<or> opt_port r1 = None then (r1\<lparr>opt_port := None\<rparr>, probe_usage prog) else (r1, ''''))"
      "(o2, e2) = (if \<not> k2 \<or> opt_port r2 = None then (r2\<lparr>opt_port := None\<rparr>, probe_usage prog) else (r2, ''''))"
    using assms(3,4) parse [OF l1] parse [OF l2] by simp_all
  ultimately show ?thesis
  proof (cases "k1 \<and> opt_port r1 \<noteq> None")
    case True
    then have "k2" "r2 = r1" using same by (auto split: if_splits)
    then have "(o1, e1) = (r1, '''')" "(o2, e2) = (r1, '''')" using o True by auto
    then show ?thesis using \<open>is_finite (opt_hz r1)\<close> range by simp
  next
    case False
    then have "\<not> (k2 \<and> opt_port r2 \<noteq> None)" using same by (auto split: if_splits)
    then have "opt_port o1 = None \<and> e1 = probe_usage prog" "opt_port o2 = None \<and> e2 = probe_usage prog"
      using o False by auto
    then show ?thesis by simp
  qed
qed

theorem options_in_any_order_witness:
  "parseOptions (''p'' # arguments_of [(''--seconds'', ''7''), (''--port'', ''a'')]) =
     parseOptions (''p'' # arguments_of [(''--port'', ''a''), (''--seconds'', ''7'')]) \<and>
   opt_seconds (fst (parseOptions (''p'' # arguments_of [(''--seconds'', ''7''), (''--port'', ''a'')]))) = 7"
proof -
  let ?a = "parseOptions (''p'' # arguments_of [(''--seconds'', ''7''), (''--port'', ''a'')])"
  let ?b = "parseOptions (''p'' # arguments_of [(''--port'', ''a''), (''--seconds'', ''7'')])"
  have "decimal 7 = ''7''" by code_simp
  then have seven: "parseLong ''7'' 1 3600 = Some 7"
    using scan_decimal [of 7] by (simp add: parseLong_def strtol_value_def Let_def)
  have turns: "option_turn ''--seconds'' ''7'' o' = (True, o'\<lparr>opt_seconds := 7\<rparr>)"
      "option_turn ''--port'' ''a'' o' = (True, o'\<lparr>opt_port := Some ''a''\<rparr>)" for o'
    using seven by (simp_all add: option_turn_def)
  have "arguments_of [(''--seconds'', ''7''), (''--port'', ''a'')] = [''--seconds'', ''7'', ''--port'', ''a'']"
    by (simp add: arguments_of_def)
  then have "?a = (default_options\<lparr>opt_seconds := 7, opt_port := Some ''a''\<rparr>, '''')"
    by (simp add: parseOptions_def turns del: append.simps)
  then have "opt_port (fst ?a) \<noteq> None \<and> opt_seconds (fst ?a) = 7" by simp
  moreover have "snd ?a = snd ?b \<and> opt_port (fst ?a) = opt_port (fst ?b) \<and>
      (opt_port (fst ?a) \<noteq> None \<longrightarrow> snd ?a = '''' \<and> fst ?a = fst ?b \<and> is_finite (opt_hz (fst ?a)) \<and> in_range (fst ?a))"
    by (rule options_in_any_order [OF _ _ prod.collapse [symmetric] prod.collapse [symmetric]]) simp_all
  ultimately show ?thesis by (metis prod.collapse)
qed

end
