(* ===== verification/Programs.thy ===== *)
theory Programs
  imports ExchangeLog Snippets CommandLine
begin

text \<open>
  The example programs from their arguments to their exit codes (\<open>grippers/sdk_cpp/examples/move_gripper.cpp\<close>,
  \<open>exchange_log.cpp\<close> and \<open>exchange_rate_probe.cpp\<close>): the part before the connection, a function of the arguments, and
  the part on a connected gripper. \<open>None\<close> around a result is behaviour the language leaves undefined.
\<close>

section \<open>\<open>move_gripper\<close>\<close>

text \<open>The configuration, or the message with which the program fails.\<close>

definition move_config :: "string list \<Rightarrow> string + connection_config" where
  "move_config argv =
     (if length argv < 2 then Inl (''Usage: '' @ hd argv @ '' <port> [baudrate]'' @ newline)
      else let config = default_connection_config (argv ! 1)
           in if 2 < length argv
              then (case baudrate_argument (argv ! 2) of
                      None \<Rightarrow> Inl (''Invalid baudrate '' @ [CHR 0x27] @ argv ! 2 @ [CHR 0x27] @ newline)
                    | Some b \<Rightarrow> Inr (config\<lparr>cc_serial := (cc_serial config)\<lparr>sc_baudrate := b\<rparr>\<rparr>))
              else Inr config)"

definition kSpeed :: double where "kSpeed = thousandths 150"
definition kEffort :: double where "kEffort = Fin 1"

text \<open>Two moves with one command block.\<close>

definition move_twice :: "'d link \<Rightarrow> string \<times> double \<Rightarrow> string \<times> double \<Rightarrow> gripper_command \<times> log \<times> 'd gripper_state \<Rightarrow>
    (bool \<times> gripper_command \<times> log \<times> 'd gripper_state) option" where
  "move_twice lk first second = (\<lambda>(c, l, g).
     (case moveTo lk k2F85 (snd first) (c, log_line LevelInfo (fst first) l, g) of
        None \<Rightarrow> None
      | Some (moved, c1, l1, g1) \<Rightarrow>
          if moved then moveTo lk k2F85 (snd second) (c1, log_line LevelInfo (fst second) l1, g1) else Some (False, c1, l1, g1)))"

definition move_gripper :: "'d link \<Rightarrow> log \<times> 'd gripper_state \<Rightarrow> (bool \<times> log \<times> 'd gripper_state) option" where
  "move_gripper lk = (\<lambda>(l, g).
     (case activateOrRecover lk (log_line LevelInfo ''Activating...'' l, g) of
        None \<Rightarrow> None
      | Some (active, l1, g1) \<Rightarrow>
          if \<not> active then Some (False, l1, g1)
          else (case (speedToRegister kSpeed k2F85, effortToRegister kEffort) of
                  (Some (Some s), Some (Some f)) \<Rightarrow>
                    map_option (\<lambda>(moved, _, lg). (moved, lg))
                      (move_twice lk (''Opening...'', maxOpening k2F85) (''Closing...'', minOpening k2F85)
                         (defaults\<lparr>speed := s, force := f\<rparr>, l1, g1))
                | (Some _, Some _) \<Rightarrow>
                    Some (False, log_line LevelError ''the requested speed or effort has no register value'' l1, g1)
                | _ \<Rightarrow> None)))"

section \<open>\<open>exchange_log\<close>\<close>

definition kTargetOpening :: double where "kTargetOpening = thousandths 30"
definition kExchangeRate :: double where "kExchangeRate = Fin 200"
definition kDefaultFile :: string where "kDefaultFile = ''exchange_log.csv''"

text \<open>The configuration and the name of the file.\<close>

definition exchange_log_config :: "string list \<Rightarrow> string + connection_config \<times> string" where
  "exchange_log_config argv =
     (if length argv < 2 then Inl (''Usage: '' @ hd argv @ '' <port> [file.csv]'' @ newline)
      else Inr ((default_connection_config (argv ! 1))\<lparr>connectionFrequency := kExchangeRate\<rparr>,
                if 2 < length argv then argv ! 2 else kDefaultFile))"

text \<open>The main thread beside the recorder: whether the moves were done, or the early failure of the activation.\<close>

definition exchange_log_moves :: "'d link \<Rightarrow> log \<times> 'd gripper_state \<Rightarrow> (bool option \<times> log \<times> 'd gripper_state) option" where
  "exchange_log_moves lk = (\<lambda>(l, g).
     (case activateOrRecover lk (log_line LevelInfo ''Activating...'' l, g) of
        None \<Rightarrow> None
      | Some (False, l1, g1) \<Rightarrow> Some (None, l1, g1)
      | Some (True, l1, g1) \<Rightarrow>
          (case setSpeed (maxSpeed k2F85) (defaults, log_line LevelInfo ''Opening at full speed...'' l1) of
             None \<Rightarrow> None
           | Some (False, c, l2) \<Rightarrow> Some (Some False, l2, g1)
           | Some (True, c, l2) \<Rightarrow>
               (case moveTo lk k2F85 (maxOpening k2F85) (c, l2, g1) of
                  None \<Rightarrow> None
                | Some (False, c1, l3, g2) \<Rightarrow> Some (Some False, l3, g2)
                | Some (True, c1, l3, g2) \<Rightarrow>
                    (case setSpeed (minSpeed k2F85) (c1, log_line LevelInfo ''Moving to 30 mm at minimum speed...'' l3) of
                       None \<Rightarrow> None
                     | Some (False, c2, l4) \<Rightarrow> Some (Some False, l4, g2)
                     | Some (True, c2, l4) \<Rightarrow>
                         map_option (\<lambda>(moved, _, l5, g3). (Some moved, l5, g3)) (moveTo lk k2F85 kTargetOpening (c2, l4, g2)))))))"

text \<open>\<open>stop()\<close> once the recorder's thread has ended, and the end of \<open>main\<close>: \<open>csv_intact\<close> is the stream's state after \<open>close()\<close>.\<close>

definition recorder_stop :: "'f recorder \<Rightarrow> bool" where
  "recorder_stop r = (\<not> rc_writeFailed r)"

definition exchange_log_end :: "bool \<Rightarrow> bool \<Rightarrow> string \<Rightarrow> 'f recorder \<Rightarrow> log \<Rightarrow> bool \<times> log" where
  "exchange_log_end moved csv_intact file r l =
     (let logged = (recorder_stop r \<and> csv_intact)
      in (moved \<and> logged, log_line (if logged then LevelInfo else LevelError)
            (decimal (rc_rows r) @ '' rows written to '' @ file @ (if logged then '''' else '' before a write failed'') @
             '', '' @ decimal (rc_skipped r) @ '' exchanges skipped'') l))"

section \<open>\<open>exchange_rate_probe\<close>\<close>

text \<open>
  Every sleep of the exchange thread is stamped before it is made: \<open>sleep\<close> is the wrapped platform's, on the time and
  its state, and the stamps are kept in order.
\<close>

definition stamp_sleepUntil :: "(int \<Rightarrow> 'p \<Rightarrow> 'p) \<Rightarrow> ('p \<Rightarrow> int) \<Rightarrow> int \<Rightarrow> int list \<times> 'p \<Rightarrow> int list \<times> 'p" where
  "stamp_sleepUntil sleep now t = (\<lambda>(stamps, w). (stamps @ [now w], sleep t w))"

definition toMs :: "int \<Rightarrow> double" where
  "toMs d = d_div (round64 (of_int d)) (Fin (10 ^ 6))"

text \<open>The overshoots are finite: sorting by the value is \<open>std::sort\<close>.\<close>

fun finite_value :: "double \<Rightarrow> rat" where
  "finite_value (Fin x) = x"
| "finite_value _ = 0"

definition trunc_double :: "double \<Rightarrow> int" where
  "trunc_double d = (let x = finite_value d in if x < 0 then \<lceil>x\<rceil> else \<lfloor>x\<rfloor>)"

definition quantile_index :: "double \<Rightarrow> nat \<Rightarrow> nat" where
  "quantile_index q n = nat (trunc_double (d_mul q (round64 (of_nat (n - 1)))))"

definition printDistribution :: "string \<Rightarrow> double list \<Rightarrow> string" where
  "printDistribution label samples =
     (let ms = sort_key finite_value samples; value_at = (\<lambda>q. ms ! quantile_index q (length ms))
      in label @ '' over '' @ decimal (length ms) @ '' samples: median '' @ fixed_point 2 (value_at (Fin (1 / 2))) @
         '' ms, p90 '' @ fixed_point 2 (value_at (round64 (9 / 10))) @ '' ms, p99 '' @ fixed_point 2 (value_at (round64 (99 / 100))) @
         '' ms, range '' @ fixed_point 2 (hd ms) @ ''-'' @ fixed_point 2 (last ms) @ '' ms'' @ newline)"

text \<open>One probe of the sleep: deadline, sleep, overshoot; \<open>now\<close> reads the clock of a state.\<close>

definition probe_once :: "(int \<Rightarrow> 'p \<Rightarrow> 'p) \<Rightarrow> ('p \<Rightarrow> int) \<Rightarrow> 'p \<Rightarrow> double \<times> 'p" where
  "probe_once sleep now w =
     (let deadline = now w + 3 * 10 ^ 6; w1 = sleep deadline w in (toMs (now w1 - deadline), w1))"

fun probe_overshoots :: "(int \<Rightarrow> 'p \<Rightarrow> 'p) \<Rightarrow> ('p \<Rightarrow> int) \<Rightarrow> nat \<Rightarrow> 'p \<Rightarrow> double list \<times> 'p" where
  "probe_overshoots sleep now 0 w = ([], w)"
| "probe_overshoots sleep now (Suc k) w =
     (let (d, w1) = probe_once sleep now w; (ds, w2) = probe_overshoots sleep now k w1 in (d # ds, w2))"

definition probeSleepGranularity :: "(int \<Rightarrow> 'p \<Rightarrow> 'p) \<Rightarrow> ('p \<Rightarrow> int) \<Rightarrow> 'p \<Rightarrow> string \<times> 'p" where
  "probeSleepGranularity sleep now w =
     (let (overshoots, w1) = probe_overshoots sleep now 50 w
      in (''In the line below, a median over ~1 ms points to an OS timer-tick problem'' @ newline @
          ''(no serial traffic is involved yet, so the FTDI latency timer is not a suspect):'' @ newline @
          printDistribution ''sleepUntil(3 ms) overshoot'' overshoots, w1))"

text \<open>
  The report on the stamps of the run: the exit code, and the text on the standard output or, on failure, error. The
  period is in microseconds.
\<close>

definition probe_period :: "double \<Rightarrow> int" where
  "probe_period hz = trunc_double (d_div (Fin 1000000) hz)"

definition intervals_of :: "int list \<Rightarrow> double list" where
  "intervals_of stamps = map (\<lambda>i. toMs (stamps ! i - stamps ! (i - 1))) [1..<length stamps]"

definition probe_report :: "options \<Rightarrow> int list \<Rightarrow> nat \<times> string" where
  "probe_report o' stamps =
     (if length stamps < 2 then (1, ''no exchange cycles recorded'' @ newline)
      else let intervals = intervals_of stamps;
               achievedHz = d_div (d_mul (Fin 1000) (round64 (of_nat (length intervals)))) (toMs (last stamps - hd stamps))
           in (0, ''Below, intervals well over the configured period despite a clean sleep'' @ newline @
                  ''overshoot above point to the FTDI latency timer (16 ms at its default):'' @ newline @
                  ''configured '' @ fixed_point 1 (opt_hz o') @ '' Hz ('' @ fixed_point 2 (toMs (probe_period (opt_hz o') * 1000)) @
                  '' ms) at '' @ decimal_int (opt_baudrate o') @ '' baud, achieved '' @ fixed_point 1 achievedHz @ '' Hz'' @ newline @
                  printDistribution ''exchange interval'' intervals))"


section \<open>What the programs do\<close>

lemma move_twice_done:
  assumes "move_twice lk (m1, x1) (m2, x2) (c, l, g) = Some (True, c', l', g')"
  shows "\<exists>p1 p2 c1 g1 g2 g3 g4. openingToRegister x1 k2F85 = Some (Some p1) \<and> openingToRegister x2 k2F85 = Some (Some p2) \<and>
    positionRequest c1 = p1 \<and> positionRequest c' = p2 \<and> carried_at lk c1 g g1 \<and> settled_at lk k2F85 g1 g2 \<and>
    carried_at lk c' g2 g3 \<and> settled_at lk k2F85 g3 g4 \<and> leads_to lk g4 g'"
proof -
  obtain c1 l1 h where f: "moveTo lk k2F85 x1 (c, log_line LevelInfo m1 l, g) = Some (True, c1, l1, h)"
      and s: "moveTo lk k2F85 x2 (c1, log_line LevelInfo m2 l1, h) = Some (True, c', l', g')"
    using assms by (auto simp: move_twice_def split: option.splits if_splits)
  obtain p1 g1 g2 where a: "openingToRegister x1 k2F85 = Some (Some p1)"
      "c1 = c\<lparr>positionRequest := p1, action := nb_put GoTo True (action c)\<rparr>" "carried_at lk c1 g g1"
      "settled_at lk k2F85 g1 g2" "leads_to lk g2 h" using moveTo_done [OF f] by blast
  obtain p2 g3 g4 where b: "openingToRegister x2 k2F85 = Some (Some p2)"
      "c' = c1\<lparr>positionRequest := p2, action := nb_put GoTo True (action c1)\<rparr>" "carried_at lk c' h g3"
      "settled_at lk k2F85 g3 g4" "leads_to lk g4 g'" using moveTo_done [OF s] by blast
  have "carried_at lk c' g2 g3"
    using b(3) a(5) leads_trans leads_counts [OF a(5)] unfolding carried_at_def by (meson le_less_trans)
  with a b show ?thesis
    by (intro exI [of _ p1] exI [of _ p2] exI [of _ c1] exI [of _ g1] exI [of _ g2] exI [of _ g3] exI [of _ g4]) simp
qed

text \<open>The indexes of a distribution are inside its samples.\<close>

lemma quantile_in_range:
  assumes "0 \<le> q" and "q \<le> 1" and "0 < n" and "n \<le> 2 ^ 53"
  shows "quantile_index (Fin q) n < n"
proof -
  let ?m = "n - 1"
  have "(of_nat n :: rat) \<le> of_nat (2 ^ 53)" using assms(4) by (simp only: of_nat_le_iff)
  also have "(of_nat (2 ^ 53) :: rat) \<le> 2 ^ 1023" by (simp add: power_increasing)
  finally have big: "(of_nat n :: rat) \<le> 2 ^ 1023" .
  have m: "round64 (of_nat ?m) = Fin (of_nat ?m)"
    using nearest_of_nat [of ?m] round64_small [of "of_nat ?m"] assms(4) big by simp
  have r: "0 \<le> q * of_nat ?m" "q * of_nat ?m \<le> of_nat ?m"
    using assms(1,2) mult_right_mono [of q 1 "of_nat ?m :: rat"] by simp_all
  then have "\<bar>q * of_nat ?m\<bar> \<le> 2 ^ 1023" using big by linarith
  then have "d_mul (Fin q) (round64 (of_nat ?m)) = Fin (nearest (q * of_nat ?m))"
    unfolding m d_mul.simps by (rule round64_small)
  moreover have n: "0 \<le> nearest (q * of_nat ?m)" "nearest (q * of_nat ?m) \<le> of_nat ?m"
    using nearest_range [OF r] assms(4) by simp_all
  moreover have "\<lfloor>nearest (q * of_nat ?m)\<rfloor> \<le> int ?m" using n(2) by (simp add: floor_le_iff) 
  ultimately have "quantile_index (Fin q) n \<le> ?m"
    by (simp add: quantile_index_def trunc_double_def Let_def)
  then show ?thesis using assms(3) by simp
qed

lemma quantiles_of_the_report:
  assumes "0 < n" and "n \<le> 2 ^ 53"
  shows "quantile_index (Fin (1 / 2)) n < n" "quantile_index (round64 (9 / 10)) n < n" "quantile_index (round64 (99 / 100)) n < n"
proof -
  have r: "round64 (9 / 10) = Fin (nearest (9 / 10))" "round64 (99 / 100) = Fin (nearest (99 / 100))"
    by (simp_all add: round64_le)
  have b: "0 \<le> nearest (9 / 10) \<and> nearest (9 / 10) \<le> 1" "0 \<le> nearest (99 / 100) \<and> nearest (99 / 100) \<le> 1"
    using nearest_range [of "9 / 10" 1] nearest_range [of "99 / 100" 1] by simp_all
  show "quantile_index (Fin (1 / 2)) n < n" using quantile_in_range [OF _ _ assms, of "1 / 2"] by simp
  show "quantile_index (round64 (9 / 10)) n < n" using quantile_in_range [OF _ _ assms] b(1) by (simp add: r)
  show "quantile_index (round64 (99 / 100)) n < n" using quantile_in_range [OF _ _ assms] b(2) by (simp add: r)
qed

text \<open>Both callers have a sample: fifty overshoots, and an interval for two stamps.\<close>

lemma reports_have_samples:
  "length (fst (probe_overshoots sleep now k w)) = k" "2 \<le> length stamps \<Longrightarrow> 0 < length (intervals_of stamps)"
proof -
  show "length (fst (probe_overshoots sleep now k w)) = k"
    by (induction k arbitrary: w) (simp_all add: case_prod_beta)
  show "2 \<le> length stamps \<Longrightarrow> 0 < length (intervals_of stamps)" by (simp add: intervals_of_def)
qed

end
