(* ===== verification/PortFacts.thy ===== *)
theory PortFacts
  imports ClientCycle GripperCalls
begin

text \<open>
  Everything above a \<open>Serial\<close> depends on it through its reads and writes alone. Two ports that answer alike are
  told apart neither by the Modbus library, nor by the client, nor by the exchange thread; and a fact that reads and
  writes keep is kept by all of them. The locales follow the layers: \<open>platform_sim\<close> for the library over its two
  callbacks, \<open>port_sim\<close> for the client over the port, \<open>link_sim\<close> for the thread over the client. \<open>port_fact\<close>
  is the case of one port and itself.
\<close>

section \<open>The library\<close>

locale platform_sim =
  fixes p :: "'v platform" and q :: "'w platform" and R :: "'v \<Rightarrow> 'w \<Rightarrow> bool"
  assumes sim_p_read: "R v w \<Longrightarrow> rel_prod (=) R (p_read p n t v) (p_read q n t w)"
    and sim_p_write: "R v w \<Longrightarrow> rel_prod (=) R (p_write p bs t v) (p_write q bs t w)"
begin

definition sim :: "('v, 'a) nm \<Rightarrow> ('w, 'a) nm \<Rightarrow> bool" where
  "sim m m' \<longleftrightarrow> (\<forall>s v w. R v w \<longrightarrow> rel_prod (=) (rel_prod (=) R) (m (s, v)) (m' (s, w)))"

lemma simD:
  assumes "sim m m'" and "R v w" and "m (s, v) = (r, s1, v1)"
  shows "\<exists>w1. m' (s, w) = (r, s1, w1) \<and> R v1 w1"
proof -
  obtain r' s' w1 where m': "m' (s, w) = (r', s', w1)" by (cases "m' (s, w)")
  have "rel_prod (=) (rel_prod (=) R) (m (s, v)) (m' (s, w))" using assms(1,2) unfolding sim_def by blast
  then show ?thesis by (simp add: m' assms(3))
qed

lemma simI:
  assumes "\<And>s v w r s1 v1. R v w \<Longrightarrow> m (s, v) = (r, s1, v1) \<Longrightarrow> \<exists>w1. m' (s, w) = (r, s1, w1) \<and> R v1 w1"
  shows "sim m m'"
  unfolding sim_def
proof (intro allI impI)
  fix s v w assume "R v w"
  then show "rel_prod (=) (rel_prod (=) R) (m (s, v)) (m' (s, w))"
    using assms [of v w s] by (cases "m (s, v)") fastforce
qed

lemma sim_bind:
  assumes "sim m m'" and "\<And>a. sim (f a) (f' a)"
  shows "sim (nm_bind m f) (nm_bind m' f')"
proof (rule simI)
  fix s v w r s1 v1 assume R: "R v w" and e: "nm_bind m f (s, v) = (r, s1, v1)"
  obtain x s0 v0 where m: "m (s, v) = (x, s0, v0)" by (cases "m (s, v)")
  obtain w0 where m': "m' (s, w) = (x, s0, w0)" "R v0 w0" using simD [OF assms(1) R m] by blast
  show "\<exists>w1. nm_bind m' f' (s, w) = (r, s1, w1) \<and> R v1 w1"
  proof (cases x)
    case (Inl err)
    then show ?thesis using e m m' by (simp add: nm_bind_eq)
  next
    case (Inr a)
    then have "f a (s0, v0) = (r, s1, v1)" using e m by (simp add: nm_bind_eq)
    from simD [OF assms(2) m'(2) this] show ?thesis using m'(1) Inr by (simp add: nm_bind_eq)
  qed
qed

lemma sim_basic [simp]: "sim (nm_return a) (nm_return a)" "sim (nm_fail e) (nm_fail e)" "sim (nm_modify f) (nm_modify f)"
  "sim nm_get nm_get" "sim get_1 get_1" "sim get_2 get_2" "sim (put_1 d) (put_1 d)" "sim (put_2 d2) (put_2 d2)"
  by (simp_all add: sim_def get_1_def get_2_def put_1_def put_2_def)

lemma sim_recv [simp]: "sim (recv p n) (recv q n)"
proof (rule simI)
  fix s v w r s1 v1 assume R: "R v w" and e: "recv p n (s, v) = (r, s1, v1)"
  obtain ret bs v2 where v2: "p_read p n (byte_timeout_ms s) v = ((ret, bs), v2)" by (metis prod.exhaust)
  obtain w2 where w2: "p_read q n (byte_timeout_ms s) w = ((ret, bs), w2)" "R v2 w2"
    using sim_p_read [OF R, of n "byte_timeout_ms s"] v2 by (cases "p_read q n (byte_timeout_ms s) w") auto
  show "\<exists>w1. recv q n (s, w) = (r, s1, w1) \<and> R v1 w1"
    using e R v2 w2 by (auto simp: recv_def Let_def split: if_splits)
qed

lemma sim_send [simp]: "sim (send p n) (send q n)"
proof (rule simI)
  fix s v w r s1 v1 assume R: "R v w" and e: "send p n (s, v) = (r, s1, v1)"
  obtain ret v2 where v2: "p_write p (take n (buf s)) (byte_timeout_ms s) v = (ret, v2)" by fastforce
  obtain w2 where w2: "p_write q (take n (buf s)) (byte_timeout_ms s) w = (ret, w2)" "R v2 w2"
    using sim_p_write [OF R, of "take n (buf s)" "byte_timeout_ms s"] v2
    by (cases "p_write q (take n (buf s)) (byte_timeout_ms s) w") auto
  show "\<exists>w1. send q n (s, w) = (r, s1, w1) \<and> R v1 w1"
    using e v2 w2 by (auto simp: send_def Let_def split: if_splits)
qed

lemma sim_flush [simp]: "sim (flush p) (flush q)"
proof (rule simI)
  fix s v w r s1 v1 assume R: "R v w" and e: "flush p (s, v) = (r, s1, v1)"
  obtain ret bs v2 where v2: "p_read p 260 0 v = ((ret, bs), v2)" by (metis prod.exhaust)
  obtain w2 where w2: "p_read q 260 0 w = ((ret, bs), w2)" "R v2 w2"
    using sim_p_read [OF R, of 260 0] v2 by (cases "p_read q 260 0 w") auto
  show "\<exists>w1. flush q (s, w) = (r, s1, w1) \<and> R v1 w1" using e v2 w2 by (auto simp: flush_def)
qed

lemma sim_regs [simp]: "sim (get_regs n) (get_regs n)" "sim (put_regs rs) (put_regs rs)"
  by (induction n) (auto intro!: sim_bind, induction rs, auto intro!: sim_bind)

lemma sim_first_byte [simp]: "sim (recv_first_byte p) (recv_first_byte q)"
proof -
  have "sim (\<lambda>sw. case recv p 1 sw of (r, s, w) \<Rightarrow> (r, s\<lparr>byte_timeout_ms := byte_timeout_ms s0\<rparr>, w))
      (\<lambda>sw. case recv q 1 sw of (r, s, w) \<Rightarrow> (r, s\<lparr>byte_timeout_ms := byte_timeout_ms s0\<rparr>, w))" for s0
    using simD [OF sim_recv [of 1]] by (intro simI) (fastforce split: prod.splits)
  then show ?thesis unfolding recv_first_byte_def by (intro sim_bind) simp_all
qed

lemma sim_parts [simp]: "sim (msg_state_req p f) (msg_state_req q f)" "sim put_msg_header put_msg_header"
  "sim (send_msg p) (send_msg q)" "sim (recv_msg_footer p) (recv_msg_footer q)" "sim (recv_msg_header p) (recv_msg_header q)"
  by (simp_all add: msg_state_req_def put_msg_header_def send_msg_def recv_msg_footer_def recv_msg_header_def
      recv_header_rest_def Let_def sim_bind)

lemma sim_res_header [simp]: "sim (recv_res_header p) (recv_res_header q)"
  by (simp add: recv_res_header_def sim_bind)

lemma sim_responses [simp]: "sim (recv_read_registers_res p n) (recv_read_registers_res q n)"
  "sim (recv_write_multiple_registers_res p a n) (recv_write_multiple_registers_res q a n)"
  by (simp_all add: recv_read_registers_res_def recv_write_multiple_registers_res_def sim_bind)

lemma sim_requests: "sim (nmbs_read_holding_registers p a n) (nmbs_read_holding_registers q a n)"
  "sim (nmbs_write_multiple_registers p a n rs) (nmbs_write_multiple_registers q a n rs)"
  "sim (nmbs_read_write_registers p a n a' n' rs) (nmbs_read_write_registers q a n a' n' rs)"
  by (simp_all add: nmbs_read_holding_registers_def read_registers_def nmbs_write_multiple_registers_def
      nmbs_read_write_registers_def sim_bind)

end

section \<open>The client\<close>

locale port_sim =
  fixes ser :: "'s serial" and ser' :: "'t serial" and R :: "'s \<Rightarrow> 't \<Rightarrow> bool"
  assumes sim_read: "R s t \<Longrightarrow> rel_prod (=) R (ser_read ser n timeout s) (ser_read ser' n timeout t)"
    and sim_write: "R s t \<Longrightarrow> rel_prod (=) R (ser_write ser bs s) (ser_write ser' bs t)"

sublocale port_sim \<subseteq> link: platform_sim "client_platform ser" "client_platform ser'" "rel_prod R (=)"
proof
  fix v :: "'s \<times> log" and w :: "'t \<times> log" and n t and bs :: "u8 list" assume r: "rel_prod R (=) v w"
  obtain s s' and l :: log where e: "v = (s, l)" "w = (s', l)" "R s s'" using r by (cases v; cases w) auto
  show "rel_prod (=) (rel_prod R (=)) (p_read (client_platform ser) n t v) (p_read (client_platform ser') n t w)"
    using sim_read [OF e(3), of n t]
    by (cases "ser_read ser n t s"; cases "ser_read ser' n t s'") (auto simp: e client_platform_def readSerial_def Let_def split: sum.split)
  show "rel_prod (=) (rel_prod R (=)) (p_write (client_platform ser) bs t v) (p_write (client_platform ser') bs t w)"
    using sim_write [OF e(3), of bs]
    by (cases "ser_write ser bs s"; cases "ser_write ser' bs s'") (auto simp: e client_platform_def writeSerial_def split: sum.split)
qed

context port_sim
begin

definition alike_clients :: "'s modbus_client \<Rightarrow> 't modbus_client \<Rightarrow> bool" where
  "alike_clients m m' \<longleftrightarrow> R (mc_serial m) (mc_serial m') \<and> mc_log m' = mc_log m \<and> mc_nmbs m' = mc_nmbs m"

lemma sim_transact:
  assumes "link.sim call call'" and "alike_clients m m'" and "transact context call m = (r, m1)"
  shows "\<exists>m1'. transact context call' m' = (r, m1') \<and> alike_clients m1 m1'"
proof -
  obtain x n s l where x: "call (mc_nmbs m, (mc_serial m, mc_log m)) = (x, n, s, l)" by (metis prod.exhaust)
  have "rel_prod R (=) (mc_serial m, mc_log m) (mc_serial m', mc_log m)" using assms(2) by (simp add: alike_clients_def)
  from link.simD [OF assms(1) this x] obtain s' where "call' (mc_nmbs m, (mc_serial m', mc_log m)) = (x, n, s', l)" "R s s'" by auto
  then show ?thesis using assms(2,3) x by (auto simp: transact_def alike_clients_def)
qed

lemma sim_readStatus:
  assumes "alike_clients m m'"
  shows "rel_prod (=) alike_clients (readStatus ser m) (readStatus ser' m')"
proof -
  let ?call = "\<lambda>p. nmbs_read_holding_registers p kStatusAddress kStatusRegisterCount"
  obtain r m1 where r: "transact ''readStatus'' (?call (client_platform ser)) m = (r, m1)" by fastforce
  obtain m1' where "transact ''readStatus'' (?call (client_platform ser')) m' = (r, m1')" "alike_clients m1 m1'"
    using sim_transact [OF link.sim_requests(1) assms r] by blast
  with r show ?thesis by (cases r) (simp_all add: readStatus_def)
qed

lemma sim_writeCommand:
  assumes "alike_clients m m'"
  shows "rel_prod (=) alike_clients (writeCommand ser c m) (writeCommand ser' c m')"
proof -
  let ?call = "\<lambda>p. nmbs_write_multiple_registers p kCommandAddress kCommandRegisterCount
    (registersFromBytes (unat kCommandRegisterCount) (command_data c))"
  obtain r m1 where r: "transact ''writeCommand'' (?call (client_platform ser)) m = (r, m1)" by fastforce
  obtain m1' where "transact ''writeCommand'' (?call (client_platform ser')) m' = (r, m1')" "alike_clients m1 m1'"
    using sim_transact [OF link.sim_requests(2) assms r] by blast
  with r show ?thesis by (simp add: writeCommand_def Let_def)
qed

lemma sim_exchange:
  assumes "alike_clients m m'"
  shows "rel_prod (=) alike_clients (exchange ser c m) (exchange ser' c m')"
proof -
  let ?call = "\<lambda>p. nmbs_read_write_registers p kStatusAddress kStatusRegisterCount kCommandAddress kCommandRegisterCount
    (registersFromBytes (unat kCommandRegisterCount) (command_data c))"
  obtain r m1 where r: "transact ''exchange'' (?call (client_platform ser)) m = (r, m1)" by fastforce
  obtain m1' where "transact ''exchange'' (?call (client_platform ser')) m' = (r, m1')" "alike_clients m1 m1'"
    using sim_transact [OF link.sim_requests(3) assms r] by blast
  with r show ?thesis by (cases r) (simp_all add: exchange_def Let_def)
qed

end

section \<open>The thread and the calls\<close>

sublocale port_sim \<subseteq> thread: link_sim "client_link ser" "client_link ser'" alike_clients
  using sim_readStatus sim_exchange by unfold_locales (simp_all add: client_link_def)

text \<open>A fact that reads and writes keep, over one port.\<close>

locale port_fact =
  fixes ser :: "'s serial" and P :: "'s \<Rightarrow> bool"
  assumes kept_read: "P s \<Longrightarrow> P (snd (ser_read ser n t s))"
    and kept_write: "P s \<Longrightarrow> P (snd (ser_write ser bs s))"

sublocale port_fact \<subseteq> self: port_sim ser ser "\<lambda>s t. s = t \<and> P s"
  using kept_read kept_write by unfold_locales (simp_all add: rel_prod_sel)

context port_fact
begin

lemma self_client: "self.alike_clients m m' \<longleftrightarrow> m = m' \<and> P (mc_serial m)"
  by (cases m; cases m') (auto simp: self.alike_clients_def)

lemma kept_client:
  assumes "P (mc_serial m)"
  shows "P (mc_serial (snd (readStatus ser m)))" and "P (mc_serial (snd (writeCommand ser c m)))"
    and "P (mc_serial (snd (exchange ser c m)))"
  using assms self.sim_readStatus [of m m] self.sim_writeCommand [of m m] self.sim_exchange [of m m]
  by (simp_all add: self_client rel_prod_sel)

end

sublocale port_fact \<subseteq> cycle: writable_invariant "client_link ser" "\<lambda>_. True" "\<lambda>g. P (mc_serial (gs_client g))"
proof
  fix e and g :: "'s modbus_client gripper_state" assume P: "P (mc_serial (gs_client g))"
  then have "self.thread.alike g g" by (simp add: self.thread.alike_def self_client)
  from self.thread.alike_step [OF this] show "P (mc_serial (gs_client (step (client_link ser) e g)))"
    by (simp add: self.thread.alike_def self_client)
qed (simp_all add: gs_setCommand_def)

context port_fact
begin

lemma cycle_K [simp]: "cycle.K g \<longleftrightarrow> P (mc_serial (gs_client g))"
  by (simp add: cycle.K_def)

lemma kept_initialize:
  assumes "P (mc_serial (gs_client g))"
  shows "P (mc_serial (gs_client (snd (initializeImage (client_link ser) g))))"
proof -
  have "self.thread.alike g g" using assms by (simp add: self.thread.alike_def self_client)
  from self.thread.alike_initialRead [OF refl this, of 1]
  have "P (mc_serial (gs_client (snd (initialRead (client_link ser) 1 g))))"
    by (simp add: rel_prod_sel self.thread.alike_def self_client)
  then show ?thesis by (auto simp: initializeImage_def split: prod.split sum.split)
qed

lemma kept_to_the_end: "P (mc_serial (gs_client g)) \<Longrightarrow> P (mc_serial (gs_client (gs_stop (client_link ser) g)))"
  using cycle.kept_stop by simp

end

end
