(* ===== verification/PosixWrites.thy ===== *)
theory PosixWrites
  imports DefaultSerial
begin

text \<open>
  Every call on the built-in port returns: the writing and draining loops of
  \<open>src/detail/posix/serial_port.cpp\<close>, beside the reading loop of PosixReads, hence every read and write of
  \<open>DefaultSerial\<close>.
\<close>

section \<open>Stalls\<close>

text \<open>
  Stalls still to come, as a line has them whose output queue empties and which finitely many signals interrupt:
  each refused or interrupted write, each look at a queue that still holds bytes and each interrupted drain uses one
  up. Bytes the line takes may bring new ones.
\<close>

definition finitely_stalled :: "'o posix \<Rightarrow> ('o \<Rightarrow> nat) \<Rightarrow> bool" where
  "finitely_stalled ps stalls \<longleftrightarrow>
     (\<forall>fd bs w. case sys_write ps fd bs w of
        (Inr n, w') \<Rightarrow> bs \<noteq> [] \<and> n = 0 \<longrightarrow> stalls w' < stalls w
      | (Inl e, w') \<Rightarrow> e \<in> {EINTR, EAGAIN, EWOULDBLOCK} \<longrightarrow> stalls w' < stalls w) \<and>
     (\<forall>fd w. case sys_outq ps fd w of (Some q, w') \<Rightarrow> q \<noteq> 0 \<longrightarrow> stalls w' < stalls w | (None, w') \<Rightarrow> True) \<and>
     (\<forall>fd w. case sys_tcdrain ps fd w of (Inl e, w') \<Rightarrow> e = EINTR \<longrightarrow> stalls w' < stalls w | (Inr _, w') \<Rightarrow> True) \<and>
     (\<forall>fd f ms w. stalls (snd (sys_poll ps fd f ms w)) \<le> stalls w) \<and>
     (\<forall>w. stalls (snd (sys_now ps w)) \<le> stalls w) \<and> (\<forall>t w. stalls (sys_sleep ps t w) \<le> stalls w)"

lemma stalled_calls:
  assumes "finitely_stalled ps stalls"
  shows "sys_write ps fd bs w = (Inr 0, w') \<Longrightarrow> bs \<noteq> [] \<Longrightarrow> stalls w' < stalls w"
    and "sys_write ps fd bs w = (Inl e, w') \<Longrightarrow> e \<in> {EINTR, EAGAIN, EWOULDBLOCK} \<Longrightarrow> stalls w' < stalls w"
    and "sys_outq ps fd w = (Some q, w') \<Longrightarrow> q \<noteq> 0 \<Longrightarrow> stalls w' < stalls w"
    and "sys_tcdrain ps fd w = (Inl EINTR, w') \<Longrightarrow> stalls w' < stalls w"
    and "sys_poll ps fd f ms w = (x, w') \<Longrightarrow> stalls w' \<le> stalls w"
    and "sys_now ps w = (now, w') \<Longrightarrow> stalls w' \<le> stalls w" and "stalls (sys_sleep ps t w) \<le> stalls w"
proof -
  note h = assms [unfolded finitely_stalled_def]
  show "sys_write ps fd bs w = (Inr 0, w') \<Longrightarrow> bs \<noteq> [] \<Longrightarrow> stalls w' < stalls w"
    "sys_write ps fd bs w = (Inl e, w') \<Longrightarrow> e \<in> {EINTR, EAGAIN, EWOULDBLOCK} \<Longrightarrow> stalls w' < stalls w"
    using spec [OF spec [OF spec [OF conjunct1 [OF h], of fd], of bs], of w] by simp_all
  show "sys_outq ps fd w = (Some q, w') \<Longrightarrow> q \<noteq> 0 \<Longrightarrow> stalls w' < stalls w"
    using spec [OF spec [OF conjunct1 [OF conjunct2 [OF h]], of fd], of w] by simp
  show "sys_tcdrain ps fd w = (Inl EINTR, w') \<Longrightarrow> stalls w' < stalls w"
    using spec [OF spec [OF conjunct1 [OF conjunct2 [OF conjunct2 [OF h]]], of fd], of w] by simp
  show "sys_poll ps fd f ms w = (x, w') \<Longrightarrow> stalls w' \<le> stalls w" "sys_now ps w = (now, w') \<Longrightarrow> stalls w' \<le> stalls w"
    "stalls (sys_sleep ps t w) \<le> stalls w"
    using conjunct2 [OF conjunct2 [OF conjunct2 [OF h]]] by (metis snd_conv)+
qed

section \<open>The loops\<close>

lemma waitReady_stalls: "finitely_stalled ps stalls \<Longrightarrow> waitReady ps fd f remaining context w = (x, w') \<Longrightarrow> stalls w' \<le> stalls w"
  by (auto simp: waitReady_def dest: stalled_calls(5) split: prod.splits sum.splits if_splits)

lemma wait_for_room_stalls:
  assumes "finitely_stalled ps stalls" and "wait_for_room ps fd deadline sent w = (x, w')"
  shows "stalls w' \<le> stalls w \<and> (\<forall>k. x = GoesOn k \<longrightarrow> k = sent)"
proof (cases deadline)
  case None
  then show ?thesis
    using assms(2) waitReady_stalls [OF assms(1)] by (auto simp: wait_for_room_def split: prod.splits sum.splits if_splits)
next
  case (Some d)
  obtain now w1 where now: "sys_now ps w = (now, w1)" by fastforce
  obtain y w2 where y: "waitReady ps fd POLLOUT (d - now) ''waiting to send on the serial port'' w1 = (y, w2)" by fastforce
  show ?thesis
    using assms(2) Some now y stalled_calls(6) [OF assms(1) now] waitReady_stalls [OF assms(1) y]
    by (auto simp: wait_for_room_def split: sum.splits if_splits)
qed

lemma write_turn_progress:
  assumes "finitely_stalled ps stalls" and "write_turn ps fd data deadline sent w = (GoesOn k, w')"
    and "sent < length data"
  shows "sent < k \<or> k = sent \<and> stalls w' < stalls w"
proof -
  obtain y w1 where y: "sys_write ps fd (drop sent data) w = (y, w1)" by fastforce
  have room: "k = sent \<and> stalls w' < stalls w"
    if "wait_for_room ps fd deadline sent w1 = (GoesOn k, w')" "stalls w1 < stalls w"
    using wait_for_room_stalls [OF assms(1) that(1)] that(2) by simp
  show ?thesis
  proof (cases y)
    case (Inl e)
    then show ?thesis
      using assms(2) y room stalled_calls(2) [OF assms(1) y [unfolded Inl]] by (auto simp: write_turn_def split: if_splits)
  next
    case (Inr n)
    show ?thesis
    proof (cases "n = 0")
      case True
      then show ?thesis using assms(2,3) y Inr room stalled_calls(1) [OF assms(1)] by (auto simp: write_turn_def)
    next
      case False
      then show ?thesis using assms(2) y Inr by (auto simp: write_turn_def)
    qed
  qed
qed

lemma write_loop_returns:
  assumes "finitely_stalled ps stalls"
  shows "\<exists>y. write_loop ps fd data deadline sent w = Some y"
proof (induction "(length data - sent, stalls w)" arbitrary: sent w rule: wf_induct_rule [OF wf_lex_prod [OF wf_less_than wf_less_than]])
  case 1
  show ?case
  proof (cases "length data \<le> sent")
    case True
    then show ?thesis by (simp add: write_loop.simps)
  next
    case False
    obtain x w1 where x: "write_turn ps fd data deadline sent w = (x, w1)" by fastforce
    show ?thesis
    proof (cases x)
      case (GoesOn k)
      have "\<exists>y. write_loop ps fd data deadline k w1 = Some y"
        using write_turn_progress [OF assms x [unfolded GoesOn]] False by (intro 1) (auto intro: diff_less_mono2)
      then show ?thesis using x GoesOn False by (simp add: write_loop.simps [of ps fd data deadline sent])
    qed (use x False in \<open>auto simp: write_loop.simps\<close>)
  qed
qed

lemma queue_loop_returns:
  assumes "finitely_stalled ps stalls"
  shows "\<exists>y. queue_loop ps p deadline w = Some y"
proof (induction "stalls w" arbitrary: w rule: less_induct)
  case less
  obtain q w1 where q: "sys_outq ps (sp_fd p) w = (q, w1)" by fastforce
  obtain late w2 where late: "past_deadline ps deadline w1 = (late, w2)" by fastforce
  have w2: "stalls w2 \<le> stalls w1"
    using late by (auto simp: past_deadline_def dest: stalled_calls(6) [OF assms] split: option.splits prod.splits)
  show ?case
  proof (cases "q = None \<or> q = Some 0 \<or> late")
    case True
    then show ?thesis using q late by (cases q) (auto simp: queue_loop.simps)
  next
    case False
    then obtain n where n: "q = Some n" "n \<noteq> 0" by (cases q) auto
    let ?w = "sys_sleep ps (byte_time p * int n) w2"
    have "stalls ?w < stalls w"
      using stalled_calls(3) [OF assms q [unfolded n(1)] n(2)] w2 stalled_calls(7) [OF assms, of "byte_time p * int n" w2] by linarith
    from less(1) [OF this] show ?thesis using q late n False by (simp add: queue_loop.simps [of ps p deadline w])
  qed
qed

lemma tcdrain_loop_returns:
  assumes "finitely_stalled ps stalls"
  shows "\<exists>y. tcdrain_loop ps p w = Some y"
proof (induction "stalls w" arbitrary: w rule: less_induct)
  case less
  obtain x w1 where x: "sys_tcdrain ps (sp_fd p) w = (x, w1)" by fastforce
  show ?case
  proof (cases "x = Inl EINTR")
    case True
    with less stalled_calls(4) [OF assms] x show ?thesis by (simp add: tcdrain_loop.simps [of ps p w])
  next
    case False
    then show ?thesis using x by (cases x) (auto simp: tcdrain_loop.simps)
  qed
qed

section \<open>The port\<close>

lemma read_returns: "finitely_interrupted ps signals \<Longrightarrow> ds_read ps n t s \<noteq> None"
  using read_loop_returns [of ps signals] by (auto simp: ds_read_def sp_read_def split: option.split prod.split)

lemma write_returns:
  assumes "finitely_stalled ps stalls"
  shows "ds_write ps bs s \<noteq> None"
proof (cases "ds_port s")
  case (Some p)
  obtain x w1 where x: "sp_write ps p bs (sc_timeout (ds_config s)) (ds_os s) = Some (x, w1)"
    using write_loop_returns [OF assms] by (fastforce simp: sp_write_def split: prod.split)
  have "sp_drain ps p (sc_timeout (ds_config s)) w1 \<noteq> None"
  proof -
    obtain now w2 where now: "sys_now ps w1 = (now, w2)" by fastforce
    obtain emptied w3 where q: "queue_loop ps p (if sc_timeout (ds_config s) = 0 then None
        else Some (now + sc_timeout (ds_config s) * 10 ^ 6)) w2 = Some (emptied, w3)"
      using queue_loop_returns [OF assms] by (metis prod.collapse)
    then show ?thesis using now tcdrain_loop_returns [OF assms, of p w3] by (auto simp: sp_drain_def Let_def)
  qed
  then show ?thesis using Some x by (auto simp: ds_write_def split: sum.split)
qed (simp add: ds_write_def)

section \<open>Properties\<close>

text \<open>
  C24 Every call on the built-in port returns, by a result or an exception, whatever its time-out and also where
  it has none: on a terminal set up as \<open>configure\<close> sets it, whose output queue empties, and with finitely many
  signals to come.
\<close>

theorem port_calls_return:
  assumes "finitely_interrupted ps signals" and "finitely_stalled ps stalls"
  shows "(\<exists>r s'. ds_read ps n timeout s = Some (r, s')) \<and> (\<exists>r s'. ds_write ps data s = Some (r, s'))"
  using read_returns [OF assms(1), of n timeout s] write_returns [OF assms(2), of data s] by auto

text \<open>A line with a queue of eight bytes, one of which leaves at each look at it, and signals that interrupt the first calls.\<close>

record slow_line =
  sl_queue :: nat
  sl_signals :: nat

definition slow_write :: "int \<Rightarrow> u8 list \<Rightarrow> slow_line \<Rightarrow> (errno + nat) \<times> slow_line" where
  "slow_write fd bs w =
     (if 0 < sl_signals w then (Inl EINTR, w\<lparr>sl_signals := sl_signals w - 1\<rparr>)
      else if bs = [] then (Inr 0, w)
      else if sl_queue w < 8 then
        (let n = min (8 - sl_queue w) (length bs) in (Inr n, w\<lparr>sl_queue := sl_queue w + n\<rparr>))
      else (Inl EAGAIN, w\<lparr>sl_queue := sl_queue w - 1\<rparr>))"

definition slow_system :: "slow_line posix" where
  "slow_system = \<lparr>sys_open = (\<lambda>port flags w. (Inr 3, w)), sys_close = (\<lambda>fd w. w),
     sys_read = (\<lambda>fd n w. if 0 < sl_signals w then (Inl EINTR, w\<lparr>sl_signals := sl_signals w - 1\<rparr>) else (Inr (replicate n 7), w)),
     sys_write = slow_write, sys_poll = (\<lambda>fd f ms w. (Inr (1, {f}), w)), sys_ioctl = (\<lambda>fd r w. w),
     sys_outq = (\<lambda>fd w. (Some (sl_queue w), w\<lparr>sl_queue := sl_queue w - 1\<rparr>)), sys_tcdrain = (\<lambda>fd w. (Inr (), w)),
     sys_tcgetattr = (\<lambda>fd w. (Inr cooked, w)), sys_tcsetattr = (\<lambda>fd tty w. (Inr (), w)),
     sys_cfsetispeed = (\<lambda>s tty. Inr tty), sys_cfsetospeed = (\<lambda>s tty. Inr tty), sys_now = (\<lambda>w. (0, w)),
     sys_sleep = (\<lambda>t w. w), sys_message = (\<lambda>e. ''error'')\<rparr>"

theorem port_calls_return_witness:
  "(\<exists>r s'. ds_read slow_system 4 50 (makeDefaultSerial (default_serial_config ''/dev/ttyUSB0'') []
       \<lparr>sl_queue = 8, sl_signals = 3\<rparr>) = Some (r, s')) \<and>
   (\<exists>r s'. ds_write slow_system (replicate 30 7) ((makeDefaultSerial (default_serial_config ''/dev/ttyUSB0'') []
       \<lparr>sl_queue = 8, sl_signals = 3\<rparr>)\<lparr>ds_port := Some new_serial_port\<rparr>) = Some (r, s'))"
proof -
  have "finitely_interrupted slow_system sl_signals" by (simp add: finitely_interrupted_def slow_system_def)
  moreover have "finitely_stalled slow_system (\<lambda>w. sl_queue w + sl_signals w)"
    by (simp add: finitely_stalled_def slow_system_def slow_write_def Let_def)
  ultimately show ?thesis using port_calls_return [of slow_system sl_signals "\<lambda>w. sl_queue w + sl_signals w"] by simp
qed

end
