(* ===== verification/GripperLifetime.thy ===== *)
theory GripperLifetime
  imports PortFacts Connection PosixWrites
begin

text \<open>
  A gripper from the first call to the last: connecting over the built-in port with everything a failed
  constructor unwinds, any calls a program makes, and the destructor. What is shown is what the process is left
  with: the descriptors it had.
\<close>

section \<open>Connecting, and what a failed constructor unwinds\<close>

text \<open>
  \<open>~GripperState\<close> stops the thread; then the members go, and with the client its \<open>DefaultSerial\<close>, which closes
  the port.
\<close>

definition destroyGripper :: "'o posix \<Rightarrow> 'o files \<Rightarrow> 'o default_serial modbus_client gripper_state \<Rightarrow> 'o default_serial" where
  "destroyGripper ps fs g = ds_close ps (mc_serial (gs_client (gs_stop (client_link (posix_serial ps fs)) g)))"

text \<open>The constructors again, with the state an exception leaves of what was already made.\<close>

definition clientOrUnwind :: "'o posix \<Rightarrow> 'o files \<Rightarrow> 'o default_serial \<Rightarrow> u8 \<Rightarrow> log \<Rightarrow>
    (thrown \<times> 'o default_serial) + 'o default_serial modbus_client" where
  "clientOrUnwind ps fs serial slaveAddress l =
     (case makeModbusClient (posix_serial ps fs) serial slaveAddress l of
        Inl e \<Rightarrow> Inl (e, ds_close ps (if \<not> ds_isOpen serial then snd (ds_open ps fs serial) else serial))
      | Inr client \<Rightarrow> Inr client)"

definition gripperOrUnwind :: "'o posix \<Rightarrow> 'o files \<Rightarrow> 'o default_serial modbus_client \<Rightarrow> int \<Rightarrow> int \<Rightarrow>
    gs_event list list \<Rightarrow> (thrown \<times> 'o default_serial) + 'o default_serial modbus_client gripper_state" where
  "gripperOrUnwind ps fs client period now sched =
     (case makeProcessImage True True of
        Inl e \<Rightarrow> Inl (e, ds_close ps (mc_serial client))
      | Inr im \<Rightarrow>
          (case initializeImage (client_link (posix_serial ps fs)) (makeGripperState client im period now sched) of
             (Inl e, g) \<Rightarrow> Inl (e, destroyGripper ps fs g)
           | (Inr _, g) \<Rightarrow> Inr (gs_start g)))"

definition connectOrUnwind :: "'o posix \<Rightarrow> 'o files \<Rightarrow> connection_config \<Rightarrow> 'o \<Rightarrow> int \<Rightarrow> gs_event list list \<Rightarrow> log \<Rightarrow>
    ((thrown \<times> 'o default_serial) + 'o default_serial modbus_client gripper_state) option" where
  "connectOrUnwind ps fs config w now sched l =
     (let serial = makeSerial config w l in
      case exchangePeriodFromFrequency (connectionFrequency config) of
        None \<Rightarrow> None
      | Some (Inl e) \<Rightarrow> Some (Inl (e, ds_close ps serial))
      | Some (Inr period) \<Rightarrow>
          Some (case clientOrUnwind ps fs serial (modbusSlaveAddress config) l of
             Inl unwound \<Rightarrow> Inl unwound
           | Inr client \<Rightarrow> gripperOrUnwind ps fs client period now sched))"

lemma connectOrUnwind_connects: "map_option (map_sum fst id) (connectOrUnwind ps fs config w now sched l) =
    connectGripper ps fs config w now sched l"
  by (simp add: connectOrUnwind_def connectGripper_def clientOrUnwind_def gripperOrUnwind_def makeGripper_def
      makeProcessImage_def Let_def split: option.split sum.split prod.split)

lemma connected_iff: "connectGripper ps fs config w now sched l = Some (Inr g) \<longleftrightarrow>
    connectOrUnwind ps fs config w now sched l = Some (Inr g)"
proof -
  have "map_sum fst id y = Inr g \<longleftrightarrow> y = Inr g" for y :: "(thrown \<times> 'a default_serial) + 'a default_serial modbus_client gripper_state"
    by (cases y) auto
  then show ?thesis by (simp flip: connectOrUnwind_connects)
qed

section \<open>The descriptors\<close>

text \<open>The contract of the system: it tracks descriptors, and no line stalls for ever.\<close>

definition counted :: "'o posix \<Rightarrow> 'o files \<Rightarrow> ('o \<Rightarrow> int set) \<Rightarrow> bool" where
  "counted ps fs fds \<longleftrightarrow>
     tracks ps fs fds \<and> (\<exists>signals. finitely_interrupted ps signals) \<and> (\<exists>stalls. finitely_stalled ps stalls)"

lemma counted_calls:
  assumes "counted ps fs fds"
  shows "tracks ps fs fds" and "\<exists>r s'. ds_read ps n t s = Some (r, s')" and "\<exists>r s'. ds_write ps bs s = Some (r, s')"
  using assms read_returns [of ps _ n t s] write_returns [of ps _ bs s] by (auto simp: counted_def)

text \<open>The port is open, on one descriptor of its own.\<close>

definition port_open :: "('o \<Rightarrow> int set) \<Rightarrow> int set \<Rightarrow> 'o default_serial \<Rightarrow> bool" where
  "port_open fds base s \<longleftrightarrow> ds_isOpen s \<and> holds_one fds base s"

lemma io_keeps_port: "ds_read ps n t s = Some (r, s') \<Longrightarrow> ds_port s' = ds_port s"
  "ds_write ps bs s = Some (q, s') \<Longrightarrow> ds_port s' = ds_port s"
  by (auto simp: ds_read_def ds_write_def split: option.splits sum.splits prod.splits if_splits)

interpretation descriptors: port_fact "posix_serial ps fs" "\<lambda>s. counted ps fs fds \<longrightarrow> port_open fds base s"
  for ps :: "'o posix" and fs fds base
proof
  fix s n t and bs :: "u8 list" assume s: "counted ps fs fds \<longrightarrow> port_open fds base s"
  show "counted ps fs fds \<longrightarrow> port_open fds base (snd (ser_read (posix_serial ps fs) n t s))"
  proof
    assume c: "counted ps fs fds"
    obtain r s1 where r: "ds_read ps n t s = Some (r, s1)" using counted_calls(2) [OF c] by blast
    show "port_open fds base (snd (ser_read (posix_serial ps fs) n t s))"
      using s c r io_holds(1) [OF counted_calls(1) [OF c] _ r] io_keeps_port(1) [OF r]
      by (simp add: port_open_def posix_serial_def ds_isOpen_def)
  qed
  show "counted ps fs fds \<longrightarrow> port_open fds base (snd (ser_write (posix_serial ps fs) bs s))"
  proof
    assume c: "counted ps fs fds"
    obtain r s1 where r: "ds_write ps bs s = Some (r, s1)" using counted_calls(3) [OF c] by blast
    show "port_open fds base (snd (ser_write (posix_serial ps fs) bs s))"
      using s c r io_holds(2) [OF counted_calls(1) [OF c] _ r] io_keeps_port(2) [OF r]
      by (simp add: port_open_def posix_serial_def ds_isOpen_def)
  qed
qed

text \<open>Opening leaves the port open or, on a failure, closed.\<close>

lemma latency_port: "ds_port (set_latency fs s) = ds_port s"
proof -
  have "ds_port (snd (applyLatencyTimer fs path s)) = ds_port s" for path
    by (auto simp: applyLatencyTimer_def Let_def split: prod.split option.split)
  then have "ds_port s1 = ds_port s" if "applyLatencyTimer fs path s = (b, s1)" for path b s1 using that by (metis snd_conv)
  then show ?thesis by (auto simp: set_latency_def ds_say_def Let_def split: prod.split bool.split)
qed

lemma open_result: "ds_open ps fs s = (Inr u, s') \<Longrightarrow> ds_isOpen s'"
  by (auto simp: ds_open_def ds_isOpen_def ds_say_def latency_port Let_def split: if_splits sum.splits prod.splits)

lemma closed_clean: "tracks ps fs fds \<Longrightarrow> holds_one fds base s \<Longrightarrow>
    ds_port (ds_close ps s) = None \<and> fds (ds_os (ds_close ps s)) = base"
  using close_holds [of ps fs fds base s] by (auto simp: holds_one_def split: option.splits)

lemma client_port:
  assumes "tracks ps fs fds" and "holds_one fds base s"
  shows "case clientOrUnwind ps fs s u l of
      Inl (e, d) \<Rightarrow> ds_port d = None \<and> fds (ds_os d) = base | Inr m \<Rightarrow> port_open fds base (mc_serial m)"
proof (cases "ds_isOpen s")
  case True
  then show ?thesis using assms(2)
    by (simp add: clientOrUnwind_def makeModbusClient_def posix_serial_def port_open_def)
next
  case False
  obtain r s1 where r: "ds_open ps fs s = (r, s1)" by fastforce
  have "holds_one fds base s1" using open_holds [OF assms] r by (metis snd_conv)
  then show ?thesis
    using False r open_result [of ps fs s] closed_clean [OF assms(1)]
    by (cases r) (auto simp: clientOrUnwind_def makeModbusClient_def posix_serial_def port_open_def)
qed

text \<open>What the destructor leaves of a gripper whose port is open.\<close>

lemma destroyed_clean:
  assumes "counted ps fs fds" and "port_open fds base (mc_serial (gs_client g))"
  shows "ds_port (destroyGripper ps fs g) = None \<and> fds (ds_os (destroyGripper ps fs g)) = base"
proof -
  have "port_open fds base (mc_serial (gs_client (gs_stop (client_link (posix_serial ps fs)) g)))"
    using descriptors.kept_to_the_end [of ps fs fds base g] assms by simp
  then have "holds_one fds base (mc_serial (gs_client (gs_stop (client_link (posix_serial ps fs)) g)))"
    by (simp add: port_open_def)
  from closed_clean [OF counted_calls(1) [OF assms(1)] this] show ?thesis by (simp add: destroyGripper_def)
qed

lemma gripper_port:
  assumes "counted ps fs fds" and "port_open fds base (mc_serial m)"
  shows "case gripperOrUnwind ps fs m period now sched of
      Inl (e, d) \<Rightarrow> ds_port d = None \<and> fds (ds_os d) = base | Inr g \<Rightarrow> port_open fds base (mc_serial (gs_client g))"
proof -
  let ?g = "makeGripperState m \<lparr>im_command = zero_command, im_stamped = zero_stamped, im_closed = False\<rparr> period now sched"
  obtain r g where r: "initializeImage (client_link (posix_serial ps fs)) ?g = (r, g)" by fastforce
  have "port_open fds base (mc_serial (gs_client g))"
    using descriptors.kept_initialize [of ps fs fds base ?g] assms r by (simp add: makeGripperState_def)
  then show ?thesis
    using r destroyed_clean [OF assms(1)]
    by (cases r) (simp_all add: gripperOrUnwind_def makeProcessImage_def gs_start_def)
qed

lemma connect_port:
  assumes "counted ps fs fds" and "connectOrUnwind ps fs config w now sched l = Some r"
  shows "case r of Inl (e, d) \<Rightarrow> ds_port d = None \<and> fds (ds_os d) = fds w
    | Inr g \<Rightarrow> port_open fds (fds w) (mc_serial (gs_client g))"
proof -
  let ?s = "makeSerial config w l"
  have s: "holds_one fds (fds w) ?s" "ds_port ?s = None" "ds_os ?s = w"
    by (simp_all add: holds_one_def makeSerial_def makeDefaultSerial_def)
  note t = counted_calls(1) [OF assms(1)]
  show ?thesis
  proof (cases "exchangePeriodFromFrequency (connectionFrequency config)")
    case (Some p)
    show ?thesis
    proof (cases p)
      case (Inl e)
      then show ?thesis using assms(2) Some closed_clean [OF t s(1)] by (auto simp: connectOrUnwind_def Let_def)
    next
      case (Inr period)
      then show ?thesis
        using assms(2) Some client_port [OF t s(1), of "modbusSlaveAddress config" l] gripper_port [OF assms(1)]
        by (cases "clientOrUnwind ps fs ?s (modbusSlaveAddress config) l") (auto simp: connectOrUnwind_def Let_def)
    qed
  qed (use assms(2) in \<open>simp add: connectOrUnwind_def Let_def\<close>)
qed

section \<open>Properties\<close>

text \<open>
  C15 A gripper never leaks a descriptor nor touches one that is not its own. A connection that fails, wherever
  it does, leaves the process with the descriptors it had. One that succeeds holds exactly one more, and keeps
  that one whatever calls are made, whatever fails on the line and whatever other threads do; after the destructor
  the port is closed, the thread has ended, and the descriptors are those from before.
\<close>

theorem gripper_leaves_no_descriptor:
  assumes "counted ps fs fds" and "connectOrUnwind ps fs config w now sched l = Some r"
  shows "case r of
      Inl (e, d) \<Rightarrow> ds_port d = None \<and> fds (ds_os d) = fds w
    | Inr g \<Rightarrow> \<forall>calls rs g'. call_all (client_link (posix_serial ps fs)) calls g = Some (rs, g') \<longrightarrow>
        port_open fds (fds w) (mc_serial (gs_client g')) \<and>
        ds_port (destroyGripper ps fs g') = None \<and> fds (ds_os (destroyGripper ps fs g')) = fds w \<and>
        gs_pc (gs_stop (client_link (posix_serial ps fs)) g') \<in> {NotStarted, Ended}"
proof (cases r)
  case (Inr g)
  have g: "port_open fds (fds w) (mc_serial (gs_client g))" using connect_port [OF assms] Inr by simp
  have "port_open fds (fds w) (mc_serial (gs_client g'))" if "call_all (client_link (posix_serial ps fs)) calls g = Some (rs, g')" for calls rs g'
    using descriptors.cycle.kept_calls [of ps fs fds "fds w" g calls rs g', unfolded descriptors.cycle_K] that g assms(1) by simp
  then show ?thesis using Inr destroyed_clean [OF assms(1)] gs_stop_ends by fastforce
qed (use connect_port [OF assms] in simp)

end
