(* ===== verification/DeviceLine.thy ===== *)
theory DeviceLine
  imports GripperLifetime
begin

text \<open>
  The whole stack on one line: \<open>Gripper\<close>, the exchange thread, the Modbus client, \<open>DefaultSerial\<close>, the POSIX port
  and its system calls, a line, and at the other end the server over the register model. A program that uses it
  gets from every call what it would get from the register model itself.
\<close>

section \<open>A line to a device\<close>

text \<open>
  What the calls do on a terminal whose other end is a device that answers before the next call: \<open>read\<close> takes what
  the device has sent, \<open>write\<close> takes all it is given and the device acts on it, and nothing else reaches the device.
\<close>

definition device_line :: "other_codes \<Rightarrow> 'o posix \<Rightarrow> 'o files \<Rightarrow> ('o \<Rightarrow> fake_server) \<Rightarrow> bool" where
  "device_line other ps fs dev \<longleftrightarrow>
     (\<forall>fd n w. \<exists>w'. sys_read ps fd n w = (Inr (fst (drain n (dev w))), w') \<and> dev w' = snd (drain n (dev w))) \<and>
     (\<forall>fd bs w. \<exists>w'. sys_write ps fd bs w = (Inr (length bs), w') \<and> dev w' = (if bs = [] then dev w else fk_deliver other bs (dev w))) \<and>
     (\<forall>fd f ms w. fk_toClient (fs_link (dev w)) = [] \<longrightarrow> (\<exists>w'. sys_poll ps fd f ms w = (Inr (0, {}), w') \<and> dev w' = dev w)) \<and>
     (\<forall>w. dev (snd (sys_now ps w)) = dev w) \<and>
     (\<forall>fd w. \<exists>w'. sys_outq ps fd w = (Some 0, w') \<and> dev w' = dev w) \<and>
     (\<forall>fd w. \<exists>w'. sys_tcdrain ps fd w = (Inr (), w') \<and> dev w' = dev w) \<and>
     (\<forall>port flags w. \<exists>fd w'. sys_open ps port flags w = (Inr fd, w') \<and> 0 \<le> fd \<and> dev w' = dev w) \<and>
     (\<forall>fd r w. dev (sys_ioctl ps fd r w) = dev w) \<and>
     (\<forall>fd w. \<exists>tty w'. sys_tcgetattr ps fd w = (Inr tty, w') \<and> dev w' = dev w) \<and>
     (\<forall>fd tty w. \<exists>w'. sys_tcsetattr ps fd tty w = (Inr (), w') \<and> dev w' = dev w) \<and>
     (\<forall>s tty. \<exists>a b. sys_cfsetispeed ps s tty = Inr a \<and> sys_cfsetospeed ps s tty = Inr b) \<and>
     (\<forall>path txt w. dev (snd (fs_write fs path txt w)) = dev w)"

lemma line_calls:
  assumes "device_line other ps fs dev"
  shows "\<exists>w'. sys_read ps fd n w = (Inr (fst (drain n (dev w))), w') \<and> dev w' = snd (drain n (dev w))"
    and "\<exists>w'. sys_write ps fd bs w = (Inr (length bs), w') \<and> dev w' = (if bs = [] then dev w else fk_deliver other bs (dev w))"
    and "fk_toClient (fs_link (dev w)) = [] \<Longrightarrow> \<exists>w'. sys_poll ps fd f ms w = (Inr (0, {}), w') \<and> dev w' = dev w"
    and "sys_now ps w = (now, w') \<Longrightarrow> dev w' = dev w" and "\<exists>w'. sys_outq ps fd w = (Some 0, w') \<and> dev w' = dev w"
    and "\<exists>w'. sys_tcdrain ps fd w = (Inr (), w') \<and> dev w' = dev w"
    and "\<exists>fd w'. sys_open ps port flags w = (Inr fd, w') \<and> 0 \<le> fd \<and> dev w' = dev w" and "dev (sys_ioctl ps fd r w) = dev w"
    and "\<exists>tty w'. sys_tcgetattr ps fd w = (Inr tty, w') \<and> dev w' = dev w"
    and "\<exists>w'. sys_tcsetattr ps fd tty w = (Inr (), w') \<and> dev w' = dev w"
    and "\<exists>a b. sys_cfsetispeed ps s tty = Inr a \<and> sys_cfsetospeed ps s tty = Inr b"
    and "dev (snd (fs_write fs path txt w)) = dev w"
proof -
  note t1 = assms [unfolded device_line_def]
  note t2 = conjunct2 [OF t1]
  note t3 = conjunct2 [OF t2]
  note t4 = conjunct2 [OF t3]
  note t5 = conjunct2 [OF t4]
  note t6 = conjunct2 [OF t5]
  note t7 = conjunct2 [OF t6]
  note t8 = conjunct2 [OF t7]
  note t9 = conjunct2 [OF t8]
  note t10 = conjunct2 [OF t9]
  note t11 = conjunct2 [OF t10]
  show "\<exists>w'. sys_read ps fd n w = (Inr (fst (drain n (dev w))), w') \<and> dev w' = snd (drain n (dev w))" by (rule conjunct1 [OF t1, rule_format])
  show "\<exists>w'. sys_write ps fd bs w = (Inr (length bs), w') \<and> dev w' = (if bs = [] then dev w else fk_deliver other bs (dev w))" by (rule conjunct1 [OF t2, rule_format])
  show "fk_toClient (fs_link (dev w)) = [] \<Longrightarrow> \<exists>w'. sys_poll ps fd f ms w = (Inr (0, {}), w') \<and> dev w' = dev w" by (rule conjunct1 [OF t3, rule_format])
  show "sys_now ps w = (now, w') \<Longrightarrow> dev w' = dev w" using conjunct1 [OF t4] by (metis snd_conv)
  show "\<exists>w'. sys_outq ps fd w = (Some 0, w') \<and> dev w' = dev w" by (rule conjunct1 [OF t5, rule_format])
  show "\<exists>w'. sys_tcdrain ps fd w = (Inr (), w') \<and> dev w' = dev w" by (rule conjunct1 [OF t6, rule_format])
  show "\<exists>fd w'. sys_open ps port flags w = (Inr fd, w') \<and> 0 \<le> fd \<and> dev w' = dev w" by (rule conjunct1 [OF t7, rule_format])
  show "dev (sys_ioctl ps fd r w) = dev w" by (rule conjunct1 [OF t8, rule_format])
  show "\<exists>tty w'. sys_tcgetattr ps fd w = (Inr tty, w') \<and> dev w' = dev w" by (rule conjunct1 [OF t9, rule_format])
  show "\<exists>w'. sys_tcsetattr ps fd tty w = (Inr (), w') \<and> dev w' = dev w" by (rule conjunct1 [OF t10, rule_format])
  show "\<exists>a b. sys_cfsetispeed ps s tty = Inr a \<and> sys_cfsetospeed ps s tty = Inr b" by (rule conjunct1 [OF t11, rule_format])
  show "dev (snd (fs_write fs path txt w)) = dev w" by (rule conjunct2 [OF t11, rule_format])
qed

section \<open>Reads and writes\<close>

lemma drain_simps: "fst (drain n g) = take n (fk_toClient (fs_link g))"
  "snd (drain n g) = g\<lparr>fs_link := (fs_link g)\<lparr>fk_toClient := drop n (fk_toClient (fs_link g))\<rparr>\<rparr>"
  by (simp_all add: drain_def Let_def min_def)

lemma quiet_line:
  assumes "device_line other ps fs dev" and "fk_toClient (fs_link (dev w)) = []"
  shows "\<exists>w'. wait_for_input ps fd deadline received w = (Leaves, w') \<and> dev w' = dev w"
proof -
  obtain now w1 where now: "sys_now ps w = (now, w1)" by fastforce
  have d: "dev w1 = dev w" by (rule line_calls(4) [OF assms(1) now])
  obtain w2 where "sys_poll ps fd POLLIN (min (ceil_ms (deadline - now)) (2 ^ 31 - 1)) w1 = (Inr (0, {}), w2)" "dev w2 = dev w1"
    using line_calls(3) [OF assms(1), of w1] d assms(2) by metis
  then show ?thesis using now d by (simp add: wait_for_input_def waitReady_def Let_def)
qed

lemma line_read:
  assumes "device_line other ps fs dev"
  shows "\<exists>w'. sp_read ps p n t w = Some (Inr (fst (drain n (dev w))), w') \<and> dev w' = snd (drain n (dev w))"
proof -
  obtain now w0 where now: "sys_now ps w = (now, w0)" by fastforce
  have d0: "dev w0 = dev w" by (rule line_calls(4) [OF assms now])
  let ?sent = "fk_toClient (fs_link (dev w))"
  obtain w1 where w1: "sys_read ps (sp_fd p) n w0 = (Inr (take n ?sent), w1)" "dev w1 = snd (drain n (dev w))"
    using line_calls(1) [OF assms, of "sp_fd p" n w0] d0 by (auto simp: drain_simps)
  obtain d where r: "sp_read ps p n t w = read_loop ps (sp_fd p) n d [] False w0" by (simp add: sp_read_def now)
  show ?thesis
  proof (cases "n = 0")
    case True
    then show ?thesis using r d0 by (simp add: read_loop.simps drain_simps)
  next
    case n: False
    show ?thesis
    proof (cases "?sent = []")
      case True
      then have "fk_toClient (fs_link (dev w1)) = []" using w1(2) by (simp add: drain_simps)
      from quiet_line [OF assms this] obtain w2 where
        "wait_for_input ps (sp_fd p) d [] w1 = (Leaves, w2)" "dev w2 = dev w1" by blast
      then show ?thesis using r n w1 True by (simp add: read_loop.simps read_turn_def drain_simps)
    next
      case False
      then have go: "read_turn ps (sp_fd p) n d [] False w0 = (GoesOn (take n ?sent, False), w1)"
        using n w1(1) by (simp add: read_turn_def)
      show ?thesis
      proof (cases "n \<le> length ?sent")
        case True
        then show ?thesis
          using r n w1(2) go by (simp add: read_loop.simps [of ps "sp_fd p" n d "[]"] read_loop.simps [of ps "sp_fd p" n d "take n ?sent"] drain_simps)
      next
        case short: False
        then have e: "fk_toClient (fs_link (dev w1)) = []" using w1(2) by (simp add: drain_simps)
        obtain w2 where w2: "sys_read ps (sp_fd p) (n - length ?sent) w1 = (Inr [], w2)" "dev w2 = dev w1"
          using line_calls(1) [OF assms, of "sp_fd p" "n - length ?sent" w1] e by (auto simp: drain_simps)
        obtain w3 where "wait_for_input ps (sp_fd p) d ?sent w2 = (Leaves, w3)" "dev w3 = dev w2"
          using quiet_line [OF assms, of w2] e w2(2) by metis
        then have "read_turn ps (sp_fd p) n d ?sent False w1 = (Leaves, w3)" "dev w3 = dev w1"
          using w2 by (simp_all add: read_turn_def)
        then show ?thesis
          using r n w1(2) go short by (simp add: read_loop.simps [of ps "sp_fd p" n d "[]"] read_loop.simps [of ps "sp_fd p" n d ?sent] drain_simps)
      qed
    qed
  qed
qed

lemma line_write:
  assumes "device_line other ps fs dev"
  shows "\<exists>w'. sp_write ps p bs t w = Some (Inr (length bs), w') \<and>
    dev w' = (if bs = [] then dev w else fk_deliver other bs (dev w))"
proof -
  obtain now w0 where now: "sys_now ps w = (now, w0)" by fastforce
  have d0: "dev w0 = dev w" by (rule line_calls(4) [OF assms now])
  obtain w1 where w1: "sys_write ps (sp_fd p) bs w0 = (Inr (length bs), w1)"
      "dev w1 = (if bs = [] then dev w else fk_deliver other bs (dev w))"
    using line_calls(2) [OF assms, of "sp_fd p" bs w0] d0 by auto
  show ?thesis
  proof (cases "bs = []")
    case True
    then show ?thesis using now d0 by (simp add: sp_write_def write_loop.simps)
  next
    case False
    then have "write_turn ps (sp_fd p) bs d 0 w0 = (GoesOn (length bs), w1)" for d using w1(1) by (simp add: write_turn_def)
    then show ?thesis using now w1(2) False
      by (simp add: sp_write_def write_loop.simps [of ps "sp_fd p" bs _ 0] write_loop.simps [of ps "sp_fd p" bs _ "length bs"])
  qed
qed

lemma line_drain:
  assumes "device_line other ps fs dev"
  shows "\<exists>w'. sp_drain ps p t w = Some (Inr True, w') \<and> dev w' = dev w"
proof -
  obtain now w0 where now: "sys_now ps w = (now, w0)" by fastforce
  obtain w1 where w1: "sys_outq ps (sp_fd p) w0 = (Some 0, w1)" "dev w1 = dev w0" using line_calls(5) [OF assms] by blast
  obtain w2 where w2: "sys_tcdrain ps (sp_fd p) w1 = (Inr (), w2)" "dev w2 = dev w1" using line_calls(6) [OF assms] by blast
  show ?thesis using now w1 w2 line_calls(4) [OF assms now]
    by (simp add: sp_drain_def queue_loop.simps tcdrain_loop.simps)
qed

section \<open>The built-in port on that line\<close>

text \<open>The simulated port again, with a read that never waits: it takes what the device has sent.\<close>

definition line_serial :: "other_codes \<Rightarrow> fake_gripper serial" where
  "line_serial other = \<lparr>ser_open = (\<lambda>g. (Inr (), g\<lparr>fg_open := True\<rparr>)), ser_isOpen = fg_open,
     ser_close = (\<lambda>g. g\<lparr>fg_open := False\<rparr>),
     ser_read = (\<lambda>n t g. (Inr (fst (drain n (fg_server g))), g\<lparr>fg_server := snd (drain n (fg_server g))\<rparr>)),
     ser_write = (\<lambda>bs g. (Inr (), if bs = [] then g else g\<lparr>fg_server := fk_deliver other bs (fg_server g)\<rparr>)),
     ser_getTimeout = (\<lambda>_. 500)\<rparr>"

interpretation line: device_port "line_serial other" other for other
proof
  fix t :: int and n and g :: fake_gripper
  show "0 < t \<Longrightarrow> ser_read (line_serial other) n t g = fg_read n t g"
    by (simp add: line_serial_def fg_read_def split: prod.split)
  assume "fk_toClient (fs_link (fg_server g)) = []"
  then show "ser_read (line_serial other) n 0 g = (Inr [], g)" by (simp add: line_serial_def drain_simps)
qed (simp add: line_serial_def fg_write_def)

definition at_device :: "other_codes \<Rightarrow> 'o posix \<Rightarrow> 'o files \<Rightarrow> ('o \<Rightarrow> fake_server) \<Rightarrow> 'o default_serial \<Rightarrow> fake_gripper \<Rightarrow> bool" where
  "at_device other ps fs dev s g \<longleftrightarrow> device_line other ps fs dev \<and> ds_isOpen s \<and> fg_server g = dev (ds_os s)"

interpretation built_in: port_sim "posix_serial ps fs" "line_serial other" "at_device other ps fs dev"
  for ps :: "'o posix" and fs other dev
proof
  fix s :: "'o default_serial" and g n t and bs :: "u8 list" assume a: "at_device other ps fs dev s g"
  then have d: "device_line other ps fs dev" and g: "fg_server g = dev (ds_os s)" by (simp_all add: at_device_def)
  obtain p where p: "ds_port s = Some p" using a by (auto simp: at_device_def ds_isOpen_def)
  obtain w1 where "sp_read ps p n t (ds_os s) = Some (Inr (fst (drain n (dev (ds_os s)))), w1)" "dev w1 = snd (drain n (dev (ds_os s)))"
    using line_read [OF d] by blast
  then show "rel_prod (=) (at_device other ps fs dev) (ser_read (posix_serial ps fs) n t s) (ser_read (line_serial other) n t g)"
    using a p g by (simp add: posix_serial_def line_serial_def ds_read_def at_device_def ds_isOpen_def)
  let ?dev = "if bs = [] then dev (ds_os s) else fk_deliver other bs (dev (ds_os s))"
  obtain w2 where w2: "sp_write ps p bs (sc_timeout (ds_config s)) (ds_os s) = Some (Inr (length bs), w2)" "dev w2 = ?dev"
    using line_write [OF d] by blast
  obtain w3 where "sp_drain ps p (sc_timeout (ds_config s)) w2 = Some (Inr True, w3)" "dev w3 = dev w2" using line_drain [OF d] by blast
  then show "rel_prod (=) (at_device other ps fs dev) (ser_write (posix_serial ps fs) bs s) (ser_write (line_serial other) bs g)"
    using a p g w2 by (simp add: posix_serial_def line_serial_def ds_write_def at_device_def ds_isOpen_def)
qed

section \<open>Connecting\<close>

definition config_ok :: "connection_config \<Rightarrow> bool" where
  "config_ok config \<longleftrightarrow> sc_port (cc_serial config) \<noteq> [] \<and> baudConstant (sc_baudrate (cc_serial config)) \<noteq> None \<and>
     0 < sint (word_of_int (sc_timeout (cc_serial config)) :: 32 word) \<and> modbusSlaveAddress config \<noteq> 0"

lemma line_latency:
  assumes "device_line other ps fs dev"
  shows "dev (ds_os (set_latency fs s)) = dev (ds_os s) \<and> ds_port (set_latency fs s) = ds_port s \<and>
    ds_config (set_latency fs s) = ds_config s"
proof -
  have "dev (ds_os (snd (applyLatencyTimer fs path s))) = dev (ds_os s) \<and> ds_port (snd (applyLatencyTimer fs path s)) = ds_port s \<and>
      ds_config (snd (applyLatencyTimer fs path s)) = ds_config s" for path
    using line_calls(12) [OF assms, of path "decimal_int (sc_latencyTimerMs (ds_config s))" "ds_os s"]
    by (auto simp: applyLatencyTimer_def Let_def split: prod.split option.split)
  then have "dev (ds_os s1) = dev (ds_os s) \<and> ds_port s1 = ds_port s \<and> ds_config s1 = ds_config s"
    if "applyLatencyTimer fs path s = (b, s1)" for path b s1 using that by (metis snd_conv)
  then show ?thesis by (auto simp: set_latency_def ds_say_def Let_def split: prod.split bool.split)
qed

lemma line_open:
  assumes "device_line other ps fs dev" and "baudConstant baudrate \<noteq> None"
  shows "\<exists>p' w'. sp_open ps port baudrate p w = (Inr (), p', w') \<and> dev w' = dev w"
proof -
  obtain speed where speed: "baudConstant baudrate = Some speed" using assms(2) by blast
  obtain fd w1 where w1: "sys_open ps port {O_RDWR, O_NOCTTY, O_NONBLOCK, O_CLOEXEC} w = (Inr fd, w1)" "0 \<le> fd" "dev w1 = dev w"
    using line_calls(7) [OF assms(1)] by blast
  obtain tty w2 where w2: "sys_tcgetattr ps fd w1 = (Inr tty, w2)" "dev w2 = dev w1" using line_calls(9) [OF assms(1)] by blast
  obtain tty2 where tty2: "set_speeds ps speed (raw_line tty) = Inr tty2"
    using line_calls(11) [OF assms(1)] unfolding set_speeds_def by (metis sum.simps(6))
  obtain w3 where w3: "sys_tcsetattr ps fd tty2 w2 = (Inr (), w3)" "dev w3 = dev w2" using line_calls(10) [OF assms(1)] by blast
  have "configure ps fd baudrate w1 = (Inr (), w3)" using speed w2(1) tty2 w3(1) by (simp add: configure_def)
  then show ?thesis
    using w1 w2(2) w3(2) line_calls(8) [OF assms(1)] by (simp add: sp_open_def applyLineDefaults_def)
qed

lemma line_client:
  assumes "device_line other ps fs dev" and "config_ok config"
  shows "\<exists>m. makeModbusClient (posix_serial ps fs) (makeSerial config w l) u l = Inr m \<and> ds_isOpen (mc_serial m) \<and>
    dev (ds_os (mc_serial m)) = dev w \<and> mc_log m = l \<and> ready (mc_nmbs m) \<and> dest_address_rtu (mc_nmbs m) = u"
proof -
  let ?s = "makeSerial config w l"
  have s: "ds_port ?s = None" "ds_os ?s = w" "ds_config ?s = cc_serial config" by (simp_all add: makeSerial_def makeDefaultSerial_def)
  obtain p' w' where p': "sp_open ps (sc_port (cc_serial config)) (sc_baudrate (cc_serial config)) new_serial_port w = (Inr (), p', w')"
      "dev w' = dev w"
    using line_open [OF assms(1)] assms(2) unfolding config_ok_def by blast
  have "\<exists>s'. ds_open ps fs ?s = (Inr (), s') \<and> ds_isOpen s' \<and> dev (ds_os s') = dev w \<and> ds_config s' = cc_serial config"
    using p' assms(2) line_latency [OF assms(1)]
    by (simp add: ds_open_def s ds_say_def config_ok_def ds_isOpen_def Let_def)
  then obtain s' where s': "ds_open ps fs ?s = (Inr (), s')" "ds_isOpen s'" "dev (ds_os s') = dev w" "ds_config s' = cc_serial config"
    by blast
  then show ?thesis
    using assms(2) by (simp add: makeModbusClient_def posix_serial_def ds_isOpen_def s ds_getTimeout_def config_ok_def
        nmbs_client_create_def nmbs_create_def ready_def kByteTimeoutMs_def)
qed

lemma register_gripper:
  assumes "rm_wf model"
  shows "\<exists>h. makeGripper register_link model period (Some (True, True)) now sched = Inr h"
proof -
  have "length (rm_registers model) = 2008" using assms by (simp add: rm_wf_def addresses)
  from readBlock_status [OF this] obtain regs where "readBlock model = Inr regs" by blast
  then show ?thesis
    by (simp add: makeGripper_def makeProcessImage_def initializeImage_def makeGripperState_def initialRead.simps
        register_link_def read_model_def)
qed

lemma line_gripper:
  assumes "device_line other ps fs dev" and "config_ok config"
    and "exchangePeriodFromFrequency (connectionFrequency config) = Some (Inr period)"
    and "idle_server (modbusSlaveAddress config) (dev w)" and "rm_wf (fk_model (fs_link (dev w)))"
  shows "\<exists>g h. connectGripper ps fs config w now sched l = Some (Inr g) \<and>
    makeGripper register_link (fk_model (fs_link (dev w))) period (Some (True, True)) now sched = Inr h \<and>
    (\<forall>calls. map_option fst (call_all (client_link (posix_serial ps fs)) calls g) =
      map_option fst (call_all register_link calls h))"
proof -
  let ?u = "modbusSlaveAddress config" and ?model = "fk_model (fs_link (dev w))"
  obtain m where m: "makeModbusClient (posix_serial ps fs) (makeSerial config w l) ?u l = Inr m" "ds_isOpen (mc_serial m)"
      "dev (ds_os (mc_serial m)) = dev w" "mc_log m = l" "ready (mc_nmbs m)" "dest_address_rtu (mc_nmbs m) = ?u"
    using line_client [OF assms(1,2)] by blast
  define e where "e = \<lparr>mc_serial = \<lparr>fg_server = dev w, fg_open = True\<rparr>, mc_log = l, mc_nmbs = mc_nmbs m\<rparr>"
  have r1: "built_in.alike_clients other ps fs dev m e"
    using assms(1) m by (simp add: built_in.alike_clients_def at_device_def e_def)
  have r2: "line.idle_over e ?model"
    using m(5,6) assms(4,5) by (simp add: line.idle_over_def stack_idle_def gripper_model_def e_def)
  obtain h where h: "makeGripper register_link ?model period (Some (True, True)) now sched = Inr h"
    using register_gripper [OF assms(5)] by blast
  obtain f where f: "makeGripper (client_link (line_serial other)) e period (Some (True, True)) now sched = Inr f"
      "line.model.alike f h"
    using line.model.alike_makeGripper [OF r2] h by (metis (no_types) rel_sum.cases sum.inject(2) sum.distinct(1))
  obtain g where g: "makeGripper (client_link (posix_serial ps fs)) m period (Some (True, True)) now sched = Inr g"
      "built_in.thread.alike other ps fs dev g f"
    using built_in.thread.alike_makeGripper [OF r1] f(1) by (metis (no_types) rel_sum.cases sum.inject(2) sum.distinct(1))
  have "connectGripper ps fs config w now sched l = Some (Inr g)" using assms(3) m(1) g(1) by (simp add: connectGripper_def Let_def)
  moreover have "map_option fst (call_all (client_link (posix_serial ps fs)) calls g) = map_option fst (call_all register_link calls h)"
    for calls
    by (rule trans [OF built_in.thread.alike_results [OF g(2)] line.model.alike_results [OF f(2)]])
  ultimately show ?thesis using h by blast
qed

lemma line_connects:
  assumes "device_line other ps fs dev" and "config_ok config"
    and "exchangePeriodFromFrequency (connectionFrequency config) = Some (Inr period)"
    and "idle_server (modbusSlaveAddress config) (dev w)" and "rm_wf (fk_model (fs_link (dev w)))"
  shows "\<exists>g. connectGripper ps fs config w now sched l = Some (Inr g)"
  using line_gripper [OF assms] by blast

section \<open>Properties\<close>

text \<open>
  C2 A program cannot tell a gripper at the end of a line from its register model. On a terminal whose other end is
  the device, a supported configuration connects, and then every sequence of calls, activation and recovery
  included, returns what it returns over the register model written and read directly, with the same other threads
  and the same clock: system calls, port, framing, CRCs, server and queues change no result.
\<close>

theorem port_is_transparent:
  assumes "device_line other ps fs dev" and "config_ok config"
    and "exchangePeriodFromFrequency (connectionFrequency config) = Some (Inr period)"
    and "idle_server (modbusSlaveAddress config) (dev w)" and "rm_wf (fk_model (fs_link (dev w)))"
  shows "\<exists>g h. connectGripper ps fs config w now sched l = Some (Inr g) \<and>
    makeGripper register_link (fk_model (fs_link (dev w))) period (Some (True, True)) now sched = Inr h \<and>
    (\<forall>calls. map_option fst (call_all (client_link (posix_serial ps fs)) calls g) =
      map_option fst (call_all register_link calls h))"
  by (rule line_gripper [OF assms])

text \<open>A process and the device on its line: the open descriptors, and the server.\<close>

definition fresh :: "int list \<Rightarrow> int" where
  "fresh fds = foldr max fds 2 + 1"

definition desk_system :: "other_codes \<Rightarrow> (int list \<times> fake_server) posix" where
  "desk_system other = \<lparr>sys_open = (\<lambda>port flags (fds, g). (Inr (fresh fds), fresh fds # fds, g)),
     sys_close = (\<lambda>fd (fds, g). (filter (\<lambda>x. x \<noteq> fd) fds, g)),
     sys_read = (\<lambda>fd n (fds, g). (Inr (fst (drain n g)), fds, snd (drain n g))),
     sys_write = (\<lambda>fd bs (fds, g). (Inr (length bs), fds, if bs = [] then g else fk_deliver other bs g)),
     sys_poll = (\<lambda>fd f ms w. (Inr (0, {}), w)), sys_ioctl = (\<lambda>fd r w. w), sys_outq = (\<lambda>fd w. (Some 0, w)),
     sys_tcdrain = (\<lambda>fd w. (Inr (), w)), sys_tcgetattr = (\<lambda>fd w. (Inr cooked, w)), sys_tcsetattr = (\<lambda>fd tty w. (Inr (), w)),
     sys_cfsetispeed = (\<lambda>s tty. Inr tty), sys_cfsetospeed = (\<lambda>s tty. Inr tty), sys_now = (\<lambda>w. (0, w)),
     sys_sleep = (\<lambda>t w. w), sys_message = (\<lambda>e. ''error'')\<rparr>"

lemma fresh_new: "2 < fresh fds \<and> fresh fds \<notin> set fds"
proof -
  have "2 \<le> foldr max fds 2 \<and> (\<forall>x \<in> set fds. x \<le> foldr max fds 2)" by (induction fds) auto
  then show ?thesis by (fastforce simp: fresh_def)
qed

lemma fresh_simps [simp]: "0 \<le> fresh fds" "fresh fds \<notin> set fds"
  using fresh_new [of fds] by auto

lemma desk_line: "device_line other (desk_system other) no_files snd"
  by (simp add: device_line_def desk_system_def no_files_def split: prod.split)

lemma desk_counted: "counted (desk_system other) no_files (\<lambda>w. set (fst w))"
proof -
  have "tracks (desk_system other) no_files (\<lambda>w. set (fst w))"
    by (auto simp: tracks_def unchanged_by_io_def unchanged_def desk_system_def no_files_def split: prod.split)
  moreover have "finitely_interrupted (desk_system other) (\<lambda>w. 0)" by (simp add: finitely_interrupted_def desk_system_def split: prod.split)
  moreover have "finitely_stalled (desk_system other) (\<lambda>w. 0)" by (auto simp: finitely_stalled_def desk_system_def split: prod.split)
  ultimately show ?thesis unfolding counted_def by blast
qed

definition free_running :: connection_config where
  "free_running = (default_connection_config ''/dev/ttyUSB0'')\<lparr>connectionFrequency := Fin 0\<rparr>"

lemma free_running_ok: "config_ok free_running"
  "exchangePeriodFromFrequency (connectionFrequency free_running) = Some (Inr 0)" "modbusSlaveAddress free_running = 9"
  by (simp_all add: config_ok_def free_running_def default_connection_config_def default_serial_config_def baudConstant_def
      kDefaultModbusSlaveAddress_def exchangePeriodFromFrequency_def clampFrequency_def d_eq_def)

lemma some_device: "\<exists>g. idle_server 9 g \<and> rm_wf (fk_model (fs_link g))"
  using makeFakeClient_idle [of 9 "\<lambda>_. nm_return ()" "[]"] by (auto simp: stack_idle_def gripper_model_def)

theorem port_is_transparent_witness:
  "\<exists>w g h. connectGripper (desk_system (\<lambda>_. nm_return ())) no_files free_running w 0 [[], replicate 30 ThreadStep] [] = Some (Inr g) \<and>
     map_option fst (call_all (client_link (posix_serial (desk_system (\<lambda>_. nm_return ())) no_files)) [CallGetStatus, CallActivate 1000] g) =
     map_option fst (call_all register_link [CallGetStatus, CallActivate 1000] h)"
proof -
  obtain d where d: "idle_server 9 d" "rm_wf (fk_model (fs_link d))" using some_device by blast
  let ?other = "\<lambda>_. nm_return ()"
  have "idle_server (modbusSlaveAddress free_running) (snd ([0 :: int, 1, 2], d))" "rm_wf (fk_model (fs_link (snd ([0 :: int, 1, 2], d))))"
    using d free_running_ok(3) by simp_all
  from port_is_transparent [OF desk_line free_running_ok(1,2) this, of ?other 0 "[[], replicate 30 ThreadStep]" "[]"]
  show ?thesis by blast
qed

text \<open>Such a gripper, used and destroyed, leaves the process with its three descriptors.\<close>

theorem gripper_leaves_no_descriptor_witness:
  "\<exists>d g. connectOrUnwind (desk_system (\<lambda>_. nm_return ())) no_files free_running ([0, 1, 2], d) 0 [[], replicate 30 ThreadStep] [] =
       Some (Inr g) \<and>
     port_open (\<lambda>w. set (fst w)) {0, 1, 2} (mc_serial (gs_client g)) \<and>
     set (fst (ds_os (destroyGripper (desk_system (\<lambda>_. nm_return ())) no_files g))) = {0, 1, 2}"
proof -
  let ?other = "\<lambda>_. nm_return ()" and ?sched = "[[], replicate 30 ThreadStep]"
  obtain d where d: "idle_server 9 d" "rm_wf (fk_model (fs_link d))" using some_device by blast
  obtain g where "connectGripper (desk_system ?other) no_files free_running ([0, 1, 2], d) 0 ?sched [] = Some (Inr g)"
    using line_connects [OF desk_line free_running_ok(1,2), of "([0, 1, 2], d)" ?other 0 ?sched "[]"] d free_running_ok(3) by auto
  then have g: "connectOrUnwind (desk_system ?other) no_files free_running ([0, 1, 2], d) 0 ?sched [] = Some (Inr g)"
    by (simp add: connected_iff)
  from gripper_leaves_no_descriptor [OF desk_counted this]
  have "\<forall>calls rs g'. call_all (client_link (posix_serial (desk_system ?other) no_files)) calls g = Some (rs, g') \<longrightarrow>
      port_open (\<lambda>w. set (fst w)) {0, 1, 2} (mc_serial (gs_client g')) \<and>
      set (fst (ds_os (destroyGripper (desk_system ?other) no_files g'))) = {0, 1, 2}" by simp
  from this [rule_format, of "[]" "[]" g] g show ?thesis by auto
qed

end
