(* ===== verification/Mains.thy ===== *)
theory Mains
  imports Programs DeviceLine
begin

text \<open>
  The example programs as a process runs them: \<open>main\<close> of \<open>grippers/sdk_cpp/examples/move_gripper.cpp\<close>,
  \<open>quick_start.cpp\<close>, \<open>exchange_log.cpp\<close> and \<open>exchange_rate_probe.cpp\<close>, from the arguments over the connection to the
  exit code, with the destructors that run on the way out. The state of the system is what the POSIX port acts on.
\<close>

section \<open>Outcomes\<close>

text \<open>The exit code, what was printed, the lines of the example's logger and the system; or \<open>std::terminate\<close>.\<close>

datatype 'o outcome = Exits nat string log 'o | Terminates thrown

text \<open>
  \<open>std::ofstream\<close> over the system: opening gives a descriptor or fails, closing gives it back and says whether what was
  still buffered could be written. A stream is the descriptor it has open; its destructor closes it.
\<close>

record 'o ofstreams =
  ofs_open :: "string \<Rightarrow> 'o \<Rightarrow> int option \<times> 'o"
  ofs_close :: "int \<Rightarrow> 'o \<Rightarrow> bool \<times> 'o"

definition destroy_ofstream :: "'o ofstreams \<Rightarrow> int option \<Rightarrow> 'o \<Rightarrow> 'o" where
  "destroy_ofstream ofs stream w = (case stream of None \<Rightarrow> w | Some fd \<Rightarrow> snd (ofs_close ofs fd w))"

text \<open>A call of the system while there is a gripper, whose port acts on the same system.\<close>

definition on_system :: "('o \<Rightarrow> 'a \<times> 'o) \<Rightarrow> 'o default_serial modbus_client gripper_state \<Rightarrow>
    'a \<times> 'o default_serial modbus_client gripper_state" where
  "on_system call g =
     (let client = gs_client g; serial = mc_serial client; (x, w) = call (ds_os serial)
      in (x, g\<lparr>gs_client := client\<lparr>mc_serial := serial\<lparr>ds_os := w\<rparr>\<rparr>\<rparr>))"

text \<open>
  \<open>examples::connectGripper\<close> with what \<open>main\<close> does on a gripper, which is destroyed when \<open>main\<close> returns, before the
  objects \<open>main\<close> has made earlier: \<open>earlier\<close> are these before the connection, and \<open>gone\<close> is their destructors.
\<close>

definition with_gripper :: "'o posix \<Rightarrow> 'o files \<Rightarrow> connection_config \<Rightarrow> 'x \<Rightarrow> ('x \<Rightarrow> 'o \<Rightarrow> 'o) \<Rightarrow> 'o \<Rightarrow> int \<Rightarrow> gs_event list list \<Rightarrow>
    ('o default_serial modbus_client gripper_state \<Rightarrow>
      (nat \<times> string \<times> log \<times> 'x \<times> 'o default_serial modbus_client gripper_state) option) \<Rightarrow>
    'o outcome option" where
  "with_gripper ps fs config earlier gone w now sched body =
     (case connectOrUnwind ps fs config w now sched [] of
        None \<Rightarrow> None
      | Some (Inl (e, d)) \<Rightarrow>
          (case connect_or_explain config (Inl e :: thrown + unit) of
             (Inl e', _) \<Rightarrow> Some (Terminates e')
           | (Inr _, complaint) \<Rightarrow> Some (Exits 1 complaint [] (gone earlier (ds_os d))))
      | Some (Inr g) \<Rightarrow>
          (case body g of
             None \<Rightarrow> None
           | Some (code, out, l, x, g') \<Rightarrow> Some (Exits code out l (gone x (ds_os (destroyGripper ps fs g'))))))"

section \<open>The programs\<close>

definition move_gripper_main :: "'o posix \<Rightarrow> 'o files \<Rightarrow> string list \<Rightarrow> 'o \<Rightarrow> int \<Rightarrow> gs_event list list \<Rightarrow> 'o outcome option" where
  "move_gripper_main ps fs argv w now sched =
     (case move_config argv of
        Inl complaint \<Rightarrow> Some (Exits 1 complaint [] w)
      | Inr config \<Rightarrow>
          with_gripper ps fs config () (\<lambda>_ w. w) w now sched (\<lambda>g.
            map_option (\<lambda>(moved, l, g'). (if moved then 0 else 1, [], l, (), g'))
              (move_gripper (client_link (posix_serial ps fs)) ([], g))))"

text \<open>An exception of the constructor is not caught.\<close>

definition quick_start_main :: "'o posix \<Rightarrow> 'o files \<Rightarrow> string list \<Rightarrow> 'o \<Rightarrow> int \<Rightarrow> gs_event list list \<Rightarrow> 'o outcome option" where
  "quick_start_main ps fs argv w now sched =
     (if length argv < 2 then Some (Exits 1 (''Usage: quick_start <port>'' @ newline) [] w)
      else case connectOrUnwind ps fs (default_connection_config (argv ! 1)) w now sched [] of
             None \<Rightarrow> None
           | Some (Inl (e, d)) \<Rightarrow> Some (Terminates e)
           | Some (Inr g) \<Rightarrow>
               (case quick_start_body (client_link (posix_serial ps fs)) g of
                  None \<Rightarrow> None
                | Some (out, g') \<Rightarrow> Some (Exits 0 out [] (ds_os (destroyGripper ps fs g')))))"

text \<open>
  The stream of the file is opened first and closed last: by \<open>close()\<close> at the end of a run, by its destructor on every
  other return. The recorder reads the gripper in a thread of its own; \<open>recorded\<close> is how that thread leaves it and
  \<open>csv_good\<close> whether the stream is still good after it.
\<close>

definition exchange_log_main :: "'o posix \<Rightarrow> 'o files \<Rightarrow> 'o ofstreams \<Rightarrow> 'f recorder \<Rightarrow> bool \<Rightarrow> string list \<Rightarrow> 'o \<Rightarrow> int \<Rightarrow>
    gs_event list list \<Rightarrow> 'o outcome option" where
  "exchange_log_main ps fs ofs recorded csv_good argv w now sched =
     (case exchange_log_config argv of
        Inl complaint \<Rightarrow> Some (Exits 1 complaint [] w)
      | Inr (config, file) \<Rightarrow>
          (case ofs_open ofs file w of
             (None, w1) \<Rightarrow>
               Some (Exits 1 (''Error: could not open '' @ [CHR 0x27] @ file @ [CHR 0x27] @ '' for writing'' @ newline) [] w1)
           | (Some csv, w1) \<Rightarrow>
               with_gripper ps fs config (Some csv) (destroy_ofstream ofs) w1 now sched (\<lambda>g.
                 case exchange_log_moves (client_link (posix_serial ps fs)) ([], g) of
                   None \<Rightarrow> None
                 | Some (None, l, g1) \<Rightarrow> Some (1, [], l, Some csv, g1)
                 | Some (Some moved, l, g1) \<Rightarrow>
                     (let (written, g2) = on_system (ofs_close ofs csv) g1;
                          (success, l2) = exchange_log_end moved (csv_good \<and> written) file recorded l
                      in Some (if success then 0 else 1, [], l2, None, g2)))))"

text \<open>The probe's platform stamps the step of the exchange thread that begins a sleep.\<close>

definition stamped_step :: "'d link \<Rightarrow> gs_event \<Rightarrow> int list \<times> 'd gripper_state \<Rightarrow> int list \<times> 'd gripper_state" where
  "stamped_step lk e = (\<lambda>(stamps, g).
     (if e = ThreadStep \<and> gs_pc g = Pacing then fst (stamp_sleepUntil (\<lambda>_ g. g) gs_now (gs_nextCycle g) (stamps, g)) else stamps,
      step lk e g))"

definition probe_connect :: "'o posix \<Rightarrow> 'o files \<Rightarrow> options \<Rightarrow> 'o \<Rightarrow> int \<Rightarrow>
    (thrown \<times> 'o default_serial) + 'o default_serial modbus_client gripper_state" where
  "probe_connect ps fs o' w now =
     (let config = (default_serial_config (the (opt_port o')))\<lparr>sc_baudrate := word_of_int (opt_baudrate o')\<rparr> in
      case clientOrUnwind ps fs (makeDefaultSerial config [] w) kDefaultModbusSlaveAddress [] of
        Inl unwound \<Rightarrow> Inl unwound
      | Inr client \<Rightarrow> gripperOrUnwind ps fs client (probe_period (opt_hz o')) now [])"

text \<open>\<open>es\<close> is what happens while \<open>main\<close> sleeps for the seconds asked for; \<open>sleep\<close> and \<open>clk\<close> are the platform's.\<close>

definition exchange_rate_probe_main :: "'o posix \<Rightarrow> 'o files \<Rightarrow> (int \<Rightarrow> 'p \<Rightarrow> 'p) \<Rightarrow> ('p \<Rightarrow> int) \<Rightarrow> 'p \<Rightarrow> string list \<Rightarrow> 'o \<Rightarrow> int \<Rightarrow>
    gs_event list \<Rightarrow> 'o outcome" where
  "exchange_rate_probe_main ps fs sleep clk p argv w now es =
     (let (o', complaint) = parseOptions argv in
      if opt_port o' = None then Exits 2 complaint [] w
      else let (granularity, p1) = probeSleepGranularity sleep clk p in
        case probe_connect ps fs o' w now of
          Inl (StdException what, d) \<Rightarrow> Exits 1 (granularity @ what @ newline) [] (ds_os d)
        | Inl (UnknownException, d) \<Rightarrow> Terminates UnknownException
        | Inr g \<Rightarrow>
            (let (stamps, g') = fold (stamped_step (client_link (posix_serial ps fs))) es ([], g);
                 (code, report) = probe_report o' stamps
             in Exits code (granularity @ report) [] (ds_os (destroyGripper ps fs g'))))"

section \<open>What the programs pass through\<close>

lemma activate_leads: "activate lk t g = Some (r, g') \<Longrightarrow> leads_to lk g g'"
  "recoverFromFault lk t g = Some (r, g') \<Longrightarrow> leads_to lk g g'"
  using passes.kept_activate [unfolded passes_K, OF leads_refl] passes.kept_recover [unfolded passes_K, OF leads_refl] by blast+

lemma activateOrRecover_leads:
  assumes "activateOrRecover lk (l, g) = Some (b, l', g')"
  shows "leads_to lk g g'"
proof -
  obtain first g1 where a: "activate lk kActivationTimeoutMs g = Some (first, g1)"
    using assms by (auto simp: activateOrRecover_def split: option.splits)
  have "\<exists>g2 l2 level message. leads_to lk g1 g2 \<and> log_status lk level message (l2, g2) = (l', g')"
  proof (cases "first = FaultLatched")
    case True
    obtain r g2 where "recoverFromFault lk kActivationTimeoutMs g1 = Some (r, g2)"
      using assms a True by (auto simp: activateOrRecover_def split: option.splits)
    with assms a True activate_leads(2) [OF this] show ?thesis by (auto simp: activateOrRecover_def split: if_splits)
  next
    case False
    then have "\<exists>level message. log_status lk level message (l, g1) = (l', g')"
      using assms a by (auto simp: activateOrRecover_def split: if_splits)
    then show ?thesis using leads_refl [of lk g1] by blast
  qed
  then show ?thesis using activate_leads(1) [OF a] log_status_leads leads_trans by meson
qed

lemma await_settled_leads:
  assumes "await_settled lk profile (l, g) = Some (b, l', g')"
  shows "leads_to lk g g'"
proof -
  obtain moving g1 where m: "waitForObjectDetection lk Moving 200 g = (moving, g1)" by fastforce
  obtain settled g2 where s: "waitForMotionEnd lk 5000 g1 = (settled, g2)" by fastforce
  have "leads_to lk g g1" "leads_to lk g1 g2"
    using waitFor_leads m s by (auto simp: waitForObjectDetection_def waitForMotionEnd_def)
  moreover have "leads_to lk g2 g'"
    using assms m s log_status_leads by (auto simp: await_settled_def report_settled_def Let_def split: option.splits)
  ultimately show ?thesis using leads_trans by meson
qed

lemma moveTo_leads:
  assumes "moveTo lk profile x (c, l, g) = Some (b, c', l', g')"
  shows "leads_to lk g g'"
proof (cases "openingToRegister x profile")
  case (Some o1)
  show ?thesis
  proof (cases o1)
    case None
    then show ?thesis using assms Some by (auto simp: moveTo_def)
  next
    case (Some p)
    let ?c = "c\<lparr>positionRequest := p, action := nb_put GoTo True (action c)\<rparr>"
    obtain carried g1 where s: "setCommandAndWaitForExchange lk ?c 1000 g = (carried, g1)" by fastforce
    have "leads_to lk g1 g'"
      using assms \<open>openingToRegister x profile = Some o1\<close> Some s log_status_leads await_settled_leads
      by (auto simp: moveTo_def Let_def split: option.splits prod.splits)
    then show ?thesis using set_and_wait_leads [OF s] leads_trans by meson
  qed
qed (use assms in \<open>simp add: moveTo_def\<close>)

lemma move_gripper_leads: "move_gripper lk (l, g) = Some (b, l', g') \<Longrightarrow> leads_to lk g g'"
proof -
  assume a: "move_gripper lk (l, g) = Some (b, l', g')"
  obtain active l1 g1 where act: "activateOrRecover lk (log_line LevelInfo ''Activating...'' l, g) = Some (active, l1, g1)"
    using a by (auto simp: move_gripper_def split: option.splits)
  have twice: "leads_to lk g1 g'" if t: "move_twice lk (m1, x1) (m2, x2) (c, l1, g1) = Some (b, c', l', g')" for m1 x1 m2 x2 c c'
  proof -
    obtain moved c1 l2 g2 where f: "moveTo lk k2F85 x1 (c, log_line LevelInfo m1 l1, g1) = Some (moved, c1, l2, g2)"
      using t by (cases "moveTo lk k2F85 x1 (c, log_line LevelInfo m1 l1, g1)") (auto simp: move_twice_def)
    have "leads_to lk g2 g'"
      using t f moveTo_leads by (cases moved) (auto simp: move_twice_def split: option.splits)
    then show ?thesis using moveTo_leads [OF f] leads_trans by meson
  qed
  have "leads_to lk g1 g'"
    using a act twice by (cases active) (auto simp: move_gripper_def split: option.splits)
  then show ?thesis using activateOrRecover_leads [OF act] leads_trans by meson
qed

lemma quick_start_leads: "quick_start_body lk g = Some (out, g') \<Longrightarrow> leads_to lk g g'"
proof -
  assume a: "quick_start_body lk g = Some (out, g')"
  obtain r g1 where r: "activate lk kActivationTimeoutMs g = Some (r, g1)"
    using a by (auto simp: quick_start_body_def split: option.splits)
  obtain m g3 where m: "waitForObjectDetection lk Moving 200 (setCommand lk quick_start_command g1) = (m, g3)" by fastforce
  obtain e g4 where e: "waitForMotionEnd lk 5000 g3 = (e, g4)" by fastforce
  have "g' = others lk g4" using a r m e by (simp add: quick_start_body_def getStatus_def Let_def)
  moreover have "leads_to lk (setCommand lk quick_start_command g1) g3" "leads_to lk g3 g4"
    using waitFor_leads m e by (auto simp: waitForObjectDetection_def waitForMotionEnd_def)
  ultimately show ?thesis
    using leads(1) [OF leads_refl] leads(4) [OF leads_refl] activate_leads(1) [OF r] leads_trans by meson
qed

lemma exchange_log_leads: "exchange_log_moves lk (l, g) = Some (b, l', g') \<Longrightarrow> leads_to lk g g'"
proof -
  assume a: "exchange_log_moves lk (l, g) = Some (b, l', g')"
  obtain active l1 g1 where act: "activateOrRecover lk (log_line LevelInfo ''Activating...'' l, g) = Some (active, l1, g1)"
    using a by (auto simp: exchange_log_moves_def split: option.splits)
  have "leads_to lk g1 g'"
  proof (cases active)
    case False
    then show ?thesis using a act by (auto simp: exchange_log_moves_def)
  next
    case True
    obtain s c l2 where s: "setSpeed (maxSpeed k2F85) (defaults, log_line LevelInfo ''Opening at full speed...'' l1) = Some (s, c, l2)"
      using a act True by (auto simp: exchange_log_moves_def split: option.splits)
    show ?thesis
    proof (cases s)
      case False
      then show ?thesis using a act True s by (auto simp: exchange_log_moves_def)
    next
      case s': True
      obtain m c1 l3 g2 where m: "moveTo lk k2F85 (maxOpening k2F85) (c, l2, g1) = Some (m, c1, l3, g2)"
        using a act True s s' by (auto simp: exchange_log_moves_def split: option.splits)
      have "leads_to lk g2 g'"
        using a act True s s' m moveTo_leads by (cases m) (auto simp: exchange_log_moves_def split: option.splits bool.splits)
      then show ?thesis using moveTo_leads [OF m] leads_trans by meson
    qed
  qed
  then show ?thesis using activateOrRecover_leads [OF act] leads_trans by meson
qed

lemma stamped_leads: "leads_to lk g (snd (fold (stamped_step lk) es (stamps, g)))"
proof -
  have "leads_to lk g h \<Longrightarrow> leads_to lk g (snd (fold (stamped_step lk) es (stamps, h)))" for h
    by (induction es arbitrary: stamps h) (simp_all add: stamped_step_def leads_step)
  then show ?thesis by simp
qed

section \<open>What the programs leave\<close>

lemma led_open:
  assumes "counted ps fs fds" and "port_open fds base (mc_serial (gs_client g))"
    and "leads_to (client_link (posix_serial ps fs)) g g'"
  shows "port_open fds base (mc_serial (gs_client g'))"
  using assms(3,2)
proof (induction rule: leads_to.induct)
  case (leads_step h e)
  then show ?case using descriptors.cycle.kept_step [of ps fs fds base h e] assms(1) by simp
qed simp_all

lemma led_port:
  assumes "counted ps fs fds" and "port_open fds base (mc_serial (gs_client g))"
    and "leads_to (client_link (posix_serial ps fs)) g g'"
  shows "fds (ds_os (destroyGripper ps fs g')) = base"
  using destroyed_clean [OF assms(1) led_open [OF assms]] by blast

lemma with_gripper_clean:
  assumes "counted ps fs fds" and "with_gripper ps fs config earlier gone w now sched body = Some (Exits code out l w')"
    and "\<And>w1. fds w1 = fds w \<Longrightarrow> fds (gone earlier w1) = base"
    and "\<And>g code out l x g'. body g = Some (code, out, l, x, g') \<Longrightarrow> port_open fds (fds w) (mc_serial (gs_client g)) \<Longrightarrow>
      fds (gone x (ds_os (destroyGripper ps fs g'))) = base"
  shows "fds w' = base"
proof -
  obtain r where r: "connectOrUnwind ps fs config w now sched [] = Some r"
    using assms(2) by (auto simp: with_gripper_def split: option.splits)
  note c = connect_port [OF assms(1) r]
  show ?thesis
  proof (cases r)
    case (Inl u)
    then show ?thesis using assms(2,3) r c
      by (cases u) (auto simp: with_gripper_def connect_or_explain_def split: thrown.splits)
  next
    case (Inr g)
    obtain x g' where "body g = Some (code, out, l, x, g')" "w' = gone x (ds_os (destroyGripper ps fs g'))"
      using assms(2) r Inr by (auto simp: with_gripper_def split: option.splits)
    then show ?thesis using assms(4) c Inr by simp
  qed
qed

lemma move_gripper_clean:
  assumes "counted ps fs fds" and "move_gripper_main ps fs argv w now sched = Some (Exits code out l w')"
  shows "fds w' = fds w"
proof (cases "move_config argv")
  case (Inr config)
  let ?body = "\<lambda>g. map_option (\<lambda>(moved, l, g'). (if moved then 0 :: nat else 1, [] :: string, l, (), g'))
      (move_gripper (client_link (posix_serial ps fs)) ([], g))"
  have run: "with_gripper ps fs config () (\<lambda>_ w. w) w now sched ?body = Some (Exits code out l w')"
    using assms(2) Inr by (simp add: move_gripper_main_def)
  have ends: "fds (ds_os (destroyGripper ps fs g')) = fds w"
    if b: "?body g = Some (code, out, l, x, g')" and g: "port_open fds (fds w) (mc_serial (gs_client g))" for g code out l x g'
  proof -
    obtain moved where "move_gripper (client_link (posix_serial ps fs)) ([], g) = Some (moved, l, g')"
      using b by (cases "move_gripper (client_link (posix_serial ps fs)) ([], g)") auto
    from led_port [OF assms(1) g move_gripper_leads [OF this]] show ?thesis .
  qed
  show ?thesis by (rule with_gripper_clean [OF assms(1) run _ ends])
qed (use assms(2) in \<open>simp add: move_gripper_main_def\<close>)

text \<open>
  What the files of the C++ library promise of descriptors: a stream that opens has one more, that was not in use, and
  closing it gives up that one, also when the rest cannot be written.
\<close>

definition counted_files :: "'o ofstreams \<Rightarrow> ('o \<Rightarrow> int set) \<Rightarrow> bool" where
  "counted_files ofs fds \<longleftrightarrow>
     (\<forall>file w. case ofs_open ofs file w of
        (None, w') \<Rightarrow> fds w' = fds w | (Some fd, w') \<Rightarrow> fd \<notin> fds w \<and> fds w' = insert fd (fds w)) \<and>
     (\<forall>fd w. fds (snd (ofs_close ofs fd w)) = fds w - {fd})"

lemma file_calls:
  assumes "counted_files ofs fds"
  shows "ofs_open ofs name w = (None, w') \<Longrightarrow> fds w' = fds w"
    and "ofs_open ofs name w = (Some fd, w') \<Longrightarrow> fd \<notin> fds w \<and> fds w' = insert fd (fds w)"
    and "fds (snd (ofs_close ofs fd w)) = fds w - {fd}"
proof -
  note o = spec [OF spec [OF conjunct1 [OF assms [unfolded counted_files_def]], of name], of w]
  show "ofs_open ofs name w = (None, w') \<Longrightarrow> fds w' = fds w"
    "ofs_open ofs name w = (Some fd, w') \<Longrightarrow> fd \<notin> fds w \<and> fds w' = insert fd (fds w)" using o by simp_all
  show "fds (snd (ofs_close ofs fd w)) = fds w - {fd}" using assms by (simp add: counted_files_def)
qed

text \<open>Closing the file beside the open port leaves the port's descriptor.\<close>

lemma file_closed:
  assumes "counted_files ofs fds" and "port_open fds (insert fd base) (mc_serial (gs_client g))" and "fd \<notin> base"
    and "on_system (ofs_close ofs fd) g = (x, g')"
  shows "port_open fds base (mc_serial (gs_client g'))"
proof -
  let ?s = "mc_serial (gs_client g)"
  obtain p where p: "ds_port ?s = Some p" "0 \<le> sp_fd p" "sp_fd p \<notin> insert fd base" "fds (ds_os ?s) = insert (sp_fd p) (insert fd base)"
    using assms(2) by (auto simp: port_open_def holds_one_def ds_isOpen_def)
  have "mc_serial (gs_client g') = ?s\<lparr>ds_os := snd (ofs_close ofs fd (ds_os ?s))\<rparr>"
    using assms(4) by (auto simp: on_system_def Let_def case_prod_beta)
  moreover have "insert (sp_fd p) (insert fd base) - {fd} = insert (sp_fd p) base" using p(3) assms(3) by blast
  ultimately show ?thesis
    using p file_calls(3) [OF assms(1), of fd "ds_os ?s"] by (simp add: port_open_def holds_one_def ds_isOpen_def)
qed

lemma exchange_log_clean:
  assumes "counted ps fs fds" and "counted_files ofs fds"
    and "exchange_log_main ps fs ofs recorded csv_good argv w now sched = Some (Exits code out l w')"
  shows "fds w' = fds w"
proof (cases "exchange_log_config argv")
  case (Inr cf)
  obtain config name where cf: "cf = (config, name)" by fastforce
  obtain stream w1 where o: "ofs_open ofs name w = (stream, w1)" by fastforce
  show ?thesis
  proof (cases stream)
    case None
    then show ?thesis using assms(3) Inr cf o file_calls(1) [OF assms(2)] by (auto simp: exchange_log_main_def)
  next
    case (Some fd)
    note opened = file_calls(2) [OF assms(2) o [unfolded Some]]
    have shut: "fds (destroy_ofstream ofs (Some fd) w2) = fds w" if "fds w2 = fds w1" for w2
      using that opened file_calls(3) [OF assms(2), of fd w2] by (simp add: destroy_ofstream_def)
    let ?lk = "client_link (posix_serial ps fs)"
    define body where "body = (\<lambda>g. case exchange_log_moves ?lk ([], g) of
        None \<Rightarrow> None
      | Some (None, l, g1) \<Rightarrow> Some (1 :: nat, [] :: string, l, Some fd, g1)
      | Some (Some moved, l, g1) \<Rightarrow>
          (let (written, g2) = on_system (ofs_close ofs fd) g1;
               (success, l2) = exchange_log_end moved (csv_good \<and> written) name recorded l
           in Some (if success then 0 else 1, [], l2, None, g2)))"
    have ends: "fds (destroy_ofstream ofs x (ds_os (destroyGripper ps fs g'))) = fds w"
      if b: "body g = Some (code, out, l, x, g')" and g: "port_open fds (fds w1) (mc_serial (gs_client g))" for g code out l x g'
    proof -
      obtain moves l1 g1 where m: "exchange_log_moves ?lk ([], g) = Some (moves, l1, g1)"
        using b by (auto simp: body_def split: option.splits)
      note led = exchange_log_leads [OF m]
      show ?thesis
      proof (cases moves)
        case None
        then have "x = Some fd" "g' = g1" using b m by (simp_all add: body_def)
        then show ?thesis using shut led_port [OF assms(1) g led] by simp
      next
        case (Some moved)
        obtain written g2 where c: "on_system (ofs_close ofs fd) g1 = (written, g2)" by fastforce
        have x: "x = None" "g' = g2" using b m Some c by (simp_all add: body_def Let_def split: prod.splits)
        have "port_open fds (fds w) (mc_serial (gs_client g2))"
          using file_closed [OF assms(2) _ _ c] led_open [OF assms(1) g led] opened by simp
        then show ?thesis using x destroyed_clean [OF assms(1)] by (simp add: destroy_ofstream_def)
      qed
    qed
    have run: "with_gripper ps fs config (Some fd) (destroy_ofstream ofs) w1 now sched body = Some (Exits code out l w')"
      using assms(3) Inr cf o Some by (simp add: exchange_log_main_def body_def)
    show ?thesis by (rule with_gripper_clean [OF assms(1) run shut ends])
  qed
qed (use assms(3) in \<open>simp add: exchange_log_main_def\<close>)

lemma quick_start_clean:
  assumes "counted ps fs fds" and "quick_start_main ps fs argv w now sched = Some (Exits code out l w')"
  shows "fds w' = fds w"
proof (cases "length argv < 2")
  case False
  obtain g where r: "connectOrUnwind ps fs (default_connection_config (argv ! 1)) w now sched [] = Some (Inr g)"
    using assms(2) False by (auto simp: quick_start_main_def split: option.splits sum.splits)
  obtain g' where "quick_start_body (client_link (posix_serial ps fs)) g = Some (out, g')" "w' = ds_os (destroyGripper ps fs g')"
    using assms(2) False r by (auto simp: quick_start_main_def split: option.splits)
  then show ?thesis using led_port [OF assms(1) _ quick_start_leads] connect_port [OF assms(1) r] by simp
qed (use assms(2) in \<open>simp add: quick_start_main_def\<close>)

lemma probe_port:
  assumes "counted ps fs fds"
  shows "case probe_connect ps fs o' w now of Inl (e, d) \<Rightarrow> fds (ds_os d) = fds w
    | Inr g \<Rightarrow> port_open fds (fds w) (mc_serial (gs_client g))"
proof -
  let ?s = "makeDefaultSerial ((default_serial_config (the (opt_port o')))\<lparr>sc_baudrate := word_of_int (opt_baudrate o')\<rparr>) [] w"
  have s: "holds_one fds (fds w) ?s" by (simp add: holds_one_def makeDefaultSerial_def)
  show ?thesis
    using client_port [OF counted_calls(1) [OF assms] s, of kDefaultModbusSlaveAddress "[]"] gripper_port [OF assms]
    by (cases "clientOrUnwind ps fs ?s kDefaultModbusSlaveAddress []")
      (fastforce simp: probe_connect_def Let_def split: sum.splits)+
qed

lemma probe_clean:
  assumes "counted ps fs fds" and "exchange_rate_probe_main ps fs sleep clk p argv w now es = Exits code out l w'"
  shows "fds w' = fds w"
proof (cases "opt_port (fst (parseOptions argv)) = None")
  case False
  let ?o = "fst (parseOptions argv)"
  note c = probe_port [OF assms(1), where o' = ?o and w = w and now = now]
  show ?thesis
  proof (cases "probe_connect ps fs ?o w now")
    case (Inl u)
    then show ?thesis using assms(2) False c
      by (cases u; cases "fst u") (auto simp: exchange_rate_probe_main_def Let_def case_prod_beta)
  next
    case (Inr g)
    then have "w' = ds_os (destroyGripper ps fs (snd (fold (stamped_step (client_link (posix_serial ps fs))) es ([], g))))"
      using assms(2) False by (simp add: exchange_rate_probe_main_def Let_def case_prod_beta)
    then show ?thesis using led_port [OF assms(1) _ stamped_leads] c Inr by simp
  qed
qed (use assms(2) in \<open>simp add: exchange_rate_probe_main_def Let_def case_prod_beta\<close>)

section \<open>Properties\<close>

text \<open>Both moves of the program, each carried and settled, from a connected gripper on.\<close>

definition both_moves_done :: "'d link \<Rightarrow> 'd gripper_state \<Rightarrow> bool" where
  "both_moves_done lk g \<longleftrightarrow>
     (\<exists>p1 p2 c1 c2 g0 g1 g2 g3 g4. openingToRegister (maxOpening k2F85) k2F85 = Some (Some p1) \<and>
        openingToRegister (minOpening k2F85) k2F85 = Some (Some p2) \<and> positionRequest c1 = p1 \<and> positionRequest c2 = p2 \<and>
        leads_to lk g g0 \<and> carried_at lk c1 g0 g1 \<and> settled_at lk k2F85 g1 g2 \<and>
        carried_at lk c2 g2 g3 \<and> settled_at lk k2F85 g3 g4)"

lemma move_gripper_done: "move_gripper lk (l, g) = Some (True, l', g') \<Longrightarrow> both_moves_done lk g"
proof -
  assume a: "move_gripper lk (l, g) = Some (True, l', g')"
  obtain l1 g0 where act: "activateOrRecover lk (log_line LevelInfo ''Activating...'' l, g) = Some (True, l1, g0)"
    using a by (auto simp: move_gripper_def split: option.splits if_splits)
  obtain c c' l2 h where "move_twice lk (''Opening...'', maxOpening k2F85) (''Closing...'', minOpening k2F85) (c, l1, g0) =
      Some (True, c', l2, h)"
    using a act by (auto simp: move_gripper_def split: option.splits)
  from move_twice_done [OF this] activateOrRecover_leads [OF act] show ?thesis unfolding both_moves_done_def by blast
qed

text \<open>A success of \<open>move_gripper\<close> means that, on a gripper it connected, both moves were written and seen to settle.\<close>

lemma move_gripper_success:
  assumes "move_gripper_main ps fs argv w now sched = Some (Exits 0 out l w')"
  shows "\<exists>config g. move_config argv = Inr config \<and> connectGripper ps fs config w now sched [] = Some (Inr g) \<and>
    both_moves_done (client_link (posix_serial ps fs)) g"
proof -
  from assms obtain config where config: "move_config argv = Inr config" by (auto simp: move_gripper_main_def split: sum.splits)
  with assms obtain g where g: "connectOrUnwind ps fs config w now sched [] = Some (Inr g)"
    by (auto simp: move_gripper_main_def with_gripper_def connect_or_explain_def split: option.splits sum.splits thrown.splits)
  with assms config obtain l' g' where "move_gripper (client_link (posix_serial ps fs)) ([], g) = Some (True, l', g')"
    by (auto simp: move_gripper_main_def with_gripper_def split: option.splits if_splits)
  with config g move_gripper_done show ?thesis by (metis connected_iff)
qed

text \<open>
  C37 The example programs clean up. Whatever the arguments, the line, the calls of the system and other threads do,
  when one of the four exits, by whichever return and with whatever code, the process has the descriptors it
  started with: the port's is closed, and with \<open>exchange_log\<close> that of its file.
\<close>

theorem programs_clean_up:
  assumes "counted ps fs fds" and "counted_files ofs fds"
    and "Some (Exits code out l w') \<in> {move_gripper_main ps fs argv w now sched, quick_start_main ps fs argv w now sched,
      exchange_log_main ps fs ofs recorded csv_good argv w now sched,
      Some (exchange_rate_probe_main ps fs sleep clk p argv w now es)}"
  shows "fds w' = fds w"
  using assms(3) move_gripper_clean [OF assms(1), of argv w now sched code out l w']
    quick_start_clean [OF assms(1), of argv w now sched code out l w']
    exchange_log_clean [OF assms(1,2), of recorded csv_good argv w now sched code out l w']
    probe_clean [OF assms(1), of sleep clk p argv w now es code out l w'] by auto

lemma supported_hertz:
  assumes "1 \<le> h" and "h \<le> 200"
  shows "\<exists>period. exchangePeriodFromFrequency (Fin h) = Some (Inr period)"
proof -
  obtain m where m: "kMinFrequency = Fin m" "1 / 20 \<le> m" "1 / 10 - 2 / 2 ^ 53 \<le> m" "m \<le> 1"
    by (rule kMinFrequency_obtain)
  have "clampFrequency (Fin h) = Inr (Fin h)"
    using clampFrequency_positive [of "Fin h" m] m assms by (simp add: folded_def)
  then show ?thesis using period_of_supported [of h] assms
    by (simp add: exchangePeriodFromFrequency_def d_eq_def del: d_div.simps lround.simps)
qed

lemma initialRead_clock: "initialRead lk n g = (r, g') \<Longrightarrow> gs_now g' = gs_now g \<and> gs_sched g' = gs_sched g"
proof (induction lk n g rule: initialRead.induct)
  case (1 lk n g)
  obtain x d where x: "lk_readStatus lk (gs_client g) = (x, d)" by fastforce
  note e = 1(2) [unfolded initialRead.simps [of lk n g] x prod.case]
  show ?case
  proof (cases "\<exists>what. x = Inl (StdException what) \<and> \<not> kInitialReadAttempts \<le> n")
    case True
    then obtain what where w: "x = Inl (StdException what)" "\<not> kInitialReadAttempts \<le> n" by blast
    show ?thesis using e w 1(1) [of x d "StdException what" what] x by (simp add: say_def)
  next
    case False
    then show ?thesis using e by (auto split: sum.splits thrown.splits if_splits)
  qed
qed

lemma connected_clock: "connectGripper ps fs config w now [] l = Some (Inr g) \<Longrightarrow> gs_now g = now \<and> gs_sched g = []"
  by (auto simp: connectGripper_def makeGripper_def initializeImage_def makeGripperState_def gs_start_def Let_def
      dest!: initialRead_clock split: option.splits sum.splits prod.splits)

text \<open>
  The first program, on the desk: it connects, moves and exits. And \<open>exchange_log\<close>, where no port can be opened: it
  opens its file, complains of the connection and exits with the file closed.
\<close>

definition desk_files :: "(int list \<times> fake_server) ofstreams" where
  "desk_files = \<lparr>ofs_open = (\<lambda>name (fds, g). (Some (fresh fds), fresh fds # fds, g)),
     ofs_close = (\<lambda>fd (fds, g). (True, filter (\<lambda>x. x \<noteq> fd) fds, g))\<rparr>"

definition zero_recorder :: "unit recorder" where
  "zero_recorder = \<lparr>rc_csv = (), rc_log = [], rc_writeFailed = False, rc_rows = 0, rc_skipped = 0\<rparr>"

definition portless_desk :: "other_codes \<Rightarrow> (int list \<times> fake_server) posix" where
  "portless_desk other = (desk_system other)\<lparr>sys_open := \<lambda>port flags w. (Inl EIO, w)\<rparr>"

lemma desk_files_counted: "counted_files desk_files (\<lambda>w. set (fst w))"
  using fresh_new by (auto simp: counted_files_def desk_files_def split: prod.split)

lemma portless_counted: "counted (portless_desk other) no_files (\<lambda>w. set (fst w))"
proof -
  have "tracks (portless_desk other) no_files (\<lambda>w. set (fst w))"
    by (auto simp: tracks_def unchanged_by_io_def unchanged_def portless_desk_def desk_system_def no_files_def split: prod.split)
  moreover have "finitely_interrupted (portless_desk other) (\<lambda>w. 0)"
    by (simp add: finitely_interrupted_def portless_desk_def desk_system_def split: prod.split)
  moreover have "finitely_stalled (portless_desk other) (\<lambda>w. 0)"
    by (auto simp: finitely_stalled_def portless_desk_def desk_system_def split: prod.split)
  ultimately show ?thesis unfolding counted_def by blast
qed

lemma portless_log:
  "\<exists>out l w'. exchange_log_main (portless_desk other) no_files desk_files recorded csv_good [''exchange_log'', ''/dev/ttyUSB0'']
     ([0, 1, 2], d) 0 [] = Some (Exits 1 out l w')"
proof -
  let ?config = "(default_connection_config ''/dev/ttyUSB0'')\<lparr>connectionFrequency := kExchangeRate\<rparr>"
  obtain period where period: "exchangePeriodFromFrequency kExchangeRate = Some (Inr period)"
    using supported_hertz [of 200] by (auto simp: kExchangeRate_def)
  have "\<exists>what d'. connectOrUnwind (portless_desk other) no_files ?config w 0 [] [] = Some (Inl (StdException what, d'))" for w
    using period by (simp add: connectOrUnwind_def clientOrUnwind_def makeModbusClient_def makeSerial_def makeDefaultSerial_def
        posix_serial_def ds_isOpen_def ds_open_def sp_open_def portless_desk_def default_connection_config_def
        default_serial_config_def new_serial_port_def baudConstant_def fail_def serial_io_exception_def Let_def)
  then obtain what d' where "connectOrUnwind (portless_desk other) no_files ?config (fresh [0, 1, 2] # [0, 1, 2], d) 0 [] [] =
      Some (Inl (StdException what, d'))" by blast
  then show ?thesis
    by (simp add: exchange_log_main_def exchange_log_config_def desk_files_def with_gripper_def connect_or_explain_def)
qed

theorem programs_clean_up_witness:
  "\<exists>d out w'. quick_start_main (desk_system (\<lambda>_. nm_return ())) no_files [''quick_start'', ''/dev/ttyUSB0''] ([0, 1, 2], d) 0 [] =
       Some (Exits 0 out [] w') \<and> set (fst w') = {0, 1, 2} \<and>
     (\<exists>out l w'. exchange_log_main (portless_desk (\<lambda>_. nm_return ())) no_files desk_files zero_recorder True
       [''exchange_log'', ''/dev/ttyUSB0''] ([0, 1, 2], d) 0 [] = Some (Exits 1 out l w') \<and> set (fst w') = {0, 1, 2})"
proof -
  let ?ps = "desk_system (\<lambda>_. nm_return ())" and ?argv = "[''quick_start'', ''/dev/ttyUSB0'']"
  let ?config = "default_connection_config ''/dev/ttyUSB0''" and ?lk = "client_link (posix_serial (desk_system (\<lambda>_. nm_return ())) no_files)"
  obtain d where d: "idle_server 9 d" "rm_wf (fk_model (fs_link d))" using some_device by blast
  obtain period where period: "exchangePeriodFromFrequency (connectionFrequency ?config) = Some (Inr period)"
    using supported_hertz [of 100] by (auto simp: default_connection_config_def)
  have ok: "config_ok ?config" "modbusSlaveAddress ?config = 9"
    by (simp_all add: config_ok_def default_connection_config_def default_serial_config_def baudConstant_def kDefaultModbusSlaveAddress_def)
  obtain g where g: "connectGripper ?ps no_files ?config ([0, 1, 2], d) 0 [] [] = Some (Inr g)"
    using line_connects [OF desk_line ok(1) period, of "([0, 1, 2], d)" "\<lambda>_. nm_return ()" 0 "[]" "[]"] d ok(2) by auto
  have "steady_add (gs_now (others ?lk g)) kActivationTimeoutMs \<noteq> None"
    using connected_clock [OF g] by (simp add: steady_add_def kActivationTimeoutMs_def kSteadyMax_def)
  then have "activate ?lk kActivationTimeoutMs g \<noteq> None" by (auto simp: activate_def clock_def Let_def)
  then obtain out g' where "quick_start_body ?lk g = Some (out, g')" by (fastforce simp: quick_start_body_def Let_def split: prod.split)
  then have m: "quick_start_main ?ps no_files ?argv ([0, 1, 2], d) 0 [] = Some (Exits 0 out [] (ds_os (destroyGripper ?ps no_files g')))"
    using g by (simp add: quick_start_main_def connected_iff)
  then have first: "set (fst (ds_os (destroyGripper ?ps no_files g'))) = {0, 1, 2}"
    using programs_clean_up [OF desk_counted desk_files_counted, of 0 out "[]" "ds_os (destroyGripper ?ps no_files g')" "\<lambda>_. nm_return ()" ?argv
        "([0, 1, 2], d)" 0 "[]"] by simp
  obtain out2 l2 w2 where e: "exchange_log_main (portless_desk (\<lambda>_. nm_return ())) no_files desk_files zero_recorder True
      [''exchange_log'', ''/dev/ttyUSB0''] ([0, 1, 2], d) 0 [] = Some (Exits 1 out2 l2 w2)" using portless_log by blast
  with programs_clean_up [OF portless_counted desk_files_counted, of 1 out2 l2 w2 "\<lambda>_. nm_return ()"
      "[''exchange_log'', ''/dev/ttyUSB0'']" "([0, 1, 2], d)" 0 "[]" zero_recorder True] have "set (fst w2) = {0, 1, 2}" by simp
  with e m first show ?thesis by blast
qed

end
