(* ===== verification/Polling.thy ===== *)
theory Polling
  imports Prelude
begin

text \<open>
  The deprecated waits of \<open>gripper/wait.hpp\<close>, which poll a predicate of the caller's between sleeps of a platform.
  The predicate, the clock and the sleep are functions on a state \<open>'w\<close>; durations are milliseconds, times nanoseconds.
  The loop may run forever, so it is a partial function.
\<close>

section \<open>The loop\<close>

partial_function (option) pollUntil ::
    "('w \<Rightarrow> bool \<times> 'w) \<Rightarrow> ('w \<Rightarrow> int) \<Rightarrow> (int \<Rightarrow> 'w \<Rightarrow> 'w) \<Rightarrow> int \<Rightarrow> int \<Rightarrow> 'w \<Rightarrow> (bool \<times> 'w) option" where
  "pollUntil predicate now sleepFor deadline pollPeriod w =
     (case predicate w of
        (holds, w1) \<Rightarrow>
          if holds then Some (True, w1)
          else if deadline \<le> now w1 then Some (False, w1)
          else pollUntil predicate now sleepFor deadline pollPeriod (sleepFor pollPeriod w1))"

definition poll_waitUntil ::
    "('w \<Rightarrow> bool \<times> 'w) \<Rightarrow> ('w \<Rightarrow> int) \<Rightarrow> (int \<Rightarrow> 'w \<Rightarrow> 'w) \<Rightarrow> int \<Rightarrow> int \<Rightarrow> 'w \<Rightarrow> (bool \<times> 'w) option" where
  "poll_waitUntil predicate now sleepFor deadline pollPeriod w = pollUntil predicate now sleepFor deadline pollPeriod w"

definition poll_waitFor ::
    "('w \<Rightarrow> bool \<times> 'w) \<Rightarrow> ('w \<Rightarrow> int) \<Rightarrow> (int \<Rightarrow> 'w \<Rightarrow> 'w) \<Rightarrow> int \<Rightarrow> int \<Rightarrow> 'w \<Rightarrow> (bool \<times> 'w) option" where
  "poll_waitFor predicate now sleepFor timeout pollPeriod w =
     pollUntil predicate now sleepFor (now w + timeout * 10 ^ 6) pollPeriod w"

section \<open>Its end\<close>

text \<open>
  A sleep lasts at least as long as it was asked to, and the predicate does not turn back the clock. Then the loop ends when the
  period is positive: the answer true is one of the predicate's, and the answer false comes at the deadline or later, with the
  predicate false once more.
\<close>

definition sleeps_long_enough :: "('w \<Rightarrow> bool \<times> 'w) \<Rightarrow> ('w \<Rightarrow> int) \<Rightarrow> (int \<Rightarrow> 'w \<Rightarrow> 'w) \<Rightarrow> bool" where
  "sleeps_long_enough predicate now sleepFor \<longleftrightarrow>
     (\<forall>w. now w \<le> now (snd (predicate w))) \<and> (\<forall>d w. now w + d * 10 ^ 6 \<le> now (sleepFor d w))"

lemma pollUntil_returns:
  assumes "sleeps_long_enough predicate now sleepFor" and "0 < pollPeriod"
  shows "\<exists>r w'. pollUntil predicate now sleepFor deadline pollPeriod w = Some (r, w') \<and>
    (\<exists>u. predicate u = (r, w')) \<and> (\<not> r \<longrightarrow> deadline \<le> now w') \<and> now w \<le> now w'"
proof (induction "nat (deadline - now w)" arbitrary: w rule: less_induct)
  case less
  obtain holds w1 where p: "predicate w = (holds, w1)" by fastforce
  have later: "now w \<le> now w1" using assms(1) p by (metis sleeps_long_enough_def snd_conv)
  show ?case
  proof (cases "holds \<or> deadline \<le> now w1")
    case True
    then have "pollUntil predicate now sleepFor deadline pollPeriod w = Some (holds, w1)"
      using p True by (auto simp: pollUntil.simps [of predicate now sleepFor deadline pollPeriod w])
    then show ?thesis using p True later by blast
  next
    case False
    let ?w = "sleepFor pollPeriod w1"
    have s: "now w1 + pollPeriod * 10 ^ 6 \<le> now ?w" using assms(1) by (simp add: sleeps_long_enough_def)
    then have "nat (deadline - now ?w) < nat (deadline - now w)" using False later assms(2) by (simp add: nat_less_iff)
    from less [OF this] obtain r w' where r: "pollUntil predicate now sleepFor deadline pollPeriod ?w = Some (r, w')"
      "\<exists>u. predicate u = (r, w')" "\<not> r \<longrightarrow> deadline \<le> now w'" "now ?w \<le> now w'" by blast
    have "pollUntil predicate now sleepFor deadline pollPeriod w = Some (r, w')"
      using p False r(1) by (simp add: pollUntil.simps [of predicate now sleepFor deadline pollPeriod w])
    then show ?thesis using r(2,3,4) s later assms(2) by (intro exI [of _ r] exI [of _ w']) auto
  qed
qed

lemma poll_waitFor_returns:
  assumes "sleeps_long_enough predicate now sleepFor" and "0 < pollPeriod"
  shows "\<exists>r w'. poll_waitFor predicate now sleepFor timeout pollPeriod w = Some (r, w') \<and>
    (\<exists>u. predicate u = (r, w')) \<and> (\<not> r \<longrightarrow> now w + timeout * 10 ^ 6 \<le> now w')"
  using pollUntil_returns [OF assms] unfolding poll_waitFor_def by blast

end
