(* ===== verification/Spec2Isabelle.thy ===== *)
theory Spec2Isabelle
  imports CircularBuffer DisplayProgram Connection CycleProgress PosixReads Units ToString KernelObjects Win32Serial Mains Polling
begin

text \<open>
  A model of the C++ of this repository and the theorems that make it correct. The repository holds two
  independent SDKs: the tactile sensors' (\<open>tsf/sdk_cpp\<close>), which turns a USB byte stream into sensor data,
  and the grippers' (\<open>grippers/sdk_cpp\<close>), which keeps an image of a Modbus gripper up to date in a thread of
  its own. File names below are relative to \<open>src/\<close> and, for the grippers, to \<open>src/grippers/sdk_cpp/\<close>.
  The definitions follow the code's names; a member function's state is an argument that is returned updated.

  THE TACTILE SENSORS

  \<^item> \<open>CircularBuffer\<close>: the ring buffer of \<open>tsf/sdk_cpp/circular_buffer.h\<close>, each operation one step under
    its mutex. It refines the list of the newest elements.
  \<^item> \<open>UsbProtocol\<close>: the packets, their writer and the byte-at-a-time reader with its resynchronisation
    (\<open>RobotiqTactileSensor.cpp\<close>). Every frame of a stream with bytes other than the start byte around the frames is delivered once and in order, nothing is
    indexed outside the packet, and what is sent is received.
  \<^item> \<open>SensorParse\<close>: the payload parser; it implements the grammar of sensor records.
  \<^item> \<open>TactileSensor\<close>: the driver, its read thread and the caller's calls as one step function on a
    record of its members, with the composition of the three theories above from bytes to callbacks, and the
    invariants that give the firmware version, the baseline and the end of the thread.
  \<^item> \<open>SensorLifetime\<close>: the two ends of a sensor object as the owner of a port. Its destructor leaves no
    thread, no port object and no device that streams.
  \<^item> \<open>QuickStart\<close>: the terminal display (\<open>tsf/sdk_cpp/Quick_start.cpp\<close>), its callback, its screen and its texts. A
    screen can be read back; the throttle bounds the display's rate and its age. \<open>DisplayProgram\<close>: the program as a
    process, \<open>main\<close> interleaved with the read thread, its callbacks and the signals. Each screen of a run is the
    pressure of a callback over the mean of the baseline's samples; a signal ends the program, within 506 turns of
    \<open>main\<close> (500 polls and the calls around them), and the sensor is cleaned up.

  THE GRIPPERS, FROM THE WIRE UP

  \<^item> \<open>GripperBlocks\<close>: the two 16-byte blocks, their packed fields, the fault classes and the register
    packing (\<open>gripper/command.hpp\<close>, \<open>status.hpp\<close>, \<open>fault_status.hpp\<close>, \<open>detail/*.hpp\<close>). Fields of a
    packed byte are the locales \<open>packed_field\<close> and \<open>disjoint_fields\<close>.
  \<^item> \<open>RegisterModel\<close>: the simulated gripper's registers and its reaction to a command.
  \<^item> \<open>Nanomodbus\<close>, \<open>ModbusFrames\<close>: the vendored Modbus library as far as the SDK calls it (function codes
    3, 16 and 23 over RTU, client and server), in a state and error monad over the platform's callbacks, and
    the framing lemmas: what one side sends is what the other takes, and a client only accepts a response of
    the right address, code, length and checksum.
  \<^item> \<open>Transport\<close>: \<open>Serial\<close>, \<open>Logger\<close> and the exceptions. A \<open>Serial\<close> is a record of functions on its state.
  \<^item> \<open>ModbusClient\<close>: \<open>GripperModbusClient\<close> over any \<open>Serial\<close>. \<open>FakeGripper\<close>: the simulated gripper's
    server and the \<open>Serial\<close> to it, and both ends together for any port with that server at its end (the locale
    \<open>device_port\<close>). \<open>FakeSession\<close>: the whole stack refines the register model used directly.
  \<^item> \<open>ProcessImage\<close>, \<open>GripperState\<close>, \<open>ExchangeCycle\<close>, \<open>CycleProgress\<close>, \<open>ClientCycle\<close>: the image and the
    exchange thread as a machine with a program counter, interleaved with any other thread; its invariants
    (the connection state against the failures in a row, the image against the exchanges counted), its rate,
    its progress and its end.
  \<^item> \<open>Gripper\<close>, \<open>GripperWaits\<close>: the public class and the waits and activation procedures over it. What other
    threads do during a call is a schedule: a list of event lists, one used up at each access to the shared
    state. The waits are total functions of the schedule, so that they end is part of their definition.
    \<open>GripperCalls\<close>: a program's use of a gripper as a list of calls. What the thread and the setting of commands
    keep is kept by all calls, and links that answer alike give all calls the same values (\<open>link_sim\<close>).
    \<open>PortFacts\<close>: the same one and two layers down, for the Modbus library over its callbacks (\<open>platform_sim\<close>)
    and the client over a \<open>Serial\<close> (\<open>port_sim\<close>), with the facts about one port as its case \<open>port_fact\<close>.
  \<^item> \<open>Frequency\<close>, \<open>Doubles\<close>, \<open>Units\<close>: the conversions between registers and physical units on binary64
    values, rounded exactly. \<open>ToString\<close>: the renderings of the blocks, which can be read back.
  \<^item> \<open>PosixSerial\<close>, \<open>PosixReads\<close>, \<open>DefaultSerial\<close>, \<open>PosixWrites\<close>: the POSIX serial port over its system calls, which are
    a record of functions on the state of the system, and the built-in \<open>Serial\<close>. Loops that wait for the
    system are partial functions; that they end is a theorem under a contract of the system (\<open>finitely_interrupted\<close>
    and \<open>finitely_stalled\<close>: the interruptions and refusals still to come are finitely many).
  \<^item> \<open>Win32Serial\<close>: the port on Windows (\<open>src/detail/win32/serial_port.cpp\<close>), with the time-outs it remembers.
  \<^item> \<open>Connection\<close>: the factories, from a configuration to a running gripper, real or simulated.
    \<open>GripperLifetime\<close>: the same with what a failed constructor unwinds, and the destructor. Whatever a program does
    with a gripper, the process is left with the descriptors it had, on a system that counts them (\<open>counted\<close>).
    \<open>DeviceLine\<close>: the whole stack on a POSIX line with the simulated server at its other end (\<open>device_line\<close>); a
    program that uses it gets from every call what it would get from the register model.
  \<^item> \<open>StdPlatform\<close>, \<open>ThreadX\<close>: the two platforms the runtime rests on, their condition variables under the
    process image at the grain of single accesses, their sleeps and the tick arithmetic. The image's other
    theories take a wait as one step that ends when its condition holds or its time is up; here is how far
    the two condition variables keep that promise, and the interleavings in which they do not.
    \<open>KernelObjects\<close>: the mutex, the semaphore and the task of a gripper on ThreadX, from its constructors with what
    a failure unwinds to its destructor; all are given back to a kernel that counts them (\<open>kernel_objects\<close>).
  \<^item> \<open>GripperEvents\<close>: the helpers of the examples, which compose the parts above. \<open>ExchangeLog\<close>: the recorder
    thread of \<open>examples/exchange_log.cpp\<close>; its rows account for every exchange and can be read back.
  \<^item> \<open>Snippets\<close>: the fragments of the manual (\<open>examples/snippets.cpp\<close>) and its first program, among them why an
    autorelease has to be waited for. \<open>CommandLine\<close>: the scanners of numbers of the standard library and the arguments
    of the example programs. \<open>Programs\<close>: these programs before and after they are connected, with the probe of the
    exchange rate and its statistics. \<open>Mains\<close>: \<open>main\<close> of each of them, from the arguments over the connection to
    the exit code, with the destructors that run on the way out. \<open>Polling\<close>: the deprecated waits of \<open>gripper/wait.hpp\<close>.

  CONVENTIONS

  Bytes and registers are words of their width; counters of 64 bits that count events are natural numbers
  and do not reach their width; the 32-bit failure counter is a word. Times are integers of nanoseconds (or
  of the unit the name says), and where a sum of times can leave 64 bits the definition says so. An exception
  is the left side of a sum with its text; undefined behaviour that an input can reach is \<open>None\<close>. Parts that
  are not in the repository (the serial library of the sensors, the operating system, the ThreadX kernel, the
  other function codes of the Modbus library) are arguments, with what the code relies on as named hypotheses,
  each with a witness that has a concrete instance of it.

  NOT MODELLED

  The Python tools and the web viewer, the build files and the tests. The stub and the link test of the ThreadX port:
  declarations that stand for the kernel's header, and a program that is linked and never run. The rest of the vendored
  Modbus library (TCP, the other function codes), which the SDK does not call: the server's handlers of those codes are
  an argument. In the mains, \<open>std::ofstream\<close> is an argument whose
  descriptors are counted (\<open>counted_files\<close>), the recorder's result is an argument of \<open>exchange_log_main\<close>, since the machine of
  \<open>ExchangeLog\<close> interleaves it with the rest; a program that ends in \<open>std::terminate\<close> has no state after it. The data
  races that the image's mutex excludes are not behaviours of the model: an access under it is one step, except in
  \<open>StdPlatform\<close> and \<open>ThreadX\<close>. What is left of the files above after these theories are declarations, forwarding
  overloads, deleted copies, static assertions and comments, which have no behaviour of their own.
\<close>

end
